(* ===== verification/Harnx_Prelude.thy ===== *)
theory Harnx_Prelude
  imports Main "HOL-Library.Sublist" "HOL-Library.Word" "HOL-Library.Char_ord"
    "HOL-Library.List_Lexorder"
begin

text \<open>
  Shared vocabulary of the development: the Rust standard-library operations the
  modelled code calls (iterator searches, slices, UTF-8 strings, saturating
  arithmetic) as executable list functions with the laws the component theories
  use, and the two interfaces every log reader of the program has: a replay that
  folds a step over a log, and a cut that keeps what follows the last boundary.

  A Rust \<open>String\<close> is its UTF-8 byte sequence, a HOL \<open>string\<close>; \<open>utf8_chars\<close> groups
  the bytes into Unicode scalar values where the code iterates over \<open>chars()\<close>.
\<close>

section \<open>Types and collections of rules\<close>

type_synonym seq = nat \<comment> \<open>a log sequence number: \<open>u64\<close> or \<open>usize\<close>, never used in arithmetic\<close>
type_synonym instant = int \<comment> \<open>\<open>DateTime<Utc>\<close> as nanoseconds from the epoch\<close>
type_synonym duration = int \<comment> \<open>\<open>TimeDelta\<close> in nanoseconds\<close>
type_synonym u32 = "32 word"
type_synonym u64 = "64 word"

named_theorems rust_std \<open>characterisations of the standard-library operations\<close>
named_theorems log_simps \<open>unfolding rules of the session log classifiers\<close>

section \<open>Iterator searches\<close>

primrec position :: "('a \<Rightarrow> bool) \<Rightarrow> 'a list \<Rightarrow> nat option" where
  "position P [] = None"
| "position P (x # xs) = (if P x then Some 0 else map_option Suc (position P xs))"

primrec rposition :: "('a \<Rightarrow> bool) \<Rightarrow> 'a list \<Rightarrow> nat option" where
  "rposition P [] = None"
| "rposition P (x # xs) =
     (case rposition P xs of
        Some i \<Rightarrow> Some (Suc i)
      | None \<Rightarrow> if P x then Some 0 else None)"

primrec find_map :: "('a \<Rightarrow> 'b option) \<Rightarrow> 'a list \<Rightarrow> 'b option" where
  "find_map f [] = None"
| "find_map f (x # xs) = (case f x of Some y \<Rightarrow> Some y | None \<Rightarrow> find_map f xs)"

definition filter_map :: "('a \<Rightarrow> 'b option) \<Rightarrow> 'a list \<Rightarrow> 'b list" where
  "filter_map f xs = List.map_filter f xs"

text \<open>\<open>iter.map(f).collect::<Result<Vec<_>, _>>()\<close>: the first error, or all values.\<close>

fun try_collect :: "('a \<Rightarrow> 'e + 'b) \<Rightarrow> 'a list \<Rightarrow> 'e + 'b list" where
  "try_collect f [] = Inr []"
| "try_collect f (x # xs) =
     (case f x of
        Inl e \<Rightarrow> Inl e
      | Inr y \<Rightarrow> (case try_collect f xs of Inl e \<Rightarrow> Inl e | Inr ys \<Rightarrow> Inr (y # ys)))"

text \<open>\<open>Vec::splice(start..=end, repl)\<close>, with the removed items dropped.\<close>

definition vec_splice :: "nat \<Rightarrow> nat \<Rightarrow> 'a list \<Rightarrow> 'a list \<Rightarrow> 'a list" where
  "vec_splice i j repl xs = take i xs @ repl @ drop (Suc j) xs"

lemma position_None_iff [rust_std]: "position P xs = None \<longleftrightarrow> (\<forall>x \<in> set xs. \<not> P x)"
  by (induction xs) auto

lemma rposition_None_iff [rust_std]: "rposition P xs = None \<longleftrightarrow> (\<forall>x \<in> set xs. \<not> P x)"
  by (induction xs) (auto split: option.splits)

lemma position_SomeD:
  "position P xs = Some i \<Longrightarrow> i < length xs \<and> P (xs ! i) \<and> (\<forall>j < i. \<not> P (xs ! j))"
proof (induction xs arbitrary: i)
  case (Cons x xs)
  show ?case
  proof (cases "P x")
    case False
    with Cons.prems obtain k where k: "position P xs = Some k" "i = Suc k" by auto
    from Cons.IH [OF k(1)] False k(2) show ?thesis
      by (auto simp: less_Suc_eq_0_disj)
  qed (use Cons.prems in auto)
qed simp

lemma rposition_SomeD:
  "rposition P xs = Some i \<Longrightarrow>
     i < length xs \<and> P (xs ! i) \<and> (\<forall>j. i < j \<and> j < length xs \<longrightarrow> \<not> P (xs ! j))"
proof (induction xs arbitrary: i)
  case (Cons x xs)
  show ?case
  proof (cases "rposition P xs")
    case None
    then have "\<forall>y \<in> set xs. \<not> P y" by (simp add: rposition_None_iff)
    with Cons.prems None show ?thesis
      by (auto simp: nth_Cons split: if_splits nat.splits)
  next
    case (Some k)
    with Cons.prems have "i = Suc k" by simp
    with Cons.IH [OF Some] show ?thesis by (auto simp: nth_Cons split: nat.splits)
  qed
qed simp

lemma rposition_append:
  "rposition P (xs @ ys) =
     (case rposition P ys of Some i \<Rightarrow> Some (length xs + i) | None \<Rightarrow> rposition P xs)"
  by (induction xs) (auto split: option.splits)

lemma rposition_rev_find:
  "find P (rev xs) = map_option (\<lambda>i. xs ! i) (rposition P xs)"
proof (induction xs rule: rev_induct)
  case (snoc x xs)
  show ?case
  proof (cases "P x")
    case False
    with snoc show ?thesis
      by (cases "rposition P xs") (auto simp: rposition_append nth_append dest: rposition_SomeD)
  qed (simp add: rposition_append)
qed simp

lemma find_map_append:
  "find_map f (xs @ ys) =
     (case find_map f xs of Some y \<Rightarrow> Some y | None \<Rightarrow> find_map f ys)"
  by (induction xs) (auto split: option.splits)

lemma find_map_None_iff [rust_std]: "find_map f xs = None \<longleftrightarrow> (\<forall>x \<in> set xs. f x = None)"
  by (induction xs) (auto split: option.splits)

lemma find_map_SomeD:
  "find_map f xs = Some y \<Longrightarrow>
     \<exists>us x vs. xs = us @ x # vs \<and> f x = Some y \<and> (\<forall>u \<in> set us. f u = None)"
proof (induction xs)
  case (Cons a xs)
  show ?case
  proof (cases "f a")
    case None
    with Cons obtain us x vs where
      "xs = us @ x # vs" "f x = Some y" "\<forall>u \<in> set us. f u = None" by auto
    with None have "a # xs = (a # us) @ x # vs \<and> f x = Some y \<and> (\<forall>u \<in> set (a # us). f u = None)"
      by simp
    then show ?thesis by blast
  next
    case (Some b)
    with Cons.prems have "a # xs = [] @ a # xs \<and> f a = Some y \<and> (\<forall>u \<in> set []. f u = None)"
      by simp
    then show ?thesis by blast
  qed
qed simp

lemma find_SomeD:
  "find P xs = Some x \<Longrightarrow> \<exists>us vs. xs = us @ x # vs \<and> P x \<and> (\<forall>u \<in> set us. \<not> P u)"
proof (induction xs)
  case (Cons a xs)
  show ?case
  proof (cases "P a")
    case True
    with Cons.prems have "a # xs = [] @ x # xs \<and> P x \<and> (\<forall>u \<in> set []. \<not> P u)" by simp
    then show ?thesis by blast
  next
    case False
    with Cons obtain us vs where "xs = us @ x # vs" "P x" "\<forall>u \<in> set us. \<not> P u" by auto
    with False have "a # xs = (a # us) @ x # vs \<and> P x \<and> (\<forall>u \<in> set (a # us). \<not> P u)" by simp
    then show ?thesis by blast
  qed
qed simp

lemma set_filter_map [simp]: "set (filter_map f xs) = {y. \<exists>x \<in> set xs. f x = Some y}"
  by (force simp: filter_map_def List.map_filter_def)

lemma filter_map_simps [simp]:
  "filter_map f [] = []"
  "filter_map f (x # xs) = (case f x of None \<Rightarrow> filter_map f xs | Some y \<Rightarrow> y # filter_map f xs)"
  by (auto simp: filter_map_def List.map_filter_def split: option.splits)

lemma filter_map_append [simp]: "filter_map f (xs @ ys) = filter_map f xs @ filter_map f ys"
  by (simp add: filter_map_def List.map_filter_def)

lemma filter_map_snoc_None [simp]: "f x = None \<Longrightarrow> filter_map f (xs @ [x]) = filter_map f xs"
  by simp

lemma try_collect_Inr [simp]: "(\<And>x. x \<in> set xs \<Longrightarrow> f x = Inr (g x)) \<Longrightarrow> try_collect f xs = Inr (map g xs)"
  by (induction xs) auto

lemma try_collect_Inl_iff:
  "(\<exists>e. try_collect f xs = Inl e) \<longleftrightarrow> (\<exists>x \<in> set xs. \<exists>e. f x = Inl e)"
  by (induction xs) (auto split: sum.splits)

lemma set_vec_splice_subset: "set (vec_splice i j repl xs) \<subseteq> set repl \<union> set xs"
  by (auto simp: vec_splice_def dest: in_set_takeD in_set_dropD)

section \<open>Strings\<close>

definition starts_with :: "'a list \<Rightarrow> 'a list \<Rightarrow> bool" where
  "starts_with s p = prefix p s"

definition ends_with :: "'a list \<Rightarrow> 'a list \<Rightarrow> bool" where
  "ends_with s p = suffix p s"

definition strip_prefix_str :: "'a list \<Rightarrow> 'a list \<Rightarrow> 'a list option" where
  "strip_prefix_str s p = (if starts_with s p then Some (drop (length p) s) else None)"

definition strip_suffix_str :: "'a list \<Rightarrow> 'a list \<Rightarrow> 'a list option" where
  "strip_suffix_str s p =
     (if ends_with s p then Some (take (length s - length p) s) else None)"

text \<open>\<open>str::find\<close> and \<open>str::rfind\<close>: byte offset of the first and of the last match.\<close>

primrec str_find :: "'a list \<Rightarrow> 'a list \<Rightarrow> nat option" where
  "str_find [] n = (if n = [] then Some 0 else None)"
| "str_find (c # s) n = (if prefix n (c # s) then Some 0 else map_option Suc (str_find s n))"

primrec str_rfind :: "'a list \<Rightarrow> 'a list \<Rightarrow> nat option" where
  "str_rfind [] n = (if n = [] then Some 0 else None)"
| "str_rfind (c # s) n =
     (case str_rfind s n of
        Some i \<Rightarrow> Some (Suc i)
      | None \<Rightarrow> if prefix n (c # s) then Some 0 else None)"

definition split_once :: "'a list \<Rightarrow> 'a list \<Rightarrow> ('a list \<times> 'a list) option" where
  "split_once s n =
     map_option (\<lambda>i. (take i s, drop (i + length n) s)) (str_find s n)"

fun str_join :: "'a list \<Rightarrow> 'a list list \<Rightarrow> 'a list" where
  "str_join sep [] = []"
| "str_join sep [s] = s"
| "str_join sep (s # t # ts) = s @ sep @ str_join sep (t # ts)"

text \<open>\<open>Display\<close> of an unsigned integer.\<close>

fun show_nat :: "nat \<Rightarrow> string" where
  "show_nat n =
     (if n < 10 then [char_of (48 + n)] else show_nat (n div 10) @ [char_of (48 + n mod 10)])"

declare show_nat.simps [simp del]

text \<open>
  \<open>str::chars\<close>: a byte in \<open>0x80..=0xBF\<close> continues the scalar value the bytes before
  it began, every other byte begins one.
\<close>

definition utf8_continuation :: "char \<Rightarrow> bool" where
  "utf8_continuation c \<longleftrightarrow> 128 \<le> (of_char c :: nat) \<and> (of_char c :: nat) < 192"

fun utf8_chars :: "string \<Rightarrow> string list" where
  "utf8_chars [] = []"
| "utf8_chars (c # s) =
     (case utf8_chars s of
        [] \<Rightarrow> [[c]]
      | g # gs \<Rightarrow> if utf8_continuation (hd g) then (c # g) # gs else [c] # g # gs)"

abbreviation newline :: string where
  "newline \<equiv> [CHR 0x0A]"

text \<open>\<open>char::is_whitespace\<close> (Unicode \<open>White_Space\<close>) on a scalar value's bytes, and \<open>str::trim\<close>.\<close>

definition is_whitespace :: "string \<Rightarrow> bool" where
  "is_whitespace g =
     (case map of_char g :: nat list of
        [a] \<Rightarrow> (9 \<le> a \<and> a \<le> 13) \<or> a = 32
      | [a, b] \<Rightarrow> a = 0xC2 \<and> (b = 0x85 \<or> b = 0xA0)
      | [a, b, c] \<Rightarrow>
          (a = 0xE1 \<and> b = 0x9A \<and> c = 0x80)
          \<or> (a = 0xE2 \<and> b = 0x80 \<and> (0x80 \<le> c \<and> c \<le> 0x8A \<or> c = 0xA8 \<or> c = 0xA9 \<or> c = 0xAF))
          \<or> (a = 0xE2 \<and> b = 0x81 \<and> c = 0x9F)
          \<or> (a = 0xE3 \<and> b = 0x80 \<and> c = 0x80)
      | _ \<Rightarrow> False)"

definition str_trim :: "string \<Rightarrow> string" where
  "str_trim s =
     concat (rev (dropWhile is_whitespace (rev (dropWhile is_whitespace (utf8_chars s)))))"

lemma str_find_None_iff [rust_std]:
  "str_find s n = None \<longleftrightarrow> (\<forall>i \<le> length s. \<not> prefix n (drop i s))"
proof (induction s)
  case (Cons c s)
  have "(\<forall>i \<le> length (c # s). \<not> prefix n (drop i (c # s))) \<longleftrightarrow>
        \<not> prefix n (c # s) \<and> (\<forall>i \<le> length s. \<not> prefix n (drop i s))"
    by (simp add: All_less_Suc2 flip: less_Suc_eq_le)
  with Cons show ?case by auto
qed auto

lemma str_find_SomeD:
  "str_find s n = Some i \<Longrightarrow>
     i \<le> length s \<and> prefix n (drop i s) \<and> (\<forall>j < i. \<not> prefix n (drop j s))"
proof (induction s arbitrary: i)
  case (Cons c s)
  show ?case
  proof (cases "prefix n (c # s)")
    case False
    with Cons.prems obtain k where "str_find s n = Some k" "i = Suc k" by auto
    with Cons.IH False show ?thesis by (auto simp: less_Suc_eq_0_disj)
  qed (use Cons.prems in auto)
qed (auto split: if_splits)

lemma str_rfind_SomeD:
  "str_rfind s n = Some i \<Longrightarrow> i \<le> length s \<and> prefix n (drop i s)"
proof (induction s arbitrary: i)
  case (Cons c s)
  show ?case
  proof (cases "str_rfind s n")
    case (Some k)
    with Cons.prems Cons.IH [OF Some] show ?thesis by auto
  qed (use Cons.prems in \<open>auto split: if_splits\<close>)
qed (auto split: if_splits)

lemma str_rfind_append_last:
  assumes "prefix n s" and "\<And>j. 0 < j \<Longrightarrow> j \<le> length s \<Longrightarrow> \<not> prefix n (drop j s)"
  shows "str_rfind (t @ s) n = Some (length t)"
proof (induction t)
  case Nil
  show ?case
  proof (cases s)
    case Nil
    with assms(1) show ?thesis by simp
  next
    case (Cons c u)
    have "str_rfind u n = None"
    proof (rule ccontr)
      assume "str_rfind u n \<noteq> None"
      then obtain i where "str_rfind u n = Some i" by auto
      then have "i \<le> length u" "prefix n (drop i u)" by (auto dest: str_rfind_SomeD)
      with assms(2) [of "Suc i"] Cons show False by simp
    qed
    with assms(1) Cons show ?thesis by simp
  qed
qed simp

lemma strip_prefix_append [simp]: "strip_prefix_str (p @ s) p = Some s"
  by (simp add: strip_prefix_str_def starts_with_def)

lemma starts_with_append [simp]: "starts_with (p @ s) p"
  by (simp add: starts_with_def)

lemma show_nat_digits: "set (show_nat n) \<subseteq> {c. (48::nat) \<le> of_char c \<and> (of_char c :: nat) < 58}"
proof (induction n rule: show_nat.induct)
  case (1 n)
  then show ?case
    by (subst show_nat.simps) (auto simp: of_char_of take_bit_eq_mod)
qed

lemma concat_utf8_chars [simp]: "concat (utf8_chars s) = s"
  by (induction s rule: utf8_chars.induct) (auto split: list.splits)

lemma utf8_chars_nonempty: "[] \<notin> set (utf8_chars s)"
  by (induction s rule: utf8_chars.induct) (auto split: list.splits)

lemma utf8_chars_inj: "utf8_chars s = utf8_chars t \<Longrightarrow> s = t"
  by (metis concat_utf8_chars)

lemma hd_utf8_chars: "s \<noteq> [] \<Longrightarrow> utf8_chars s \<noteq> [] \<and> hd (hd (utf8_chars s)) = hd s"
  by (cases s) (auto split: list.splits)

text \<open>A \<open>&str\<close> starts at a character boundary, so concatenated strings keep their characters.\<close>

definition char_start :: "string \<Rightarrow> bool" where
  "char_start s \<longleftrightarrow> s = [] \<or> \<not> utf8_continuation (hd s)"

lemma utf8_chars_append: "char_start t \<Longrightarrow> utf8_chars (s @ t) = utf8_chars s @ utf8_chars t"
proof (induction s)
  case (Cons c s)
  show ?case
  proof (cases "utf8_chars s")
    case Nil
    then have "s = []" using hd_utf8_chars by blast
    then show ?thesis
      using Cons.prems hd_utf8_chars [of t]
      by (cases "t = []") (auto simp: char_start_def split: list.splits)
  next
    case (Cons g gs)
    with Cons.IH Cons.prems show ?thesis by simp
  qed
qed simp

lemma find_map_filter: "find_map f (filter P xs) = find_map (\<lambda>x. if P x then f x else None) xs"
  by (induction xs) (auto split: option.splits)

lemma find_map_map: "find_map f (map g xs) = find_map (\<lambda>x. f (g x)) xs"
  by (induction xs) (auto split: option.splits)

lemma find_map_cong [fundef_cong]:
  "xs = ys \<Longrightarrow> (\<And>x. x \<in> set ys \<Longrightarrow> f x = g x) \<Longrightarrow> find_map f xs = find_map g ys"
  by (induction xs arbitrary: ys) (auto split: option.splits)

lemma find_map_upt_SomeD:
  assumes "find_map f [a..<b] = Some y"
  shows "\<exists>i. a \<le> i \<and> i < b \<and> f i = Some y \<and> (\<forall>j. a \<le> j \<and> j < i \<longrightarrow> f j = None)"
  using assms
proof (induction "b - a" arbitrary: a)
  case (Suc n)
  then have ab: "a < b" "n = b - Suc a" by simp_all
  show ?case
  proof (cases "f a")
    case None
    with Suc.prems ab have "find_map f [Suc a..<b] = Some y" by (simp add: upt_conv_Cons)
    from Suc.hyps(1) [OF ab(2) this] None show ?thesis
      by (metis Suc_leD Suc_leI nat_less_le)
  qed (use Suc.prems ab in \<open>auto simp: upt_conv_Cons\<close>)
qed simp

section \<open>Replays and cuts\<close>

text \<open>
  A replay runs \<open>for entry in entries { self.step(entry) }\<close> from a default state.
  Whatever every step keeps, the whole run keeps.
\<close>

locale log_replay =
  fixes step :: "'s \<Rightarrow> 'e \<Rightarrow> 's" and start :: 's and inv :: "'s \<Rightarrow> bool"
  assumes inv_start: "inv start"
    and inv_step: "inv s \<Longrightarrow> inv (step s e)"
begin

lemma inv_from: "inv s \<Longrightarrow> inv (foldl step s es)"
  by (induction es arbitrary: s) (auto intro: inv_step)

lemma inv_run: "inv (foldl step start es)"
  by (rule inv_from) (rule inv_start)

end

text \<open>An account of a replay: a relation between the log read so far and the state.\<close>

locale log_account =
  fixes step :: "'s \<Rightarrow> 'e \<Rightarrow> 's" and start :: 's and account :: "'e list \<Rightarrow> 's \<Rightarrow> bool"
  assumes account_start: "account [] start"
    and account_step: "account es s \<Longrightarrow> account (es @ [e]) (step s e)"
begin

lemma account_run: "account es (foldl step start es)"
  by (induction es rule: rev_induct) (simp_all add: account_start account_step)

end

text \<open>
  A cut splits a log at its last boundary entry: everything from \<open>cut es\<close> on is free
  of boundaries, and what comes before is empty or ends with one. The laws determine
  the cut, so every reader that satisfies them agrees on the split.
\<close>

locale log_cut =
  fixes boundary :: "'e \<Rightarrow> bool" and cut :: "'e list \<Rightarrow> nat"
  assumes cut_le: "cut es \<le> length es"
    and cut_suffix: "e \<in> set (drop (cut es) es) \<Longrightarrow> \<not> boundary e"
    and cut_edge: "0 < cut es \<Longrightarrow> boundary (es ! (cut es - 1))"
begin

lemma cut_no_boundary: "\<forall>e \<in> set es. \<not> boundary e \<Longrightarrow> cut es = 0"
  using cut_edge [of es] cut_le [of es] by (cases "cut es") auto

lemma cut_unique:
  assumes "es = pre @ b # post" and "boundary b" and "\<forall>e \<in> set post. \<not> boundary e"
  shows "cut es = Suc (length pre)"
proof (rule linorder_cases [of "cut es" "Suc (length pre)"])
  assume "cut es < Suc (length pre)"
  then have "b \<in> set (drop (cut es) es)" by (simp add: assms(1))
  with cut_suffix assms(2) show ?thesis by blast
next
  assume gt: "Suc (length pre) < cut es"
  have "cut es - 1 < length es" using gt cut_le [of es] by simp
  then have "es ! (cut es - 1) \<in> set post"
    using gt assms(1) by (auto simp: nth_append nth_Cons split: nat.splits)
  with assms(3) cut_edge [of es] gt show ?thesis by auto
qed

lemma cut_append_clean:
  assumes "\<forall>e \<in> set ys. \<not> boundary e"
  shows "cut (xs @ ys) = cut xs"
proof (cases "cut xs")
  case 0
  then have "\<forall>e \<in> set (xs @ ys). \<not> boundary e" using cut_suffix [of _ xs] assms by auto
  with 0 show ?thesis by (simp add: cut_no_boundary)
next
  case (Suc k)
  then have k: "k < length xs" using cut_le [of xs] by simp
  have "xs @ ys = take k xs @ xs ! k # (drop (Suc k) xs @ ys)"
    using id_take_nth_drop [OF k] by simp
  moreover have "boundary (xs ! k)" using cut_edge [of xs] Suc by simp
  moreover have "\<forall>e \<in> set (drop (Suc k) xs @ ys). \<not> boundary e"
    using cut_suffix [of _ xs] Suc assms by auto
  ultimately have "cut (xs @ ys) = Suc (length (take k xs))" by (rule cut_unique)
  with k Suc show ?thesis by simp
qed

lemma cut_append_boundary: "boundary b \<Longrightarrow> cut (xs @ [b]) = Suc (length xs)"
  using cut_unique [of "xs @ [b]" xs b "[]"] by simp

end

section \<open>Runs of operations and refinement\<close>

text \<open>
  A component driven from outside: operations applied one after another, each giving an
  output. A simulation between a detailed component and an abstract one, over operations
  that are admissible at the time they come, gives equal outputs along every admissible run.
\<close>

fun run_ops :: "('s \<Rightarrow> 'op \<Rightarrow> 'out \<times> 's) \<Rightarrow> 's \<Rightarrow> 'op list \<Rightarrow> 'out list \<times> 's" where
  "run_ops step s [] = ([], s)"
| "run_ops step s (a # ops) =
     (let (y, s1) = step s a; (ys, s2) = run_ops step s1 ops in (y # ys, s2))"

fun admissible :: "('t \<Rightarrow> 'op \<Rightarrow> bool) \<Rightarrow> ('t \<Rightarrow> 'op \<Rightarrow> 't) \<Rightarrow> 't \<Rightarrow> 'op list \<Rightarrow> bool" where
  "admissible ok after t [] = True"
| "admissible ok after t (a # ops) = (ok t a \<and> admissible ok after (after t a) ops)"

definition time_after :: "('t \<Rightarrow> 'op \<Rightarrow> 't) \<Rightarrow> 't \<Rightarrow> 'op list \<Rightarrow> 't" where
  "time_after after t ops = foldl after t ops"

lemma run_ops_Cons:
  "run_ops step s (a # ops) =
     (fst (step s a) # fst (run_ops step (snd (step s a)) ops),
      snd (run_ops step (snd (step s a)) ops))"
  by (simp add: case_prod_beta Let_def)

lemma snd_run_ops: "snd (run_ops step s ops) = foldl (\<lambda>s a. snd (step s a)) s ops"
  by (induction ops arbitrary: s) (simp_all add: run_ops_Cons del: run_ops.simps(2))

locale simulation =
  fixes cstep :: "'c \<Rightarrow> 'op \<Rightarrow> 'out \<times> 'c" and astep :: "'a \<Rightarrow> 'op \<Rightarrow> 'out \<times> 'a"
    and rel :: "'t \<Rightarrow> 'c \<Rightarrow> 'a \<Rightarrow> bool"
    and ok :: "'t \<Rightarrow> 'op \<Rightarrow> bool" and after :: "'t \<Rightarrow> 'op \<Rightarrow> 't"
  assumes sim_output: "rel t c a \<Longrightarrow> ok t x \<Longrightarrow> fst (cstep c x) = fst (astep a x)"
    and sim_step: "rel t c a \<Longrightarrow> ok t x \<Longrightarrow> rel (after t x) (snd (cstep c x)) (snd (astep a x))"
begin

lemma sim_run:
  "rel t c a \<Longrightarrow> admissible ok after t ops \<Longrightarrow>
     fst (run_ops cstep c ops) = fst (run_ops astep a ops) \<and>
     rel (time_after after t ops) (snd (run_ops cstep c ops)) (snd (run_ops astep a ops))"
proof (induction ops arbitrary: t c a)
  case Nil
  then show ?case by (simp add: time_after_def)
next
  case (Cons x ops)
  then have "ok t x" "admissible ok after (after t x) ops" by simp_all
  with Cons.IH [OF sim_step] sim_output Cons.prems(1) show ?case
    by (simp add: run_ops_Cons time_after_def del: run_ops.simps(2))
qed

end

text \<open>An invariant that speaks of the current time, kept by every admissible operation.\<close>

locale timed_invariant =
  fixes step :: "'s \<Rightarrow> 'op \<Rightarrow> 'out \<times> 's" and inv :: "'t \<Rightarrow> 's \<Rightarrow> bool"
    and ok :: "'t \<Rightarrow> 'op \<Rightarrow> bool" and after :: "'t \<Rightarrow> 'op \<Rightarrow> 't"
  assumes timed_step: "inv t s \<Longrightarrow> ok t x \<Longrightarrow> inv (after t x) (snd (step s x))"
begin

lemma timed_run:
  "inv t s \<Longrightarrow> admissible ok after t ops \<Longrightarrow>
     inv (time_after after t ops) (snd (run_ops step s ops))"
proof (induction ops arbitrary: t s)
  case (Cons x ops)
  then show ?case
    using Cons.IH [OF timed_step [of t s x]]
    by (simp add: run_ops_Cons time_after_def del: run_ops.simps(2))
qed (simp add: time_after_def)

end

lemma last_filter_last: "xs \<noteq> [] \<Longrightarrow> P (last xs) \<Longrightarrow> last (filter P xs) = last xs"
  by (cases xs rule: rev_cases) simp_all

lemma sorted_filter_threshold:
  fixes m :: "int list"
  assumes "sorted m" and "0 < c" and "c \<le> length m"
  shows "length (filter (\<lambda>a. t - a < w) m) < c \<longleftrightarrow> m ! (length m - c) + w \<le> t"
proof -
  let ?i = "length m - c" and ?P = "\<lambda>a. t - a < w"
  have i: "?i < length m" using assms(2,3) by simp
  show ?thesis
  proof (cases "?P (m ! ?i)")
    case True
    have "\<forall>a \<in> set (drop ?i m). ?P a"
    proof
      fix a assume "a \<in> set (drop ?i m)"
      then obtain j where "j < length m - ?i" "a = m ! (?i + j)"
        by (auto simp: in_set_conv_nth)
      then have "m ! ?i \<le> a" using assms(1) by (simp add: sorted_nth_mono)
      with True show "?P a" by simp
    qed
    then have "filter ?P (drop ?i m) = drop ?i m" by (simp add: filter_id_conv)
    then have "filter ?P m = filter ?P (take ?i m) @ drop ?i m"
      by (metis append_take_drop_id filter_append)
    then have "c \<le> length (filter ?P m)" using assms(3) by simp
    with True show ?thesis by auto
  next
    case False
    have "\<forall>a \<in> set (take (Suc ?i) m). \<not> ?P a"
    proof
      fix a assume "a \<in> set (take (Suc ?i) m)"
      then obtain j where "j \<le> ?i" "j < length m" "a = m ! j"
        by (auto simp: in_set_conv_nth less_Suc_eq_le)
      then have "a \<le> m ! ?i" using assms(1) i by (simp add: sorted_nth_mono)
      with False show "\<not> ?P a" by simp
    qed
    then have "filter ?P (take (Suc ?i) m) = []" by (simp add: filter_empty_conv)
    then have "filter ?P m = filter ?P (drop (Suc ?i) m)"
      by (metis append_Nil append_take_drop_id filter_append)
    then have "length (filter ?P m) \<le> length m - Suc ?i"
      using length_filter_le [of ?P "drop (Suc ?i) m"] by simp
    with False assms(2,3) show ?thesis by auto
  qed
qed

end
