(* ===== verification/Json_Value.thy ===== *)
theory Json_Value
  imports Harnx_Prelude
begin

text \<open>
  JSON values as the workspace builds \<open>serde_json\<close> (feature \<open>preserve_order\<close>): an
  object keeps its keys in insertion order, so it is an association list with
  distinct keys; a number is its JSON text. On top of it, the order-insensitive
  fingerprint of \<open>harnx-core/src/loop_guard/digest.rs\<close>, by which the loop guard
  compares tool arguments and results. SHA-256 over the serialised value is a
  parameter \<open>digest\<close>.
\<close>

section \<open>Values and maps\<close>

datatype json =
    JNull
  | JBool bool
  | JNumber string
  | JString string
  | JArray "json list"
  | JObject "(string \<times> json) list"

type_synonym json_map = "(string \<times> json) list"

text \<open>\<open>Map::insert\<close> replaces the value of a present key in place and appends a new key.\<close>

primrec map_insert :: "json_map \<Rightarrow> string \<Rightarrow> json \<Rightarrow> json_map" where
  "map_insert [] k v = [(k, v)]"
| "map_insert (e # m) k v = (if fst e = k then (k, v) # m else e # map_insert m k v)"

definition map_get :: "json_map \<Rightarrow> string \<Rightarrow> json option" where
  "map_get m k = map_of m k"

definition map_shift_remove :: "json_map \<Rightarrow> string \<Rightarrow> json_map" where
  "map_shift_remove m k = filter (\<lambda>e. fst e \<noteq> k) m"

definition as_str :: "json \<Rightarrow> string option" where
  "as_str v = (case v of JString s \<Rightarrow> Some s | _ \<Rightarrow> None)"

definition as_object :: "json \<Rightarrow> json_map option" where
  "as_object v = (case v of JObject m \<Rightarrow> Some m | _ \<Rightarrow> None)"

text \<open>\<open>Value::get\<close> with a string index: the field of an object, nothing elsewhere.\<close>

definition value_get :: "json \<Rightarrow> string \<Rightarrow> json option" where
  "value_get v k = (case v of JObject m \<Rightarrow> map_get m k | _ \<Rightarrow> None)"

text \<open>The type invariant of \<open>Map\<close>: the keys of every object are distinct.\<close>

primrec json_wf :: "json \<Rightarrow> bool" where
  "json_wf JNull = True"
| "json_wf (JBool b) = True"
| "json_wf (JNumber n) = True"
| "json_wf (JString s) = True"
| "json_wf (JArray vs) = list_all id (map json_wf vs)"
| "json_wf (JObject m) =
     (distinct (map fst m) \<and> list_all snd (map (map_prod id json_wf) m))"

text \<open>\<open>PartialEq\<close> of \<open>Value\<close>: objects are equal as maps, whatever the key order.\<close>

primrec json_eq :: "json \<Rightarrow> json \<Rightarrow> bool" where
  "json_eq JNull w = (w = JNull)"
| "json_eq (JBool b) w = (w = JBool b)"
| "json_eq (JNumber n) w = (w = JNumber n)"
| "json_eq (JString s) w = (w = JString s)"
| "json_eq (JArray vs) w =
     (case w of
        JArray ws \<Rightarrow> length vs = length ws \<and> list_all2 (\<lambda>eq x. eq x) (map json_eq vs) ws
      | _ \<Rightarrow> False)"
| "json_eq (JObject m) w =
     (case w of
        JObject n \<Rightarrow> length m = length n \<and>
          list_all (\<lambda>(k, eq). case map_of n k of None \<Rightarrow> False | Some x \<Rightarrow> eq x)
            (map (map_prod id json_eq) m)
      | _ \<Rightarrow> False)"

section \<open>Order-insensitive fingerprints\<close>

primrec sorted_value :: "json \<Rightarrow> json" where
  "sorted_value JNull = JNull"
| "sorted_value (JBool b) = JBool b"
| "sorted_value (JNumber n) = JNumber n"
| "sorted_value (JString s) = JString s"
| "sorted_value (JArray items) = JArray (map sorted_value items)"
| "sorted_value (JObject m) =
     (let below = map (map_prod id sorted_value) m;
          keys = sort (map fst m)
      in JObject (foldl (\<lambda>out key. map_insert out key (the (map_of below key))) [] keys))"

definition fingerprint :: "(json \<Rightarrow> 'fp) \<Rightarrow> json \<Rightarrow> 'fp" where
  "fingerprint digest v = digest (sorted_value v)"

section \<open>Laws of the map operations\<close>

lemma map_of_map_insert [simp]: "map_of (map_insert m k v) = (map_of m)(k \<mapsto> v)"
  by (induction m) auto

lemma map_insert_new [simp]: "k \<notin> fst ` set m \<Longrightarrow> map_insert m k v = m @ [(k, v)]"
  by (induction m) auto

lemma map_shift_remove_absent [simp]: "k \<notin> fst ` set m \<Longrightarrow> map_shift_remove m k = m"
  by (auto simp: map_shift_remove_def filter_id_conv)

lemma map_shift_remove_snoc [simp]:
  "k \<notin> fst ` set m \<Longrightarrow> map_shift_remove (m @ [(k, v)]) k = m"
  by (auto simp: map_shift_remove_def filter_id_conv)

lemma foldl_map_insert:
  "distinct keys \<Longrightarrow> set keys \<inter> fst ` set out = {} \<Longrightarrow>
     foldl (\<lambda>out key. map_insert out key (f key)) out keys = out @ map (\<lambda>k. (k, f k)) keys"
proof (induction keys arbitrary: out)
  case (Cons k keys)
  then have "set keys \<inter> fst ` set (out @ [(k, f k)]) = {}" by auto
  from Cons.IH [OF _ this] Cons.prems show ?case by simp
qed simp

lemma sorted_fields_eq:
  assumes "distinct (map fst m)"
  shows "map (\<lambda>k. (k, the (map_of m k))) (sort (map fst m)) = sort_key fst m"
proof -
  have keys: "sort (map fst m) = map fst (sort_key fst m)"
  proof (rule sorted_distinct_set_unique)
    show "distinct (map fst (sort_key fst m))"
      using assms by (simp add: distinct_map)
  qed (use assms in auto)
  have "map (\<lambda>k. (k, the (map_of m k))) (map fst (sort_key fst m)) = map id (sort_key fst m)"
    unfolding map_map
  proof (rule map_cong)
    fix e assume "e \<in> set (sort_key fst m)"
    then have "(fst e, snd e) \<in> set m" by simp
    with assms have "map_of m (fst e) = Some (snd e)" by (simp add: map_of_is_SomeI)
    then show "((\<lambda>k. (k, the (map_of m k))) \<circ> fst) e = id e" by simp
  qed simp
  with keys show ?thesis by simp
qed

lemma sorted_value_JObject:
  assumes "distinct (map fst m)"
  shows "sorted_value (JObject m) = JObject (sort_key fst (map (map_prod id sorted_value) m))"
proof -
  let ?b = "map (map_prod id sorted_value) m"
  have fst_b: "map fst ?b = map fst m" by simp
  have "foldl (\<lambda>out key. map_insert out key (the (map_of ?b key))) [] (sort (map fst m)) =
        map (\<lambda>k. (k, the (map_of ?b k))) (sort (map fst ?b))"
    using foldl_map_insert [of "sort (map fst m)" "[]"] assms by (simp add: fst_b)
  also have "\<dots> = sort_key fst ?b"
    by (rule sorted_fields_eq) (simp only: fst_b assms)
  finally show ?thesis by (simp add: Let_def)
qed

lemma sorted_value_shape [simp]:
  "sorted_value (JObject m) \<noteq> JNull" "sorted_value (JObject m) \<noteq> JBool b"
  "sorted_value (JObject m) \<noteq> JNumber s" "sorted_value (JObject m) \<noteq> JString s"
  "sorted_value (JObject m) \<noteq> JArray vs"
  by (simp_all add: Let_def)

lemmas sorted_value_shape_sym [simp] = sorted_value_shape [symmetric]

declare sorted_value.simps(6) [simp del]

lemma sort_key_fst_eq_iff:
  assumes "distinct (map fst a)" "distinct (map fst b)"
  shows "sort_key fst a = sort_key fst b \<longleftrightarrow> set a = set b"
proof
  assume "set a = set b"
  then show "sort_key fst a = sort_key fst b"
    using assms
    by (intro map_sorted_distinct_set_unique [of fst])
       (auto simp: distinct_map eq_key_imp_eq_value intro!: inj_onI)
qed (metis set_sort)

lemma set_fields_eq_iff:
  assumes "distinct (map fst m)" "distinct (map fst n)"
  shows "set (map (map_prod id f) m) = set (map (map_prod id f) n) \<longleftrightarrow>
    length m = length n \<and> (\<forall>(k, v) \<in> set m. \<exists>w. map_of n k = Some w \<and> f v = f w)"
    (is "?L \<longleftrightarrow> ?R")
proof -
  have fin: "card (set (map (map_prod id f) x)) = length x" if "distinct (map fst x)" for x
  proof -
    from that have "distinct (map fst (map (map_prod id f) x))" by simp
    then show ?thesis by (metis distinct_card distinct_map length_map)
  qed
  have "?L \<longleftrightarrow> length m = length n \<and> set (map (map_prod id f) m) \<subseteq> set (map (map_prod id f) n)"
    using fin [OF assms(1)] fin [OF assms(2)]
    by (metis List.finite_set card_subset_eq order_refl)
  also have "set (map (map_prod id f) m) \<subseteq> set (map (map_prod id f) n) \<longleftrightarrow>
      (\<forall>(k, v) \<in> set m. \<exists>w. (k, w) \<in> set n \<and> f v = f w)"
  proof -
    have "map_prod id f e \<in> map_prod id f ` set n \<longleftrightarrow> (\<exists>w. (fst e, w) \<in> set n \<and> f (snd e) = f w)"
      for e
      by (cases e) (auto simp: image_iff Bex_def)
    then show ?thesis by (simp add: image_subset_iff split_beta)
  qed
  finally show ?thesis using assms(2) by (simp add: split_beta id_def)
qed

lemma sorted_value_eq_iff:
  "json_wf v \<Longrightarrow> json_wf w \<Longrightarrow> sorted_value v = sorted_value w \<longleftrightarrow> json_eq v w"
proof (induction v arbitrary: w)
  case (JArray vs)
  show ?case
  proof (cases w)
    case (JArray ws)
    have "map sorted_value vs = map sorted_value ws \<longleftrightarrow>
        length vs = length ws \<and> (\<forall>i < length vs. sorted_value (vs ! i) = sorted_value (ws ! i))"
      by (auto simp: list_eq_iff_nth_eq)
    also have "\<dots> \<longleftrightarrow> length vs = length ws \<and> (\<forall>i < length vs. json_eq (vs ! i) (ws ! i))"
      using JArray.IH JArray.prems JArray by (auto simp: list_all_length)
    finally show ?thesis using JArray by (auto simp: list_all2_conv_all_nth)
  qed simp_all
next
  case (JObject m)
  show ?case
  proof (cases w)
    case w: (JObject n)
    have d: "distinct (map fst m)" "distinct (map fst n)" using JObject.prems w by auto
    have IH: "(sorted_value x = sorted_value y) = json_eq x y"
      if "(k, x) \<in> set m" "(k, y) \<in> set n" for k x y
    proof -
      have "json_wf x" "json_wf y"
        using that JObject.prems w by (force simp: list_all_iff)+
      then show ?thesis using JObject.IH [of "(k, x)" x y] that(1) by simp
    qed
    have "sorted_value (JObject m) = sorted_value w \<longleftrightarrow>
        length m = length n \<and>
        (\<forall>(k, v) \<in> set m. \<exists>y. map_of n k = Some y \<and> sorted_value v = sorted_value y)"
      using d w by (simp add: sorted_value_JObject sort_key_fst_eq_iff
          set_fields_eq_iff [unfolded set_map] del: map_of_eq_Some_iff)
    also have "\<dots> \<longleftrightarrow> json_eq (JObject m) w"
    proof -
      have "(\<exists>y. map_of n (fst e) = Some y \<and> sorted_value (snd e) = sorted_value y) \<longleftrightarrow>
          (case map_of n (fst e) of None \<Rightarrow> False | Some x \<Rightarrow> json_eq (snd e) x)"
        if "e \<in> set m" for e
        using IH [of "fst e" "snd e"] that
        by (cases "map_of n (fst e)") (auto dest: map_of_SomeD)
      then show ?thesis by (simp add: w list_all_iff split_beta cong: option.case_cong)
    qed
    finally show ?thesis .
  qed simp_all
next
  case JNull
  show ?case by (cases w) simp_all
next
  case (JBool b)
  show ?case by (cases w) auto
next
  case (JNumber t)
  show ?case by (cases w) auto
next
  case (JString t)
  show ?case by (cases w) auto
qed

text \<open>
  Fingerprints compare JSON values. If the digest does not collide on the two
  canonical forms, two values have the same fingerprint exactly if they are equal as JSON:
  key order never makes identical arguments or results look different, and different values
  are never confused.
\<close>

theorem fingerprint_eq_iff:
  assumes "inj_on digest {sorted_value v, sorted_value w}" and "json_wf v" and "json_wf w"
  shows "fingerprint digest v = fingerprint digest w \<longleftrightarrow> json_eq v w"
proof -
  have "fingerprint digest v = fingerprint digest w \<longleftrightarrow> sorted_value v = sorted_value w"
    unfolding fingerprint_def by (rule inj_on_eq_iff [OF assms(1)]) simp_all
  with sorted_value_eq_iff [OF assms(2,3)] show ?thesis by simp
qed

theorem fingerprint_eq_iff_witness:
  "fingerprint id (JObject [(''b'', JNull), (''a'', JBool True)]) =
     fingerprint id (JObject [(''a'', JBool True), (''b'', JNull)])"
  using fingerprint_eq_iff [of id "JObject [(''b'', JNull), (''a'', JBool True)]"
      "JObject [(''a'', JBool True), (''b'', JNull)]"] by simp

end
