(* ===== verification/Session_Types.thy ===== *)
theory Session_Types
  imports Json_Value
begin

text \<open>
  The data model every session component shares: chat messages
  (\<open>harnx-core/src/message.rs\<close>), tool calls and their results (\<open>tool.rs\<close>), token usage
  (\<open>api_types.rs\<close>) and the append-only transcript entry \<open>SessionLogEntry\<close> with its fence
  token (\<open>session.rs\<close>). Struct fields carry a short prefix of their struct. A clock
  read (\<open>Utc::now()\<close>) is an argument.
\<close>

section \<open>Tool calls\<close>

type_synonym fence = nat \<comment> \<open>a lease revision: \<open>u64\<close>, compared and never computed with\<close>

datatype ReasoningProtocol =
  AnthropicThinking | GeminiThoughtSignature | OpenAiEncryptedReasoning

record ReasoningProvenance =
  prov_protocol :: ReasoningProtocol
  prov_model :: "string option"

record ToolCall =
  call_name :: string
  call_arguments :: json
  call_id :: "string option"
  call_thought_signature :: "string option"
  call_reasoning_provenance :: "ReasoningProvenance option"

text \<open>\<open>ToolCall::dedup\<close>: the loop walks the calls backwards with the set of ids seen.\<close>

fun ToolCall_dedup_loop :: "ToolCall list \<Rightarrow> string set \<Rightarrow> ToolCall list \<Rightarrow> ToolCall list" where
  "ToolCall_dedup_loop [] seen_ids new_calls = new_calls"
| "ToolCall_dedup_loop (call # rest) seen_ids new_calls =
     (case call_id call of
        Some i \<Rightarrow>
          if i \<notin> seen_ids then ToolCall_dedup_loop rest (insert i seen_ids) (new_calls @ [call])
          else ToolCall_dedup_loop rest seen_ids new_calls
      | None \<Rightarrow> ToolCall_dedup_loop rest seen_ids (new_calls @ [call]))"

definition ToolCall_dedup :: "ToolCall list \<Rightarrow> ToolCall list" where
  "ToolCall_dedup calls = rev (ToolCall_dedup_loop (rev calls) {} [])"

definition ToolCall_new :: "string \<Rightarrow> json \<Rightarrow> string option \<Rightarrow> string option \<Rightarrow> ToolCall" where
  "ToolCall_new name arguments i sig =
     \<lparr>call_name = name, call_arguments = arguments, call_id = i,
      call_thought_signature = sig, call_reasoning_provenance = None\<rparr>"

definition ToolCall_with_provenance ::
  "ToolCall \<Rightarrow> ReasoningProvenance option \<Rightarrow> ToolCall" where
  "ToolCall_with_provenance call provenance = call\<lparr>call_reasoning_provenance := provenance\<rparr>"

definition compatible_signature ::
  "ToolCall \<Rightarrow> ReasoningProtocol \<Rightarrow> string \<Rightarrow> string option" where
  "compatible_signature call dest_protocol dest_model =
     (case call_thought_signature call of
        None \<Rightarrow> None
      | Some sig \<Rightarrow>
          (case call_reasoning_provenance call of
             None \<Rightarrow> None
           | Some prov \<Rightarrow>
               (case dest_protocol of
                  AnthropicThinking \<Rightarrow>
                    if prov_protocol prov = AnthropicThinking then Some sig else None
                | GeminiThoughtSignature \<Rightarrow>
                    if prov_protocol prov = GeminiThoughtSignature then Some sig else None
                | OpenAiEncryptedReasoning \<Rightarrow>
                    if prov_protocol prov = OpenAiEncryptedReasoning
                       \<and> prov_model prov = Some dest_model
                    then Some sig else None)))"

section \<open>Messages\<close>

datatype MessageRole = System | Assistant | User | Tool

definition is_system :: "MessageRole \<Rightarrow> bool" where
  [log_simps]: "is_system r \<longleftrightarrow> r = System"

definition is_user :: "MessageRole \<Rightarrow> bool" where
  [log_simps]: "is_user r \<longleftrightarrow> r = User"

definition is_assistant :: "MessageRole \<Rightarrow> bool" where
  [log_simps]: "is_assistant r \<longleftrightarrow> r = Assistant"

record ImageUrl =
  image_url :: string

datatype MessageContentPart = TextPart string | ImageUrlPart ImageUrl

record SwitchAgentData =
  switch_agent_name :: string
  switch_prompt :: string
  switch_session_id :: "string option"
  switch_tool_call_id :: "string option"

record GitRemoteObservation =
  remote_name :: string
  remote_repository :: string
  remote_primary :: bool

record GitRepositoryObservation =
  repo_worktree_root :: string
  repo_branch :: "string option"
  repo_remotes :: "GitRemoteObservation list"

definition primary_repository :: "GitRepositoryObservation \<Rightarrow> string option" where
  "primary_repository r =
     map_option remote_repository
       (case find remote_primary (repo_remotes r) of
          Some remote \<Rightarrow> Some remote
        | None \<Rightarrow> (case repo_remotes r of [] \<Rightarrow> None | remote # _ \<Rightarrow> Some remote))"

record ToolObservationProvenance =
  obs_server_scope :: string
  obs_server_identity :: string
  obs_tool_name :: string
  obs_call_id :: string
  obs_worker_received_at :: instant

record ExecutionContextObservation =
  obs_version :: u32
  obs_observed_at :: instant
  obs_workspace_root :: string
  obs_working_directory :: string
  obs_repository :: "GitRepositoryObservation option"
  obs_provenance :: "ToolObservationProvenance option"

record ToolResult =
  result_call :: ToolCall
  result_output :: json
  result_markdown :: "string option"
  result_content :: "MessageContentPart list"
  result_switch_agent :: "SwitchAgentData option"
  result_execution_context :: "ExecutionContextObservation option"

record ToolCallRound =
  round_tool_count :: nat
  round_text :: string
  round_thought :: "string option"

record MessageContentToolCalls =
  mtc_tool_results :: "ToolResult list"
  mtc_text :: string
  mtc_thought :: "string option"
  mtc_sequence :: bool
  mtc_rounds :: "ToolCallRound list"

datatype MessageContent =
    Text string
  | Array "MessageContentPart list"
  | ToolCallsContent MessageContentToolCalls

record Message =
  msg_role :: MessageRole
  msg_content :: MessageContent
  msg_id :: "string option"
  msg_log_seq :: "seq option"
  msg_log_timestamp :: "instant option"

definition Message_new :: "MessageRole \<Rightarrow> MessageContent \<Rightarrow> Message" where
  "Message_new role content =
     \<lparr>msg_role = role, msg_content = content, msg_id = None, msg_log_seq = None,
      msg_log_timestamp = None\<rparr>"

definition same_identity :: "Message \<Rightarrow> Message \<Rightarrow> bool" where
  "same_identity self selected =
     (case msg_id selected of
        Some i \<Rightarrow> msg_id self = Some i
      | None \<Rightarrow> msg_log_seq selected \<noteq> None \<and> msg_log_seq self = msg_log_seq selected)"

definition merge_system :: "Message \<Rightarrow> MessageContent \<Rightarrow> Message" where
  "merge_system self system =
     (case (msg_content self, system) of
        (Text t, Text system_text) \<Rightarrow>
          self\<lparr>msg_content := Array [TextPart system_text, TextPart t]\<rparr>
      | (Array list, Text system_text) \<Rightarrow>
          self\<lparr>msg_content := Array (TextPart system_text # list)\<rparr>
      | (Text t, Array system_list) \<Rightarrow>
          self\<lparr>msg_content := Array (system_list @ [TextPart t])\<rparr>
      | (Array list, Array system_list) \<Rightarrow>
          self\<lparr>msg_content := Array (system_list @ list)\<rparr>
      | _ \<Rightarrow> self)"

definition part_text :: "MessageContentPart \<Rightarrow> string option" where
  "part_text p = (case p of TextPart t \<Rightarrow> Some t | ImageUrlPart _ \<Rightarrow> None)"

definition to_text :: "MessageContent \<Rightarrow> string" where
  "to_text c =
     (case c of
        Text t \<Rightarrow> t
      | Array list \<Rightarrow> str_join (newline @ newline) (filter_map part_text list)
      | ToolCallsContent _ \<Rightarrow> [])"

definition to_transcript_text :: "MessageContent \<Rightarrow> string" where
  "to_transcript_text c =
     (case c of
        Text t \<Rightarrow> t
      | Array list \<Rightarrow>
          str_join (newline @ newline)
            (map (\<lambda>item. case item of
                TextPart t \<Rightarrow> t
              | ImageUrlPart u \<Rightarrow> ''[image attachment: '' @ image_url u @ '']'') list)
      | ToolCallsContent _ \<Rightarrow> [])"

definition MessageContentToolCalls_new ::
  "ToolResult list \<Rightarrow> string \<Rightarrow> string option \<Rightarrow> MessageContentToolCalls" where
  "MessageContentToolCalls_new tool_results t thought =
     \<lparr>mtc_tool_results = tool_results, mtc_text = t, mtc_thought = thought,
      mtc_sequence = False, mtc_rounds = []\<rparr>"

definition MessageContentToolCalls_merge ::
  "MessageContentToolCalls \<Rightarrow> ToolResult list \<Rightarrow> string \<Rightarrow> string option
     \<Rightarrow> MessageContentToolCalls" where
  "MessageContentToolCalls_merge self tool_results t thought =
     (let rounds1 =
            (if mtc_rounds self = [] \<and> \<not> mtc_sequence self
             then [\<lparr>round_tool_count = length (mtc_tool_results self),
                    round_text = mtc_text self, round_thought = mtc_thought self\<rparr>]
             else mtc_rounds self);
          rounds2 =
            (if rounds1 \<noteq> []
             then rounds1 @ [\<lparr>round_tool_count = length tool_results,
                              round_text = t, round_thought = thought\<rparr>]
             else rounds1);
          text2 =
            (if t \<noteq> []
             then (if mtc_text self \<noteq> [] then mtc_text self @ newline @ newline else mtc_text self) @ t
             else mtc_text self);
          thought2 =
            (case thought of
               Some new_thought \<Rightarrow>
                 (case mtc_thought self of
                    Some old_thought \<Rightarrow> Some (old_thought @ newline @ newline @ new_thought)
                  | None \<Rightarrow> Some new_thought)
             | None \<Rightarrow> mtc_thought self)
      in \<lparr>mtc_tool_results = mtc_tool_results self @ tool_results, mtc_text = text2,
          mtc_thought = thought2, mtc_sequence = True, mtc_rounds = rounds2\<rparr>)"

text \<open>\<open>messages[0]\<close> panics on an empty vector: the outer \<open>None\<close>.\<close>

definition extract_system_message ::
  "Message list \<Rightarrow> (Message list \<times> string list option) option" where
  "extract_system_message messages =
     (case messages of
        [] \<Rightarrow> None
      | m # rest \<Rightarrow>
          if is_system (msg_role m)
          then (let parts = (case msg_content m of
                       Text s \<Rightarrow> [s]
                     | Array list \<Rightarrow> filter_map part_text list
                     | ToolCallsContent _ \<Rightarrow> [])
                in Some (rest, if parts = [] then None else Some parts))
          else Some (messages, None))"

section \<open>Token usage\<close>

record CompletionTokenUsage =
  input_tokens :: u64
  output_tokens :: u64
  cached_tokens :: u64
  cache_write_tokens :: u64

definition saturating_sub :: "u64 \<Rightarrow> u64 \<Rightarrow> u64" where
  "saturating_sub a b = (if b \<le> a then a - b else 0)"

definition CompletionTokenUsage_new ::
  "u64 option \<Rightarrow> u64 option \<Rightarrow> u64 option \<Rightarrow> CompletionTokenUsage" where
  "CompletionTokenUsage_new i out cached =
     \<lparr>input_tokens = case_option 0 id i, output_tokens = case_option 0 id out,
      cached_tokens = case_option 0 id cached, cache_write_tokens = 0\<rparr>"

definition uncached_input_tokens :: "CompletionTokenUsage \<Rightarrow> u64" where
  "uncached_input_tokens u =
     saturating_sub (saturating_sub (input_tokens u) (cached_tokens u)) (cache_write_tokens u)"

text \<open>\<open>+=\<close> on \<open>u64\<close>: word addition, which wraps as a release build does.\<close>

definition accumulate ::
  "CompletionTokenUsage \<Rightarrow> CompletionTokenUsage \<Rightarrow> CompletionTokenUsage" where
  "accumulate self other =
     \<lparr>input_tokens = input_tokens self + input_tokens other,
      output_tokens = output_tokens self + output_tokens other,
      cached_tokens = cached_tokens self + cached_tokens other,
      cache_write_tokens = cache_write_tokens self + cache_write_tokens other\<rparr>"

definition usage_is_empty :: "CompletionTokenUsage \<Rightarrow> bool" where
  "usage_is_empty u \<longleftrightarrow> input_tokens u = 0 \<and> output_tokens u = 0"

definition budgeted_tokens :: "CompletionTokenUsage \<Rightarrow> u64" where
  "budgeted_tokens u = saturating_sub (input_tokens u) (cached_tokens u) + output_tokens u"

section \<open>The session log\<close>

record ToolOutput =
  out_id :: "string option"
  out_name :: string
  out_output :: json
  out_markdown :: "string option"
  out_content :: "MessageContentPart list"
  out_switch_agent :: "SwitchAgentData option"

datatype UnchangedReason = NoUserMessages | NothingEligible | AlreadyCompacted

datatype CompactOutcome = Compacted | Unchanged UnchangedReason | Failed string

text \<open>
  One constructor per variant, its arguments in the order of the variant's fields.
\<close>

datatype SessionLogEntry =
    Message "string option" MessageRole MessageContent "instant option" "fence option"
  | ToolCalls string "string option" "ToolCall list" "instant option" "fence option"
  | Cancel fence "string option" "string option" "instant option"
  | ToolResults "ToolOutput list" "instant option"
  | DataUrls "string \<rightharpoonup> string"
  | Compress string
  | Clear
  | EditEntries seq seq "string list"
  | Rewind seq
  | Error string fence "instant option"
  | TurnEnd seq fence "instant option" "CompletionTokenUsage option"
  | SubAgentStarted string string "string option" "string option" "instant option"
  | HandoffCommitted string string "string option"
  | HitlApprovalRequested string string fence
  | HitlApprovalDecision string bool "string option" fence
  | CompactRequest fence string "string option" "instant option"
  | CompactResult string CompactOutcome "instant option"
  | AdmissionClosed string string string seq
  | Unknown

definition cancel_request :: "instant \<Rightarrow> string \<Rightarrow> string \<Rightarrow> SessionLogEntry" where
  "cancel_request now cancellation_id requested_by =
     Cancel 0 (Some cancellation_id) (Some requested_by) (Some now)"

definition compact_request :: "instant \<Rightarrow> string \<Rightarrow> string option \<Rightarrow> SessionLogEntry" where
  "compact_request now compaction_id requested_by =
     CompactRequest 0 compaction_id requested_by (Some now)"

definition compact_result :: "instant \<Rightarrow> string \<Rightarrow> CompactOutcome \<Rightarrow> SessionLogEntry" where
  "compact_result now compaction_id outcome = CompactResult compaction_id outcome (Some now)"

fun set_fence_token :: "SessionLogEntry \<Rightarrow> fence \<Rightarrow> SessionLogEntry" where
  "set_fence_token (Message i role content ts _) fence = Message i role content ts (Some fence)"
| "set_fence_token (ToolCalls t thought calls ts _) fence = ToolCalls t thought calls ts (Some fence)"
| "set_fence_token (HitlApprovalRequested call summary _) fence =
     HitlApprovalRequested call summary fence"
| "set_fence_token (HitlApprovalDecision call approved note _) fence =
     HitlApprovalDecision call approved note fence"
| "set_fence_token e fence = e"

fun entry_timestamp :: "SessionLogEntry \<Rightarrow> instant option" where
  "entry_timestamp (Message _ _ _ ts _) = ts"
| "entry_timestamp (ToolCalls _ _ _ ts _) = ts"
| "entry_timestamp (Cancel _ _ _ ts) = ts"
| "entry_timestamp (ToolResults _ ts) = ts"
| "entry_timestamp (Error _ _ ts) = ts"
| "entry_timestamp (TurnEnd _ _ ts _) = ts"
| "entry_timestamp (CompactRequest _ _ _ ts) = ts"
| "entry_timestamp (CompactResult _ _ ts) = ts"
| "entry_timestamp _ = None"

fun fence_token :: "SessionLogEntry \<Rightarrow> fence option" where
  "fence_token (Message _ _ _ _ f) = f"
| "fence_token (ToolCalls _ _ _ _ f) = f"
| "fence_token (Cancel f _ _ _) = Some f"
| "fence_token (Error _ f _) = Some f"
| "fence_token (TurnEnd _ f _ _) = Some f"
| "fence_token (HitlApprovalRequested _ _ f) = Some f"
| "fence_token (HitlApprovalDecision _ _ _ f) = Some f"
| "fence_token _ = None"

definition max_worker_fence_token :: "SessionLogEntry list \<Rightarrow> fence option" where
  "max_worker_fence_token entries =
     (case filter_map fence_token entries of
        [] \<Rightarrow> None
      | f # fs \<Rightarrow> Some (foldl max f fs))"

section \<open>Properties\<close>

text \<open>The invariant of merged tool rounds: the recorded round sizes partition the results.\<close>

definition rounds_cover :: "MessageContentToolCalls \<Rightarrow> bool" where
  "rounds_cover c \<longleftrightarrow>
     (mtc_rounds c = [] \<longrightarrow> \<not> mtc_sequence c) \<and>
     (mtc_rounds c \<noteq> [] \<longrightarrow>
        sum_list (map round_tool_count (mtc_rounds c)) = length (mtc_tool_results c))"

lemma rounds_cover_new [simp]: "rounds_cover (MessageContentToolCalls_new rs t th)"
  by (simp add: rounds_cover_def MessageContentToolCalls_new_def)

lemma rounds_cover_merge:
  "rounds_cover c \<Longrightarrow> rounds_cover (MessageContentToolCalls_merge c rs t th)"
  by (auto simp: rounds_cover_def MessageContentToolCalls_merge_def Let_def)

definition merge_round ::
  "MessageContentToolCalls \<Rightarrow> ToolResult list \<times> string \<times> string option \<Rightarrow> MessageContentToolCalls"
  where "merge_round c r = (case r of (results, t, th) \<Rightarrow> MessageContentToolCalls_merge c results t th)"

interpretation tool_rounds: log_replay merge_round "MessageContentToolCalls_new rs t th" rounds_cover
  for rs t th
  by unfold_locales (auto simp: merge_round_def rounds_cover_merge split: prod.splits)

text \<open>Deduplication, seen from the front: a call stays unless a later one has its id.\<close>

fun dedup_spec :: "ToolCall list \<Rightarrow> ToolCall list" where
  "dedup_spec [] = []"
| "dedup_spec (c # cs) =
     (case call_id c of
        Some i \<Rightarrow> if i \<in> {j. Some j \<in> call_id ` set cs} then dedup_spec cs else c # dedup_spec cs
      | None \<Rightarrow> c # dedup_spec cs)"

lemma dedup_loop_snoc:
  "ToolCall_dedup_loop (xs @ [c]) seen acc =
     ToolCall_dedup_loop xs seen acc @
     (case call_id c of
        Some i \<Rightarrow> if i \<in> seen \<or> Some i \<in> call_id ` set xs then [] else [c]
      | None \<Rightarrow> [c])"
  by (induction xs seen acc rule: ToolCall_dedup_loop.induct) (auto split: option.splits)

lemma ToolCall_dedup_eq: "ToolCall_dedup calls = dedup_spec calls"
  by (induction calls) (auto simp: ToolCall_dedup_def dedup_loop_snoc split: option.splits)

lemma dedup_spec_ids: "call_id ` set (dedup_spec cs) = call_id ` set cs"
  by (induction cs) (auto split: option.splits)

lemma foldl_max_Max: "foldl max (f :: nat) fs = Max (insert f (set fs))"
proof (induction fs rule: rev_induct)
  case (snoc g fs)
  have "Max (insert f (set (fs @ [g]))) = Max (insert g (insert f (set fs)))"
    by (simp add: insert_commute)
  also have "\<dots> = max g (Max (insert f (set fs)))" by (rule Max_insert) auto
  finally show ?case by (simp add: snoc max.commute)
qed simp

lemma max_worker_fence_token_eq:
  "max_worker_fence_token es =
     (if \<exists>e \<in> set es. fence_token e \<noteq> None
      then Some (Max {f. \<exists>e \<in> set es. fence_token e = Some f}) else None)"
proof (cases "filter_map fence_token es")
  case Nil
  then have "\<forall>e \<in> set es. fence_token e = None"
    by (induction es) (auto split: option.splits)
  with Nil show ?thesis by (auto simp: max_worker_fence_token_def)
next
  case (Cons f fs)
  then have "insert f (set fs) = {f. \<exists>e \<in> set es. fence_token e = Some f}"
    using set_filter_map [of fence_token es] by simp
  moreover from this have "f \<in> {f. \<exists>e \<in> set es. fence_token e = Some f}" by blast
  then have "\<exists>e \<in> set es. fence_token e \<noteq> None" by auto
  ultimately show ?thesis using Cons by (simp add: max_worker_fence_token_def foldl_max_Max)
qed

end
