(* ===== verification/Timing_Identity.thy ===== *)
theory Timing_Identity
  imports Session_Types
begin

text \<open>
  The two classifiers that keep runtime-authored context rows out of prompt handling:
  versioned timing notices (\<open>harnx-core/src/timing_identity.rs\<close>), recognised by their
  text, and runtime notes (\<open>runtime_note.rs\<close>), recognised by their reserved message id.
  \<open>serde_json\<close> on the receipt is a parameter: \<open>of_json\<close> for \<open>from_str(..).ok()\<close> and
  \<open>to_json\<close> for \<open>to_string\<close>.
\<close>

unbundle bit_operations_syntax

section \<open>Milestone coverage\<close>

datatype MilestoneCoverage = MilestoneCoverage (coverage_bits: u32)

definition coverage_NONE :: MilestoneCoverage where
  "coverage_NONE = MilestoneCoverage 0"

definition coverage_INITIAL :: MilestoneCoverage where
  "coverage_INITIAL = MilestoneCoverage (push_bit 0 1)"

definition coverage_PERCENT_50 :: MilestoneCoverage where
  "coverage_PERCENT_50 = MilestoneCoverage (push_bit 1 1)"

definition coverage_PERCENT_75 :: MilestoneCoverage where
  "coverage_PERCENT_75 = MilestoneCoverage (push_bit 2 1)"

definition coverage_PERCENT_90 :: MilestoneCoverage where
  "coverage_PERCENT_90 = MilestoneCoverage (push_bit 3 1)"

definition coverage_ALL_PERCENTAGES :: MilestoneCoverage where
  "coverage_ALL_PERCENTAGES = MilestoneCoverage 0b1110"

definition coverage_contains :: "MilestoneCoverage \<Rightarrow> MilestoneCoverage \<Rightarrow> bool" where
  "coverage_contains self milestone \<longleftrightarrow> coverage_bits self AND coverage_bits milestone \<noteq> 0"

definition coverage_bitor :: "MilestoneCoverage \<Rightarrow> MilestoneCoverage \<Rightarrow> MilestoneCoverage" where
  "coverage_bitor self rhs = MilestoneCoverage (coverage_bits self OR coverage_bits rhs)"

definition coverage_add :: "MilestoneCoverage \<Rightarrow> MilestoneCoverage \<Rightarrow> MilestoneCoverage" where
  "coverage_add self milestone = MilestoneCoverage (coverage_bits self OR coverage_bits milestone)"

definition percentage_coverage :: "MilestoneCoverage \<Rightarrow> MilestoneCoverage" where
  "percentage_coverage self =
     MilestoneCoverage (coverage_bits self AND coverage_bits coverage_ALL_PERCENTAGES)"

lemmas coverage_consts =
  coverage_NONE_def coverage_INITIAL_def coverage_PERCENT_50_def coverage_PERCENT_75_def
  coverage_PERCENT_90_def coverage_ALL_PERCENTAGES_def

text \<open>Coverage is a semilattice: \<open>BitOr\<close> is the join and \<open>NONE\<close> the least element.\<close>

instantiation MilestoneCoverage :: "{semilattice_sup, order_bot}"
begin

definition sup_MilestoneCoverage where
  "sup_MilestoneCoverage = coverage_bitor"

definition bot_MilestoneCoverage where
  "bot_MilestoneCoverage = coverage_NONE"

definition less_eq_MilestoneCoverage where
  "less_eq_MilestoneCoverage a b \<longleftrightarrow> coverage_bitor a b = b"

definition less_MilestoneCoverage where
  "less_MilestoneCoverage a b \<longleftrightarrow> coverage_bitor a b = b \<and> a \<noteq> (b :: MilestoneCoverage)"

instance
proof
  fix a b c :: MilestoneCoverage
  note defs = sup_MilestoneCoverage_def bot_MilestoneCoverage_def
    less_eq_MilestoneCoverage_def less_MilestoneCoverage_def coverage_bitor_def coverage_NONE_def
  show "(a < b) = (a \<le> b \<and> \<not> b \<le> a)"
    by (cases a; cases b) (auto simp: defs or.commute)
  show "a \<le> a" by (cases a) (simp add: defs)
  show "a \<le> c" if "a \<le> b" "b \<le> c"
    using that by (cases a; cases b; cases c) (auto simp: defs, metis or.assoc)
  show "a = b" if "a \<le> b" "b \<le> a"
    using that by (cases a; cases b) (auto simp: defs or.commute)
  show "a \<le> sup a b" by (cases a; cases b) (simp add: defs or.left_idem flip: or.assoc)
  show "b \<le> sup a b" by (cases a; cases b) (simp add: defs ac_simps)
  show "sup b c \<le> a" if "b \<le> a" "c \<le> a"
    using that by (cases a; cases b; cases c) (auto simp: defs or.assoc)
  show "bot \<le> a" by (cases a) (simp add: defs)
qed

end

lemma coverage_contains_mono:
  assumes "a \<le> b" and "coverage_contains a m"
  shows "coverage_contains b m"
proof -
  from assms(1) have "coverage_bits b = coverage_bits a OR coverage_bits b"
    by (cases a; cases b) (simp add: less_eq_MilestoneCoverage_def coverage_bitor_def)
  moreover have "(coverage_bits a OR coverage_bits b) AND coverage_bits m =
      (coverage_bits a AND coverage_bits m) OR (coverage_bits b AND coverage_bits m)"
    by (rule bit_word_eqI) (auto simp: bit_simps)
  ultimately show ?thesis using assms(2) by (auto simp: coverage_contains_def)
qed

section \<open>Receipts\<close>

definition TIMING_NOTE_PREFIX :: string where
  "TIMING_NOTE_PREFIX = ''[Runtime note] '' @ [CHR 0xE2, CHR 0x8F, CHR 0xB1] @ '' ''"

definition TIMING_SCHEMA_VERSION :: string where
  "TIMING_SCHEMA_VERSION = ''v1''"

definition TIMING_MESSAGE_ID_PREFIX :: string where
  "TIMING_MESSAGE_ID_PREFIX = ''timing-v1-''"

definition TIMING_HEADER :: string where
  "TIMING_HEADER = ''[Runtime note] '' @ [CHR 0xE2, CHR 0x8F, CHR 0xB1] @ '' v1 ''"

definition TIMING_CONTEXT_SEPARATOR :: string where
  "TIMING_CONTEXT_SEPARATOR = '' | ''"

record TimingReceipt =
  rcpt_version :: string
  rcpt_origin :: instant
  rcpt_invocation_id :: string
  rcpt_coverage :: MilestoneCoverage
  rcpt_highest_elapsed_bucket :: u32

definition TimingReceipt_new ::
  "instant \<Rightarrow> string \<Rightarrow> MilestoneCoverage \<Rightarrow> u32 \<Rightarrow> TimingReceipt" where
  "TimingReceipt_new origin invocation_id coverage bucket =
     \<lparr>rcpt_version = TIMING_SCHEMA_VERSION, rcpt_origin = origin,
      rcpt_invocation_id = invocation_id, rcpt_coverage = coverage,
      rcpt_highest_elapsed_bucket = bucket\<rparr>"

definition TimingReceipt_initial :: "instant \<Rightarrow> string \<Rightarrow> TimingReceipt" where
  "TimingReceipt_initial origin invocation_id =
     TimingReceipt_new origin invocation_id coverage_INITIAL 0"

definition from_notice_line ::
  "(string \<Rightarrow> TimingReceipt option) \<Rightarrow> string \<Rightarrow> TimingReceipt option" where
  "from_notice_line of_json line =
     (case strip_prefix_str line TIMING_HEADER of
        None \<Rightarrow> None
      | Some after_prefix \<Rightarrow>
          (let json_part =
             (case str_find after_prefix TIMING_CONTEXT_SEPARATOR of
                Some sep_pos \<Rightarrow> take sep_pos after_prefix
              | None \<Rightarrow> after_prefix)
           in of_json (str_trim json_part)))"

definition context_start :: "string \<Rightarrow> nat option" where
  "context_start line =
     (case strip_prefix_str line TIMING_HEADER of
        None \<Rightarrow> None
      | Some after_prefix \<Rightarrow>
          map_option (\<lambda>pos. length TIMING_HEADER + pos + length TIMING_CONTEXT_SEPARATOR)
            (str_find after_prefix TIMING_CONTEXT_SEPARATOR))"

definition is_timing_notice :: "(string \<Rightarrow> TimingReceipt option) \<Rightarrow> string \<Rightarrow> bool" where
  "is_timing_notice of_json t =
     (if \<not> starts_with t TIMING_HEADER then False else from_notice_line of_json t \<noteq> None)"

record TimingCacheKey =
  key_storage :: string
  key_session_id :: string
  key_invocation_id :: string

section \<open>Runtime notes\<close>

definition RUNTIME_NOTE_PREFIX :: string where
  "RUNTIME_NOTE_PREFIX = ''[Runtime note] ''"

definition RUNTIME_NOTE_ID_PREFIX :: string where
  "RUNTIME_NOTE_ID_PREFIX = ''runtime-note-v1-''"

text \<open>The fresh \<open>Uuid::new_v4()\<close> is an argument.\<close>

definition new_runtime_note_message_id :: "string \<Rightarrow> string" where
  "new_runtime_note_message_id uuid = RUNTIME_NOTE_ID_PREFIX @ uuid"

definition is_runtime_note_message_id :: "string \<Rightarrow> bool" where
  "is_runtime_note_message_id i = starts_with i RUNTIME_NOTE_ID_PREFIX"

definition is_runtime_note_id :: "string option \<Rightarrow> bool" where
  "is_runtime_note_id i = (case i of None \<Rightarrow> False | Some s \<Rightarrow> is_runtime_note_message_id s)"

definition is_reserved_message_id :: "string \<Rightarrow> bool" where
  "is_reserved_message_id i \<longleftrightarrow>
     is_runtime_note_message_id i \<or> starts_with i TIMING_MESSAGE_ID_PREFIX"

section \<open>Properties\<close>

lemma is_runtime_note_id_new [simp]: "is_runtime_note_id (Some (new_runtime_note_message_id u))"
  by (simp add: is_runtime_note_id_def is_runtime_note_message_id_def
      new_runtime_note_message_id_def)

lemma is_reserved_new [simp]: "is_reserved_message_id (new_runtime_note_message_id u)"
  by (simp add: is_reserved_message_id_def is_runtime_note_message_id_def
      new_runtime_note_message_id_def)

lemma is_timing_notice_unparsed [simp]: "\<not> is_timing_notice (\<lambda>_. None) t"
  by (simp add: is_timing_notice_def from_notice_line_def Let_def split: option.split)

text \<open>A prompt whose id is not reserved is never hidden as a runtime note.\<close>

lemma unreserved_not_note: "\<not> is_reserved_message_id i \<Longrightarrow> \<not> is_runtime_note_id (Some i)"
  by (simp add: is_reserved_message_id_def is_runtime_note_id_def)

text \<open>Without a bar in the receipt, the separator is found right after it.\<close>

lemma str_find_separator:
  assumes "CHR ''|'' \<notin> set j"
  shows "str_find (j @ TIMING_CONTEXT_SEPARATOR @ ctx) TIMING_CONTEXT_SEPARATOR = Some (length j)"
  using assms
proof (induction j)
  case Nil
  show ?case by (simp add: TIMING_CONTEXT_SEPARATOR_def)
next
  case (Cons c j)
  have "\<not> prefix TIMING_CONTEXT_SEPARATOR (c # j @ TIMING_CONTEXT_SEPARATOR @ ctx)"
    using Cons.prems by (cases j) (auto simp: TIMING_CONTEXT_SEPARATOR_def)
  with Cons show ?case by simp
qed

lemma from_notice_line_format:
  assumes "CHR ''|'' \<notin> set j"
  shows "from_notice_line of_json (TIMING_HEADER @ j @ TIMING_CONTEXT_SEPARATOR @ ctx) =
    of_json (str_trim j)"
  using str_find_separator [OF assms, of ctx] by (simp add: from_notice_line_def)

end
