(* ===== verification/Log_Mutations.thy ===== *)
theory Log_Mutations
  imports Timing_Identity
begin

text \<open>
  The mutation resolver and the active context window of
  \<open>harnx-core/src/session_reconstruct.rs\<close>: a session log is append-only, so edits and
  rewinds are entries too, and every reader first folds them into the effective entry
  stream. \<open>yaml\<close> stands for \<open>serde_yaml::from_str::<SessionLogEntry>(..).ok()\<close> on a
  replacement document; log warnings are not modelled.
\<close>

type_synonym log = "(seq \<times> SessionLogEntry) list"
type_synonym yaml_parser = "string \<Rightarrow> SessionLogEntry option"

section \<open>Resolving mutations\<close>

definition seq_is :: "seq \<Rightarrow> seq \<times> SessionLogEntry \<Rightarrow> bool" where
  "seq_is s e \<longleftrightarrow> fst e = s"

text \<open>One iteration of the resolver's loop over the raw entries.\<close>

definition apply_log_step :: "yaml_parser \<Rightarrow> log \<Rightarrow> seq \<times> SessionLogEntry \<Rightarrow> log" where
  "apply_log_step yaml effective row =
     (case row of (seq, entry) \<Rightarrow>
       (case entry of
          Rewind after_seq \<Rightarrow>
            if \<not> list_ex (seq_is after_seq) effective then effective
            else filter (\<lambda>e. fst e \<le> after_seq) effective
        | EditEntries from to replacements \<Rightarrow>
            if to < from then effective
            else (case position (seq_is from) effective of
                    None \<Rightarrow> effective
                  | Some start_idx \<Rightarrow>
                      (case rposition (seq_is to) effective of
                         None \<Rightarrow> effective
                       | Some end_idx \<Rightarrow>
                           if end_idx < start_idx then effective
                           else vec_splice start_idx end_idx
                                  (filter_map (\<lambda>r. map_option (Pair seq) (yaml r)) replacements)
                                  effective))
        | TurnEnd _ _ _ _ \<Rightarrow> effective
        | AdmissionClosed _ _ _ _ \<Rightarrow> effective
        | Unknown \<Rightarrow> effective
        | _ \<Rightarrow> effective @ [(seq, entry)]))"

definition apply_log_mutations_with_name :: "yaml_parser \<Rightarrow> log \<Rightarrow> string \<Rightarrow> log" where
  "apply_log_mutations_with_name yaml raw_entries name = foldl (apply_log_step yaml) [] raw_entries"

definition apply_log_mutations :: "yaml_parser \<Rightarrow> log \<Rightarrow> log" where
  "apply_log_mutations yaml raw_entries =
     apply_log_mutations_with_name yaml raw_entries ''session''"

text \<open>
  The JetStream wrapper converts sequence numbers to the platform's \<open>usize\<close> and back;
  \<open>usize_max\<close> is the platform's bound. The way back is an \<open>expect\<close>, whose panic is an
  error value here.
\<close>

datatype SeqError = SeqDoesNotFit seq | EffectiveSeqPanic seq

definition u64_max :: nat where
  "u64_max = 2 ^ 64 - 1"

definition apply_log_mutations_nats :: "nat \<Rightarrow> yaml_parser \<Rightarrow> log \<Rightarrow> SeqError + log" where
  "apply_log_mutations_nats usize_max yaml raw_entries =
     (case try_collect
             (\<lambda>(seq, entry). if seq \<le> usize_max then Inr (seq, entry) else Inl (SeqDoesNotFit seq))
             raw_entries of
        Inl err \<Rightarrow> Inl err
      | Inr raw_with_seq \<Rightarrow>
          try_collect
            (\<lambda>(seq, entry). if seq \<le> u64_max then Inr (seq, entry) else Inl (EffectiveSeqPanic seq))
            (apply_log_mutations yaml raw_with_seq))"

section \<open>The active context window\<close>

definition after_last :: "('e \<Rightarrow> bool) \<Rightarrow> 'e list \<Rightarrow> nat" where
  "after_last boundary entries =
     (case rposition boundary entries of None \<Rightarrow> 0 | Some index \<Rightarrow> index + 1)"

definition is_context_boundary :: "SessionLogEntry \<Rightarrow> bool" where
  "is_context_boundary entry = (case entry of Compress _ \<Rightarrow> True | _ \<Rightarrow> False)"

record LogicalEntryRef =
  logical_index :: nat
  physical_seq :: seq

record ActiveContextWindow =
  window_entries :: log
  window_boundary_index :: "nat option"

definition active_context_window :: "log \<Rightarrow> ActiveContextWindow" where
  "active_context_window entries =
     (let start = after_last (\<lambda>e. is_context_boundary (snd e)) entries
      in \<lparr>window_entries = drop start entries,
          window_boundary_index = (if start = 0 then None else Some (start - 1))\<rparr>)"

definition logical_entries :: "ActiveContextWindow \<Rightarrow> LogicalEntryRef list" where
  "logical_entries w =
     map (\<lambda>(i, e). \<lparr>logical_index = i, physical_seq = fst e\<rparr>)
       (List.enumerate 0 (window_entries w))"

definition physical_seq_for_logical :: "ActiveContextWindow \<Rightarrow> nat \<Rightarrow> seq option" where
  "physical_seq_for_logical w i =
     (if i < length (window_entries w) then Some (fst (window_entries w ! i)) else None)"

definition logical_indices_for_physical :: "ActiveContextWindow \<Rightarrow> seq \<Rightarrow> nat list" where
  "logical_indices_for_physical w s =
     map logical_index (filter (\<lambda>r. physical_seq r = s) (logical_entries w))"

definition is_protected_logical_index :: "ActiveContextWindow \<Rightarrow> nat \<Rightarrow> bool" where
  "is_protected_logical_index w i \<longleftrightarrow>
     i < length (window_entries w) \<and> is_context_boundary (snd (window_entries w ! i))"

section \<open>Cutting at the last boundary\<close>

interpretation last_boundary: log_cut P "after_last P" for P
proof
  fix es :: "'a list" and e
  show "after_last P es \<le> length es"
    by (auto simp: after_last_def dest: rposition_SomeD split: option.splits)
  show "\<not> P e" if "e \<in> set (drop (after_last P es) es)"
    using that
    by (auto simp: after_last_def rposition_None_iff in_set_conv_nth dest!: rposition_SomeD
        split: option.splits)
  show "P (es ! (after_last P es - 1))" if "0 < after_last P es"
    using that by (auto simp: after_last_def dest: rposition_SomeD split: option.splits)
qed

lemma after_last_0_iff: "after_last P es = 0 \<longleftrightarrow> (\<forall>e \<in> set es. \<not> P e)"
  using rposition_None_iff [of P es] by (auto simp: after_last_def split: option.splits)

section \<open>Laws of the resolver\<close>

definition control_row :: "SessionLogEntry \<Rightarrow> bool" where
  "control_row e =
     (case e of
        Rewind _ \<Rightarrow> True | EditEntries _ _ _ \<Rightarrow> True | TurnEnd _ _ _ _ \<Rightarrow> True
      | AdmissionClosed _ _ _ _ \<Rightarrow> True | Unknown \<Rightarrow> True | _ \<Rightarrow> False)"

lemma apply_log_step_plain: "\<not> control_row (snd row) \<Longrightarrow> apply_log_step yaml eff row = eff @ [row]"
  by (cases row; cases "snd row") (auto simp: apply_log_step_def control_row_def)

lemma apply_log_step_seqs:
  "fst ` set (apply_log_step yaml eff row) \<subseteq> insert (fst row) (fst ` set eff)"
proof (cases "control_row (snd row)")
  case True
  then show ?thesis
    by (cases row; cases "snd row")
       (auto simp: apply_log_step_def control_row_def split: option.splits if_splits
         dest!: set_vec_splice_subset [THEN subsetD])
qed (auto simp: apply_log_step_plain)

lemma foldl_apply_log_step_seqs:
  "fst ` set (foldl (apply_log_step yaml) eff raw) \<subseteq> fst ` set eff \<union> fst ` set raw"
proof (induction raw arbitrary: eff)
  case (Cons row raw)
  from Cons [of "apply_log_step yaml eff row"] apply_log_step_seqs [of yaml eff row]
  show ?case by auto
qed simp

lemma apply_log_mutations_seqs:
  "fst ` set (apply_log_mutations yaml raw) \<subseteq> fst ` set raw"
  using foldl_apply_log_step_seqs [of yaml "[]" raw]
  by (simp add: apply_log_mutations_def apply_log_mutations_with_name_def)

text \<open>With replacements that are ordinary rows, no control row survives resolution.\<close>

definition no_control :: "log \<Rightarrow> bool" where
  "no_control es \<longleftrightarrow> (\<forall>e \<in> set es. \<not> control_row (snd e))"

definition plain_yaml :: "yaml_parser \<Rightarrow> bool" where
  "plain_yaml yaml \<longleftrightarrow> (\<forall>doc e. yaml doc = Some e \<longrightarrow> \<not> control_row e)"

lemma apply_log_step_no_control:
  assumes "plain_yaml yaml" "no_control eff"
  shows "no_control (apply_log_step yaml eff row)"
proof (cases "control_row (snd row)")
  case True
  then show ?thesis
    using assms
    by (cases row; cases "snd row")
       (auto simp: apply_log_step_def control_row_def no_control_def plain_yaml_def
         split: option.splits if_splits dest!: set_vec_splice_subset [THEN subsetD])
next
  case False
  then show ?thesis using assms(2) by (auto simp: apply_log_step_plain no_control_def)
qed

lemma foldl_apply_log_step_plain:
  "no_control raw \<Longrightarrow> foldl (apply_log_step yaml) eff raw = eff @ raw"
  by (induction raw arbitrary: eff) (auto simp: no_control_def apply_log_step_plain)

lemma apply_log_mutations_plain: "no_control raw \<Longrightarrow> apply_log_mutations yaml raw = raw"
  by (simp add: apply_log_mutations_def apply_log_mutations_with_name_def
      foldl_apply_log_step_plain)

lemma apply_log_mutations_snoc:
  "apply_log_mutations yaml (raw @ [row]) =
     apply_log_step yaml (apply_log_mutations yaml raw) row"
  by (simp add: apply_log_mutations_def apply_log_mutations_with_name_def)

interpretation resolver: log_replay "apply_log_step yaml" "[]"
  "\<lambda>es. plain_yaml yaml \<longrightarrow> no_control es" for yaml
  by unfold_locales (auto simp: no_control_def [of "[]"] intro: apply_log_step_no_control)

lemma apply_log_mutations_no_control: "plain_yaml yaml \<Longrightarrow> no_control (apply_log_mutations yaml raw)"
  using resolver.inv_run [of yaml raw]
  by (simp add: apply_log_mutations_def apply_log_mutations_with_name_def)

text \<open>In a log with increasing sequence numbers, a row splits it by sequence.\<close>

lemma increasing_split:
  fixes xs :: log
  assumes "sorted_wrt (<) (map fst xs)" and "i < length xs"
  shows "take i xs = filter (\<lambda>e. fst e < fst (xs ! i)) xs"
    and "drop (Suc i) xs = filter (\<lambda>e. fst (xs ! i) < fst e) xs"
proof -
  let ?x = "xs ! i"
  have split: "xs = take i xs @ ?x # drop (Suc i) xs"
    using id_take_nth_drop [OF assms(2)] .
  have "sorted_wrt (<) (map fst (take i xs @ ?x # drop (Suc i) xs))"
    using assms(1) split by simp
  then have lo: "\<forall>e \<in> set (take i xs). fst e < fst ?x" and hi: "\<forall>e \<in> set (drop (Suc i) xs). fst ?x < fst e"
    by (auto simp: sorted_wrt_append)
  have "filter (\<lambda>e. fst e < fst ?x) (take i xs @ ?x # drop (Suc i) xs) = take i xs"
    using lo hi by (fastforce simp: filter_id_conv filter_empty_conv)
  then show "take i xs = filter (\<lambda>e. fst e < fst ?x) xs" using split by simp
  have "filter (\<lambda>e. fst ?x < fst e) (take i xs @ ?x # drop (Suc i) xs) = drop (Suc i) xs"
    using lo hi by (fastforce simp: filter_id_conv filter_empty_conv)
  then show "drop (Suc i) xs = filter (\<lambda>e. fst ?x < fst e) xs" using split by simp
qed

lemma increasing_nth_le:
  fixes xs :: log
  assumes "sorted_wrt (<) (map fst xs)" "i < length xs" "j < length xs"
  shows "fst (xs ! i) \<le> fst (xs ! j) \<longleftrightarrow> i \<le> j"
  using assms sorted_wrt_nth_less [of "(<)" "map fst xs" i j]
    sorted_wrt_nth_less [of "(<)" "map fst xs" j i]
  by (cases i j rule: linorder_cases) auto

lemma increasing_filter_outside:
  fixes xs :: log
  assumes "sorted_wrt (<) (map fst xs)" "f \<le> t"
  shows "filter (\<lambda>e. Q e \<and> \<not> (f \<le> fst e \<and> fst e \<le> t)) xs =
    filter (\<lambda>e. Q e \<and> fst e < f) xs @ filter (\<lambda>e. Q e \<and> t < fst e) xs"
  using assms(1)
proof (induction xs)
  case (Cons x xs)
  have "filter (\<lambda>e. Q e \<and> fst e < f) xs = []" if "f \<le> fst x"
    using Cons.prems that by (auto simp: filter_empty_conv)
  with Cons assms(2) show ?case by (auto simp: not_le not_less)
qed simp

lemma apply_edit_increasing:
  assumes "sorted_wrt (<) (map fst eff)" and "f \<in> fst ` set eff" and "t \<in> fst ` set eff" and "f \<le> t"
  shows "apply_log_step yaml eff (n, EditEntries f t docs) =
    filter (\<lambda>e. fst e < f) eff
    @ filter_map (\<lambda>r. map_option (Pair n) (yaml r)) docs
    @ filter (\<lambda>e. t < fst e) eff"
proof -
  obtain i where i: "position (seq_is f) eff = Some i"
    using assms(2) by (cases "position (seq_is f) eff") (auto simp: position_None_iff seq_is_def)
  obtain j where j: "rposition (seq_is t) eff = Some j"
    using assms(3) by (cases "rposition (seq_is t) eff") (auto simp: rposition_None_iff seq_is_def)
  have i': "i < length eff" "fst (eff ! i) = f" and j': "j < length eff" "fst (eff ! j) = t"
    using position_SomeD [OF i] rposition_SomeD [OF j] by (auto simp: seq_is_def)
  have "i \<le> j" using increasing_nth_le [OF assms(1) i'(1) j'(1)] i' j' assms(4) by simp
  moreover have "take i eff = filter (\<lambda>e. fst e < f) eff"
    using increasing_split(1) [OF assms(1) i'(1)] i'(2) by simp
  moreover have "drop (Suc j) eff = filter (\<lambda>e. t < fst e) eff"
    using increasing_split(2) [OF assms(1) j'(1)] j'(2) by simp
  ultimately show ?thesis
    using i j assms(4) by (simp add: apply_log_step_def vec_splice_def)
qed

lemma apply_rewind_present:
  "k \<in> fst ` set eff \<Longrightarrow> apply_log_step yaml eff (n, Rewind k) = filter (\<lambda>e. fst e \<le> k) eff"
  by (auto simp: apply_log_step_def list_ex_iff seq_is_def)

lemma apply_log_mutations_nats_fits:
  assumes "usize_max \<le> u64_max" "\<forall>e \<in> set raw. fst e \<le> usize_max"
  shows "apply_log_mutations_nats usize_max yaml raw = Inr (apply_log_mutations yaml raw)"
proof -
  have "\<forall>e \<in> set (apply_log_mutations yaml raw). fst e \<le> u64_max"
    using apply_log_mutations_seqs [of yaml raw] assms by fastforce
  with assms(2) show ?thesis
    unfolding apply_log_mutations_nats_def
    by (subst try_collect_Inr [where g = id], force)
       (simp, subst try_collect_Inr [where g = id], force, simp)
qed

section \<open>Properties\<close>

text \<open>
  Resolving a log never invents a sequence number: every row of the effective
  stream carries the sequence number of some raw row, so the conversion back to
  JetStream numbers cannot panic, and the wrapper fails exactly on the first raw
  sequence the platform's \<open>usize\<close> cannot hold.
\<close>

theorem apply_log_mutations_nats_spec:
  assumes "usize_max \<le> u64_max"
  shows "apply_log_mutations_nats usize_max yaml raw =
    (case find (\<lambda>e. usize_max < fst e) raw of
       Some e \<Rightarrow> Inl (SeqDoesNotFit (fst e))
     | None \<Rightarrow> Inr (apply_log_mutations yaml raw))"
proof (cases "find (\<lambda>e. usize_max < fst e) raw")
  case None
  then have "\<forall>e \<in> set raw. fst e \<le> usize_max" by (auto simp: find_None_iff)
  from apply_log_mutations_nats_fits [OF assms this]
  have "apply_log_mutations_nats usize_max yaml raw = Inr (apply_log_mutations yaml raw)" .
  with None show ?thesis by simp
next
  case (Some e)
  have "try_collect (\<lambda>(seq, entry). if seq \<le> usize_max then Inr (seq, entry)
      else Inl (SeqDoesNotFit seq)) raw = Inl (SeqDoesNotFit (fst e))"
    using Some by (induction raw) (auto split: if_splits)
  with Some show ?thesis by (simp add: apply_log_mutations_nats_def)
qed

theorem apply_log_mutations_nats_spec_witness:
  "apply_log_mutations_nats (2 ^ 32 - 1) (\<lambda>_. None)
     [(1, Clear), (2 ^ 33, Clear), (3, Rewind 1)] = Inl (SeqDoesNotFit (2 ^ 33))"
proof -
  have "(2 ^ 32 - 1 :: nat) \<le> u64_max" by (simp add: u64_max_def)
  from apply_log_mutations_nats_spec [OF this] show ?thesis by simp
qed

text \<open>
  As long as no replacement document is itself a control row, the effective stream
  holds no mutation, \<open>TurnEnd\<close>, \<open>AdmissionClosed\<close> or unknown row, and resolving it again
  changes nothing.
\<close>

theorem apply_log_mutations_idempotent:
  assumes "plain_yaml yaml"
  shows "(\<forall>e \<in> set (apply_log_mutations yaml raw). \<not> control_row (snd e)) \<and>
    apply_log_mutations yaml (apply_log_mutations yaml raw) = apply_log_mutations yaml raw"
  using apply_log_mutations_no_control [OF assms, of raw] apply_log_mutations_plain
  by (simp add: no_control_def)

theorem apply_log_mutations_idempotent_witness:
  "let yaml = (\<lambda>doc. if doc = ''clear'' then Some Clear else None);
       eff = apply_log_mutations yaml [(1, Clear), (2, EditEntries 1 1 [''clear'', ''?''])]
   in eff = [(2, Clear)] \<and> apply_log_mutations yaml eff = eff"
proof -
  let ?yaml = "\<lambda>doc. if doc = ''clear'' then Some Clear else None"
  have "plain_yaml ?yaml" by (simp add: plain_yaml_def control_row_def)
  from apply_log_mutations_idempotent
    [OF this, of "[(1, Clear), (2, EditEntries 1 1 [''clear'', ''?''])]"]
  show ?thesis
    by (simp add: Let_def apply_log_mutations_def apply_log_mutations_with_name_def
        apply_log_step_def vec_splice_def seq_is_def)
qed

text \<open>
  On an effective stream with increasing sequence numbers, an \<open>EditEntries\<close> row whose
  ends are both present removes exactly the rows in its inclusive range, puts the
  replacements that parse in their place under its own sequence number, and keeps
  every other row in order; with no replacements it is a deletion.
\<close>

theorem edit_replaces_range:
  assumes "eff = apply_log_mutations yaml raw"
    and "sorted_wrt (<) (map fst eff)"
    and "f \<in> fst ` set eff" and "t \<in> fst ` set eff" and "f \<le> t"
  shows "apply_log_mutations yaml (raw @ [(n, EditEntries f t docs)]) =
      filter (\<lambda>e. fst e < f) eff
      @ filter_map (\<lambda>doc. map_option (Pair n) (yaml doc)) docs
      @ filter (\<lambda>e. t < fst e) eff"
  unfolding apply_log_mutations_snoc assms(1) [symmetric]
  using apply_edit_increasing [OF assms(2-5)] .

theorem edit_replaces_range_witness:
  "apply_log_mutations (\<lambda>doc. Some (Compress doc))
     ([(1, Clear), (2, Clear), (3, Clear)] @ [(4, EditEntries 1 2 [''s''])]) =
   [(4, Compress ''s''), (3, Clear)]"
proof -
  let ?raw = "[(1, Clear), (2, Clear), (3, Clear)] :: log"
  have "apply_log_mutations (\<lambda>doc. Some (Compress doc)) ?raw = ?raw"
    by (rule apply_log_mutations_plain) (simp add: no_control_def control_row_def)
  note e = edit_replaces_range [OF this [symmetric], of 1 2 4 "[''s'']"]
  show ?thesis by (subst e) auto
qed

text \<open>
  A rewind does not undo an edit. When a log is edited at sequence \<open>n\<close> and later
  rewound to a row \<open>k\<close> that follows the edited range but precedes \<open>n\<close>, the rows of the
  edited range are gone and so are their replacements: the stream keeps exactly the
  rows up to \<open>k\<close> outside the range, although the replacements stood before \<open>k\<close>.
\<close>

theorem rewind_past_edit_loses_replacements:
  assumes "no_control raw" and "sorted_wrt (<) (map fst raw)"
    and "f \<in> fst ` set raw" and "t \<in> fst ` set raw" and "f \<le> t"
    and "k \<in> fst ` set raw" and "t < k" and "k < n"
  shows "apply_log_mutations yaml (raw @ [(n, EditEntries f t docs), (m, Rewind k)]) =
    filter (\<lambda>e. fst e \<le> k \<and> \<not> (f \<le> fst e \<and> fst e \<le> t)) raw"
proof -
  let ?repl = "filter_map (\<lambda>doc. map_option (Pair n) (yaml doc)) docs"
  let ?edited = "filter (\<lambda>e. fst e < f) raw @ ?repl @ filter (\<lambda>e. t < fst e) raw"
  have plain: "apply_log_mutations yaml raw = raw" by (rule apply_log_mutations_plain [OF assms(1)])
  have edit: "apply_log_mutations yaml (raw @ [(n, EditEntries f t docs)]) = ?edited"
    using apply_edit_increasing [OF assms(2-5)] by (simp add: apply_log_mutations_snoc plain)
  have "k \<in> fst ` set ?edited" using assms(6,7) by force
  then have "apply_log_mutations yaml (raw @ [(n, EditEntries f t docs), (m, Rewind k)]) =
      filter (\<lambda>e. fst e \<le> k) ?edited"
    using apply_log_mutations_snoc [of yaml "raw @ [(n, EditEntries f t docs)]" "(m, Rewind k)"]
    by (simp add: edit apply_rewind_present del: filter_append)
  moreover have "filter (\<lambda>e. fst e \<le> k) ?repl = []"
    using assms(8) by (auto simp: filter_empty_conv)
  moreover have "filter (\<lambda>e. fst e \<le> k \<and> \<not> (f \<le> fst e \<and> fst e \<le> t)) raw =
      filter (\<lambda>e. fst e \<le> k \<and> fst e < f) raw @ filter (\<lambda>e. fst e \<le> k \<and> t < fst e) raw"
    using increasing_filter_outside [OF assms(2,5)] .
  ultimately show ?thesis by (simp add: conj_commute)
qed

theorem rewind_past_edit_loses_replacements_witness:
  "apply_log_mutations (\<lambda>doc. Some (Compress doc))
     ([(1, Clear), (2, Clear), (3, Clear)] @ [(4, EditEntries 1 1 [''fixed'']), (5, Rewind 3)]) =
   [(2, Clear), (3, Clear)]"
  by (subst rewind_past_edit_loses_replacements) (auto simp: no_control_def control_row_def)

text \<open>
  The active context window is the suffix after the last compaction marker: it holds
  no marker, its boundary index points at that marker (or is absent and the window is
  the whole log), and therefore no index of a window is ever reported as protected.
\<close>

theorem active_context_window_spec:
  "let w = active_context_window es in
     (case window_boundary_index w of
        None \<Rightarrow> window_entries w = es
      | Some b \<Rightarrow> b < length es \<and> is_context_boundary (snd (es ! b)) \<and>
          window_entries w = drop (Suc b) es)
     \<and> list_all (\<lambda>e. \<not> is_context_boundary (snd e)) (window_entries w)
     \<and> \<not> is_protected_logical_index w i"
proof -
  let ?P = "\<lambda>e :: seq \<times> SessionLogEntry. is_context_boundary (snd e)"
  let ?c = "after_last ?P es"
  define c where "c = ?c"
  have clean: "\<forall>e \<in> set (drop c es). \<not> ?P e"
    unfolding c_def by (intro ballI) (erule last_boundary.cut_suffix [where P = ?P])
  have le: "c \<le> length es" unfolding c_def by (rule last_boundary.cut_le [where P = ?P])
  have edge: "0 < c \<Longrightarrow> ?P (es ! (c - 1))"
    unfolding c_def by (rule last_boundary.cut_edge [where P = ?P])
  have w: "active_context_window es = \<lparr>window_entries = drop c es,
      window_boundary_index = (if c = 0 then None else Some (c - 1))\<rparr>"
    by (simp add: active_context_window_def c_def Let_def)
  have "\<not> is_protected_logical_index (active_context_window es) i"
    using clean nth_mem [of i "drop c es"]
    unfolding is_protected_logical_index_def w ActiveContextWindow.select_convs by blast
  with w clean le edge show ?thesis by (cases c) (simp_all add: list_all_iff)
qed

text \<open>
  The two directions of the window's numbering agree: a logical index is listed for a
  physical sequence number exactly when that index maps to it.
\<close>

theorem logical_physical_inverse:
  "i \<in> set (logical_indices_for_physical w s) \<longleftrightarrow> physical_seq_for_logical w i = Some s"
  by (auto simp: logical_indices_for_physical_def logical_entries_def physical_seq_for_logical_def
      in_set_enumerate_eq image_iff Bex_def)

end
