(* ===== verification/Turn_Status.thy ===== *)
theory Turn_Status
  imports Log_Mutations
begin

text \<open>
  The turn-status predicates of \<open>harnx-core/src/session_reconstruct/turn_status.rs\<close>: which
  terminator ended a turn, which entries belong to the turn in progress, which prompt a
  \<open>Cancel\<close> stopped and which prompt is still owed an answer. \<open>of_json\<close> is the receipt
  parser of the timing classifier.
\<close>

section \<open>Terminators\<close>

definition is_cancel :: "SessionLogEntry \<Rightarrow> bool" where
  "is_cancel e = (case e of Cancel _ _ _ _ \<Rightarrow> True | _ \<Rightarrow> False)"

definition is_terminator :: "SessionLogEntry \<Rightarrow> bool" where
  "is_terminator e =
     (case e of
        TurnEnd _ _ _ _ \<Rightarrow> True | Error _ _ _ \<Rightarrow> True | Cancel _ _ _ _ \<Rightarrow> True | _ \<Rightarrow> False)"

definition last_terminator_seq :: "log \<Rightarrow> seq" where
  "last_terminator_seq entries =
     (case find (\<lambda>e. is_terminator (snd e)) (rev entries) of None \<Rightarrow> 0 | Some e \<Rightarrow> fst e)"

definition last_terminator_is_cancel :: "log \<Rightarrow> bool" where
  "last_terminator_is_cancel entries =
     (case find (\<lambda>e. is_terminator (snd e)) (rev entries) of
        None \<Rightarrow> False
      | Some e \<Rightarrow> is_cancel (snd e))"

definition current_turn_entries :: "log \<Rightarrow> log" where
  "current_turn_entries entries = drop (after_last (\<lambda>e. is_terminator (snd e)) entries) entries"

definition is_queued_user_message :: "(string \<Rightarrow> TimingReceipt option) \<Rightarrow> SessionLogEntry \<Rightarrow> bool"
  where
  "is_queued_user_message of_json entry =
     (case entry of
        Message i role content _ _ \<Rightarrow>
          if is_user role
          then \<not> is_timing_notice of_json (to_text content) \<and> \<not> is_runtime_note_id i
          else False
      | _ \<Rightarrow> False)"

definition current_turn_is_cancelled :: "(string \<Rightarrow> TimingReceipt option) \<Rightarrow> log \<Rightarrow> bool" where
  "current_turn_is_cancelled of_json entries \<longleftrightarrow>
     last_terminator_is_cancel entries \<and>
     list_all (\<lambda>e. is_queued_user_message of_json (snd e)) (current_turn_entries entries)"

definition prompt_interrupted_at :: "log \<Rightarrow> seq \<Rightarrow> seq option" where
  "prompt_interrupted_at entries user_msg_seq =
     (case find (\<lambda>e. is_terminator (snd e)) (filter (\<lambda>e. user_msg_seq < fst e) entries) of
        None \<Rightarrow> None
      | Some e \<Rightarrow> if is_cancel (snd e) then Some (fst e) else None)"

definition prompt_was_interrupted :: "log \<Rightarrow> seq \<Rightarrow> bool" where
  "prompt_was_interrupted entries user_msg_seq \<longleftrightarrow>
     prompt_interrupted_at entries user_msg_seq \<noteq> None"

section \<open>Prompts\<close>

text \<open>One iteration of \<open>latest_prompt_seq\<close>: the ids seen and the newest prompt so far.\<close>

definition latest_prompt_step ::
  "(string \<Rightarrow> TimingReceipt option) \<Rightarrow> string set \<times> seq option \<Rightarrow> seq \<times> SessionLogEntry
     \<Rightarrow> string set \<times> seq option" where
  "latest_prompt_step of_json st row =
     (case st of (seen_ids, latest) \<Rightarrow>
       (case snd row of
          Message i role content _ _ \<Rightarrow>
            if is_timing_notice of_json (to_text content) then st
            else if is_runtime_note_id i then st
            else (let is_copy = (case i of None \<Rightarrow> False | Some s \<Rightarrow> s \<in> seen_ids);
                      seen_ids' = (case i of None \<Rightarrow> seen_ids | Some s \<Rightarrow> insert s seen_ids)
                  in (seen_ids', if is_user role \<and> \<not> is_copy then Some (fst row) else latest))
        | _ \<Rightarrow> st))"

definition latest_prompt_seq :: "(string \<Rightarrow> TimingReceipt option) \<Rightarrow> log \<Rightarrow> seq option" where
  "latest_prompt_seq of_json entries = snd (foldl (latest_prompt_step of_json) ({}, None) entries)"

definition covers_prompt :: "seq \<Rightarrow> seq \<times> SessionLogEntry \<Rightarrow> bool" where
  "covers_prompt prompt_seq e =
     (case snd e of
        TurnEnd through_seq _ _ _ \<Rightarrow> prompt_seq \<le> through_seq
      | Error _ _ _ \<Rightarrow> prompt_seq < fst e
      | Cancel _ _ _ _ \<Rightarrow> prompt_seq < fst e
      | _ \<Rightarrow> False)"

definition prompt_terminal_entry :: "log \<Rightarrow> seq \<Rightarrow> (seq \<times> SessionLogEntry) option" where
  "prompt_terminal_entry entries prompt_seq = find (covers_prompt prompt_seq) entries"

definition prompt_is_covered :: "log \<Rightarrow> seq \<Rightarrow> bool" where
  "prompt_is_covered entries prompt_seq \<longleftrightarrow> prompt_terminal_entry entries prompt_seq \<noteq> None"

definition pending_prompt_seq ::
  "nat \<Rightarrow> yaml_parser \<Rightarrow> (string \<Rightarrow> TimingReceipt option) \<Rightarrow> log \<Rightarrow> seq option" where
  "pending_prompt_seq usize_max yaml of_json entries =
     (let effective =
            (case apply_log_mutations_nats usize_max yaml entries of
               Inl _ \<Rightarrow> entries
             | Inr eff \<Rightarrow> eff)
      in (case latest_prompt_seq of_json effective of
            None \<Rightarrow> None
          | Some prompt_seq \<Rightarrow>
              (let covered =
                     prompt_is_covered effective prompt_seq \<or>
                     list_ex (\<lambda>e. case snd e of
                         TurnEnd through_seq _ _ _ \<Rightarrow> prompt_seq \<le> through_seq
                       | _ \<Rightarrow> False) entries
               in if covered then None else Some prompt_seq)))"

section \<open>Characterisations\<close>

lemma cancel_is_terminator: "is_cancel e \<Longrightarrow> is_terminator e"
  by (auto simp: is_cancel_def is_terminator_def split: SessionLogEntry.splits)

lemma queued_not_terminator: "is_queued_user_message of_json e \<Longrightarrow> \<not> is_terminator e"
  by (auto simp: is_queued_user_message_def is_terminator_def split: SessionLogEntry.splits)

lemma prompt_is_covered_iff: "prompt_is_covered es p \<longleftrightarrow> (\<exists>e \<in> set es. covers_prompt p e)"
  by (auto simp: prompt_is_covered_def prompt_terminal_entry_def find_None_iff)

lemma find_filter: "find P (filter Q xs) = find (\<lambda>x. Q x \<and> P x) xs"
  by (induction xs) auto

lemma find_split_iff:
  "find P xs = Some x \<longleftrightarrow> (\<exists>us vs. xs = us @ x # vs \<and> P x \<and> (\<forall>u \<in> set us. \<not> P u))"
proof
  assume "\<exists>us vs. xs = us @ x # vs \<and> P x \<and> (\<forall>u \<in> set us. \<not> P u)"
  then obtain us vs where "xs = us @ x # vs" "P x" "\<forall>u \<in> set us. \<not> P u" by blast
  then show "find P xs = Some x" by (induction us arbitrary: xs) auto
qed (rule find_SomeD)

lemma last_terminator_find:
  assumes "after_last (\<lambda>e. is_terminator (snd e)) es = Suc k"
  shows "find (\<lambda>e. is_terminator (snd e)) (rev es) = Some (es ! k)"
  using assms by (simp add: rposition_rev_find after_last_def split: option.splits)

text \<open>The rows that ask for a turn: the first row of their id that is not a note.\<close>

definition countable_message :: "(string \<Rightarrow> TimingReceipt option) \<Rightarrow> SessionLogEntry \<Rightarrow> bool" where
  "countable_message of_json e =
     (case e of
        Message i role content _ _ \<Rightarrow>
          \<not> is_timing_notice of_json (to_text content) \<and> \<not> is_runtime_note_id i
      | _ \<Rightarrow> False)"

definition entry_msg_id :: "SessionLogEntry \<Rightarrow> string option" where
  "entry_msg_id e = (case e of Message i _ _ _ _ \<Rightarrow> i | _ \<Rightarrow> None)"

definition entry_is_user :: "SessionLogEntry \<Rightarrow> bool" where
  "entry_is_user e = (case e of Message _ role _ _ _ \<Rightarrow> is_user role | _ \<Rightarrow> False)"

definition counted_ids :: "(string \<Rightarrow> TimingReceipt option) \<Rightarrow> log \<Rightarrow> string set" where
  "counted_ids of_json es =
     {i. \<exists>e \<in> set es. countable_message of_json (snd e) \<and> entry_msg_id (snd e) = Some i}"

definition asks_for_turn ::
  "(string \<Rightarrow> TimingReceipt option) \<Rightarrow> string set \<Rightarrow> SessionLogEntry \<Rightarrow> bool" where
  "asks_for_turn of_json seen e \<longleftrightarrow>
     countable_message of_json e \<and> entry_is_user e \<and>
     (\<forall>i. entry_msg_id e = Some i \<longrightarrow> i \<notin> seen)"

lemma latest_prompt_step_eq:
  "latest_prompt_step of_json (seen, latest) row =
     (if countable_message of_json (snd row)
      then (seen \<union> {i. entry_msg_id (snd row) = Some i},
            if asks_for_turn of_json seen (snd row) then Some (fst row) else latest)
      else (seen, latest))"
  by (auto simp: latest_prompt_step_def countable_message_def entry_msg_id_def entry_is_user_def
      asks_for_turn_def Let_def split: SessionLogEntry.splits option.splits)

lemma latest_prompt_ids:
  "fst (foldl (latest_prompt_step of_json) ({}, None) es) = counted_ids of_json es"
proof (induction es rule: rev_induct)
  case (snoc row es)
  obtain seen latest where fold: "foldl (latest_prompt_step of_json) ({}, None) es = (seen, latest)"
    by fastforce
  have "counted_ids of_json (es @ [row]) =
      (if countable_message of_json (snd row)
       then counted_ids of_json es \<union> {i. entry_msg_id (snd row) = Some i}
       else counted_ids of_json es)"
    by (auto simp: counted_ids_def)
  with snoc fold show ?case by (simp add: latest_prompt_step_eq)
qed (simp add: counted_ids_def)

lemma latest_prompt_fold:
  "foldl (latest_prompt_step of_json) ({}, None) es =
     (counted_ids of_json es, latest_prompt_seq of_json es)"
  using latest_prompt_ids [of of_json es] by (simp add: latest_prompt_seq_def prod_eq_iff)

lemma latest_prompt_seq_snoc:
  "latest_prompt_seq of_json (es @ [row]) =
     (if asks_for_turn of_json (counted_ids of_json es) (snd row) then Some (fst row)
      else latest_prompt_seq of_json es)"
proof -
  have "latest_prompt_seq of_json (es @ [row]) =
      snd (latest_prompt_step of_json (foldl (latest_prompt_step of_json) ({}, None) es) row)"
    by (simp add: latest_prompt_seq_def)
  also have "\<dots> = (if asks_for_turn of_json (counted_ids of_json es) (snd row) then Some (fst row)
      else latest_prompt_seq of_json es)"
    by (subst latest_prompt_fold) (auto simp: latest_prompt_step_eq asks_for_turn_def)
  finally show ?thesis .
qed

lemma latest_prompt_seq_SomeD:
  "latest_prompt_seq of_json es = Some p \<Longrightarrow>
     \<exists>us e vs. es = us @ (p, e) # vs \<and> asks_for_turn of_json (counted_ids of_json us) e"
proof (induction es rule: rev_induct)
  case (snoc row es)
  show ?case
  proof (cases "asks_for_turn of_json (counted_ids of_json es) (snd row)")
    case True
    with snoc.prems have "es @ [row] = es @ (p, snd row) # []"
      by (simp add: latest_prompt_seq_snoc prod_eq_iff)
    with True show ?thesis by blast
  next
    case False
    with snoc obtain us e vs where "es = us @ (p, e) # vs" "asks_for_turn of_json (counted_ids of_json us) e"
      by (auto simp: latest_prompt_seq_snoc)
    then have "es @ [row] = us @ (p, e) # (vs @ [row]) \<and> asks_for_turn of_json (counted_ids of_json us) e"
      by simp
    then show ?thesis by blast
  qed
qed (simp add: latest_prompt_seq_def)

section \<open>Properties\<close>

text \<open>
  A prompt is reported interrupted at \<open>c\<close> exactly when the log holds a \<open>Cancel\<close> at
  \<open>c\<close>, above the prompt, and every terminator logged before it is at or below the
  prompt: an earlier turn's cancel and a cancel beyond this prompt's own end never
  count.
\<close>

theorem prompt_interrupted_at_iff:
  "prompt_interrupted_at es p = Some c \<longleftrightarrow>
     (\<exists>us e vs. es = us @ (c, e) # vs \<and> is_cancel e \<and> p < c \<and>
        (\<forall>u \<in> set us. is_terminator (snd u) \<longrightarrow> fst u \<le> p))"
proof -
  have "prompt_interrupted_at es p = Some c \<longleftrightarrow>
      (\<exists>e. find (\<lambda>x. p < fst x \<and> is_terminator (snd x)) es = Some (c, e) \<and> is_cancel e)"
    by (auto simp: prompt_interrupted_at_def find_filter split: option.splits if_splits)
  also have "\<dots> \<longleftrightarrow> (\<exists>us e vs. es = us @ (c, e) # vs \<and> is_cancel e \<and> p < c \<and>
        (\<forall>u \<in> set us. is_terminator (snd u) \<longrightarrow> fst u \<le> p))"
    unfolding find_split_iff fst_conv snd_conv de_Morgan_conj not_less
    using cancel_is_terminator by blast
  finally show ?thesis .
qed

theorem prompt_interrupted_at_iff_witness:
  "prompt_interrupted_at [(1, Cancel 0 None None None), (2, Clear), (3, Cancel 7 None None None)] 2 = Some 3"
proof -
  have "\<exists>us e vs. [(1, Cancel 0 None None None), (2, Clear), (3, Cancel 7 None None None)] =
      us @ (3 :: nat, e) # vs \<and> is_cancel e \<and> (2 :: nat) < 3 \<and>
      (\<forall>u \<in> set us. is_terminator (snd u) \<longrightarrow> fst u \<le> 2)"
    by (rule exI [of _ "[(1, Cancel 0 None None None), (2, Clear)]"],
        rule exI [of _ "Cancel 7 None None None"], rule exI [of _ "[]"]) (simp add: is_cancel_def)
  then show ?thesis by (simp only: prompt_interrupted_at_iff)
qed

text \<open>
  The turn in progress counts as cancelled exactly when the log ends with a \<open>Cancel\<close>
  followed only by queued user prompts: any other row after the cancel belongs to a
  turn that started later and still owes its own terminator.
\<close>

theorem current_turn_is_cancelled_iff:
  "current_turn_is_cancelled of_json es \<longleftrightarrow>
     (\<exists>pre c e queued. es = pre @ (c, e) # queued \<and> is_cancel e \<and>
        (\<forall>q \<in> set queued. is_queued_user_message of_json (snd q)))"
    (is "?L \<longleftrightarrow> ?R")
proof
  let ?T = "\<lambda>e :: seq \<times> SessionLogEntry. is_terminator (snd e)"
  assume L: ?L
  show ?R
  proof (cases "after_last ?T es")
    case 0
    then have "find ?T (rev es) = None"
      by (auto simp: after_last_0_iff find_None_iff)
    with L show ?thesis by (simp add: current_turn_is_cancelled_def last_terminator_is_cancel_def)
  next
    case (Suc k)
    then have k: "k < length es" using last_boundary.cut_le [where P = ?T and es = es] by simp
    have "es = take k es @ (fst (es ! k), snd (es ! k)) # drop (Suc k) es"
      using id_take_nth_drop [OF k] by simp
    moreover have "is_cancel (snd (es ! k))"
      using L last_terminator_find [OF Suc]
      by (simp add: current_turn_is_cancelled_def last_terminator_is_cancel_def)
    moreover have "\<forall>q \<in> set (drop (Suc k) es). is_queued_user_message of_json (snd q)"
      using L Suc by (simp add: current_turn_is_cancelled_def current_turn_entries_def list_all_iff)
    ultimately show ?thesis by blast
  qed
next
  let ?T = "\<lambda>e :: seq \<times> SessionLogEntry. is_terminator (snd e)"
  assume ?R
  then obtain pre c e queued where es: "es = pre @ (c, e) # queued" and e: "is_cancel e"
    and q: "\<forall>q \<in> set queued. is_queued_user_message of_json (snd q)" by blast
  have cut: "after_last ?T es = Suc (length pre)"
    by (rule last_boundary.cut_unique [where P = ?T, OF es])
       (use e q in \<open>auto simp: cancel_is_terminator dest: queued_not_terminator\<close>)
  have "current_turn_entries es = queued"
    unfolding current_turn_entries_def cut by (simp add: es)
  moreover have "last_terminator_is_cancel es"
    using last_terminator_find [OF cut] e by (simp add: last_terminator_is_cancel_def es)
  ultimately show ?L using q by (simp add: current_turn_is_cancelled_def list_all_iff)
qed

theorem current_turn_is_cancelled_iff_witness:
  "current_turn_is_cancelled (\<lambda>_. None)
     [(1, Clear), (2, Cancel 0 None None None), (3, Message None User (Text ''next'') None None)]"
  unfolding current_turn_is_cancelled_iff
  by (rule exI [of _ "[(1, Clear)]"], rule exI [of _ 2], rule exI [of _ "Cancel 0 None None None"],
      rule exI [of _ "[(3, Message None User (Text ''next'') None None)]"])
     (simp add: is_cancel_def is_queued_user_message_def is_user_def is_runtime_note_id_def)

text \<open>
  The copies compaction appends never look like new prompts: appending rows that are
  not user messages, are notices or notes, or repeat the id of an earlier counted
  message leaves the newest prompt unchanged.
\<close>

theorem latest_prompt_seq_ignores_copies:
  assumes "\<forall>e \<in> set copies. entry_is_user (snd e) \<and> countable_message of_json (snd e) \<longrightarrow>
    (\<exists>i. entry_msg_id (snd e) = Some i \<and> i \<in> counted_ids of_json es)"
  shows "latest_prompt_seq of_json (es @ copies) = latest_prompt_seq of_json es"
  using assms
proof (induction copies rule: rev_induct)
  case (snoc row copies)
  have "counted_ids of_json es \<subseteq> counted_ids of_json (es @ copies)"
    by (auto simp: counted_ids_def)
  with snoc.prems have "\<not> asks_for_turn of_json (counted_ids of_json (es @ copies)) (snd row)"
    by (auto simp: asks_for_turn_def)
  with snoc latest_prompt_seq_snoc [of of_json "es @ copies" row] show ?case by simp
qed simp

theorem latest_prompt_seq_ignores_copies_witness:
  "let m = Message (Some ''a'') User (Text ''hi'') None None in
     latest_prompt_seq (\<lambda>_. None) ([(1, m), (2, Compress ''s'')] @ [(3, m)]) = Some 1"
proof -
  let ?m = "Message (Some ''a'') User (Text ''hi'') None None"
  have count: "countable_message (\<lambda>_. None) ?m"
    by (simp add: countable_message_def is_runtime_note_id_def is_runtime_note_message_id_def
        RUNTIME_NOTE_ID_PREFIX_def starts_with_def)
  then have "''a'' \<in> counted_ids (\<lambda>_. None) [(1, ?m), (2, Compress ''s'')]"
    by (simp add: counted_ids_def entry_msg_id_def)
  then have "latest_prompt_seq (\<lambda>_. None) ([(1, ?m), (2, Compress ''s'')] @ [(3, ?m)]) =
      latest_prompt_seq (\<lambda>_. None) [(1, ?m), (2, Compress ''s'')]"
    by (intro latest_prompt_seq_ignores_copies) (simp add: entry_msg_id_def)
  also have "\<dots> = Some 1"
    using count by (simp add: latest_prompt_seq_def latest_prompt_step_eq asks_for_turn_def
        entry_is_user_def is_user_def countable_message_def [of _ "Compress _"])
  finally show ?thesis by (simp add: Let_def)
qed

text \<open>The durable coverage a raw log gives a prompt, whatever edits follow.\<close>

definition turn_end_covers :: "seq \<Rightarrow> seq \<times> SessionLogEntry \<Rightarrow> bool" where
  "turn_end_covers p e = (case snd e of TurnEnd through_seq _ _ _ \<Rightarrow> p \<le> through_seq | _ \<Rightarrow> False)"

lemma pending_prompt_seq_eq:
  assumes "usize_max \<le> u64_max" "\<forall>e \<in> set es. fst e \<le> usize_max"
  shows "pending_prompt_seq usize_max yaml of_json es =
    (case latest_prompt_seq of_json (apply_log_mutations yaml es) of
       None \<Rightarrow> None
     | Some p \<Rightarrow>
         if (\<exists>e \<in> set (apply_log_mutations yaml es). covers_prompt p e) \<or>
            (\<exists>e \<in> set es. turn_end_covers p e)
         then None else Some p)"
  using apply_log_mutations_nats_fits [OF assms, of yaml]
  by (auto simp: pending_prompt_seq_def prompt_is_covered_iff turn_end_covers_def list_ex_iff
      split: option.splits)

lemma countable_not_control: "countable_message of_json e \<Longrightarrow> \<not> control_row e"
  by (cases e) (auto simp: countable_message_def control_row_def)

lemma covering_not_countable: "covers_prompt p e \<Longrightarrow> \<not> countable_message of_json (snd e)"
  by (cases e; cases "snd e") (auto simp: covers_prompt_def countable_message_def)

lemma uncovered_below:
  "\<not> control_row (snd e) \<Longrightarrow> fst e \<le> n \<Longrightarrow> \<not> covers_prompt n e"
  by (cases e; cases "snd e") (auto simp: covers_prompt_def control_row_def)

text \<open>
  The life of a prompt. Appending a fresh prompt above everything logged makes it the
  pending one, and appending a row that covers it (a \<open>TurnEnd\<close> through it, an \<open>Error\<close> or a
  \<open>Cancel\<close>) settles the session again, so a prompt never stays pending once a terminal
  row covers it.
\<close>

theorem pending_prompt_lifecycle:
  assumes "usize_max \<le> u64_max" and "plain_yaml yaml"
    and "\<forall>e \<in> set es. fst e < n \<and> \<not> turn_end_covers n e" and "n < k" and "k \<le> usize_max"
    and "asks_for_turn of_json (counted_ids of_json (apply_log_mutations yaml es)) m"
    and "covers_prompt n (k, r)"
  shows "pending_prompt_seq usize_max yaml of_json (es @ [(n, m)]) = Some n \<and>
    pending_prompt_seq usize_max yaml of_json (es @ [(n, m), (k, r)]) = None"
proof
  let ?eff = "apply_log_mutations yaml es"
  have m: "countable_message of_json m" using assms(6) by (simp add: asks_for_turn_def)
  have eff1: "apply_log_mutations yaml (es @ [(n, m)]) = ?eff @ [(n, m)]"
    using countable_not_control [OF m] by (simp add: apply_log_mutations_snoc apply_log_step_plain)
  have latest1: "latest_prompt_seq of_json (?eff @ [(n, m)]) = Some n"
    using assms(6) by (simp add: latest_prompt_seq_snoc)
  have "fst e \<le> n \<and> \<not> control_row (snd e)" if "e \<in> set (?eff @ [(n, m)])" for e
    using that apply_log_mutations_seqs [of yaml es] assms(3) countable_not_control [OF m]
      apply_log_mutations_no_control [OF assms(2), of es]
    by (fastforce simp: no_control_def)
  then have unc: "\<forall>e \<in> set (?eff @ [(n, m)]). \<not> covers_prompt n e" using uncovered_below by blast
  have tm: "\<not> turn_end_covers n (n, m)"
    using countable_not_control [OF m] by (cases m) (auto simp: turn_end_covers_def control_row_def)
  have fit1: "\<forall>e \<in> set (es @ [(n, m)]). fst e \<le> usize_max" using assms(3-5) by fastforce
  show "pending_prompt_seq usize_max yaml of_json (es @ [(n, m)]) = Some n"
    using unc tm assms(3) by (subst pending_prompt_seq_eq [OF assms(1) fit1]) (auto simp: eff1 latest1)
  have fit2: "\<forall>e \<in> set (es @ [(n, m), (k, r)]). fst e \<le> usize_max" using fit1 assms(5) by simp
  have eff2: "apply_log_mutations yaml (es @ [(n, m), (k, r)]) =
      apply_log_step yaml (?eff @ [(n, m)]) (k, r)"
    using apply_log_mutations_snoc [of yaml "es @ [(n, m)]" "(k, r)"] by (simp add: eff1)
  show "pending_prompt_seq usize_max yaml of_json (es @ [(n, m), (k, r)]) = None"
  proof (cases "control_row r")
    case True
    with assms(7) have "turn_end_covers n (k, r)" and "apply_log_step yaml (?eff @ [(n, m)]) (k, r) = ?eff @ [(n, m)]"
      by (cases r; auto simp: covers_prompt_def control_row_def turn_end_covers_def apply_log_step_def)+
    then show ?thesis
      by (subst pending_prompt_seq_eq [OF assms(1) fit2]) (auto simp: eff2 latest1)
  next
    case False
    have "\<not> asks_for_turn of_json seen r" for seen
      using covering_not_countable [OF assms(7), of of_json] by (simp add: asks_for_turn_def)
    then have "latest_prompt_seq of_json ((?eff @ [(n, m)]) @ [(k, r)]) = Some n"
      using latest1 latest_prompt_seq_snoc [of of_json "?eff @ [(n, m)]" "(k, r)"] by simp
    with False show ?thesis
      using assms(7)
      by (subst pending_prompt_seq_eq [OF assms(1) fit2]) (auto simp: eff2 apply_log_step_plain)
  qed
qed

theorem pending_prompt_lifecycle_witness:
  "let m = Message None User (Text ''go'') None None in
     pending_prompt_seq (2 ^ 32) (\<lambda>_. None) (\<lambda>_. None) ([] @ [(1, m)]) = Some 1 \<and>
     pending_prompt_seq (2 ^ 32) (\<lambda>_. None) (\<lambda>_. None) ([] @ [(1, m), (2, Cancel 0 None None None)]) = None"
  unfolding Let_def
  by (rule pending_prompt_lifecycle)
     (simp_all add: u64_max_def plain_yaml_def asks_for_turn_def countable_message_def
       entry_is_user_def entry_msg_id_def is_user_def is_runtime_note_id_def covers_prompt_def)

end
