(* ===== verification/Reconstruct.thy ===== *)
theory Reconstruct
  imports Turn_Status
begin

text \<open>
  State reconstruction of \<open>harnx-core/src/session_reconstruct.rs\<close>: how a worker that takes
  over a session folds the log into the state its next turn starts from. The
  accumulator's methods are one definition each; \<open>finish\<close> reads the verdict off it.
\<close>

section \<open>Types\<close>

record OrphanToolCalls =
  orphan_seq :: seq
  orphan_calls :: "ToolCall list"

datatype TurnStatus =
    Idle
  | InterruptedPendingWindUp seq "string option" "OrphanToolCalls list"
  | InFlightResumable "OrphanToolCalls list"

datatype AssistantTurn =
    AssistantMessage Message
  | AssistantToolCalls string "string option" "ToolCall list"

record ResumableCtx =
  ctx_last_user :: "Message option"
  ctx_last_assistant :: "AssistantTurn option"
  ctx_pending_tool_results :: "ToolOutput list"
  ctx_fence_token :: "fence option"

record ReconstructedState =
  turn_status :: TurnStatus
  next_turn_messages :: "Message list"
  resumable_ctx :: "ResumableCtx option"

record ReplayAccumulator =
  acc_next_turn_messages :: "Message list"
  acc_last_user :: "Message option"
  acc_last_assistant :: "AssistantTurn option"
  acc_pending_tool_results :: "ToolOutput list"
  acc_fence_token :: "fence option"
  acc_open_calls :: "OrphanToolCalls list"
  acc_interrupted :: "(seq \<times> string option \<times> OrphanToolCalls list) option"
  acc_seen_user_ids :: "string set"

type_synonym seq_log = "(seq option \<times> SessionLogEntry) list"

definition ReplayAccumulator_default :: ReplayAccumulator where
  "ReplayAccumulator_default =
     \<lparr>acc_next_turn_messages = [], acc_last_user = None, acc_last_assistant = None,
      acc_pending_tool_results = [], acc_fence_token = None, acc_open_calls = [],
      acc_interrupted = None, acc_seen_user_ids = {}\<rparr>"

section \<open>The accumulator\<close>

definition is_tool_calls_turn :: "AssistantTurn option \<Rightarrow> bool" where
  "is_tool_calls_turn a = (case a of Some (AssistantToolCalls _ _ _) \<Rightarrow> True | _ \<Rightarrow> False)"

definition is_terminal_barrier :: "SessionLogEntry \<Rightarrow> bool" where
  "is_terminal_barrier entry =
     (case entry of
        Message _ role _ _ _ \<Rightarrow> role = Assistant
      | Error _ _ _ \<Rightarrow> True
      | _ \<Rightarrow> False)"

definition cloned_message :: "SessionLogEntry \<Rightarrow> Message option" where
  "cloned_message entry =
     (case entry of
        Message i role content timestamp _ \<Rightarrow>
          Some \<lparr>msg_role = role, msg_content = content, msg_id = i, msg_log_seq = None,
                msg_log_timestamp = timestamp\<rparr>
      | _ \<Rightarrow> None)"

definition answered_ids :: "ToolOutput list \<Rightarrow> string set" where
  "answered_ids results = {i. \<exists>r \<in> set results. out_id r = Some i}"

text \<open>The closure \<open>close\<close>: drop the answered calls, then the entries left empty.\<close>

definition close_orphans :: "string set \<Rightarrow> OrphanToolCalls list \<Rightarrow> OrphanToolCalls list" where
  "close_orphans answered orphans =
     filter (\<lambda>orphan. orphan_calls orphan \<noteq> [])
       (map (\<lambda>orphan. orphan\<lparr>orphan_calls :=
           filter (\<lambda>c. \<not> (case call_id c of None \<Rightarrow> False | Some i \<Rightarrow> i \<in> answered))
             (orphan_calls orphan)\<rparr>) orphans)"

definition close_calls :: "ReplayAccumulator \<Rightarrow> ToolOutput list \<Rightarrow> ReplayAccumulator" where
  "close_calls self results =
     self\<lparr>acc_open_calls := close_orphans (answered_ids results) (acc_open_calls self),
          acc_interrupted :=
            map_option (\<lambda>(s, cid, orphans). (s, cid, close_orphans (answered_ids results) orphans))
              (acc_interrupted self)\<rparr>"

definition on_cancel :: "ReplayAccumulator \<Rightarrow> seq \<Rightarrow> string option \<Rightarrow> ReplayAccumulator" where
  "on_cancel self seq cancellation_id =
     (let orphans =
        (case acc_interrupted self of
           Some (_, _, previous_orphans) \<Rightarrow> previous_orphans @ acc_open_calls self
         | None \<Rightarrow> acc_open_calls self)
      in self\<lparr>acc_open_calls := [],
              acc_interrupted := Some (seq, cancellation_id, orphans),
              acc_next_turn_messages := [],
              acc_last_user := None,
              acc_last_assistant := None,
              acc_pending_tool_results := [],
              acc_fence_token := None\<rparr>)"

definition seed_settled_user_ids :: "ReplayAccumulator \<Rightarrow> seq_log \<Rightarrow> ReplayAccumulator" where
  "seed_settled_user_ids self entries =
     foldl (\<lambda>acc row.
        (case snd row of
           Message (Some i) role _ _ _ \<Rightarrow>
             if is_user role then acc\<lparr>acc_seen_user_ids := insert i (acc_seen_user_ids acc)\<rparr> else acc
         | _ \<Rightarrow> acc)) self entries"

definition on_user_message_with_seq ::
  "ReplayAccumulator \<Rightarrow> seq option \<Rightarrow> SessionLogEntry \<Rightarrow> ReplayAccumulator" where
  "on_user_message_with_seq self log_seq entry =
     (case cloned_message entry of
        None \<Rightarrow> self
      | Some cloned \<Rightarrow>
          (let message = (case log_seq of None \<Rightarrow> cloned | Some s \<Rightarrow> cloned\<lparr>msg_log_seq := Some s\<rparr>);
               repeated = (case msg_id message of None \<Rightarrow> False | Some i \<Rightarrow> i \<in> acc_seen_user_ids self);
               self1 = (case msg_id message of
                          None \<Rightarrow> self
                        | Some i \<Rightarrow> self\<lparr>acc_seen_user_ids := insert i (acc_seen_user_ids self)\<rparr>)
           in if repeated then self1
              else if is_tool_calls_turn (acc_last_assistant self1)
              then self1\<lparr>acc_next_turn_messages := acc_next_turn_messages self1 @ [message]\<rparr>
              else self1\<lparr>acc_next_turn_messages := acc_next_turn_messages self1 @ [message],
                         acc_last_user := None,
                         acc_last_assistant := None,
                         acc_pending_tool_results := [],
                         acc_fence_token := None\<rparr>))"

definition on_assistant_message :: "ReplayAccumulator \<Rightarrow> ReplayAccumulator" where
  "on_assistant_message self =
     self\<lparr>acc_next_turn_messages := [], acc_last_user := None, acc_last_assistant := None,
          acc_pending_tool_results := [], acc_fence_token := None, acc_interrupted := None\<rparr>"

definition on_tool_calls :: "ReplayAccumulator \<Rightarrow> SessionLogEntry \<Rightarrow> ReplayAccumulator" where
  "on_tool_calls self entry =
     (if acc_interrupted self \<noteq> None then self
      else (case entry of
              ToolCalls t thought calls _ fence \<Rightarrow>
                (let self1 =
                   (if acc_next_turn_messages self \<noteq> []
                    then self\<lparr>acc_last_user := Some (last (acc_next_turn_messages self)),
                              acc_next_turn_messages := []\<rparr>
                    else self)
                 in self1\<lparr>acc_last_assistant := Some (AssistantToolCalls t thought calls),
                          acc_pending_tool_results := [],
                          acc_fence_token := fence\<rparr>)
            | _ \<Rightarrow> self))"

definition on_tool_results :: "ReplayAccumulator \<Rightarrow> ToolOutput list \<Rightarrow> ReplayAccumulator" where
  "on_tool_results self results =
     (if acc_interrupted self = None \<and> is_tool_calls_turn (acc_last_assistant self)
      then self\<lparr>acc_pending_tool_results := results\<rparr>
      else self)"

text \<open>\<open>log_seq.map_or(0, ..)\<close>: an entry without a sequence number counts as 0.\<close>

definition seq_or_zero :: "seq option \<Rightarrow> seq" where
  "seq_or_zero log_seq = (case log_seq of None \<Rightarrow> 0 | Some s \<Rightarrow> s)"

definition apply_entry_with_seq ::
  "(string \<Rightarrow> TimingReceipt option) \<Rightarrow> ReplayAccumulator \<Rightarrow> seq option \<times> SessionLogEntry
     \<Rightarrow> ReplayAccumulator" where
  "apply_entry_with_seq of_json self row =
     (case row of (log_seq, entry) \<Rightarrow>
       (case entry of
          Cancel _ cancellation_id _ _ \<Rightarrow> on_cancel self (seq_or_zero log_seq) cancellation_id
        | Message i role content _ _ \<Rightarrow>
            if is_user role then
              if is_timing_notice of_json (to_text content) then self
              else if is_runtime_note_id i then self
              else on_user_message_with_seq self log_seq entry
            else if is_assistant role then on_assistant_message self
            else self
        | ToolCalls _ _ calls _ _ \<Rightarrow>
            on_tool_calls
              (self\<lparr>acc_open_calls :=
                 acc_open_calls self @ [\<lparr>orphan_seq = seq_or_zero log_seq, orphan_calls = calls\<rparr>]\<rparr>)
              entry
        | ToolResults results _ \<Rightarrow> on_tool_results (close_calls self results) results
        | _ \<Rightarrow> self))"

definition finish :: "ReplayAccumulator \<Rightarrow> ReconstructedState" where
  "finish self =
     (let is_resumable = is_tool_calls_turn (acc_last_assistant self);
          rest =
            (if acc_next_turn_messages self \<noteq> [] \<and> \<not> is_resumable
             then \<lparr>turn_status = Idle, next_turn_messages = acc_next_turn_messages self,
                   resumable_ctx = None\<rparr>
             else \<lparr>turn_status =
                     (if is_resumable then InFlightResumable (acc_open_calls self) else Idle),
                   next_turn_messages =
                     (if is_resumable then acc_next_turn_messages self else []),
                   resumable_ctx =
                     (if is_resumable
                      then Some \<lparr>ctx_last_user = acc_last_user self,
                                 ctx_last_assistant = acc_last_assistant self,
                                 ctx_pending_tool_results = acc_pending_tool_results self,
                                 ctx_fence_token = acc_fence_token self\<rparr>
                      else None)\<rparr>)
      in (case acc_interrupted self of
            Some (cancel_seq, cancellation_id, orphans) \<Rightarrow>
              if orphans \<noteq> [] then
                \<lparr>turn_status = InterruptedPendingWindUp cancel_seq cancellation_id orphans,
                 next_turn_messages = acc_next_turn_messages self, resumable_ctx = None\<rparr>
              else if acc_next_turn_messages self = [] then
                \<lparr>turn_status = Idle, next_turn_messages = [], resumable_ctx = None\<rparr>
              else rest
          | None \<Rightarrow> rest))"

section \<open>Reconstruction\<close>

definition reconstruct_state_with_seq ::
  "(string \<Rightarrow> TimingReceipt option) \<Rightarrow> seq_log \<Rightarrow> ReconstructedState" where
  "reconstruct_state_with_seq of_json entries =
     (let split = after_last (\<lambda>e. is_terminal_barrier (snd e)) entries;
          replay = seed_settled_user_ids ReplayAccumulator_default (take split entries)
      in finish (foldl (apply_entry_with_seq of_json) replay (drop split entries)))"

definition reconstruct_state_effective ::
  "(string \<Rightarrow> TimingReceipt option) \<Rightarrow> log \<Rightarrow> ReconstructedState" where
  "reconstruct_state_effective of_json entries =
     reconstruct_state_with_seq of_json (map (\<lambda>(seq, e). (Some seq, e)) entries)"

definition reconstruct_state ::
  "yaml_parser \<Rightarrow> (string \<Rightarrow> TimingReceipt option) \<Rightarrow> SessionLogEntry list \<Rightarrow> ReconstructedState"
  where
  "reconstruct_state yaml of_json entries =
     reconstruct_state_effective of_json
       (apply_log_mutations yaml (List.enumerate 0 entries))"

definition reconstruct_state_from_nats ::
  "nat \<Rightarrow> yaml_parser \<Rightarrow> (string \<Rightarrow> TimingReceipt option) \<Rightarrow> log \<Rightarrow> ReconstructedState" where
  "reconstruct_state_from_nats usize_max yaml of_json entries =
     (case try_collect
             (\<lambda>(seq, entry). if seq \<le> usize_max then Inr (seq, entry) else Inl (SeqDoesNotFit seq))
             entries of
        Inr raw_with_usize \<Rightarrow>
          reconstruct_state_effective of_json (apply_log_mutations yaml raw_with_usize)
      | Inl _ \<Rightarrow> reconstruct_state_effective of_json [])"

section \<open>The accumulator's invariant\<close>

text \<open>
  An interrupted turn is never resumable, the resume fields are empty unless a tool
  round is in flight, and the queued messages are user messages with distinct ids
  that are recorded as seen and do not repeat a settled id.
\<close>

definition acc_inv :: "string set \<Rightarrow> ReplayAccumulator \<Rightarrow> bool" where
  "acc_inv settled acc \<longleftrightarrow>
     (acc_interrupted acc \<noteq> None \<longrightarrow> acc_last_assistant acc = None) \<and>
     (acc_last_assistant acc = None \<longrightarrow>
        acc_last_user acc = None \<and> acc_pending_tool_results acc = [] \<and> acc_fence_token acc = None) \<and>
     (acc_last_assistant acc \<noteq> None \<longrightarrow> is_tool_calls_turn (acc_last_assistant acc)) \<and>
     settled \<subseteq> acc_seen_user_ids acc \<and>
     (\<forall>m \<in> set (acc_next_turn_messages acc). msg_role m = User) \<and>
     set (filter_map msg_id (acc_next_turn_messages acc)) \<subseteq> acc_seen_user_ids acc - settled \<and>
     distinct (filter_map msg_id (acc_next_turn_messages acc))"

named_theorems acc_ops \<open>the accumulator's operations, to unfold in preservation proofs\<close>

lemmas [acc_ops] = on_cancel_def on_assistant_message_def on_tool_calls_def on_tool_results_def
  close_calls_def Let_def

lemma acc_inv_on_cancel: "acc_inv S acc \<Longrightarrow> acc_inv S (on_cancel acc s cid)"
  by (simp add: acc_inv_def on_cancel_def Let_def)

lemma acc_inv_on_assistant_message: "acc_inv S acc \<Longrightarrow> acc_inv S (on_assistant_message acc)"
  by (simp add: acc_inv_def on_assistant_message_def)

lemma acc_inv_close_calls: "acc_inv S acc \<Longrightarrow> acc_inv S (close_calls acc results)"
  by (simp add: acc_inv_def close_calls_def)

lemma acc_inv_on_tool_results: "acc_inv S acc \<Longrightarrow> acc_inv S (on_tool_results acc results)"
  by (auto simp: acc_inv_def on_tool_results_def is_tool_calls_turn_def)

lemma acc_inv_open_calls: "acc_inv S acc \<Longrightarrow> acc_inv S (acc\<lparr>acc_open_calls := os\<rparr>)"
  by (simp add: acc_inv_def)

lemma acc_inv_on_tool_calls: "acc_inv S acc \<Longrightarrow> acc_inv S (on_tool_calls acc e)"
  by (cases e) (simp_all add: acc_inv_def on_tool_calls_def Let_def is_tool_calls_turn_def)

text \<open>Under the invariant, a user message either repeats a seen id or is just queued.\<close>

definition queued_message ::
  "seq option \<Rightarrow> string option \<Rightarrow> MessageRole \<Rightarrow> MessageContent \<Rightarrow> instant option \<Rightarrow> Message" where
  "queued_message log_seq i role content ts =
     \<lparr>msg_role = role, msg_content = content, msg_id = i, msg_log_seq = log_seq,
      msg_log_timestamp = ts\<rparr>"

definition queue_message :: "ReplayAccumulator \<Rightarrow> Message \<Rightarrow> ReplayAccumulator" where
  "queue_message acc m =
     acc\<lparr>acc_seen_user_ids := acc_seen_user_ids acc \<union> {i. msg_id m = Some i},
         acc_next_turn_messages := acc_next_turn_messages acc @ [m]\<rparr>"

lemma on_user_message_eq:
  assumes "acc_inv S acc"
  shows "on_user_message_with_seq acc log_seq (Message i role content ts f) =
    (if \<exists>x. i = Some x \<and> x \<in> acc_seen_user_ids acc then acc
     else queue_message acc (queued_message log_seq i role content ts))"
proof -
  have idle: "acc\<lparr>acc_seen_user_ids := X, acc_next_turn_messages := ms, acc_last_user := None,
      acc_last_assistant := None, acc_pending_tool_results := [], acc_fence_token := None\<rparr> =
      acc\<lparr>acc_seen_user_ids := X, acc_next_turn_messages := ms\<rparr>"
    if "\<not> is_tool_calls_turn (acc_last_assistant acc)" for X ms
    using that assms by (cases acc) (auto simp: acc_inv_def)
  show ?thesis
    using idle [where X = "acc_seen_user_ids acc"] idle
    by (cases i; cases log_seq)
       (simp_all add: on_user_message_with_seq_def cloned_message_def queue_message_def
         queued_message_def Let_def insert_absorb)
qed

lemma acc_inv_queue_message:
  assumes "acc_inv S acc" "msg_role m = User" "\<And>i. msg_id m = Some i \<Longrightarrow> i \<notin> acc_seen_user_ids acc"
  shows "acc_inv S (queue_message acc m)"
  using assms by (cases "msg_id m") (fastforce simp: acc_inv_def queue_message_def)+

lemma acc_inv_on_user_message:
  assumes "acc_inv S acc" and "is_user role"
  shows "acc_inv S (on_user_message_with_seq acc log_seq (Message i role content ts f))"
  using assms
  by (auto simp: on_user_message_eq [OF assms(1)] queued_message_def is_user_def
      intro!: acc_inv_queue_message)

lemmas acc_inv_intros = acc_inv_on_cancel acc_inv_on_assistant_message acc_inv_close_calls
  acc_inv_on_tool_results acc_inv_open_calls acc_inv_on_tool_calls acc_inv_on_user_message

lemma acc_inv_step: "acc_inv S acc \<Longrightarrow> acc_inv S (apply_entry_with_seq of_json acc row)"
proof -
  assume inv: "acc_inv S acc"
  obtain log_seq e where row: "row = (log_seq, e)" by fastforce
  show ?thesis
    unfolding row by (cases e) (simp_all add: apply_entry_with_seq_def inv acc_inv_intros)
qed

definition user_ids :: "seq_log \<Rightarrow> string set" where
  "user_ids es = {i. \<exists>row \<in> set es. entry_is_user (snd row) \<and> entry_msg_id (snd row) = Some i}"

lemma seed_settled_user_ids_eq:
  "seed_settled_user_ids acc es =
     acc\<lparr>acc_seen_user_ids := acc_seen_user_ids acc \<union> user_ids es\<rparr>"
proof (induction es rule: rev_induct)
  case (snoc row es)
  have "user_ids (es @ [row]) = user_ids es \<union>
      (if entry_is_user (snd row) then {i. entry_msg_id (snd row) = Some i} else {})"
    by (auto simp: user_ids_def)
  with snoc show ?case
    by (cases "snd row")
       (auto simp: seed_settled_user_ids_def entry_is_user_def entry_msg_id_def split: option.splits)
qed (simp add: seed_settled_user_ids_def user_ids_def)

abbreviation replay_start :: "seq_log \<Rightarrow> ReplayAccumulator" where
  "replay_start settled \<equiv> seed_settled_user_ids ReplayAccumulator_default settled"

interpretation turn_replay: log_replay "apply_entry_with_seq of_json" "replay_start settled"
  "acc_inv (user_ids settled)" for of_json settled
proof
  show "acc_inv (user_ids settled) (replay_start settled)"
    by (simp add: seed_settled_user_ids_eq acc_inv_def ReplayAccumulator_default_def)
qed (rule acc_inv_step)

section \<open>Calls owed a result\<close>

definition orphan_call_set :: "OrphanToolCalls list \<Rightarrow> ToolCall set" where
  "orphan_call_set os = (\<Union>o1 \<in> set os. set (orphan_calls o1))"

definition requests_call :: "SessionLogEntry \<Rightarrow> ToolCall \<Rightarrow> bool" where
  "requests_call e c = (case e of ToolCalls _ _ calls _ _ \<Rightarrow> c \<in> set calls | _ \<Rightarrow> False)"

definition answers_call :: "SessionLogEntry \<Rightarrow> ToolCall \<Rightarrow> bool" where
  "answers_call e c =
     (case e of
        ToolResults results _ \<Rightarrow>
          (case call_id c of None \<Rightarrow> False | Some i \<Rightarrow> i \<in> answered_ids results)
      | _ \<Rightarrow> False)"

definition left_open :: "ToolCall \<Rightarrow> seq_log \<Rightarrow> bool" where
  "left_open c es \<longleftrightarrow>
     (\<exists>us row vs. es = us @ row # vs \<and> requests_call (snd row) c \<and>
        (\<forall>r \<in> set vs. \<not> answers_call (snd r) c))"

lemma left_open_Nil [simp]: "\<not> left_open c []"
  by (simp add: left_open_def)

lemma append_eq_Cons_snoc_split:
  "(\<exists>us r vs. es @ [row] = us @ r # vs \<and> P us r vs) \<longleftrightarrow>
     P es row [] \<or> (\<exists>us r vs. es = us @ r # vs \<and> P us r (vs @ [row]))"
proof
  assume "\<exists>us r vs. es @ [row] = us @ r # vs \<and> P us r vs"
  then obtain us r vs where eq: "es @ [row] = us @ r # vs" and P: "P us r vs" by blast
  show "P es row [] \<or> (\<exists>us r vs. es = us @ r # vs \<and> P us r (vs @ [row]))"
    using eq P by (cases vs rule: rev_cases) auto
next
  assume "P es row [] \<or> (\<exists>us r vs. es = us @ r # vs \<and> P us r (vs @ [row]))"
  then show "\<exists>us r vs. es @ [row] = us @ r # vs \<and> P us r vs"
  proof
    assume "\<exists>us r vs. es = us @ r # vs \<and> P us r (vs @ [row])"
    then obtain us r vs where "es @ [row] = us @ r # (vs @ [row]) \<and> P us r (vs @ [row])" by auto
    then show ?thesis by blast
  qed blast
qed

lemma left_open_snoc:
  "left_open c (es @ [row]) \<longleftrightarrow>
     requests_call (snd row) c \<or> left_open c es \<and> \<not> answers_call (snd row) c"
proof -
  have "left_open c (es @ [row]) \<longleftrightarrow>
      (\<exists>us r vs. es @ [row] = us @ r # vs \<and> requests_call (snd r) c \<and>
        (\<forall>x \<in> set vs. \<not> answers_call (snd x) c))"
    by (simp add: left_open_def)
  also have "\<dots> \<longleftrightarrow> requests_call (snd row) c \<or>
      (\<exists>us r vs. es = us @ r # vs \<and> requests_call (snd r) c \<and>
        (\<forall>x \<in> set (vs @ [row]). \<not> answers_call (snd x) c))"
    by (subst append_eq_Cons_snoc_split) simp
  also have "\<dots> \<longleftrightarrow> requests_call (snd row) c \<or> left_open c es \<and> \<not> answers_call (snd row) c"
  proof -
    have "(\<forall>x \<in> set (vs @ [row]). \<not> answers_call (snd x) c) \<longleftrightarrow>
        (\<forall>x \<in> set vs. \<not> answers_call (snd x) c) \<and> \<not> answers_call (snd row) c" for vs
      by auto
    then show ?thesis unfolding left_open_def by blast
  qed
  finally show ?thesis .
qed

lemma orphan_call_set_simps [simp]:
  "orphan_call_set [] = {}"
  "orphan_call_set (xs @ ys) = orphan_call_set xs \<union> orphan_call_set ys"
  "orphan_call_set [o1] = set (orphan_calls o1)"
  by (auto simp: orphan_call_set_def)

lemma orphan_call_set_close:
  "orphan_call_set (close_orphans A os) =
     {c \<in> orphan_call_set os. \<not> (case call_id c of None \<Rightarrow> False | Some i \<Rightarrow> i \<in> A)}"
proof -
  let ?keep = "\<lambda>c. \<not> (case call_id c of None \<Rightarrow> False | Some i \<Rightarrow> i \<in> A)"
  have "c \<in> orphan_call_set (close_orphans A os) \<longleftrightarrow>
      (\<exists>o1 \<in> set os. c \<in> set (filter ?keep (orphan_calls o1)))" for c
    by (force simp: orphan_call_set_def close_orphans_def filter_empty_conv)
  then show ?thesis by (auto simp: orphan_call_set_def)
qed

definition interrupted_orphans :: "ReplayAccumulator \<Rightarrow> OrphanToolCalls list" where
  "interrupted_orphans acc = (case acc_interrupted acc of None \<Rightarrow> [] | Some (_, _, os) \<Rightarrow> os)"

definition owed_calls :: "ReplayAccumulator \<Rightarrow> ToolCall set" where
  "owed_calls acc = orphan_call_set (interrupted_orphans acc @ acc_open_calls acc)"

text \<open>The fields a user message and a tool round leave alone.\<close>

lemma on_user_message_frame [simp]:
  "acc_interrupted (on_user_message_with_seq acc s e) = acc_interrupted acc"
  "acc_open_calls (on_user_message_with_seq acc s e) = acc_open_calls acc"
  by (simp_all add: on_user_message_with_seq_def Let_def split: option.split)

lemma on_tool_calls_frame [simp]:
  "acc_interrupted (on_tool_calls acc e) = acc_interrupted acc"
  "acc_open_calls (on_tool_calls acc e) = acc_open_calls acc"
  by (simp_all add: on_tool_calls_def Let_def split: SessionLogEntry.split)

lemma on_tool_results_frame [simp]:
  "acc_interrupted (on_tool_results acc r) = acc_interrupted acc"
  "acc_open_calls (on_tool_results acc r) = acc_open_calls acc"
  "acc_next_turn_messages (on_tool_results acc r) = acc_next_turn_messages acc"
  by (simp_all add: on_tool_results_def)

definition clean_log :: "seq_log \<Rightarrow> bool" where
  "clean_log es \<longleftrightarrow> (\<forall>row \<in> set es. \<not> is_terminal_barrier (snd row))"

definition no_cancels :: "seq_log \<Rightarrow> bool" where
  "no_cancels es \<longleftrightarrow> (\<forall>row \<in> set es. \<not> is_cancel (snd row))"

lemma step_interrupted:
  assumes "\<not> is_terminal_barrier (snd row)" "\<not> is_cancel (snd row)"
  shows "acc_interrupted (apply_entry_with_seq of_json acc row) =
    (case snd row of
       ToolResults results _ \<Rightarrow>
         map_option (\<lambda>(s, cid, os). (s, cid, close_orphans (answered_ids results) os))
           (acc_interrupted acc)
     | _ \<Rightarrow> acc_interrupted acc)"
proof -
  obtain s e where row: "row = (s, e)" by fastforce
  show ?thesis
    using assms unfolding row
    by (cases e) (simp_all add: apply_entry_with_seq_def is_terminal_barrier_def is_cancel_def
        is_assistant_def close_calls_def)
qed

lemma step_owed_calls:
  assumes "\<not> is_terminal_barrier (snd row)"
  shows "owed_calls (apply_entry_with_seq of_json acc row) =
    {c. c \<in> owed_calls acc \<and> \<not> answers_call (snd row) c \<or> requests_call (snd row) c}"
proof -
  obtain s e where row: "row = (s, e)" by fastforce
  note defs = apply_entry_with_seq_def is_terminal_barrier_def is_assistant_def owed_calls_def
    interrupted_orphans_def answers_call_def requests_call_def
  show ?thesis
  proof (cases e)
    case (Cancel f cid r ts)
    then show ?thesis
      using assms unfolding row
      by (auto simp: defs on_cancel_def Let_def split: option.split)
  next
    case (ToolResults results ts)
    then show ?thesis
      using assms unfolding row
      by (auto simp: defs close_calls_def orphan_call_set_close split: option.splits)
  qed (use assms in \<open>auto simp: row defs split: option.split\<close>)
qed

lemma replay_owed_calls:
  "clean_log es \<Longrightarrow> owed_calls acc = {} \<Longrightarrow>
     owed_calls (foldl (apply_entry_with_seq of_json) acc es) = {c. left_open c es}"
proof (induction es rule: rev_induct)
  case (snoc row es)
  then show ?case
    by (simp add: clean_log_def step_owed_calls left_open_snoc) blast
qed simp

lemma replay_after_cancel:
  "clean_log es \<Longrightarrow> no_cancels es \<Longrightarrow> acc_interrupted acc = Some (s, cid, os) \<Longrightarrow>
     \<exists>os'. acc_interrupted (foldl (apply_entry_with_seq of_json) acc es) = Some (s, cid, os') \<and>
       orphan_call_set os' = {c \<in> orphan_call_set os. \<forall>row \<in> set es. \<not> answers_call (snd row) c}"
proof (induction es rule: rev_induct)
  case (snoc row es)
  then obtain os1 where os1: "acc_interrupted (foldl (apply_entry_with_seq of_json) acc es) = Some (s, cid, os1)"
    "orphan_call_set os1 = {c \<in> orphan_call_set os. \<forall>row \<in> set es. \<not> answers_call (snd row) c}"
    by (auto simp: clean_log_def no_cancels_def)
  have row: "\<not> is_terminal_barrier (snd row)" "\<not> is_cancel (snd row)"
    using snoc.prems by (auto simp: clean_log_def no_cancels_def)
  show ?case
  proof (cases "\<exists>results ts. snd row = ToolResults results ts")
    case True
    then obtain results ts where r: "snd row = ToolResults results ts" by blast
    have "orphan_call_set (close_orphans (answered_ids results) os1) =
        {c \<in> orphan_call_set os. \<forall>row \<in> set (es @ [row]). \<not> answers_call (snd row) c}"
      unfolding orphan_call_set_close os1(2) by (auto simp: answers_call_def r)
    with r os1(1) show ?thesis by (simp add: step_interrupted [OF row])
  next
    case False
    then have "\<not> answers_call (snd row) c" for c
      by (auto simp: answers_call_def split: SessionLogEntry.split)
    moreover have "acc_interrupted (foldl (apply_entry_with_seq of_json) acc (es @ [row])) = Some (s, cid, os1)"
      using False os1(1) by (simp add: step_interrupted [OF row] split: SessionLogEntry.split)
    ultimately show ?thesis using os1(2) by auto
  qed
qed simp

lemma finish_next_turn_messages [simp]:
  "next_turn_messages (finish acc) = acc_next_turn_messages acc"
  by (auto simp: finish_def Let_def split: option.split)

lemma finish_wind_up:
  "acc_interrupted acc = Some (s, cid, os) \<Longrightarrow> os \<noteq> [] \<Longrightarrow>
     turn_status (finish acc) = InterruptedPendingWindUp s cid os"
  by (simp add: finish_def Let_def)

text \<open>The split of a log at its last barrier, as the reconstruction makes it.\<close>

lemma reconstruct_at_barrier:
  assumes "settled = [] \<or> is_terminal_barrier (snd (last settled))" and "clean_log es"
  shows "reconstruct_state_with_seq of_json (settled @ es) =
    finish (foldl (apply_entry_with_seq of_json) (replay_start settled) es)"
proof -
  let ?B = "\<lambda>e :: seq option \<times> SessionLogEntry. is_terminal_barrier (snd e)"
  have cut: "after_last ?B settled = length settled"
  proof (cases settled rule: rev_cases)
    case Nil
    then show ?thesis by (simp add: after_last_def)
  next
    case (snoc ys y)
    with assms(1) show ?thesis using last_boundary.cut_append_boundary [where P = ?B, of y ys] by simp
  qed
  have "after_last ?B (settled @ es) = length settled"
    using last_boundary.cut_append_clean [where P = ?B, of es settled] assms(2) cut
    by (simp add: clean_log_def)
  then show ?thesis by (simp add: reconstruct_state_with_seq_def Let_def)
qed

lemma owed_calls_start [simp]: "owed_calls (replay_start settled) = {}"
  by (simp add: seed_settled_user_ids_eq owed_calls_def interrupted_orphans_def
      ReplayAccumulator_default_def)

lemma clean_log_simps [simp]:
  "clean_log []" "clean_log (e # es) \<longleftrightarrow> \<not> is_terminal_barrier (snd e) \<and> clean_log es"
  "clean_log (xs @ ys) \<longleftrightarrow> clean_log xs \<and> clean_log ys"
  by (auto simp: clean_log_def)

section \<open>The queue and the round in flight\<close>

definition is_tool_calls :: "SessionLogEntry \<Rightarrow> bool" where
  "is_tool_calls e = (case e of ToolCalls _ _ _ _ _ \<Rightarrow> True | _ \<Rightarrow> False)"

text \<open>Rows that neither end, cancel nor extend a tool round: they only add to the turn.\<close>

definition passive_row :: "seq option \<times> SessionLogEntry \<Rightarrow> bool" where
  "passive_row row \<longleftrightarrow>
     \<not> is_terminal_barrier (snd row) \<and> \<not> is_cancel (snd row) \<and> \<not> is_tool_calls (snd row)"

lemma seen_ids_step:
  "acc_seen_user_ids (apply_entry_with_seq of_json acc row) \<subseteq> acc_seen_user_ids acc \<union> user_ids [row]"
proof -
  obtain s e where row: "row = (s, e)" by fastforce
  show ?thesis
  proof (cases e)
    case (Message i role content ts f)
    then show ?thesis
      unfolding row
      by (auto simp: apply_entry_with_seq_def user_ids_def entry_is_user_def entry_msg_id_def
          on_user_message_with_seq_def cloned_message_def on_assistant_message_def Let_def
          split: option.splits)
  qed (simp_all add: row apply_entry_with_seq_def on_cancel_def on_tool_calls_def
      on_tool_results_def close_calls_def Let_def)
qed

lemma seen_ids_replay:
  "acc_seen_user_ids (foldl (apply_entry_with_seq of_json) acc es) \<subseteq>
     acc_seen_user_ids acc \<union> user_ids es"
proof (induction es rule: rev_induct)
  case (snoc row es)
  have "user_ids (es @ [row]) = user_ids es \<union> user_ids [row]" by (auto simp: user_ids_def)
  with snoc seen_ids_step [of of_json "foldl (apply_entry_with_seq of_json) acc es" row]
  show ?case by simp blast
qed simp

lemma queue_step:
  assumes "passive_row row"
  shows "\<exists>ms. acc_next_turn_messages (apply_entry_with_seq of_json acc row) = acc_next_turn_messages acc @ ms"
proof -
  obtain s e where row: "row = (s, e)" by fastforce
  have user: "\<exists>ms. acc_next_turn_messages (on_user_message_with_seq acc s e) = acc_next_turn_messages acc @ ms"
    by (simp add: on_user_message_with_seq_def Let_def split: option.split)
  show ?thesis
    using assms user unfolding row passive_row_def
    by (cases e) (simp_all add: apply_entry_with_seq_def is_terminal_barrier_def is_cancel_def
        is_tool_calls_def is_assistant_def close_calls_def)
qed

lemma queue_replay:
  "\<forall>row \<in> set es. passive_row row \<Longrightarrow> m \<in> set (acc_next_turn_messages acc) \<Longrightarrow>
     m \<in> set (acc_next_turn_messages (foldl (apply_entry_with_seq of_json) acc es))"
proof (induction es rule: rev_induct)
  case (snoc row es)
  let ?acc = "foldl (apply_entry_with_seq of_json) acc es"
  have "m \<in> set (acc_next_turn_messages ?acc)" using snoc by simp
  moreover obtain ms where
    "acc_next_turn_messages (apply_entry_with_seq of_json ?acc row) = acc_next_turn_messages ?acc @ ms"
    using queue_step [of row of_json ?acc] snoc.prems by auto
  ultimately show ?case by simp
qed simp

text \<open>The state of a tool round between its calls and whatever ends it.\<close>

definition in_flight ::
  "string \<Rightarrow> string option \<Rightarrow> ToolCall list \<Rightarrow> fence option \<Rightarrow> ToolOutput list \<Rightarrow> ReplayAccumulator \<Rightarrow> bool"
  where
  "in_flight t thought calls f results acc \<longleftrightarrow>
     acc_interrupted acc = None \<and>
     acc_last_assistant acc = Some (AssistantToolCalls t thought calls) \<and>
     acc_fence_token acc = f \<and> acc_pending_tool_results acc = results"

definition latest_results :: "seq_log \<Rightarrow> ToolOutput list \<Rightarrow> ToolOutput list" where
  "latest_results es before =
     foldl (\<lambda>acc row. case snd row of ToolResults rs _ \<Rightarrow> rs | _ \<Rightarrow> acc) before es"

lemma in_flight_step:
  assumes "passive_row row" and "in_flight t th cs f rs acc"
  shows "in_flight t th cs f (latest_results [row] rs) (apply_entry_with_seq of_json acc row)"
proof -
  obtain s e where row: "row = (s, e)" by fastforce
  have user: "in_flight t th cs f rs (on_user_message_with_seq acc s e)"
    using assms(2)
    by (simp add: in_flight_def on_user_message_with_seq_def Let_def is_tool_calls_turn_def
        split: option.split)
  show ?thesis
    using assms user unfolding row passive_row_def
    by (cases e) (simp_all add: apply_entry_with_seq_def is_terminal_barrier_def is_cancel_def
        is_tool_calls_def is_assistant_def latest_results_def in_flight_def close_calls_def
        on_tool_results_def is_tool_calls_turn_def)
qed

lemma in_flight_replay:
  "\<forall>row \<in> set es. passive_row row \<Longrightarrow> in_flight t th cs f rs acc \<Longrightarrow>
     in_flight t th cs f (latest_results es rs) (foldl (apply_entry_with_seq of_json) acc es)"
proof (induction es rule: rev_induct)
  case (snoc row es)
  let ?acc = "foldl (apply_entry_with_seq of_json) acc es"
  have "in_flight t th cs f (latest_results [row] (latest_results es rs)) (apply_entry_with_seq of_json ?acc row)"
    using in_flight_step [of row] snoc by simp
  then show ?case by (simp add: latest_results_def)
qed (simp add: latest_results_def)

lemma not_interrupted_replay:
  "clean_log es \<Longrightarrow> no_cancels es \<Longrightarrow> acc_interrupted acc = None \<Longrightarrow>
     acc_interrupted (foldl (apply_entry_with_seq of_json) acc es) = None"
proof (induction es rule: rev_induct)
  case (snoc row es)
  then have "\<not> is_terminal_barrier (snd row)" "\<not> is_cancel (snd row)"
    by (auto simp: no_cancels_def)
  note step = step_interrupted [OF this, of of_json]
  from snoc show ?case by (simp add: step no_cancels_def split: SessionLogEntry.split)
qed simp

lemma in_flight_start:
  "acc_interrupted acc = None \<Longrightarrow>
     in_flight t th cs f [] (apply_entry_with_seq of_json acc (s, ToolCalls t th cs ts f))"
  by (simp add: apply_entry_with_seq_def in_flight_def on_tool_calls_def Let_def)

lemma finish_in_flight:
  "in_flight t th cs f rs acc \<Longrightarrow>
     turn_status (finish acc) = InFlightResumable (acc_open_calls acc) \<and>
     (\<exists>u. resumable_ctx (finish acc) =
        Some \<lparr>ctx_last_user = u, ctx_last_assistant = Some (AssistantToolCalls t th cs),
              ctx_pending_tool_results = rs, ctx_fence_token = f\<rparr>)"
  by (simp add: in_flight_def finish_def Let_def is_tool_calls_turn_def)

section \<open>Properties\<close>

text \<open>
  C6: An interrupted turn always winds up. When a turn's log holds a \<open>Cancel\<close> (the last
  one) and a call requested before it that no later result answers, reconstruction
  reports \<open>InterruptedPendingWindUp\<close> under that cancel's sequence and id, whatever was
  queued after it, and its orphans hold exactly the calls left open at the cancel and
  unanswered since.
\<close>

theorem interrupted_turn_owes_wind_up:
  assumes "settled = [] \<or> is_terminal_barrier (snd (last settled))"
    and "clean_log pre" and "clean_log post" and "no_cancels post"
    and "left_open c pre" and "\<forall>row \<in> set post. \<not> answers_call (snd row) c"
  shows "\<exists>orphans.
    turn_status (reconstruct_state_with_seq of_json
      (settled @ pre @ (Some n, Cancel f cid by_whom ts) # post)) =
      InterruptedPendingWindUp n cid orphans \<and>
    orphan_call_set orphans =
      {d. left_open d pre \<and> (\<forall>row \<in> set post. \<not> answers_call (snd row) d)}"
proof -
  let ?step = "apply_entry_with_seq of_json"
  let ?a = "foldl ?step (replay_start settled) pre"
  let ?b = "?step ?a (Some n, Cancel f cid by_whom ts)"
  have b: "acc_interrupted ?b = Some (n, cid, interrupted_orphans ?a @ acc_open_calls ?a)"
    by (simp add: apply_entry_with_seq_def on_cancel_def Let_def seq_or_zero_def
        interrupted_orphans_def split: option.split)
  have owed: "orphan_call_set (interrupted_orphans ?a @ acc_open_calls ?a) = {d. left_open d pre}"
    using replay_owed_calls [OF assms(2) owed_calls_start] by (simp add: owed_calls_def)
  obtain os where os: "acc_interrupted (foldl ?step ?b post) = Some (n, cid, os)"
    and set: "orphan_call_set os = {d. left_open d pre \<and> (\<forall>row \<in> set post. \<not> answers_call (snd row) d)}"
    using replay_after_cancel [OF assms(3,4) b, of of_json] unfolding owed by auto
  have "c \<in> orphan_call_set os" using set assms(5,6) by simp
  then have "os \<noteq> []" by auto
  have clean: "clean_log (pre @ (Some n, Cancel f cid by_whom ts) # post)"
    using assms(2,3) by (simp add: is_terminal_barrier_def)
  have "turn_status (reconstruct_state_with_seq of_json
      (settled @ pre @ (Some n, Cancel f cid by_whom ts) # post)) = InterruptedPendingWindUp n cid os"
    unfolding reconstruct_at_barrier [OF assms(1) clean]
    using finish_wind_up [OF os \<open>os \<noteq> []\<close>] by simp
  with set show ?thesis by blast
qed

definition demo_call :: ToolCall where
  "demo_call = ToolCall_new ''bash'' JNull (Some ''c1'') None"

theorem interrupted_turn_owes_wind_up_witness:
  "\<exists>orphans. turn_status (reconstruct_state_with_seq (\<lambda>_. None)
      ([] @ [(Some 1, Message None User (Text ''go'') None None),
        (Some 2, ToolCalls [] None [demo_call] None None)] @
       (Some 3, Cancel 0 (Some ''x'') None None) #
       [(Some 4, Message None User (Text ''steer'') None None)])) =
      InterruptedPendingWindUp 3 (Some ''x'') orphans \<and> demo_call \<in> orphan_call_set orphans"
proof -
  let ?pre = "[(Some 1, Message None User (Text ''go'') None None),
      (Some (2 :: nat), ToolCalls [] None [demo_call] None None)]"
  let ?post = "[(Some (4 :: nat), Message None User (Text ''steer'') None None)]"
  have l: "left_open demo_call ?pre"
    using left_open_snoc [of demo_call "[hd ?pre]" "last ?pre"] by (simp add: requests_call_def)
  have p: "\<forall>row \<in> set ?post. \<not> answers_call (snd row) demo_call" by (simp add: answers_call_def)
  have clean: "clean_log ?pre" "clean_log ?post" "no_cancels ?post"
    by (simp_all add: is_terminal_barrier_def no_cancels_def is_cancel_def)
  from interrupted_turn_owes_wind_up [of "[]", OF _ clean l p, of "\<lambda>_. None" 3 0 "Some ''x''" None None]
  show ?thesis using l p by auto
qed

text \<open>
  C7: A tool round in flight is resumed as it was. When the last round of an uncancelled
  turn is followed only by results, queued prompts and other passive rows, the status is
  \<open>InFlightResumable\<close> with exactly the calls still unanswered, and the resume context
  carries that round's text, calls and fence together with the newest results.
\<close>

theorem in_flight_round_resumes:
  assumes "settled = [] \<or> is_terminal_barrier (snd (last settled))"
    and "clean_log pre" and "no_cancels pre" and "\<forall>row \<in> set post. passive_row row"
  shows "let log = pre @ (s, ToolCalls t thought calls ts f) # post;
             st = reconstruct_state_with_seq of_json (settled @ log)
    in (\<exists>orphans. turn_status st = InFlightResumable orphans \<and>
          orphan_call_set orphans = {c. left_open c log}) \<and>
       (\<exists>u. resumable_ctx st =
          Some \<lparr>ctx_last_user = u, ctx_last_assistant = Some (AssistantToolCalls t thought calls),
                ctx_pending_tool_results = latest_results post [], ctx_fence_token = f\<rparr>)"
proof -
  let ?log = "pre @ (s, ToolCalls t thought calls ts f) # post"
  let ?step = "apply_entry_with_seq of_json"
  let ?acc = "foldl ?step (replay_start settled) ?log"
  have "clean_log post" using assms(4) by (auto simp: clean_log_def passive_row_def)
  with assms(2) have clean: "clean_log ?log" by (simp add: is_terminal_barrier_def)
  have "acc_interrupted (foldl ?step (replay_start settled) pre) = None"
    by (rule not_interrupted_replay [OF assms(2,3)])
       (simp add: seed_settled_user_ids_eq ReplayAccumulator_default_def)
  from in_flight_replay [OF assms(4) in_flight_start [OF this]]
  have fl: "in_flight t thought calls f (latest_results post []) ?acc" by simp
  have "orphan_call_set (acc_open_calls ?acc) = {c. left_open c ?log}"
    using replay_owed_calls [OF clean owed_calls_start, of of_json settled] fl
    by (simp add: owed_calls_def interrupted_orphans_def in_flight_def)
  with finish_in_flight [OF fl] show ?thesis
    unfolding Let_def reconstruct_at_barrier [OF assms(1) clean] by blast
qed

theorem in_flight_round_resumes_witness:
  "\<exists>orphans. turn_status (reconstruct_state_with_seq (\<lambda>_. None)
     ([(Some 1, Error ''e'' 1 None)] @ [] @ (Some 2, ToolCalls ''t'' None [demo_call] None (Some 9)) # [])) =
     InFlightResumable orphans \<and> demo_call \<in> orphan_call_set orphans"
proof -
  have "left_open demo_call [(Some 2, ToolCalls ''t'' None [demo_call] None (Some 9))]"
    using left_open_snoc [of demo_call "[]" "(Some 2, ToolCalls ''t'' None [demo_call] None (Some 9))"]
    by (simp add: requests_call_def)
  moreover note in_flight_round_resumes [of "[(Some 1, Error ''e'' 1 None)]" "[]" "[]" "Some 2" "''t''"
      None "[demo_call]" None "Some 9" "\<lambda>_. None"]
  ultimately show ?thesis
    by (simp add: is_terminal_barrier_def no_cancels_def Let_def) blast
qed

text \<open>
  C8: Queued input is never dropped. A user prompt that is neither a timing notice nor a
  runtime note and whose id, if any, is new to the log is handed to the next turn, with
  its content, id and log sequence, as long as no cancel, assistant reply, error or new
  tool round follows it.
\<close>

theorem queued_prompt_not_lost:
  assumes "settled = [] \<or> is_terminal_barrier (snd (last settled))"
    and "clean_log pre" and "\<forall>row \<in> set post. passive_row row"
    and "\<not> is_timing_notice of_json (to_text content)" and "\<not> is_runtime_note_id i"
    and "\<forall>x. i = Some x \<longrightarrow> x \<notin> user_ids (settled @ pre)"
  shows "queued_message s i User content ts \<in>
    set (next_turn_messages (reconstruct_state_with_seq of_json
      (settled @ pre @ (s, Message i User content ts f) # post)))"
proof -
  let ?step = "apply_entry_with_seq of_json"
  let ?a = "foldl ?step (replay_start settled) pre"
  let ?m = "queued_message s i User content ts"
  have inv: "acc_inv (user_ids settled) ?a" by (rule turn_replay.inv_run)
  have "acc_seen_user_ids ?a \<subseteq> user_ids (settled @ pre)"
    using seen_ids_replay [of of_json "replay_start settled" pre]
    by (auto simp: seed_settled_user_ids_eq ReplayAccumulator_default_def user_ids_def)
  with assms(6) have "\<not> (\<exists>x. i = Some x \<and> x \<in> acc_seen_user_ids ?a)" by auto
  then have "?m \<in> set (acc_next_turn_messages (?step ?a (s, Message i User content ts f)))"
    using assms(4,5)
    by (auto simp: apply_entry_with_seq_def is_user_def on_user_message_eq [OF inv] queue_message_def)
  from queue_replay [OF assms(3) this]
  have "?m \<in> set (acc_next_turn_messages (foldl ?step (replay_start settled)
      (pre @ (s, Message i User content ts f) # post)))" by simp
  moreover have "clean_log post" using assms(3) by (auto simp: clean_log_def passive_row_def)
  with assms(2) have "clean_log (pre @ (s, Message i User content ts f) # post)"
    by (simp add: is_terminal_barrier_def)
  ultimately show ?thesis by (simp add: reconstruct_at_barrier [OF assms(1)])
qed

theorem queued_prompt_not_lost_witness:
  "queued_message (Some 3) (Some ''b'') User (Text ''more'') None \<in>
    set (next_turn_messages (reconstruct_state_with_seq (\<lambda>_. None)
      ([] @ [(Some 1, Message (Some ''a'') User (Text ''go'') None None)] @
        (Some 3, Message (Some ''b'') User (Text ''more'') None None) # [])))"
  by (rule queued_prompt_not_lost)
     (simp_all add: is_terminal_barrier_def is_runtime_note_id_def is_runtime_note_message_id_def
       RUNTIME_NOTE_ID_PREFIX_def starts_with_def user_ids_def entry_is_user_def entry_msg_id_def)

text \<open>
  C9: No prompt is run twice. For every log, the messages handed to the next turn are user
  messages with pairwise distinct ids, and none carries the id of a user message logged
  before the last assistant reply or error, so compaction copies are never re-executed.
\<close>

theorem next_turn_messages_fresh:
  "let split = after_last (\<lambda>e. is_terminal_barrier (snd e)) es;
       queued = next_turn_messages (reconstruct_state_with_seq of_json es)
   in list_all (\<lambda>m. msg_role m = User) queued \<and> distinct (filter_map msg_id queued) \<and>
      set (filter_map msg_id queued) \<inter> user_ids (take split es) = {}"
proof -
  let ?split = "after_last (\<lambda>e. is_terminal_barrier (snd e)) es"
  let ?acc = "foldl (apply_entry_with_seq of_json) (replay_start (take ?split es)) (drop ?split es)"
  have "acc_inv (user_ids (take ?split es)) ?acc" by (rule turn_replay.inv_run)
  moreover have "next_turn_messages (reconstruct_state_with_seq of_json es) = acc_next_turn_messages ?acc"
    by (simp add: reconstruct_state_with_seq_def Let_def)
  ultimately show ?thesis by (auto simp: Let_def acc_inv_def list_all_iff simp del: set_filter_map)
qed

text \<open>
  A JetStream log whose sequence numbers fit the platform is reconstructed from its
  effective stream; if one does not fit, the worker sees an idle session with nothing
  queued and nothing to resume.
\<close>

theorem reconstruct_state_from_nats_cases:
  "reconstruct_state_from_nats usize_max yaml of_json es =
     (if list_all (\<lambda>e. fst e \<le> usize_max) es
      then reconstruct_state_effective of_json (apply_log_mutations yaml es)
      else \<lparr>turn_status = Idle, next_turn_messages = [], resumable_ctx = None\<rparr>)"
proof (cases "list_all (\<lambda>e. fst e \<le> usize_max) es")
  case True
  then show ?thesis
    unfolding reconstruct_state_from_nats_def
    by (subst try_collect_Inr [where g = id]) (auto simp: list_all_iff)
next
  case False
  let ?f = "\<lambda>(seq, entry). if seq \<le> usize_max then Inr (seq, entry) else Inl (SeqDoesNotFit seq)"
  from False obtain e where e: "e \<in> set es" "\<not> fst e \<le> usize_max" by (auto simp: list_all_iff)
  from e(2) have "?f e = Inl (SeqDoesNotFit (fst e))" by (simp add: case_prod_beta)
  with e(1) obtain err where "try_collect ?f es = Inl err"
    using try_collect_Inl_iff [of ?f es] by blast
  then have "reconstruct_state_from_nats usize_max yaml of_json es = reconstruct_state_effective of_json []"
    by (simp add: reconstruct_state_from_nats_def)
  also have "\<dots> = \<lparr>turn_status = Idle, next_turn_messages = [], resumable_ctx = None\<rparr>"
    by (simp add: reconstruct_state_effective_def reconstruct_state_with_seq_def after_last_def
        seed_settled_user_ids_def finish_def ReplayAccumulator_default_def is_tool_calls_turn_def)
  finally show ?thesis using False by simp
qed

end
