(* ===== verification/Tool_Repeat.thy ===== *)
theory Tool_Repeat
  imports Session_Types
begin

text \<open>
  The tool-call loop guard: \<open>harnx-core/src/loop_guard/mod.rs\<close> (the repetition stop and
  its marker) and \<open>tool_repeat.rs\<close> (\<open>ToolRepeatGuard\<close>, the notes it appends to results).
  The guard is a value passed through its operations; its two hash maps are partial
  maps. The clock is an argument, in nanoseconds. SHA-256 (\<open>digest\<close>), \<open>serde_json\<close>'s
  text form and chrono's rounding and formatting are parameters.

  The lemmas relate the guard to an unpruned history of executions and refusals, and
  show that what a refusal and a note tell the model is what the guard then does.
\<close>

section \<open>Repetition stops\<close>

definition REPETITION_TERMINAL_PREFIX :: string where
  "REPETITION_TERMINAL_PREFIX = ''harnx:repetition ''"

datatype RepetitionSource = SourceToolCalls | SourceAnswer | SourceThinking

record RepetitionTerminal =
  term_source :: RepetitionSource
  term_tool :: "string option"
  term_count :: "nat option"

definition RepetitionTerminal_output :: "RepetitionSource \<Rightarrow> RepetitionTerminal" where
  "RepetitionTerminal_output source = \<lparr>term_source = source, term_tool = None, term_count = None\<rparr>"

definition RepetitionTerminal_tool_calls :: "string \<Rightarrow> nat \<Rightarrow> RepetitionTerminal" where
  "RepetitionTerminal_tool_calls tool count =
     \<lparr>term_source = SourceToolCalls, term_tool = Some tool, term_count = Some count\<rparr>"

definition reason :: "RepetitionTerminal \<Rightarrow> string" where
  "reason t =
     (case term_source t of
        SourceAnswer \<Rightarrow> ''the model's reply kept repeating the same text''
      | SourceThinking \<Rightarrow> ''the model's reasoning kept repeating the same text''
      | SourceToolCalls \<Rightarrow>
          ''the model kept repeating the same `'' @
          (case term_tool t of Some tool \<Rightarrow> tool | None \<Rightarrow> ''tool'') @
          ''` call with identical arguments and results'')"

definition sentence :: "RepetitionTerminal \<Rightarrow> string" where
  "sentence t = ''Stopped: '' @ reason t @ ''.''"

text \<open>\<open>Display for RepetitionStop\<close>: \<open>None\<close> is \<open>fmt::Error\<close>, when the payload does not serialise.\<close>

definition RepetitionStop_display ::
  "(RepetitionTerminal \<Rightarrow> string option) \<Rightarrow> RepetitionTerminal \<Rightarrow> string option" where
  "RepetitionStop_display to_json t =
     (case to_json t of
        None \<Rightarrow> None
      | Some payload \<Rightarrow> Some (sentence t @ '' '' @ REPETITION_TERMINAL_PREFIX @ payload))"

definition parse_repetition_terminal ::
  "(string \<Rightarrow> RepetitionTerminal option) \<Rightarrow> string \<Rightarrow> RepetitionTerminal option" where
  "parse_repetition_terminal from_json message =
     (case str_rfind message REPETITION_TERMINAL_PREFIX of
        None \<Rightarrow> None
      | Some start \<Rightarrow> from_json (drop (start + length REPETITION_TERMINAL_PREFIX) message))"

text \<open>The error chain is the list of its causes; \<open>downcast\<close> recognises a \<open>RepetitionStop\<close>.\<close>

definition repetition_stop_sentence ::
  "('cause \<Rightarrow> RepetitionTerminal option) \<Rightarrow> 'cause list \<Rightarrow> string option" where
  "repetition_stop_sentence downcast chain = map_option sentence (find_map downcast chain)"

section \<open>The guard\<close>

definition TOOL_REPEAT_LIMIT :: nat where
  [simp]: "TOOL_REPEAT_LIMIT = 4"

definition TOOL_REPEAT_WINDOW :: nat where \<comment> \<open>seconds\<close>
  "TOOL_REPEAT_WINDOW = 600"

definition REFUSALS_BEFORE_STOP :: nat where
  [simp]: "REFUSALS_BEFORE_STOP = 3"

definition window :: duration where
  "window = int TOOL_REPEAT_WINDOW * 1000000000"

definition window_minutes :: nat where
  "window_minutes = TOOL_REPEAT_WINDOW div 60"

record 'fp CallKey =
  key_name :: string
  key_arguments :: 'fp

definition CallKey_of :: "(json \<Rightarrow> 'fp) \<Rightarrow> ToolCall \<Rightarrow> 'fp CallKey" where
  "CallKey_of digest call =
     \<lparr>key_name = call_name call, key_arguments = fingerprint digest (call_arguments call)\<rparr>"

record 'fp Execution =
  exec_at :: instant
  exec_result :: 'fp

record Refusal =
  ref_tool :: string
  ref_count :: nat
  ref_retry_after :: instant

text \<open>\<open>duration_round_up\<close> to the second may fail, and formatting is in local time.\<close>

definition Refusal_message ::
  "(instant \<Rightarrow> instant option) \<Rightarrow> (instant \<Rightarrow> string) \<Rightarrow> Refusal \<Rightarrow> string" where
  "Refusal_message round_up_second format_local r =
     (let retry_after = format_local
            (case round_up_second (ref_retry_after r) of Some t \<Rightarrow> t | None \<Rightarrow> ref_retry_after r)
      in ''harnx did not run this call. It matches your last '' @ show_nat (ref_count r) @
         '' calls to `'' @ ref_tool r @ ''` in the past '' @ show_nat window_minutes @
         '' minutes, and each returned the same result. It can run again after '' @ retry_after @
         ''. Use the result you have, wait, or take a different approach. If your '' @
         ''next call is refused too, or this call is refused a third time, harnx will end the turn.'')"

definition NOTE_PREFIX :: string where
  "NOTE_PREFIX = ''[harnx] Same call and same result ''"

record RepeatNote =
  note_count :: nat

definition RepeatNote_text :: "RepeatNote \<Rightarrow> string" where
  "RepeatNote_text note =
     (let count = note_count note; minutes = window_minutes
      in if TOOL_REPEAT_LIMIT \<le> count
         then NOTE_PREFIX @ show_nat count @ '' times in the last '' @ show_nat minutes @
           '' minutes; harnx will refuse the next identical call. Wait between checks or do something else.''
         else NOTE_PREFIX @ show_nat count @ '' times in the last '' @ show_nat minutes @
           '' minutes; harnx allows '' @ show_nat TOOL_REPEAT_LIMIT @
           ''. Wait between checks or do something else.'')"

datatype ToolRepeatVerdict = Run | Refuse Refusal | Stop RepetitionTerminal

record 'fp ToolRepeatGuard =
  g_executions :: "'fp CallKey \<rightharpoonup> 'fp Execution list"
  g_refusals :: "'fp CallKey \<rightharpoonup> instant list"
  g_refused_in_response :: bool
  g_previous_response_refused :: bool
  g_compaction_marker :: "nat option"

definition ToolRepeatGuard_default :: "'fp ToolRepeatGuard" where
  "ToolRepeatGuard_default =
     \<lparr>g_executions = Map.empty, g_refusals = Map.empty, g_refused_in_response = False,
      g_previous_response_refused = False, g_compaction_marker = None\<rparr>"

definition guard_reset :: "'fp ToolRepeatGuard \<Rightarrow> 'fp ToolRepeatGuard" where
  "guard_reset g = ToolRepeatGuard_default"

definition begin_round :: "'fp ToolRepeatGuard \<Rightarrow> bool \<Rightarrow> nat \<Rightarrow> 'fp ToolRepeatGuard" where
  "begin_round g user_message_arrived marker =
     (let compacted = (case g_compaction_marker g of Some seen \<Rightarrow> seen \<noteq> marker | None \<Rightarrow> False);
          g = (if user_message_arrived \<or> compacted then guard_reset g else g)
      in g\<lparr>g_compaction_marker := Some marker\<rparr>)"

definition begin_batch :: "'fp ToolRepeatGuard \<Rightarrow> 'fp ToolRepeatGuard" where
  "begin_batch g =
     g\<lparr>g_previous_response_refused := g_refused_in_response g, g_refused_in_response := False\<rparr>"

definition matching_executions ::
  "'fp ToolRepeatGuard \<Rightarrow> 'fp CallKey \<Rightarrow> instant \<Rightarrow> instant list \<times> 'fp ToolRepeatGuard" where
  "matching_executions g key now =
     (case g_executions g key of
        None \<Rightarrow> ([], g)
      | Some executions \<Rightarrow>
          let executions = filter (\<lambda>e. now - exec_at e < window) executions;
              g = g\<lparr>g_executions := (g_executions g)(key \<mapsto> executions)\<rparr>
          in if executions = [] then ([], g)
             else (map exec_at
                     (filter (\<lambda>e. exec_result e = exec_result (last executions)) executions), g))"

definition refusals_in_window ::
  "'fp ToolRepeatGuard \<Rightarrow> 'fp CallKey \<Rightarrow> instant \<Rightarrow> nat \<times> 'fp ToolRepeatGuard" where
  "refusals_in_window g key now =
     (case g_refusals g key of
        None \<Rightarrow> (0, g)
      | Some ats \<Rightarrow>
          let ats = filter (\<lambda>t. now - t < window) ats
          in (length ats, g\<lparr>g_refusals := (g_refusals g)(key \<mapsto> ats)\<rparr>))"

definition decide ::
  "(json \<Rightarrow> 'fp) \<Rightarrow> 'fp ToolRepeatGuard \<Rightarrow> ToolCall \<Rightarrow> instant
     \<Rightarrow> ToolRepeatVerdict \<times> 'fp ToolRepeatGuard" where
  "decide digest g call now =
     (let key = CallKey_of digest call;
          (matching, g) = matching_executions g key now
      in if length matching < TOOL_REPEAT_LIMIT then (Run, g)
         else
           let (refusals, g) = refusals_in_window g key now
           in if g_previous_response_refused g \<or> REFUSALS_BEFORE_STOP \<le> refusals + 1
              then (Stop (RepetitionTerminal_tool_calls (call_name call) (length matching)), g)
              else
                let ats = (case g_refusals g key of Some ts \<Rightarrow> ts | None \<Rightarrow> []);
                    g = g\<lparr>g_refusals := (g_refusals g)(key \<mapsto> ats @ [now]),
                          g_refused_in_response := True\<rparr>;
                    retry_after = matching ! (length matching - TOOL_REPEAT_LIMIT) + window
                in (Refuse \<lparr>ref_tool = call_name call, ref_count = length matching,
                            ref_retry_after = retry_after\<rparr>, g))"

definition record_execution ::
  "(json \<Rightarrow> 'fp) \<Rightarrow> 'fp ToolRepeatGuard \<Rightarrow> ToolCall \<Rightarrow> json \<Rightarrow> instant
     \<Rightarrow> RepeatNote option \<times> 'fp ToolRepeatGuard" where
  "record_execution digest g call output now =
     (let result = fingerprint digest output;
          key = CallKey_of digest call;
          executions = (case g_executions g key of Some es \<Rightarrow> es | None \<Rightarrow> []);
          executions = filter (\<lambda>e. now - exec_at e < window) executions;
          executions = executions @ [\<lparr>exec_at = now, exec_result = result\<rparr>];
          count = length (filter (\<lambda>e. exec_result e = result) executions)
      in (if 2 \<le> count then Some \<lparr>note_count = count\<rparr> else None,
          g\<lparr>g_executions := (g_executions g)(key \<mapsto> executions)\<rparr>))"

section \<open>Notes on results\<close>

definition append_note :: "json \<Rightarrow> string \<Rightarrow> json" where
  "append_note output note =
     (case output of
        JObject m \<Rightarrow>
          (case map_get m ''content'' of
             Some (JArray blocks) \<Rightarrow>
               JObject (map_insert m ''content''
                 (JArray (blocks @ [JObject [(''type'', JString ''text''), (''text'', JString note)]])))
           | _ \<Rightarrow> JObject (map_insert m ''harnx_note'' (JString note)))
      | JString text \<Rightarrow> JString (text @ newline @ newline @ note)
      | _ \<Rightarrow> output)"

definition is_note :: "string \<Rightarrow> bool" where
  "is_note text = starts_with text NOTE_PREFIX"

definition is_note_block :: "json \<Rightarrow> bool" where
  "is_note_block block =
     (case as_object block of
        None \<Rightarrow> False
      | Some m \<Rightarrow>
          let text = Option.bind (map_get m ''text'') as_str
          in length m = 2 \<and> Option.bind (map_get m ''type'') as_str = Some ''text''
             \<and> (case text of Some t \<Rightarrow> is_note t | None \<Rightarrow> False))"

definition strip_note_block :: "json list \<Rightarrow> json list" where
  "strip_note_block blocks =
     (if blocks \<noteq> [] \<and> is_note_block (last blocks) then butlast blocks else blocks)"

definition strip_note_field :: "json_map \<Rightarrow> json_map" where
  "strip_note_field m =
     (if (case Option.bind (map_get m ''harnx_note'') as_str of Some t \<Rightarrow> is_note t | None \<Rightarrow> False)
      then map_shift_remove m ''harnx_note'' else m)"

definition strip_note_text :: "string \<Rightarrow> string" where
  "strip_note_text text =
     (case str_rfind text (newline @ newline @ NOTE_PREFIX) of
        Some start \<Rightarrow> take start text
      | None \<Rightarrow> text)"

definition strip_note :: "json \<Rightarrow> json" where
  "strip_note output =
     (case output of
        JObject m \<Rightarrow>
          (case map_get m ''content'' of
             Some (JArray blocks) \<Rightarrow>
               JObject (map_insert m ''content'' (JArray (strip_note_block blocks)))
           | _ \<Rightarrow> JObject (strip_note_field m))
      | JString text \<Rightarrow> JString (strip_note_text text)
      | _ \<Rightarrow> output)"

section \<open>The guard's state seen through its lists\<close>

text \<open>A key without an entry and a key with an empty list behave alike.\<close>

definition execs :: "'fp ToolRepeatGuard \<Rightarrow> 'fp CallKey \<Rightarrow> 'fp Execution list" where
  "execs g k = (case g_executions g k of Some es \<Rightarrow> es | None \<Rightarrow> [])"

definition refs :: "'fp ToolRepeatGuard \<Rightarrow> 'fp CallKey \<Rightarrow> instant list" where
  "refs g k = (case g_refusals g k of Some ts \<Rightarrow> ts | None \<Rightarrow> [])"

abbreviation live :: "instant \<Rightarrow> 'fp Execution list \<Rightarrow> 'fp Execution list" where
  "live now \<equiv> filter (\<lambda>e. now - exec_at e < window)"

abbreviation recent :: "instant \<Rightarrow> instant list \<Rightarrow> instant list" where
  "recent now \<equiv> filter (\<lambda>t. now - t < window)"

definition matching_times :: "'fp Execution list \<Rightarrow> instant list" where
  "matching_times es =
     map exec_at (filter (\<lambda>e. exec_result e = exec_result (last es)) es)"

lemma live_live: "now \<le> t \<Longrightarrow> live t (live now es) = live t es"
  by (induction es) auto

lemma recent_recent: "now \<le> t \<Longrightarrow> recent t (recent now ts) = recent t ts"
  by (induction ts) auto

lemma matching_executions_eq:
  "fst (matching_executions g k now) = matching_times (live now (execs g k))"
  "execs (snd (matching_executions g k now)) = (execs g)(k := live now (execs g k))"
  "refs (snd (matching_executions g k now)) = refs g"
  "g_refusals (snd (matching_executions g k now)) = g_refusals g"
  "g_refused_in_response (snd (matching_executions g k now)) = g_refused_in_response g"
  "g_previous_response_refused (snd (matching_executions g k now)) = g_previous_response_refused g"
  "g_compaction_marker (snd (matching_executions g k now)) = g_compaction_marker g"
  by (auto simp: matching_executions_def execs_def refs_def matching_times_def Let_def fun_eq_iff
      filter_empty_conv split: option.splits)

lemma refusals_in_window_eq:
  "fst (refusals_in_window g k now) = length (recent now (refs g k))"
  "refs (snd (refusals_in_window g k now)) = (refs g)(k := recent now (refs g k))"
  "execs (snd (refusals_in_window g k now)) = execs g"
  "g_refused_in_response (snd (refusals_in_window g k now)) = g_refused_in_response g"
  "g_previous_response_refused (snd (refusals_in_window g k now)) = g_previous_response_refused g"
  "g_compaction_marker (snd (refusals_in_window g k now)) = g_compaction_marker g"
  by (auto simp: refusals_in_window_def execs_def refs_def Let_def fun_eq_iff split: option.splits)

lemma pruned_refusals:
  "(case g_refusals (snd (refusals_in_window g k now)) k of Some ts \<Rightarrow> ts | None \<Rightarrow> []) =
     recent now (refs g k)"
  by (simp add: refusals_in_window_def refs_def Let_def split: option.splits)

lemma execs_updates [simp]:
  "execs (g\<lparr>g_refusals := r\<rparr>) = execs g"
  "execs (g\<lparr>g_refused_in_response := b\<rparr>) = execs g"
  "execs (g\<lparr>g_previous_response_refused := b\<rparr>) = execs g"
  "execs (g\<lparr>g_compaction_marker := m\<rparr>) = execs g"
  "execs (g\<lparr>g_executions := (g_executions g)(k \<mapsto> es)\<rparr>) = (execs g)(k := es)"
  "execs ToolRepeatGuard_default = (\<lambda>_. [])"
  by (auto simp: execs_def ToolRepeatGuard_default_def fun_eq_iff)

lemma refs_updates [simp]:
  "refs (g\<lparr>g_executions := e\<rparr>) = refs g"
  "refs (g\<lparr>g_refused_in_response := b\<rparr>) = refs g"
  "refs (g\<lparr>g_previous_response_refused := b\<rparr>) = refs g"
  "refs (g\<lparr>g_compaction_marker := m\<rparr>) = refs g"
  "refs (g\<lparr>g_refusals := (g_refusals g)(k \<mapsto> ts)\<rparr>) = (refs g)(k := ts)"
  "refs ToolRepeatGuard_default = (\<lambda>_. [])"
  by (auto simp: refs_def ToolRepeatGuard_default_def fun_eq_iff)

text \<open>The verdict of \<open>decide\<close> on every branch, and what each branch leaves behind.\<close>

definition over_limit :: "(json \<Rightarrow> 'fp) \<Rightarrow> 'fp ToolRepeatGuard \<Rightarrow> ToolCall \<Rightarrow> instant \<Rightarrow> bool" where
  "over_limit digest g call now \<longleftrightarrow>
     TOOL_REPEAT_LIMIT \<le> length (matching_times (live now (execs g (CallKey_of digest call))))"

definition stop_due :: "(json \<Rightarrow> 'fp) \<Rightarrow> 'fp ToolRepeatGuard \<Rightarrow> ToolCall \<Rightarrow> instant \<Rightarrow> bool" where
  "stop_due digest g call now \<longleftrightarrow>
     g_previous_response_refused g \<or>
     REFUSALS_BEFORE_STOP \<le> length (recent now (refs g (CallKey_of digest call))) + 1"

lemma decide_verdict:
  "fst (decide digest g call now) =
     (let m = matching_times (live now (execs g (CallKey_of digest call)))
      in if \<not> over_limit digest g call now then Run
         else if stop_due digest g call now
         then Stop (RepetitionTerminal_tool_calls (call_name call) (length m))
         else Refuse \<lparr>ref_tool = call_name call, ref_count = length m,
                ref_retry_after = m ! (length m - TOOL_REPEAT_LIMIT) + window\<rparr>)"
  by (simp add: decide_def over_limit_def stop_due_def Let_def case_prod_beta
      matching_executions_eq refusals_in_window_eq not_less)

lemma decide_state:
  fixes digest :: "json \<Rightarrow> 'fp" and call :: ToolCall
  defines "k \<equiv> CallKey_of digest call"
  shows "execs (snd (decide digest g call now)) = (execs g)(k := live now (execs g k))"
    and "refs (snd (decide digest g call now)) =
      (if \<not> over_limit digest g call now then refs g
       else if stop_due digest g call now then (refs g)(k := recent now (refs g k))
       else (refs g)(k := recent now (refs g k) @ [now]))"
    and "g_refused_in_response (snd (decide digest g call now)) =
      (g_refused_in_response g \<or> over_limit digest g call now \<and> \<not> stop_due digest g call now)"
    and "g_previous_response_refused (snd (decide digest g call now)) = g_previous_response_refused g"
    and "g_compaction_marker (snd (decide digest g call now)) = g_compaction_marker g"
  unfolding k_def
  by (simp_all add: decide_def over_limit_def stop_due_def Let_def case_prod_beta
      matching_executions_eq refusals_in_window_eq not_less pruned_refusals)

lemma record_execution_eq:
  fixes digest :: "json \<Rightarrow> 'fp" and call :: ToolCall
  defines "k \<equiv> CallKey_of digest call"
  defines "e \<equiv> \<lambda>output now. \<lparr>exec_at = now, exec_result = fingerprint digest output\<rparr>"
  shows "execs (snd (record_execution digest g call output now)) =
      (execs g)(k := live now (execs g k) @ [e output now])"
    and "refs (snd (record_execution digest g call output now)) = refs g"
    and "g_refused_in_response (snd (record_execution digest g call output now)) = g_refused_in_response g"
    and "g_previous_response_refused (snd (record_execution digest g call output now)) =
      g_previous_response_refused g"
    and "g_compaction_marker (snd (record_execution digest g call output now)) = g_compaction_marker g"
    and "fst (record_execution digest g call output now) =
      (let n = length (matching_times (live now (execs g k) @ [e output now]))
       in if 2 \<le> n then Some \<lparr>note_count = n\<rparr> else None)"
  by (simp_all add: record_execution_def Let_def k_def e_def execs_def [symmetric] matching_times_def)

section \<open>Specification: a guard that forgets nothing\<close>

text \<open>
  What the guard promises, over the events since the last reset, newest first. It prunes
  nothing and keeps no flags: a verdict is read off the history.
\<close>

datatype 'fp HistEvent = Executed "'fp CallKey" "'fp Execution" | Refused "'fp CallKey" instant | Responded

record 'fp GuardHistory =
  hist_marker :: "nat option"
  hist_events :: "'fp HistEvent list"

definition hist_execs :: "'fp HistEvent list \<Rightarrow> 'fp CallKey \<Rightarrow> 'fp Execution list" where
  "hist_execs h k =
     rev (filter_map (\<lambda>ev. case ev of Executed j e \<Rightarrow> if j = k then Some e else None | _ \<Rightarrow> None) h)"

definition hist_refs :: "'fp HistEvent list \<Rightarrow> 'fp CallKey \<Rightarrow> instant list" where
  "hist_refs h k =
     rev (filter_map (\<lambda>ev. case ev of Refused j t \<Rightarrow> if j = k then Some t else None | _ \<Rightarrow> None) h)"

fun refused_in_newest :: "'fp HistEvent list \<Rightarrow> bool" where
  "refused_in_newest [] = False"
| "refused_in_newest (ev # h) =
     (case ev of Responded \<Rightarrow> False | Refused _ _ \<Rightarrow> True | Executed _ _ \<Rightarrow> refused_in_newest h)"

fun refused_in_previous :: "'fp HistEvent list \<Rightarrow> bool" where
  "refused_in_previous [] = False"
| "refused_in_previous (ev # h) =
     (case ev of Responded \<Rightarrow> refused_in_newest h | _ \<Rightarrow> refused_in_previous h)"

datatype GuardOp =
    BeginRound bool nat
  | BeginBatch
  | Decide ToolCall instant
  | Record ToolCall json instant

datatype GuardOut = Done | Verdict ToolRepeatVerdict | Noted "RepeatNote option"

fun guard_step :: "(json \<Rightarrow> 'fp) \<Rightarrow> 'fp ToolRepeatGuard \<Rightarrow> GuardOp \<Rightarrow> GuardOut \<times> 'fp ToolRepeatGuard" where
  "guard_step digest g (BeginRound user marker) = (Done, begin_round g user marker)"
| "guard_step digest g BeginBatch = (Done, begin_batch g)"
| "guard_step digest g (Decide call now) = map_prod Verdict id (decide digest g call now)"
| "guard_step digest g (Record call output now) =
     map_prod Noted id (record_execution digest g call output now)"

definition history_verdict ::
  "(json \<Rightarrow> 'fp) \<Rightarrow> 'fp HistEvent list \<Rightarrow> ToolCall \<Rightarrow> instant \<Rightarrow> ToolRepeatVerdict" where
  "history_verdict digest h call now =
     (let k = CallKey_of digest call; m = matching_times (live now (hist_execs h k))
      in if length m < TOOL_REPEAT_LIMIT then Run
         else if refused_in_previous h \<or> REFUSALS_BEFORE_STOP \<le> length (recent now (hist_refs h k)) + 1
         then Stop (RepetitionTerminal_tool_calls (call_name call) (length m))
         else Refuse \<lparr>ref_tool = call_name call, ref_count = length m,
                ref_retry_after = m ! (length m - TOOL_REPEAT_LIMIT) + window\<rparr>)"

fun history_step :: "(json \<Rightarrow> 'fp) \<Rightarrow> 'fp GuardHistory \<Rightarrow> GuardOp \<Rightarrow> GuardOut \<times> 'fp GuardHistory" where
  "history_step digest h (BeginRound user marker) =
     (Done, \<lparr>hist_marker = Some marker, hist_events =
        (if user \<or> (\<exists>seen \<in> set_option (hist_marker h). seen \<noteq> marker) then [] else hist_events h)\<rparr>)"
| "history_step digest h BeginBatch = (Done, h\<lparr>hist_events := Responded # hist_events h\<rparr>)"
| "history_step digest h (Decide call now) =
     (let v = history_verdict digest (hist_events h) call now
      in (Verdict v,
          case v of
            Refuse r \<Rightarrow> h\<lparr>hist_events := Refused (CallKey_of digest call) now # hist_events h\<rparr>
          | _ \<Rightarrow> h))"
| "history_step digest h (Record call output now) =
     (let k = CallKey_of digest call; e = \<lparr>exec_at = now, exec_result = fingerprint digest output\<rparr>;
          n = length (matching_times (live now (hist_execs (hist_events h) k) @ [e]))
      in (Noted (if 2 \<le> n then Some \<lparr>note_count = n\<rparr> else None),
          h\<lparr>hist_events := Executed k e # hist_events h\<rparr>))"

definition GuardHistory_empty :: "'fp GuardHistory" where
  "GuardHistory_empty = \<lparr>hist_marker = None, hist_events = []\<rparr>"

text \<open>The clock never runs backwards.\<close>

fun op_time :: "instant \<Rightarrow> GuardOp \<Rightarrow> instant" where
  "op_time t (Decide call now) = now"
| "op_time t (Record call output now) = now"
| "op_time t (BeginRound user marker) = t"
| "op_time t BeginBatch = t"

definition in_order :: "instant \<Rightarrow> GuardOp \<Rightarrow> bool" where
  "in_order t x \<longleftrightarrow> t \<le> op_time t x"

text \<open>The guard represents a history when, from \<open>now\<close> on, it holds all the history still counts.\<close>

definition represents :: "instant \<Rightarrow> 'fp ToolRepeatGuard \<Rightarrow> 'fp GuardHistory \<Rightarrow> bool" where
  "represents now g h \<longleftrightarrow>
     (\<forall>t \<ge> now. \<forall>k. live t (execs g k) = live t (hist_execs (hist_events h) k)) \<and>
     (\<forall>t \<ge> now. \<forall>k. recent t (refs g k) = recent t (hist_refs (hist_events h) k)) \<and>
     g_refused_in_response g = refused_in_newest (hist_events h) \<and>
     g_previous_response_refused g = refused_in_previous (hist_events h) \<and>
     g_compaction_marker g = hist_marker h"

lemma hist_Cons [simp]:
  "hist_execs [] k = []" "hist_refs [] k = []"
  "hist_execs (Executed j e # h) k = hist_execs h k @ (if j = k then [e] else [])"
  "hist_execs (Refused j t # h) k = hist_execs h k"
  "hist_execs (Responded # h) k = hist_execs h k"
  "hist_refs (Executed j e # h) k = hist_refs h k"
  "hist_refs (Refused j t # h) k = hist_refs h k @ (if j = k then [t] else [])"
  "hist_refs (Responded # h) k = hist_refs h k"
  by (simp_all add: hist_execs_def hist_refs_def)

lemma represents_verdict:
  assumes "represents now g h" and "now \<le> t"
  shows "fst (decide digest g call t) = history_verdict digest (hist_events h) call t"
  using assms unfolding represents_def
  by (simp add: decide_verdict history_verdict_def over_limit_def stop_due_def Let_def not_less)

lemma represents_Decide:
  assumes "represents now g h" and "now \<le> t"
  shows "represents t (snd (decide digest g call t)) (snd (history_step digest h (Decide call t)))"
proof -
  let ?k = "CallKey_of digest call"
  have hv: "history_verdict digest (hist_events h) call t = fst (decide digest g call t)"
    using represents_verdict [OF assms] by simp
  show ?thesis
    using assms
    by (auto simp: represents_def hv decide_verdict decide_state Let_def live_live recent_recent
        simp del: filter_filter)
qed

lemma represents_Record:
  assumes "represents now g h" and "now \<le> t"
  shows "represents t (snd (record_execution digest g call out t))
    (snd (history_step digest h (Record call out t)))"
  using assms by (auto simp: represents_def record_execution_eq Let_def live_live simp del: filter_filter)

lemma represents_begin:
  assumes "represents now g h"
  shows "represents now (begin_batch g) (snd (history_step digest h BeginBatch))"
    and "represents now (begin_round g user marker) (snd (history_step digest h (BeginRound user marker)))"
  using assms
  by (auto simp: represents_def begin_batch_def begin_round_def guard_reset_def Let_def
      ToolRepeatGuard_default_def [symmetric] split: option.splits)
     (simp_all add: ToolRepeatGuard_default_def)

interpretation guard_sim: simulation "guard_step digest" "history_step digest" represents in_order op_time
  for digest :: "json \<Rightarrow> 'fp"
proof (unfold_locales, goal_cases)
  case (1 t g h x)
  then show ?case
  proof (cases x)
    case (Record call out now)
    with 1 show ?thesis
      by (simp add: in_order_def represents_def record_execution_eq Let_def)
  qed (simp_all add: in_order_def represents_verdict Let_def)
next
  case (2 t g h x)
  then show ?case
    by (cases x)
       (simp_all add: in_order_def represents_Decide represents_Record represents_begin
         del: history_step.simps)
qed

section \<open>Executions stay in time order\<close>

definition guard_sorted :: "instant \<Rightarrow> 'fp ToolRepeatGuard \<Rightarrow> bool" where
  "guard_sorted now g \<longleftrightarrow>
     (\<forall>k. sorted (map exec_at (execs g k)) \<and> (\<forall>e \<in> set (execs g k). exec_at e \<le> now))"

lemma sorted_live: "sorted (map exec_at es) \<Longrightarrow> sorted (map exec_at (live t es))"
  by (rule sorted_filter)

lemma guard_sorted_default [simp]: "guard_sorted t ToolRepeatGuard_default"
  by (simp add: guard_sorted_def)

lemma guard_sorted_decide:
  assumes "guard_sorted t g" and "t \<le> now"
  shows "guard_sorted now (snd (decide digest g call now))"
  using assms by (fastforce simp: guard_sorted_def decide_state(1) sorted_live)

lemma guard_sorted_record:
  assumes "guard_sorted t g" and "t \<le> now"
  shows "guard_sorted now (snd (record_execution digest g call out now))"
  using assms
  by (fastforce simp: guard_sorted_def record_execution_eq(1) sorted_live sorted_append)

interpretation guard_order: timed_invariant "guard_step digest" guard_sorted in_order op_time
  for digest :: "json \<Rightarrow> 'fp"
proof (unfold_locales, goal_cases)
  case (1 t g x)
  then show ?case
  proof (cases x)
    case (BeginRound user marker)
    with 1 show ?thesis
      by (simp add: begin_round_def Let_def guard_reset_def guard_sorted_def)
  next
    case BeginBatch
    with 1 show ?thesis by (simp add: begin_batch_def guard_sorted_def)
  qed (simp_all add: in_order_def guard_sorted_decide guard_sorted_record)
qed

text \<open>On a time-ordered list the matches at a later time are the matches still in the window.\<close>

lemma sorted_le_last:
  "sorted (map exec_at es) \<Longrightarrow> e \<in> set es \<Longrightarrow> exec_at e \<le> exec_at (last es)"
  by (cases es rule: rev_cases) (auto simp: sorted_append)

lemma last_live:
  assumes "sorted (map exec_at es)" and "live t es \<noteq> []"
  shows "last (live t es) = last es"
proof (rule last_filter_last)
  from assms(2) show "es \<noteq> []" by auto
  from assms(2) obtain e where e: "e \<in> set es" "t - exec_at e < window"
    by (auto simp: filter_empty_conv)
  from e(2) sorted_le_last [OF assms(1) e(1)] show "t - exec_at (last es) < window" by simp
qed

lemma matching_times_live:
  assumes "sorted (map exec_at es)"
  shows "matching_times (live t es) = recent t (matching_times es)"
proof (cases "live t es = []")
  case True
  then show ?thesis
    by (auto simp: matching_times_def filter_empty_conv)
next
  case False
  then show ?thesis
    by (simp add: matching_times_def last_live [OF assms] List.filter_map conj_commute comp_def)
qed

lemma matching_times_sorted:
  "sorted (map exec_at es) \<Longrightarrow> sorted (matching_times es)"
  unfolding matching_times_def by (rule sorted_filter)

section \<open>Correctness of the guard\<close>

abbreviation guard_after :: "(json \<Rightarrow> 'fp) \<Rightarrow> GuardOp list \<Rightarrow> 'fp ToolRepeatGuard" where
  "guard_after digest ops \<equiv> snd (run_ops (guard_step digest) ToolRepeatGuard_default ops)"

text \<open>
  C25: The guard implements its specification. Under a clock that never runs backwards, the
  verdicts and notes of any sequence of rounds, responses, decisions and recordings are
  those read off the full history since the last reset: pruning old executions and
  refusals and keeping two flags loses nothing.
\<close>

theorem guard_refines_history:
  assumes "admissible in_order op_time t0 ops"
  shows "fst (run_ops (guard_step digest) ToolRepeatGuard_default ops) =
    fst (run_ops (history_step digest) GuardHistory_empty ops)"
proof -
  have "represents t0 ToolRepeatGuard_default GuardHistory_empty"
    by (simp add: represents_def GuardHistory_empty_def) (simp add: ToolRepeatGuard_default_def)
  from guard_sim.sim_run [OF this assms] show ?thesis by blast
qed

definition demo_poll :: ToolCall where
  "demo_poll = ToolCall_new ''poll'' (JObject [(''id'', JNumber ''7'')]) (Some ''c1'') None"

definition demo_polls :: "GuardOp list" where
  "demo_polls = [Record demo_poll JNull 0, Record demo_poll JNull 1, Record demo_poll JNull 2,
     Record demo_poll JNull 3, BeginBatch]"

theorem guard_refines_history_witness:
  "fst (run_ops (guard_step id) ToolRepeatGuard_default (demo_polls @ [Decide demo_poll 4])) =
    fst (run_ops (history_step id) GuardHistory_empty (demo_polls @ [Decide demo_poll 4]))"
  by (rule guard_refines_history [of 0]) (simp add: demo_polls_def in_order_def)

text \<open>
  C26: A refusal tells the truth about when the call may run again. In any state the guard
  reaches, if a call is refused at \<open>now\<close> then the same call, with nothing recorded in
  between, runs at a later time exactly if that time has reached \<open>retry_after\<close>.
\<close>

theorem refusal_names_retry_time:
  assumes "admissible in_order op_time t0 ops" and "time_after op_time t0 ops \<le> now"
    and "decide digest (guard_after digest ops) call now = (Refuse r, g)" and "now \<le> t"
  shows "fst (decide digest g call t) = Run \<longleftrightarrow> ref_retry_after r \<le> t"
proof -
  let ?g = "guard_after digest ops" and ?k = "CallKey_of digest call"
  let ?es = "live now (execs ?g ?k)"
  let ?m = "matching_times ?es"
  have "guard_sorted (time_after op_time t0 ops) ?g"
    by (rule guard_order.timed_run [OF _ assms(1)]) simp
  then have srt: "sorted (map exec_at ?es)" by (simp add: guard_sorted_def sorted_live)
  have v: "fst (decide digest ?g call now) = Refuse r" and g: "g = snd (decide digest ?g call now)"
    by (simp_all add: assms(3))
  from v have lim: "TOOL_REPEAT_LIMIT \<le> length ?m"
    and r: "ref_retry_after r = ?m ! (length ?m - TOOL_REPEAT_LIMIT) + window"
    by (auto simp: decide_verdict Let_def over_limit_def split: if_splits)
  have "fst (decide digest g call t) = Run \<longleftrightarrow> length (matching_times (live t ?es)) < TOOL_REPEAT_LIMIT"
    by (simp add: decide_verdict Let_def over_limit_def g decide_state(1) not_less)
  also have "\<dots> \<longleftrightarrow> ?m ! (length ?m - TOOL_REPEAT_LIMIT) + window \<le> t"
    unfolding matching_times_live [OF srt]
    by (rule sorted_filter_threshold [OF matching_times_sorted [OF srt]]) (use lim in simp_all)
  finally show ?thesis unfolding r .
qed

lemma demo_refused:
  "decide id (guard_after id demo_polls) demo_poll 4 =
     (Refuse \<lparr>ref_tool = ''poll'', ref_count = 4, ref_retry_after = 600000000000\<rparr>,
      snd (decide id (guard_after id demo_polls) demo_poll 4))"
  by (simp add: prod_eq_iff demo_polls_def decide_def record_execution_def begin_batch_def
      matching_executions_def refusals_in_window_def ToolRepeatGuard_default_def Let_def
      window_def TOOL_REPEAT_WINDOW_def demo_poll_def ToolCall_new_def)

theorem refusal_names_retry_time_witness:
  "fst (decide id (snd (decide id (guard_after id demo_polls) demo_poll 4)) demo_poll 600000000000) = Run"
  using refusal_names_retry_time [OF _ _ demo_refused, of 0 600000000000]
  by (simp add: demo_polls_def in_order_def time_after_def)



text \<open>
  A note's count is what the next identical call will be judged by. Right after a result
  is recorded, the same call would still run exactly if there was no note or the note
  counted fewer than the limit of identical results.
\<close>

theorem note_predicts_decision:
  "let (note, g') = record_execution digest g call output now
   in fst (decide digest g' call now) = Run \<longleftrightarrow>
      (case note of None \<Rightarrow> True | Some n \<Rightarrow> note_count n < TOOL_REPEAT_LIMIT)"
proof -
  have "0 < window" by (simp add: window_def TOOL_REPEAT_WINDOW_def)
  then show ?thesis
    by (simp add: case_prod_beta decide_verdict over_limit_def record_execution_eq Let_def not_less)
qed

section \<open>Notes and markers can be taken back out of text\<close>

lemma map_insert_restore:
  "map_of m k = Some v \<Longrightarrow> map_insert (map_insert m k w) k v = m"
  by (induction m) (auto split: if_splits)

lemma newline_pair_once:
  assumes "CHR 0x0A \<notin> set w" and "0 < j"
  shows "\<not> prefix (newline @ newline @ p) (drop j (newline @ newline @ w))"
proof -
  have "CHR 0x0A \<notin> set (drop i w)" for i using assms(1) by (meson in_set_dropD)
  then have no: "\<not> prefix (CHR 0x0A # q) (drop i w)" for i q
    by (metis append_Cons list.set_intros(1) prefix_def)
  obtain i where "j = Suc i" using assms(2) by (cases j) auto
  then show ?thesis using no [of p 0] no [of "CHR 0x0A # p"] by (cases i) simp_all
qed

lemma show_nat_no_newline: "CHR 0x0A \<notin> set (show_nat n)"
  using show_nat_digits [of n] by auto

lemma note_text_shape:
  obtains rest where "RepeatNote_text note = NOTE_PREFIX @ rest" "CHR 0x0A \<notin> set rest"
proof -
  have "\<exists>rest. RepeatNote_text note = NOTE_PREFIX @ rest \<and> CHR 0x0A \<notin> set rest"
    by (simp add: RepeatNote_text_def Let_def show_nat_no_newline)
  then show ?thesis using that by blast
qed

lemma is_note_text [simp]: "is_note (RepeatNote_text note)"
  by (rule note_text_shape [of "note"]) (simp add: is_note_def)

lemma strip_note_text_append:
  "strip_note_text (text @ newline @ newline @ RepeatNote_text note) = text"
proof -
  obtain rest where rest: "RepeatNote_text note = NOTE_PREFIX @ rest" "CHR 0x0A \<notin> set rest"
    by (rule note_text_shape)
  have "CHR 0x0A \<notin> set (NOTE_PREFIX @ rest)" using rest(2) by (simp add: NOTE_PREFIX_def)
  then have "str_rfind (text @ newline @ newline @ NOTE_PREFIX @ rest) (newline @ newline @ NOTE_PREFIX) =
      Some (length text)"
    by (intro str_rfind_append_last newline_pair_once) simp_all
  with rest(1) show ?thesis by (simp add: strip_note_text_def)
qed

text \<open>The results a note can be taken back from: not an object that already has the note's field.\<close>

definition noteless :: "json \<Rightarrow> bool" where
  "noteless v =
     (case v of
        JObject m \<Rightarrow>
          (case map_get m ''content'' of
             Some (JArray blocks) \<Rightarrow> True
           | _ \<Rightarrow> ''harnx_note'' \<notin> fst ` set m)
      | _ \<Rightarrow> True)"

lemma strip_note_undo:
  assumes "noteless v"
  shows "strip_note (append_note v (RepeatNote_text note)) = v"
proof (cases v)
  case (JString s)
  then show ?thesis
    using strip_note_text_append [of s "note"] by (simp add: append_note_def strip_note_def)
next
  case (JObject m)
  show ?thesis
  proof (cases "\<exists>blocks. map_get m ''content'' = Some (JArray blocks)")
    case True
    then obtain blocks where b: "map_of m ''content'' = Some (JArray blocks)"
      by (auto simp: map_get_def)
    then show ?thesis
      using map_insert_restore [OF b]
      by (simp add: JObject append_note_def strip_note_def map_get_def strip_note_block_def
          is_note_block_def as_object_def as_str_def)
  next
    case False
    then have new: "''harnx_note'' \<notin> fst ` set m"
      using assms by (auto simp: noteless_def JObject split: option.splits json.splits)
    let ?m = "m @ [(''harnx_note'', JString (RepeatNote_text note))]"
    have get: "map_get ?m ''content'' = map_get m ''content''"
      by (simp add: map_get_def map_add_def split: option.splits)
    have "append_note v (RepeatNote_text note) = JObject ?m"
      using False new by (auto simp: JObject append_note_def split: option.splits json.splits)
    moreover have "strip_note (JObject ?m) = JObject (strip_note_field ?m)"
      using False by (auto simp: strip_note_def get split: option.splits json.splits)
    moreover have "map_get ?m ''harnx_note'' = Some (JString (RepeatNote_text note))"
      using new by (simp add: map_get_def map_add_def map_of_eq_None_iff [THEN iffD2])
    ultimately show ?thesis using new by (simp add: JObject strip_note_field_def as_str_def)
  qed
qed (simp_all add: append_note_def strip_note_def)

text \<open>
  A recorded result can be recovered from a guarded session. Stripping the note a
  result was given returns the result as the tool returned it: the text block of an MCP
  result, the field of another object, the text after a string, whatever the result held
  before, unless the tool's own object already had a \<open>harnx_note\<close> field.
\<close>

theorem strip_append_note:
  assumes "noteless v"
  shows "strip_note (append_note v (RepeatNote_text note)) = v"
  by (rule strip_note_undo [OF assms])

theorem strip_append_note_witness:
  "strip_note (append_note (JObject [(''content'', JArray [JNull]), (''harnx_note'', JNull)])
     (RepeatNote_text \<lparr>note_count = 3\<rparr>)) =
   JObject [(''content'', JArray [JNull]), (''harnx_note'', JNull)]"
  by (rule strip_append_note) (simp add: noteless_def map_get_def)

text \<open>
  Undoing a note is not always exact: a tool's own \<open>harnx_note\<close> field is overwritten by
  the note and removed with it.
\<close>

lemma strip_note_drops_own_field:
  "strip_note (append_note (JObject [(''harnx_note'', own)]) (RepeatNote_text note)) = JObject []"
  by (simp add: append_note_def strip_note_def map_get_def strip_note_field_def as_str_def
      map_shift_remove_def)

lemma marker_once:
  assumes "str_find payload REPETITION_TERMINAL_PREFIX = None" and "0 < j"
    and "j \<le> length (REPETITION_TERMINAL_PREFIX @ payload)"
  shows "\<not> prefix REPETITION_TERMINAL_PREFIX (drop j (REPETITION_TERMINAL_PREFIX @ payload))"
proof (cases "j < length REPETITION_TERMINAL_PREFIX")
  case True
  have "\<forall>i \<in> {1..<17}. REPETITION_TERMINAL_PREFIX ! i \<noteq> CHR ''h''"
    by (simp add: REPETITION_TERMINAL_PREFIX_def atLeastLessThan_nat_numeral)
  with True assms(2) have "REPETITION_TERMINAL_PREFIX ! j \<noteq> CHR ''h''"
    by (simp add: REPETITION_TERMINAL_PREFIX_def)
  then have "hd (drop j (REPETITION_TERMINAL_PREFIX @ payload)) \<noteq> CHR ''h''"
    using True by (simp add: hd_append hd_drop_conv_nth)
  then show ?thesis by (auto simp: prefix_def REPETITION_TERMINAL_PREFIX_def)
next
  case False
  then have "drop j (REPETITION_TERMINAL_PREFIX @ payload) =
      drop (j - length REPETITION_TERMINAL_PREFIX) payload" by simp
  with assms(1,3) False show ?thesis by (simp add: str_find_None_iff)
qed

text \<open>
  A parent recovers a stop from the persisted error. Whatever context the error's text
  is wrapped in front, parsing finds the terminal the stop was made from, given that
  \<open>serde_json\<close> round-trips it and the payload does not itself contain the marker.
\<close>

theorem repetition_stop_roundtrip:
  assumes "to_json t = Some payload" and "from_json payload = Some t"
    and "str_find payload REPETITION_TERMINAL_PREFIX = None"
  shows "\<exists>text. RepetitionStop_display to_json t = Some text \<and>
    parse_repetition_terminal from_json (context_text @ text) = Some t"
proof -
  have "str_rfind ((context_text @ sentence t @ '' '') @ REPETITION_TERMINAL_PREFIX @ payload)
      REPETITION_TERMINAL_PREFIX = Some (length (context_text @ sentence t @ '' ''))"
    by (rule str_rfind_append_last) (use marker_once [OF assms(3)] in auto)
  then show ?thesis
    using assms(1,2) by (simp add: RepetitionStop_display_def parse_repetition_terminal_def)
qed

theorem repetition_stop_roundtrip_witness:
  "\<exists>text. RepetitionStop_display (\<lambda>t. Some ''{}'') (RepetitionTerminal_tool_calls ''poll'' 4) = Some text \<and>
    parse_repetition_terminal (\<lambda>s. Some (RepetitionTerminal_tool_calls ''poll'' 4)) (''worker turn: '' @ text) =
      Some (RepetitionTerminal_tool_calls ''poll'' 4)"
  by (rule repetition_stop_roundtrip) (simp, simp, code_simp)

end
