(* ===== verification/Output_Repeat.thy ===== *)
theory Output_Repeat
  imports Tool_Repeat
begin

text \<open>
  \<open>harnx-core/src/loop_guard/output_repeat.rs\<close>: detecting a reply or a reasoning stream that
  keeps repeating the same text. The detector keeps a bounded tail of Unicode scalar
  values and, every 256 characters, looks for the smallest repeated unit with a
  Z-function over the reversed tail.

  The lemmas show that \<open>z_function\<close> computes longest common prefixes, that
  \<open>periodic_tail\<close> finds the smallest qualifying unit, and that the incremental detector
  agrees with checking the whole text at fixed points, however the stream was chunked.
  \<open>z_extend\<close> and \<open>z_loop\<close> are total: the remaining length decreases.
\<close>

section \<open>Definitions\<close>

definition OUTPUT_REPEAT_MIN_COVER :: nat where "OUTPUT_REPEAT_MIN_COVER = 2000"
definition OUTPUT_REPEAT_MIN_COPIES :: nat where "OUTPUT_REPEAT_MIN_COPIES = 4"
definition OUTPUT_REPEAT_MAX_UNIT :: nat where "OUTPUT_REPEAT_MAX_UNIT = 2000"
definition CHECK_EVERY :: nat where "CHECK_EVERY = 256"
definition TAIL :: nat where "TAIL = OUTPUT_REPEAT_MAX_UNIT * OUTPUT_REPEAT_MIN_COPIES"
definition EXCERPT_CHARS :: nat where "EXCERPT_CHARS = 80"

lemmas repeat_constants = OUTPUT_REPEAT_MIN_COVER_def OUTPUT_REPEAT_MIN_COPIES_def
  OUTPUT_REPEAT_MAX_UNIT_def CHECK_EVERY_def TAIL_def

datatype OutputChannel = AnswerChannel | ThinkingChannel

definition channel_source :: "OutputChannel \<Rightarrow> RepetitionSource" where
  "channel_source c = (case c of AnswerChannel \<Rightarrow> SourceAnswer | ThinkingChannel \<Rightarrow> SourceThinking)"

definition channel_noun :: "OutputChannel \<Rightarrow> string" where
  "channel_noun c = (case c of AnswerChannel \<Rightarrow> ''reply'' | ThinkingChannel \<Rightarrow> ''reasoning'')"

text \<open>A character is polymorphic in the detector; a \<open>String\<close> is read through \<open>utf8_chars\<close>.\<close>

record 'c RepeatedTail =
  rt_unit :: "'c list"
  rt_covered :: nat
  rt_at_char :: nat

record 'c OutputRepeatDetector =
  det_tail :: "'c list"
  det_since_check :: nat
  det_seen :: nat

definition OutputRepeatDetector_default :: "'c OutputRepeatDetector" where
  "OutputRepeatDetector_default = \<lparr>det_tail = [], det_since_check = 0, det_seen = 0\<rparr>"

text \<open>The inner \<open>while\<close> and the outer \<open>for\<close> of \<open>z_function\<close>.\<close>

function z_extend :: "'c list \<Rightarrow> nat \<Rightarrow> nat \<Rightarrow> nat" where
  "z_extend s i k =
     (if i + k < length s \<and> s ! k = s ! (i + k) then z_extend s i (Suc k) else k)"
  by pat_completeness auto
termination by (relation "measure (\<lambda>(s, i, k). length s - (i + k))") auto

declare z_extend.simps [simp del]

function z_loop :: "'c list \<Rightarrow> nat \<Rightarrow> nat list \<Rightarrow> nat \<Rightarrow> nat \<Rightarrow> nat list" where
  "z_loop s i z left right =
     (if i < length s then
        let zi = z_extend s i (if i < right then min (right - i) (z ! (i - left)) else 0);
            z = z[i := zi];
            (left, right) = (if right < i + zi then (i, i + zi) else (left, right))
        in z_loop s (Suc i) z left right
      else z)"
  by pat_completeness auto
termination by (relation "measure (\<lambda>(s, i, z, left, right). length s - i)") auto

declare z_loop.simps [simp del]

definition z_function :: "'c list \<Rightarrow> nat list" where
  "z_function s = z_loop s 1 (replicate (length s) 0) 0 0"

definition periodic_tail :: "'c list \<Rightarrow> ('c list \<times> nat) option" where
  "periodic_tail tail =
     (if length tail < OUTPUT_REPEAT_MIN_COVER then None
      else
        let reversed = rev tail;
            z = z_function reversed;
            longest = min OUTPUT_REPEAT_MAX_UNIT (length reversed - 1)
        in find_map (\<lambda>unit.
             let covered = unit + z ! unit
             in if max OUTPUT_REPEAT_MIN_COVER (OUTPUT_REPEAT_MIN_COPIES * unit) \<le> covered
                then Some (drop (length tail - unit) tail, covered) else None)
           [1..<Suc longest])"

definition detector_check ::
  "'c OutputRepeatDetector \<Rightarrow> 'c RepeatedTail option" where
  "detector_check d =
     (case periodic_tail (det_tail d) of
        None \<Rightarrow> None
      | Some (unit, covered) \<Rightarrow>
          Some \<lparr>rt_unit = unit, rt_covered = covered, rt_at_char = det_seen d\<rparr>)"

definition push_char ::
  "'c OutputRepeatDetector \<Rightarrow> 'c \<Rightarrow> 'c RepeatedTail option \<times> 'c OutputRepeatDetector" where
  "push_char d ch =
     (let tail = (if length (det_tail d) = TAIL then tl (det_tail d) else det_tail d);
          d = d\<lparr>det_tail := tail @ [ch], det_seen := det_seen d + 1,
                det_since_check := det_since_check d + 1\<rparr>
      in if det_since_check d < CHECK_EVERY then (None, d)
         else let d = d\<lparr>det_since_check := 0\<rparr> in (detector_check d, d))"

fun push_chars ::
  "'c OutputRepeatDetector \<Rightarrow> 'c list \<Rightarrow> 'c RepeatedTail option \<times> 'c OutputRepeatDetector" where
  "push_chars d [] = (None, d)"
| "push_chars d (ch # chs) =
     (case push_char d ch of
        (Some r, d) \<Rightarrow> (Some r, d)
      | (None, d) \<Rightarrow> push_chars d chs)"

definition detector_push ::
  "string OutputRepeatDetector \<Rightarrow> string \<Rightarrow> string RepeatedTail option \<times> string OutputRepeatDetector" where
  "detector_push d chunk = push_chars d (utf8_chars chunk)"

definition detector_finish ::
  "'c OutputRepeatDetector \<Rightarrow> 'c RepeatedTail option \<times> 'c OutputRepeatDetector" where
  "detector_finish d =
     (if det_since_check d = 0 then (None, d)
      else let d = d\<lparr>det_since_check := 0\<rparr> in (detector_check d, d))"

definition detect_in_text :: "string \<Rightarrow> string RepeatedTail option" where
  "detect_in_text s =
     (case detector_push OutputRepeatDetector_default s of
        (Some r, d) \<Rightarrow> Some r
      | (None, d) \<Rightarrow> fst (detector_finish d))"

record RepetitiveOutput =
  ro_channel :: OutputChannel
  ro_unit :: string

definition RepetitiveOutput_new :: "OutputChannel \<Rightarrow> string RepeatedTail \<Rightarrow> RepetitiveOutput" where
  "RepetitiveOutput_new channel tail = \<lparr>ro_channel = channel, ro_unit = concat (rt_unit tail)\<rparr>"

definition check_output :: "OutputChannel \<Rightarrow> string \<Rightarrow> RepetitiveOutput + unit" where
  "check_output channel s =
     (case detect_in_text s of
        Some tail \<Rightarrow> Inl (RepetitiveOutput_new channel tail)
      | None \<Rightarrow> Inr ())"

definition excerpt :: "RepetitiveOutput \<Rightarrow> string" where
  "excerpt r =
     concat (take EXCERPT_CHARS (utf8_chars (ro_unit r))) @
     (if EXCERPT_CHARS < length (utf8_chars (ro_unit r))
      then [CHR 0xE2, CHR 0x80, CHR 0xA6] else [])"

definition retry_note :: "RepetitiveOutput \<Rightarrow> string" where
  "retry_note r =
     ''[harnx] '' @
     (case ro_channel r of
        AnswerChannel \<Rightarrow> ''Your previous reply''
      | ThinkingChannel \<Rightarrow> ''Your reasoning'') @
     '' was stopped because it began repeating the same text (\"'' @ excerpt r @
     ''\"). Continue without repeating it.''"

definition RepetitiveOutput_terminal :: "RepetitiveOutput \<Rightarrow> RepetitionTerminal" where
  "RepetitiveOutput_terminal r = RepetitionTerminal_output (channel_source (ro_channel r))"

definition RepetitiveOutput_display :: "RepetitiveOutput \<Rightarrow> string" where
  "RepetitiveOutput_display r =
     ''the model's '' @ channel_noun (ro_channel r) @
     '' started repeating the same text (\"'' @ excerpt r @ ''\")''"

definition find_repetitive_output :: "('cause \<Rightarrow> RepetitiveOutput option) \<Rightarrow> 'cause list \<Rightarrow> RepetitiveOutput option" where
  "find_repetitive_output downcast chain = find_map downcast chain"

section \<open>The Z-function\<close>

fun lcp :: "'c list \<Rightarrow> 'c list \<Rightarrow> nat" where
  "lcp (x # xs) (y # ys) = (if x = y then Suc (lcp xs ys) else 0)"
| "lcp _ _ = 0"

lemma le_lcp_iff: "k \<le> lcp xs ys \<longleftrightarrow> k \<le> length xs \<and> k \<le> length ys \<and> take k xs = take k ys"
proof (induction xs ys arbitrary: k rule: lcp.induct)
  case (1 x xs y ys)
  then show ?case by (cases k) auto
qed auto

lemma le_lcp_drop_iff:
  assumes "i \<le> length s"
  shows "k \<le> lcp s (drop i s) \<longleftrightarrow> i + k \<le> length s \<and> (\<forall>j < k. s ! j = s ! (i + j))"
proof -
  have "take k s = take k (drop i s) \<longleftrightarrow> (\<forall>j < k. s ! j = s ! (i + j))" if "i + k \<le> length s"
    using that by (subst list_eq_iff_nth_eq) auto
  with assms show ?thesis by (auto simp: le_lcp_iff)
qed

lemma z_extend_lcp:
  assumes "i \<le> length s" and "k \<le> lcp s (drop i s)"
  shows "z_extend s i k = lcp s (drop i s)"
  using assms
proof (induction s i k rule: z_extend.induct)
  case (1 s i k)
  show ?case
  proof (cases "i + k < length s \<and> s ! k = s ! (i + k)")
    case True
    with 1(2,3) have "Suc k \<le> lcp s (drop i s)"
      by (auto simp: le_lcp_drop_iff less_Suc_eq)
    with 1(1) [OF True 1(2)] True show ?thesis by (subst z_extend.simps) simp
  next
    case False
    then have "\<not> Suc k \<le> lcp s (drop i s)" using 1(2) by (auto simp: le_lcp_drop_iff)
    with 1(3) False show ?thesis by (subst z_extend.simps) auto
  qed
qed

text \<open>The window \<open>[left, right)\<close> is the furthest-reaching match found so far.\<close>

definition z_inv :: "'c list \<Rightarrow> nat \<Rightarrow> nat list \<Rightarrow> nat \<Rightarrow> nat \<Rightarrow> bool" where
  "z_inv s i z left right \<longleftrightarrow>
     length z = length s \<and> (\<forall>j. 0 < j \<and> j < i \<and> j < length s \<longrightarrow> z ! j = lcp s (drop j s)) \<and>
     (right = 0 \<or> 0 < left \<and> left < i \<and> right = left + lcp s (drop left s) \<and> right \<le> length s)"

lemma z_inv_seed:
  assumes "z_inv s i z left right" and "i < length s" and "i < right"
  shows "min (right - i) (z ! (i - left)) \<le> lcp s (drop i s)"
proof -
  from assms have l: "0 < left" "left < i" "right = left + lcp s (drop left s)" "right \<le> length s"
    by (auto simp: z_inv_def)
  then have z: "z ! (i - left) = lcp s (drop (i - left) s)"
    using assms(1,2) by (auto simp: z_inv_def)
  let ?m = "min (right - i) (z ! (i - left))"
  have "s ! j = s ! (i + j)" if "j < ?m" for j
  proof -
    have "j < lcp s (drop (i - left) s)" using that z by simp
    then have "s ! j = s ! (i - left + j)"
      using le_lcp_drop_iff [of "i - left" s "Suc j"] assms(2) by auto
    moreover have "j < right - i" using that by simp
    then have "i - left + j < lcp s (drop left s)" using l(2,3) by linarith
    then have "s ! (i - left + j) = s ! (left + (i - left + j))"
      using le_lcp_drop_iff [of left s "Suc (i - left + j)"] l(2) assms(2) by auto
    ultimately show ?thesis using l(2) by simp
  qed
  moreover have "i + ?m \<le> length s" using l(4) assms(3) by simp
  ultimately show ?thesis using assms(2) by (simp add: le_lcp_drop_iff)
qed

lemma z_loop_correct:
  assumes "z_inv s i z left right" and "0 < i" and "0 < j" and "j < length s"
  shows "z_loop s i z left right ! j = lcp s (drop j s)"
  using assms
proof (induction s i z left right rule: z_loop.induct)
  case (1 s i z left right)
  show ?case
  proof (cases "i < length s")
    case True
    let ?zi = "z_extend s i (if i < right then min (right - i) (z ! (i - left)) else 0)"
    let ?b = "right < i + ?zi"
    have zi: "?zi = lcp s (drop i s)"
      using z_inv_seed [OF 1(2) True] True by (intro z_extend_lcp) auto
    have "i + ?zi \<le> length s" using le_lcp_drop_iff [of i s ?zi] zi True by simp
    then have "z_inv s (Suc i) (z[i := ?zi]) (if ?b then i else left) (if ?b then i + ?zi else right)"
      using 1(2,3) zi True by (auto simp: z_inv_def less_Suc_eq)
    with 1(1) [OF True refl refl refl, of "if ?b then i else left" "if ?b then i + ?zi else right"]
      1(4,5) True
    show ?thesis by (subst z_loop.simps) (auto simp: Let_def)
  qed (use 1(2,4,5) in \<open>auto simp: z_loop.simps z_inv_def\<close>)
qed

lemma z_function_lcp: "0 < j \<Longrightarrow> j < length s \<Longrightarrow> z_function s ! j = lcp s (drop j s)"
  unfolding z_function_def by (rule z_loop_correct) (simp_all add: z_inv_def)

text \<open>
  \<open>z_function\<close> is correct. At every position but the first, its entry is the length of
  the longest common prefix of the text and the text from there on: that many characters
  agree, and either the text ends there or the next ones differ.
\<close>

theorem z_function_correct:
  assumes "0 < i" and "i < length s"
  shows "let k = z_function s ! i
    in i + k \<le> length s \<and> take k s = take k (drop i s) \<and> (i + k = length s \<or> s ! k \<noteq> s ! (i + k))"
proof -
  let ?k = "lcp s (drop i s)"
  have "i + ?k \<le> length s" "take ?k s = take ?k (drop i s)"
    using le_lcp_iff [of ?k s "drop i s"] assms(2) by auto
  moreover have "s ! ?k \<noteq> s ! (i + ?k)" if "i + ?k \<noteq> length s"
  proof
    assume "s ! ?k = s ! (i + ?k)"
    moreover have "\<forall>j < ?k. s ! j = s ! (i + j)" using le_lcp_drop_iff [of i s ?k] assms(2) by simp
    ultimately have "\<forall>j < Suc ?k. s ! j = s ! (i + j)" by (simp add: less_Suc_eq)
    with that \<open>i + ?k \<le> length s\<close> have "Suc ?k \<le> ?k"
      using le_lcp_drop_iff [of i s "Suc ?k"] assms(2) by simp
    then show False by simp
  qed
  ultimately show ?thesis unfolding z_function_lcp [OF assms] Let_def by blast
qed

theorem z_function_correct_witness:
  "let k = z_function ''abaaba'' ! 3
   in 3 + k \<le> length ''abaaba'' \<and> take k ''abaaba'' = take k (drop 3 ''abaaba'') \<and>
      (3 + k = length ''abaaba'' \<or> ''abaaba'' ! k \<noteq> ''abaaba'' ! (3 + k))"
  by (rule z_function_correct) simp_all

section \<open>Repeated tails\<close>

definition periodic_suffix :: "nat \<Rightarrow> nat \<Rightarrow> 'c list \<Rightarrow> bool" where
  "periodic_suffix p c xs \<longleftrightarrow>
     c \<le> length xs \<and> (\<forall>j. j + p < c \<longrightarrow> rev xs ! (j + p) = rev xs ! j)"

definition repeats_enough :: "nat \<Rightarrow> nat \<Rightarrow> 'c list \<Rightarrow> bool" where
  "repeats_enough p c xs \<longleftrightarrow>
     1 \<le> p \<and> p \<le> OUTPUT_REPEAT_MAX_UNIT \<and> periodic_suffix p c xs \<and>
     OUTPUT_REPEAT_MIN_COVER \<le> c \<and> OUTPUT_REPEAT_MIN_COPIES * p \<le> c"

lemma periodic_suffix_iff:
  assumes "p \<le> c" and "p \<le> length xs"
  shows "periodic_suffix p c xs \<longleftrightarrow> c \<le> p + lcp (rev xs) (drop p (rev xs))"
proof -
  have "c \<le> p + lcp (rev xs) (drop p (rev xs)) \<longleftrightarrow> c - p \<le> lcp (rev xs) (drop p (rev xs))" by auto
  also have "\<dots> \<longleftrightarrow> p + (c - p) \<le> length xs \<and> (\<forall>j < c - p. rev xs ! j = rev xs ! (p + j))"
    using le_lcp_drop_iff [of p "rev xs" "c - p"] assms(2) by simp
  also have "\<dots> \<longleftrightarrow> periodic_suffix p c xs"
    using assms(1) by (auto simp: periodic_suffix_def less_diff_conv add.commute)
  finally show ?thesis by simp
qed

lemma take_periodic:
  "k * p \<le> p + lcp r (drop p r) \<Longrightarrow> p \<le> length r \<Longrightarrow> take (k * p) r = concat (replicate k (take p r))"
proof (induction k)
  case (Suc k)
  then have k: "k * p \<le> lcp r (drop p r)" by simp
  have "take (Suc k * p) r = take p r @ take (k * p) (drop p r)" by (simp add: take_add)
  also have "take (k * p) (drop p r) = take (k * p) r" using k le_lcp_iff by metis
  finally show ?case using Suc by simp
qed simp

lemma concat_replicate_comm: "concat (replicate k u) @ u = u @ concat (replicate k u)"
  by (induction k) simp_all

lemma rev_concat_replicate: "rev (concat (replicate k u)) = concat (replicate k (rev u))"
  by (induction k) (simp_all add: concat_replicate_comm)

lemma periodic_copies:
  assumes "periodic_suffix p c xs" and "0 < p" and "p \<le> c"
  shows "suffix (concat (replicate (c div p) (drop (length xs - p) xs))) xs"
proof -
  have p: "p \<le> length xs" using assms by (simp add: periodic_suffix_def)
  have "c div p * p \<le> c" by simp
  also have "c \<le> p + lcp (rev xs) (drop p (rev xs))" using assms p periodic_suffix_iff by blast
  finally have "take (c div p * p) (rev xs) = concat (replicate (c div p) (take p (rev xs)))"
    by (rule take_periodic) (use p in simp)
  moreover have "take p (rev xs) = rev (drop (length xs - p) xs)" by (simp add: take_rev)
  ultimately have "concat (replicate (c div p) (drop (length xs - p) xs)) = rev (take (c div p * p) (rev xs))"
    by (simp add: rev_concat_replicate)
  also have "\<dots> = drop (length xs - c div p * p) xs" by (simp add: rev_take)
  finally show ?thesis by (simp add: suffix_drop)
qed

lemma periodic_tail_candidate:
  fixes xs :: "'c list"
  assumes "1 \<le> p" and "p < length xs" and "p \<le> OUTPUT_REPEAT_MAX_UNIT"
  defines "c \<equiv> p + z_function (rev xs) ! p"
  shows "max OUTPUT_REPEAT_MIN_COVER (OUTPUT_REPEAT_MIN_COPIES * p) \<le> c \<longleftrightarrow> repeats_enough p c xs"
    and "repeats_enough p d xs \<Longrightarrow> repeats_enough p c xs"
    and "periodic_suffix p d xs \<Longrightarrow> d \<le> c"
proof -
  have c: "c = p + lcp (rev xs) (drop p (rev xs))"
    using assms z_function_lcp [of p "rev xs"] by simp
  have per: "periodic_suffix p d xs \<longleftrightarrow> d \<le> c" if "p \<le> d" for d
    unfolding c by (rule periodic_suffix_iff [OF that]) (use assms(2) in simp)
  have pc: "p \<le> c" by (simp add: c)
  show "max OUTPUT_REPEAT_MIN_COVER (OUTPUT_REPEAT_MIN_COPIES * p) \<le> c \<longleftrightarrow> repeats_enough p c xs"
    using assms(1,3) per [OF pc] by (auto simp: repeats_enough_def)
  show "repeats_enough p c xs" if "repeats_enough p d xs"
    using that per [of d] per [OF pc] by (auto simp: repeats_enough_def repeat_constants)
  show "periodic_suffix p d xs \<Longrightarrow> d \<le> c" using per [of d] pc by (cases "p \<le> d") auto
qed

lemma repeats_enough_bounds:
  "repeats_enough p c xs \<Longrightarrow>
     OUTPUT_REPEAT_MIN_COVER \<le> length xs \<and> 1 \<le> p \<and> p \<le> min OUTPUT_REPEAT_MAX_UNIT (length xs - 1)"
  by (auto simp: repeats_enough_def periodic_suffix_def repeat_constants)

lemma periodic_tail_None_iff: "periodic_tail xs = None \<longleftrightarrow> \<not> (\<exists>p c. repeats_enough p c xs)"
proof (cases "length xs < OUTPUT_REPEAT_MIN_COVER")
  case True
  then show ?thesis using repeats_enough_bounds [of _ _ xs] by (auto simp: periodic_tail_def)
next
  case False
  let ?c = "\<lambda>p. p + z_function (rev xs) ! p" and ?n = "min OUTPUT_REPEAT_MAX_UNIT (length xs - 1)"
  have "periodic_tail xs = None \<longleftrightarrow>
      (\<forall>p \<in> {1..?n}. \<not> max OUTPUT_REPEAT_MIN_COVER (OUTPUT_REPEAT_MIN_COPIES * p) \<le> ?c p)"
    using False by (auto simp: periodic_tail_def Let_def find_map_None_iff less_Suc_eq_le
        simp del: upt_Suc)
  also have "\<dots> \<longleftrightarrow> (\<forall>p \<in> {1..?n}. \<not> (\<exists>d. repeats_enough p d xs))"
  proof (rule ball_cong [OF refl])
    fix p assume "p \<in> {1..?n}"
    then have p: "1 \<le> p" "p < length xs" "p \<le> OUTPUT_REPEAT_MAX_UNIT" by auto
    show "(\<not> max OUTPUT_REPEAT_MIN_COVER (OUTPUT_REPEAT_MIN_COPIES * p) \<le> ?c p) \<longleftrightarrow>
        \<not> (\<exists>d. repeats_enough p d xs)"
      using periodic_tail_candidate(1,2) [OF p] by blast
  qed
  also have "\<dots> \<longleftrightarrow> \<not> (\<exists>p c. repeats_enough p c xs)"
  proof -
    have "p \<in> {1..?n}" if "repeats_enough p c xs" for p c
      using repeats_enough_bounds [OF that] by simp
    then show ?thesis by blast
  qed
  finally show ?thesis .
qed

lemma periodic_tail_SomeD:
  assumes "periodic_tail xs = Some (u, c)"
  shows "u = drop (length xs - length u) xs" and "repeats_enough (length u) c xs"
    and "periodic_suffix (length u) d xs \<Longrightarrow> d \<le> c"
    and "q < length u \<Longrightarrow> \<not> repeats_enough q d xs"
proof -
  let ?c = "\<lambda>p. p + z_function (rev xs) ! p"
  let ?f = "\<lambda>p. if max OUTPUT_REPEAT_MIN_COVER (OUTPUT_REPEAT_MIN_COPIES * p) \<le> ?c p
      then Some (drop (length xs - p) xs, ?c p) else None"
  from assms have "find_map ?f [1..<Suc (min OUTPUT_REPEAT_MAX_UNIT (length xs - 1))] = Some (u, c)"
    by (simp add: periodic_tail_def Let_def split: if_splits del: upt_Suc)
  from find_map_upt_SomeD [OF this] obtain p where p: "1 \<le> p" "p \<le> OUTPUT_REPEAT_MAX_UNIT" "p \<le> length xs - 1"
    and f: "?f p = Some (u, c)" and least: "\<And>j. 1 \<le> j \<Longrightarrow> j < p \<Longrightarrow> ?f j = None" by auto
  then have lt: "p < length xs" by linarith
  from f have u: "u = drop (length xs - p) xs" and c: "c = ?c p"
    and ok: "max OUTPUT_REPEAT_MIN_COVER (OUTPUT_REPEAT_MIN_COPIES * p) \<le> ?c p"
    by (auto split: if_splits)
  have len: "length u = p" using u lt by simp
  show "u = drop (length xs - length u) xs" using u len by simp
  show "repeats_enough (length u) c xs"
    using periodic_tail_candidate(1) [OF p(1) lt p(2)] ok c len by simp
  show "periodic_suffix (length u) d xs \<Longrightarrow> d \<le> c"
    using periodic_tail_candidate(3) [OF p(1) lt p(2)] c len by simp
  show "\<not> repeats_enough q d xs" if "q < length u"
  proof
    assume r: "repeats_enough q d xs"
    with that len p lt have q: "1 \<le> q" "q < length xs" "q \<le> OUTPUT_REPEAT_MAX_UNIT" "q < p"
      using repeats_enough_bounds [OF r] by auto
    from least [OF q(1,4)] periodic_tail_candidate(1,2) [OF q(1-3)] r show False
      by (auto split: if_splits)
  qed
qed

text \<open>
  The smallest repeated unit is found, and nothing else is reported. \<open>None\<close> means that no
  unit of at most 2000 characters repeats at the end of the text for 2000 characters and
  four copies. Otherwise the reported unit is the end of the text, does repeat so, the
  covered length is the longest with that period, the text ends with that many whole
  copies, and no shorter unit would do.
\<close>

theorem periodic_tail_spec:
  "case periodic_tail xs of
     None \<Rightarrow> \<not> (\<exists>p c. repeats_enough p c xs)
   | Some (u, c) \<Rightarrow>
       repeats_enough (length u) c xs \<and> \<not> (\<exists>d > c. periodic_suffix (length u) d xs) \<and>
       suffix (concat (replicate (c div length u) u)) xs \<and>
       \<not> (\<exists>q d. q < length u \<and> repeats_enough q d xs)"
proof (cases "periodic_tail xs")
  case None
  then show ?thesis using periodic_tail_None_iff [THEN iffD1, OF None] by simp
next
  case (Some r)
  obtain u c where "r = (u, c)" by (cases r)
  with Some have r: "periodic_tail xs = Some (u, c)" by simp
  note facts = periodic_tail_SomeD [OF r]
  have "suffix (concat (replicate (c div length u) (drop (length xs - length u) xs))) xs"
    using facts(2) by (intro periodic_copies) (auto simp: repeats_enough_def repeat_constants)
  then have "suffix (concat (replicate (c div length u) u)) xs" using facts(1) by simp
  with facts(2-4) r show ?thesis by (auto simp: not_less [symmetric])
qed

section \<open>The incremental detector\<close>

text \<open>The reference: what a check of the whole text read so far would report.\<close>

definition check_at :: "'c list \<Rightarrow> 'c RepeatedTail option" where
  "check_at cs =
     map_option (\<lambda>(u, c). \<lparr>rt_unit = u, rt_covered = c, rt_at_char = length cs\<rparr>)
       (periodic_tail (drop (length cs - TAIL) cs))"

definition verdict_at :: "'c list \<Rightarrow> 'c RepeatedTail option" where
  "verdict_at cs = (if length cs mod CHECK_EVERY = 0 then check_at cs else None)"

definition stream_step :: "'c list \<Rightarrow> 'c \<Rightarrow> 'c RepeatedTail option \<times> 'c list" where
  "stream_step cs ch = (verdict_at (cs @ [ch]), cs @ [ch])"

lemma stream_step_simps [simp]:
  "fst (stream_step cs ch) = verdict_at (cs @ [ch])" "snd (stream_step cs ch) = cs @ [ch]"
  by (simp_all add: stream_step_def)

definition tracks :: "'c OutputRepeatDetector \<Rightarrow> 'c list \<Rightarrow> bool" where
  "tracks d cs \<longleftrightarrow>
     det_tail d = drop (length cs - TAIL) cs \<and> det_seen d = length cs \<and>
     det_since_check d = length cs mod CHECK_EVERY"

lemma detector_check_tracks:
  "det_tail d = drop (length cs - TAIL) cs \<Longrightarrow> det_seen d = length cs \<Longrightarrow> detector_check d = check_at cs"
  by (auto simp: detector_check_def check_at_def split: option.splits)

lemma tail_snoc:
  "(if length (drop (length cs - TAIL) cs) = TAIL then tl (drop (length cs - TAIL) cs)
    else drop (length cs - TAIL) cs) @ [ch] = drop (length (cs @ [ch]) - TAIL) (cs @ [ch])"
proof (cases "TAIL \<le> length cs")
  case True
  have "0 < TAIL" by (simp add: repeat_constants)
  with True show ?thesis by (simp add: tl_drop Suc_diff_le flip: drop_Suc)
qed (auto simp: repeat_constants)

lemma push_char_tracks:
  assumes "tracks d cs"
  shows "fst (push_char d ch) = verdict_at (cs @ [ch])" and "tracks (snd (push_char d ch)) (cs @ [ch])"
proof -
  have pos: "0 < CHECK_EVERY" by (simp add: CHECK_EVERY_def)
  let ?tail = "(if length (det_tail d) = TAIL then tl (det_tail d) else det_tail d) @ [ch]"
  have tail: "?tail = drop (length (cs @ [ch]) - TAIL) (cs @ [ch])"
    using assms unfolding tracks_def by (metis tail_snoc)
  let ?d = "d\<lparr>det_tail := ?tail, det_seen := det_seen d + 1, det_since_check := 0\<rparr>"
  have chk: "detector_check ?d = check_at (cs @ [ch])"
    by (rule detector_check_tracks) (use assms tail in \<open>simp_all add: tracks_def\<close>)
  have m: "det_since_check d + 1 < CHECK_EVERY \<longleftrightarrow> Suc (length cs) mod CHECK_EVERY \<noteq> 0"
    using assms pos mod_less_divisor [OF pos, of "length cs"]
    by (simp add: tracks_def mod_Suc)
  show "fst (push_char d ch) = verdict_at (cs @ [ch])"
    using m chk by (simp add: push_char_def verdict_at_def Let_def)
  show "tracks (snd (push_char d ch)) (cs @ [ch])"
    using assms m tail by (simp add: push_char_def Let_def tracks_def mod_Suc split: if_splits)
qed

interpretation detector_sim:
  simulation push_char stream_step "\<lambda>_ :: unit. tracks" "\<lambda>_ _. True" "\<lambda>t _. t"
  by unfold_locales (simp_all add: push_char_tracks)

lemma push_chars_run:
  "fst (push_chars d cs) = find_map id (fst (run_ops push_char d cs))"
  "fst (push_chars d cs) = None \<Longrightarrow> snd (push_chars d cs) = snd (run_ops push_char d cs)"
  by (induction cs arbitrary: d) (auto split: prod.splits option.splits simp: Let_def)

lemma admissible_trivial [simp]: "admissible (\<lambda>_ _. True) after t ops"
  by (induction ops arbitrary: t) simp_all

lemma stream_state [simp]: "snd (run_ops stream_step pre cs) = pre @ cs"
  by (induction cs arbitrary: pre) (simp_all add: run_ops_Cons del: run_ops.simps(2))

lemma stream_outputs:
  "fst (run_ops stream_step pre cs) = map (\<lambda>k. verdict_at (pre @ take k cs)) [1..<Suc (length cs)]"
proof (induction cs arbitrary: pre)
  case (Cons c cs)
  have "[1..<Suc (length (c # cs))] = 1 # map Suc [1..<Suc (length cs)]"
    by (simp add: upt_conv_Cons map_Suc_upt del: upt_Suc)
  with Cons show ?case
    by (simp add: run_ops_Cons comp_def del: run_ops.simps(2) upt_Suc)
qed simp

lemma tracks_default: "tracks OutputRepeatDetector_default []"
  by (simp add: tracks_def OutputRepeatDetector_default_def)

lemma push_chars_default:
  "fst (push_chars OutputRepeatDetector_default cs) =
     find_map (\<lambda>k. verdict_at (take k cs)) [1..<Suc (length cs)]"
  "fst (push_chars OutputRepeatDetector_default cs) = None \<Longrightarrow>
     tracks (snd (push_chars OutputRepeatDetector_default cs)) cs"
  using detector_sim.sim_run [OF tracks_default, of "()" cs]
  by (auto simp: push_chars_run stream_outputs find_map_map)

text \<open>The points of a text at which it is checked: every 256 characters, and at its end.\<close>

definition check_points :: "nat \<Rightarrow> nat list" where
  "check_points n = filter (\<lambda>k. k mod CHECK_EVERY = 0 \<or> k = n) [1..<Suc n]"

lemma finish_tracks:
  "tracks d cs \<Longrightarrow> fst (detector_finish d) = (if length cs mod CHECK_EVERY = 0 then None else check_at cs)"
  by (auto simp: detector_finish_def tracks_def Let_def intro: detector_check_tracks)

lemma find_map_check_points:
  "find_map (\<lambda>k. check_at (take k cs)) (check_points (length cs)) =
     (case find_map (\<lambda>k. verdict_at (take k cs)) [1..<Suc (length cs)] of
        Some r \<Rightarrow> Some r
      | None \<Rightarrow> if length cs mod CHECK_EVERY = 0 then None else check_at cs)"
proof -
  let ?n = "length cs"
  let ?f = "\<lambda>k. if k mod CHECK_EVERY = 0 \<or> k = ?n then check_at (take k cs) else None"
  have eq: "?f k = verdict_at (take k cs)" if "k < ?n \<or> k = ?n \<and> ?n mod CHECK_EVERY = 0" for k
    using that by (auto simp: verdict_at_def min_def)
  have all: "find_map (\<lambda>k. check_at (take k cs)) (check_points ?n) = find_map ?f [1..<Suc ?n]"
    by (simp only: check_points_def find_map_filter)
  show ?thesis
  proof (cases "?n mod CHECK_EVERY = 0")
    case True
    then have "find_map ?f [1..<Suc ?n] = find_map (\<lambda>k. verdict_at (take k cs)) [1..<Suc ?n]"
      by (intro find_map_cong [OF refl] eq) (auto simp: less_Suc_eq simp del: upt_Suc)
    with all True show ?thesis by (simp split: option.splits del: upt_Suc)
  next
    case False
    then have "?n \<noteq> 0" by auto
    then have upt: "[1..<Suc ?n] = [1..<?n] @ [?n]" by (simp add: Suc_le_eq)
    have "find_map ?f [1..<?n] = find_map (\<lambda>k. verdict_at (take k cs)) [1..<?n]"
      by (intro find_map_cong [OF refl] eq) simp
    moreover have "verdict_at (take ?n cs) = None" using False by (simp add: verdict_at_def)
    moreover have "?f ?n = check_at cs" by simp
    ultimately show ?thesis
      using all False unfolding upt find_map_append by (simp split: option.splits)
  qed
qed

lemma detect_in_text_reference:
  "detect_in_text s = find_map (\<lambda>k. check_at (take k (utf8_chars s))) (check_points (length (utf8_chars s)))"
  unfolding find_map_check_points
  using push_chars_default [of "utf8_chars s"] finish_tracks [of "snd (push_chars OutputRepeatDetector_default (utf8_chars s))" "utf8_chars s"]
  by (auto simp: detect_in_text_def detector_push_def split: prod.splits option.splits simp del: upt_Suc)

lemma periodic_suffix_last:
  assumes "c \<le> n"
  shows "periodic_suffix p c (drop (length xs - n) xs) \<longleftrightarrow> periodic_suffix p c xs"
proof -
  have rev: "rev (drop (length xs - n) xs) = take n (rev xs)" by (simp add: take_rev)
  show ?thesis
    unfolding periodic_suffix_def rev using assms by auto
qed

lemma periodic_suffix_shorter: "periodic_suffix p c xs \<Longrightarrow> d \<le> c \<Longrightarrow> periodic_suffix p d xs"
  by (auto simp: periodic_suffix_def)

text \<open>Keeping only the last 8000 characters loses no repetition: four copies of 2000 fit.\<close>

lemma repeats_enough_tail:
  "(\<exists>c. repeats_enough p c (drop (length xs - TAIL) xs)) \<longleftrightarrow> (\<exists>c. repeats_enough p c xs)"
proof
  assume "\<exists>c. repeats_enough p c (drop (length xs - TAIL) xs)"
  then obtain c where c: "repeats_enough p c (drop (length xs - TAIL) xs)" by blast
  then have "c \<le> TAIL" by (auto simp: repeats_enough_def periodic_suffix_def)
  with c show "\<exists>c. repeats_enough p c xs" by (auto simp: repeats_enough_def periodic_suffix_last)
next
  assume "\<exists>c. repeats_enough p c xs"
  then obtain c where c: "repeats_enough p c xs" by blast
  then have "periodic_suffix p (min c TAIL) xs"
    by (auto simp: repeats_enough_def intro: periodic_suffix_shorter)
  with c have "repeats_enough p (min c TAIL) (drop (length xs - TAIL) xs)"
    by (auto simp: repeats_enough_def periodic_suffix_last repeat_constants)
  then show "\<exists>c. repeats_enough p c (drop (length xs - TAIL) xs)" by blast
qed

lemma check_at_None_iff: "check_at cs = None \<longleftrightarrow> \<not> (\<exists>p c. repeats_enough p c cs)"
  using repeats_enough_tail [of _ cs] by (simp add: check_at_def periodic_tail_None_iff)


text \<open>
  A repeating reply is always caught, and a short one never is. A complete text that
  ends in a unit of at most 2000 characters repeated for 2000 characters and four copies
  is an error on either channel, and a text of fewer than 2000 characters is accepted.
\<close>

theorem check_output_catches_repetition:
  "(repeats_enough p c (utf8_chars s) \<longrightarrow> (\<exists>r. check_output channel s = Inl r \<and> ro_channel r = channel)) \<and>
   (length (utf8_chars s) < OUTPUT_REPEAT_MIN_COVER \<longrightarrow> check_output channel s = Inr ())"
proof (intro conjI impI)
  let ?cs = "utf8_chars s"
  assume r: "repeats_enough p c ?cs"
  then have "?cs \<noteq> []" using repeats_enough_bounds [OF r] by (auto simp: repeat_constants)
  then have "length ?cs \<in> set (check_points (length ?cs))"
    by (simp add: check_points_def Suc_le_eq del: upt_Suc)
  then have "detect_in_text s = None \<Longrightarrow> check_at (take (length ?cs) ?cs) = None"
    unfolding detect_in_text_reference find_map_None_iff by (rule bspec [rotated])
  moreover have "check_at ?cs \<noteq> None" using r by (auto simp: check_at_None_iff)
  ultimately have "detect_in_text s \<noteq> None" by auto
  then show "\<exists>r. check_output channel s = Inl r \<and> ro_channel r = channel"
    by (auto simp: check_output_def RepetitiveOutput_new_def)
next
  let ?cs = "utf8_chars s"
  assume short: "length ?cs < OUTPUT_REPEAT_MIN_COVER"
  have "check_at (take k ?cs) = None" for k
    using short repeats_enough_bounds [of _ _ "take k ?cs"]
    unfolding check_at_None_iff by fastforce
  then have "detect_in_text s = None" unfolding detect_in_text_reference find_map_None_iff by simp
  then show "check_output channel s = Inr ()" by (simp add: check_output_def)
qed

theorem check_output_catches_repetition_witness:
  "(\<exists>r. check_output AnswerChannel (replicate 2000 CHR ''x'') = Inl r \<and> ro_channel r = AnswerChannel) \<and>
   check_output ThinkingChannel ''fine'' = Inr ()"
proof
  have chars: "utf8_chars (replicate n CHR ''x'') = replicate n ''x''" for n
  proof (induction n)
    case (Suc n)
    then show ?case by (cases n) (auto simp: utf8_continuation_def)
  qed simp
  have "repeats_enough 1 2000 (utf8_chars (replicate 2000 CHR ''x''))"
    unfolding chars by (simp add: repeats_enough_def periodic_suffix_def repeat_constants)
  with check_output_catches_repetition [of 1 2000 "replicate 2000 CHR ''x''" AnswerChannel]
  show "\<exists>r. check_output AnswerChannel (replicate 2000 CHR ''x'') = Inl r \<and> ro_channel r = AnswerChannel"
    by blast
  have "length (utf8_chars ''fine'') < OUTPUT_REPEAT_MIN_COVER"
    by (simp add: OUTPUT_REPEAT_MIN_COVER_def utf8_continuation_def)
  with check_output_catches_repetition [of _ _ "''fine''" ThinkingChannel]
  show "check_output ThinkingChannel ''fine'' = Inr ()" by blast
qed

text \<open>A stream: chunks are pushed until one reports, then the rest of the text is checked.\<close>

fun push_all ::
  "string OutputRepeatDetector \<Rightarrow> string list \<Rightarrow> string RepeatedTail option \<times> string OutputRepeatDetector" where
  "push_all d [] = (None, d)"
| "push_all d (chunk # chunks) =
     (case detector_push d chunk of
        (Some r, d) \<Rightarrow> (Some r, d)
      | (None, d) \<Rightarrow> push_all d chunks)"

lemma push_chars_append:
  "push_chars d (xs @ ys) =
     (case push_chars d xs of (Some r, d) \<Rightarrow> (Some r, d) | (None, d) \<Rightarrow> push_chars d ys)"
  by (induction xs arbitrary: d) (auto split: prod.splits option.splits)

lemma char_start_concat: "list_all char_start chunks \<Longrightarrow> char_start (concat chunks)"
proof (induction chunks)
  case (Cons chunk chunks)
  then show ?case by (cases chunk) (simp_all add: char_start_def)
qed (simp add: char_start_def)

lemma push_all_concat:
  "list_all char_start chunks \<Longrightarrow> push_all d chunks = push_chars d (utf8_chars (concat chunks))"
proof (induction chunks arbitrary: d)
  case (Cons chunk chunks)
  then have "utf8_chars (concat (chunk # chunks)) = utf8_chars chunk @ utf8_chars (concat chunks)"
    by (simp add: utf8_chars_append char_start_concat)
  with Cons show ?case
    by (auto simp: push_chars_append detector_push_def split: prod.splits option.splits)
qed simp

text \<open>
  The verdict does not depend on how the stream was chunked. Pushing a text in any chunks
  that start at character boundaries and finishing reports what the whole text reports.
\<close>

theorem chunking_irrelevant:
  assumes "list_all char_start chunks"
  shows "(case push_all OutputRepeatDetector_default chunks of
      (Some r, d) \<Rightarrow> Some r
    | (None, d) \<Rightarrow> fst (detector_finish d)) = detect_in_text (concat chunks)"
  by (simp add: push_all_concat [OF assms] detect_in_text_def detector_push_def)

theorem chunking_irrelevant_witness:
  "(case push_all OutputRepeatDetector_default [''ab'', [], ''c''] of
      (Some r, d) \<Rightarrow> Some r
    | (None, d) \<Rightarrow> fst (detector_finish d)) = detect_in_text ''abc''"
  using chunking_irrelevant [of "[''ab'', [], ''c'']"] by (simp add: char_start_def utf8_continuation_def)

end
