(* ===== verification/Tool_Loop_Guard.thy ===== *)
theory Tool_Loop_Guard
  imports Tool_Repeat "HOL-Library.Multiset"
begin

text \<open>
  \<open>harnx-runtime/src/tool_loop_guard.rs\<close>: how a turn applies the guard to one tool round.
  A round begins on the turn's guard (when loop detection is on), its calls are screened,
  the allowed ones run, and their results are recorded, noted and merged with the
  refusals. The mutex-protected guard is passed through; events the code emits
  (a blocked call, a warning notice) are returned as lists in emission order. The global
  configuration enters as the values the code reads from it.
\<close>

section \<open>Configuration\<close>

record LoopDetectionConfig =
  ld_tool_calls :: bool
  ld_output :: bool

definition LoopDetectionConfig_default :: LoopDetectionConfig where
  "LoopDetectionConfig_default = \<lparr>ld_tool_calls = True, ld_output = True\<rparr>"

record LoopDetectionOverride =
  ldo_tool_calls :: "bool option"
  ldo_output :: "bool option"

definition LoopDetectionConfig_resolve ::
  "LoopDetectionConfig \<Rightarrow> LoopDetectionOverride option \<Rightarrow> LoopDetectionConfig" where
  "LoopDetectionConfig_resolve c agent =
     (case agent of
        None \<Rightarrow> c
      | Some a \<Rightarrow>
          \<lparr>ld_tool_calls = (case ldo_tool_calls a of Some b \<Rightarrow> b | None \<Rightarrow> ld_tool_calls c),
           ld_output = (case ldo_output a of Some b \<Rightarrow> b | None \<Rightarrow> ld_output c)\<rparr>)"

section \<open>One tool round\<close>

definition ToolResult_new :: "ToolCall \<Rightarrow> json \<Rightarrow> ToolResult" where
  "ToolResult_new call output =
     \<lparr>result_call = call, result_output = output, result_markdown = None, result_content = [],
      result_switch_agent = None, result_execution_context = None\<rparr>"

datatype Screened = Proceed "ToolCall list" "ToolResult list" | StopRound RepetitionTerminal

text \<open>The active session's \<open>compressed_messages\<close>; \<open>None\<close> without a session.\<close>

definition compaction_marker :: "'m list option \<Rightarrow> nat" where
  "compaction_marker compressed_messages =
     (case compressed_messages of None \<Rightarrow> 0 | Some ms \<Rightarrow> length ms)"

definition loop_begin_round ::
  "'fp ToolRepeatGuard option \<Rightarrow> LoopDetectionConfig \<Rightarrow> LoopDetectionOverride option
     \<Rightarrow> string option \<Rightarrow> 'm list option \<Rightarrow> 'fp ToolRepeatGuard option" where
  "loop_begin_round guard loop_detection agent injected_user_text compressed_messages =
     (let enabled = ld_tool_calls (LoopDetectionConfig_resolve loop_detection agent)
      in case (if enabled then guard else None) of
           None \<Rightarrow> None
         | Some g \<Rightarrow>
             Some (begin_round g (injected_user_text \<noteq> None) (compaction_marker compressed_messages)))"

definition refused_output :: "string \<Rightarrow> json" where
  "refused_output message =
     JObject [(''is_error'', JBool True), (''error'', JString message),
       (''loop_guard'', JString ''refused'')]"

fun screen_calls ::
  "(json \<Rightarrow> 'fp) \<Rightarrow> (Refusal \<Rightarrow> string) \<Rightarrow> instant \<Rightarrow> 'fp ToolRepeatGuard \<Rightarrow> ToolCall list
     \<Rightarrow> ToolCall list \<Rightarrow> ToolResult list \<Rightarrow> (ToolCall \<times> json) list
     \<Rightarrow> Screened \<times> 'fp ToolRepeatGuard \<times> (ToolCall \<times> json) list" where
  "screen_calls digest message now g [] to_eval refused blocked =
     (Proceed to_eval refused, g, blocked)"
| "screen_calls digest message now g (call # rest) to_eval refused blocked =
     (case decide digest g call now of
        (Run, g) \<Rightarrow> screen_calls digest message now g rest (to_eval @ [call]) refused blocked
      | (Refuse refusal, g) \<Rightarrow>
          let output = refused_output (message refusal)
          in screen_calls digest message now g rest to_eval
               (refused @ [ToolResult_new call output]) (blocked @ [(call, output)])
      | (Stop terminal, g) \<Rightarrow> (StopRound terminal, g, blocked))"

definition screen_round ::
  "(json \<Rightarrow> 'fp) \<Rightarrow> (Refusal \<Rightarrow> string) \<Rightarrow> instant \<Rightarrow> 'fp ToolRepeatGuard option \<Rightarrow> ToolCall list
     \<Rightarrow> Screened \<times> 'fp ToolRepeatGuard option \<times> (ToolCall \<times> json) list" where
  "screen_round digest message now guard calls =
     (case guard of
        None \<Rightarrow> (Proceed calls [], None, [])
      | Some g \<Rightarrow>
          let (screened, g, blocked) =
            screen_calls digest message now (begin_batch g) (ToolCall_dedup calls) [] [] []
          in (screened, Some g, blocked))"

fun note_repeats ::
  "(json \<Rightarrow> 'fp) \<Rightarrow> instant \<Rightarrow> 'fp ToolRepeatGuard \<Rightarrow> ToolResult list
     \<Rightarrow> ToolResult list \<times> 'fp ToolRepeatGuard \<times> string list" where
  "note_repeats digest now g [] = ([], g, [])"
| "note_repeats digest now g (result # results) =
     (case record_execution digest g (result_call result) (result_output result) now of
        (None, g) \<Rightarrow>
          let (results, g, notices) = note_repeats digest now g results
          in (result # results, g, notices)
      | (Some rn, g) \<Rightarrow>
          let msg = RepeatNote_text rn;
              notice = call_name (result_call result) @ '': '' @ msg;
              result = result\<lparr>result_output := append_note (result_output result) msg\<rparr>;
              (results, g, notices) = note_repeats digest now g results
          in (result # results, g, notice # notices))"

definition call_position :: "nat \<Rightarrow> ToolCall list \<Rightarrow> ToolResult \<Rightarrow> nat" where
  "call_position usize_max calls result =
     (case position (\<lambda>call. call_id call = call_id (result_call result)) calls of
        Some i \<Rightarrow> i
      | None \<Rightarrow> usize_max)"

definition order_by_calls :: "nat \<Rightarrow> ToolResult list \<Rightarrow> ToolCall list \<Rightarrow> ToolResult list" where
  "order_by_calls usize_max results calls = sort_key (call_position usize_max calls) results"

definition finish_round ::
  "nat \<Rightarrow> (json \<Rightarrow> 'fp) \<Rightarrow> instant \<Rightarrow> 'fp ToolRepeatGuard option \<Rightarrow> ToolResult list \<Rightarrow> ToolResult list
     \<Rightarrow> ToolCall list \<Rightarrow> ToolResult list \<times> 'fp ToolRepeatGuard option \<times> string list" where
  "finish_round usize_max digest now guard results refused calls =
     (let (results, guard, notices) =
            (case guard of
               None \<Rightarrow> (results, None, [])
             | Some g \<Rightarrow>
                 let (results, g, notices) = note_repeats digest now g results
                 in (results, Some g, notices))
      in if refused = [] then (results, guard, notices)
         else (order_by_calls usize_max (results @ refused) calls, guard, notices))"

definition stopped_output :: "RepetitionTerminal \<Rightarrow> json" where
  "stopped_output terminal =
     JObject [(''is_error'', JBool True),
       (''error'', JString (''harnx ended the turn: '' @ reason terminal @ ''.'')),
       (''loop_guard'', JString ''stopped'')]"

section \<open>Which calls of a round run\<close>

lemma over_limit_decide [simp]:
  "over_limit digest (snd (decide digest g call now)) c now = over_limit digest g c now"
  by (auto simp: over_limit_def decide_state)

lemma over_limit_begin_batch [simp]: "over_limit digest (begin_batch g) c now = over_limit digest g c now"
  by (simp add: over_limit_def begin_batch_def)

lemma screen_calls_spec:
  "case fst (screen_calls digest message now g calls to_eval refused blocked) of
     Proceed run ref \<Rightarrow>
       run = to_eval @ filter (\<lambda>c. \<not> over_limit digest g c now) calls \<and>
       map result_call ref = map result_call refused @ filter (\<lambda>c. over_limit digest g c now) calls \<and>
       (blocked = map (\<lambda>r. (result_call r, result_output r)) refused \<longrightarrow>
        snd (snd (screen_calls digest message now g calls to_eval refused blocked)) =
          map (\<lambda>r. (result_call r, result_output r)) ref)
   | StopRound t \<Rightarrow>
       \<exists>c \<in> set calls. over_limit digest g c now \<and> term_tool t = Some (call_name c) \<and>
         term_source t = SourceToolCalls"
proof (induction calls arbitrary: g to_eval refused blocked)
  case (Cons call rest)
  obtain v g1 where d: "decide digest g call now = (v, g1)" by (cases "decide digest g call now")
  then have g1: "over_limit digest g1 c now = over_limit digest g c now" for c
    using over_limit_decide [of digest g call now c] by simp
  show ?case
  proof (cases v)
    case Run
    then have "\<not> over_limit digest g call now"
      using d decide_verdict [of digest g call now] by (auto simp: Let_def split: if_splits)
    with Run d Cons.IH [where g = g1 and to_eval = "to_eval @ [call]" and refused = refused and blocked = blocked] show ?thesis
      by (auto simp: g1 split: Screened.splits)
  next
    case (Refuse refusal)
    then have "over_limit digest g call now"
      using d decide_verdict [of digest g call now] by (auto simp: Let_def split: if_splits)
    with Refuse d Cons.IH [where g = g1 and to_eval = to_eval
        and refused = "refused @ [ToolResult_new call (refused_output (message refusal))]"
        and blocked = "blocked @ [(call, refused_output (message refusal))]"]
    show ?thesis by (auto simp: g1 Let_def ToolResult_new_def split: Screened.splits)
  next
    case (Stop t)
    then have "over_limit digest g call now \<and> t = RepetitionTerminal_tool_calls (call_name call)
        (length (matching_times (live now (execs g (CallKey_of digest call)))))"
      using d decide_verdict [of digest g call now] by (auto simp: Let_def split: if_splits)
    with Stop d show ?thesis by (simp add: RepetitionTerminal_tool_calls_def)
  qed
qed simp

text \<open>
  A screened round is decided by the results before it. With one clock reading for the
  round, the calls that proceed are exactly the distinct calls under the limit when the
  round began, in request order; every other one gets a refusal shown as blocked, in
  request order; and a stop names a call of the round that was over the limit.
\<close>

theorem screen_round_spec:
  "case screen_round digest message now (Some g) calls of
     (Proceed to_eval refused, _, blocked) \<Rightarrow>
       to_eval = filter (\<lambda>c. \<not> over_limit digest g c now) (ToolCall_dedup calls) \<and>
       map result_call refused = filter (\<lambda>c. over_limit digest g c now) (ToolCall_dedup calls) \<and>
       blocked = map (\<lambda>r. (result_call r, result_output r)) refused
   | (StopRound t, _, _) \<Rightarrow>
       \<exists>c \<in> set (ToolCall_dedup calls). over_limit digest g c now \<and>
         term_tool t = Some (call_name c) \<and> term_source t = SourceToolCalls"
  using screen_calls_spec [where digest = digest and message = message and now = now
      and g = "begin_batch g" and calls = "ToolCall_dedup calls" and to_eval = "[]" and refused = "[]"
      and blocked = "[]"]
  by (auto simp: screen_round_def Let_def split: prod.splits Screened.splits)

section \<open>Every call is answered once\<close>

lemma note_repeats_calls [simp]:
  "map result_call (fst (note_repeats digest now g results)) = map result_call results"
proof (induction results arbitrary: g)
  case (Cons r results)
  then show ?case by (auto simp: Let_def split: prod.splits option.splits) (metis fst_conv)+
qed simp

lemma filter_partition_mset: "mset (filter (\<lambda>x. \<not> P x) xs) + mset (filter P xs) = mset xs"
  by (induction xs) auto

lemma finish_round_calls:
  "mset (map result_call (fst (finish_round usize_max digest now guard results refused calls))) =
     mset (map result_call results) + mset (map result_call refused)"
proof -
  have perm: "mset (map result_call (order_by_calls usize_max rs calls)) = mset (map result_call rs)" for rs
    by (simp add: order_by_calls_def)
  show ?thesis
  proof (cases guard)
    case None
    then show ?thesis by (simp add: finish_round_def perm del: mset_map)
  next
    case (Some g)
    obtain rs g1 ns where n: "note_repeats digest now g results = (rs, g1, ns)" by (rule prod_cases3)
    then have "map result_call rs = map result_call results"
      using note_repeats_calls [where digest = digest and now = now and g = g and results = results] by simp
    with Some n show ?thesis by (simp add: finish_round_def perm del: mset_map)
  qed
qed

lemma screen_round_mset:
  assumes "screen_round digest message now guard calls = (Proceed to_eval refused, guard1, blocked)"
  shows "mset to_eval + mset (map result_call refused) =
    mset (if guard = None then calls else ToolCall_dedup calls)"
proof (cases guard)
  case (Some g)
  then show ?thesis
    using assms screen_calls_spec [where digest = digest and message = message and now = now
        and g = "begin_batch g" and calls = "ToolCall_dedup calls" and to_eval = "[]" and refused = "[]"
        and blocked = "[]"]
    by (auto simp: screen_round_def Let_def filter_partition_mset simp del: mset_map mset_filter
        split: prod.splits)
qed (use assms in \<open>auto simp: screen_round_def\<close>)

text \<open>
  A finished round answers every distinct call exactly once. When the engine returned
  one result per call it was given, the round's results are those calls and the refused
  ones, and if any was refused the results come in the order the model requested them.
\<close>

theorem finish_round_answers_all:
  assumes "screen_round digest message now guard calls = (Proceed to_eval refused, guard1, blocked)"
    and "mset (map result_call results) = mset to_eval"
  shows "let answered = fst (finish_round usize_max digest later guard1 results refused calls)
    in mset (map result_call answered) =
         mset (if guard = None then calls else ToolCall_dedup calls) \<and>
       (refused = [] \<or> sorted (map (call_position usize_max calls) answered))"
proof -
  have "mset (map result_call (fst (finish_round usize_max digest later guard1 results refused calls))) =
      mset (if guard = None then calls else ToolCall_dedup calls)"
    by (simp only: finish_round_calls assms(2) screen_round_mset [OF assms(1)])
  then show ?thesis
    by (simp add: Let_def finish_round_def order_by_calls_def case_prod_beta del: mset_map)
qed

lemma demo_screened:
  "screen_round id ref_tool 4 (Some (guard_after id demo_polls)) [demo_poll] =
     (Proceed [] [ToolResult_new demo_poll (refused_output ''poll'')],
      Some (snd (decide id (begin_batch (guard_after id demo_polls)) demo_poll 4)),
      [(demo_poll, refused_output ''poll'')])"
  by (simp add: screen_round_def ToolCall_dedup_def demo_polls_def decide_def record_execution_def
      begin_batch_def matching_executions_def refusals_in_window_def ToolRepeatGuard_default_def Let_def
      window_def TOOL_REPEAT_WINDOW_def demo_poll_def ToolCall_new_def)

theorem finish_round_answers_all_witness:
  "let answered = fst (finish_round 100 id 5
      (Some (snd (decide id (begin_batch (guard_after id demo_polls)) demo_poll 4))) []
      [ToolResult_new demo_poll (refused_output ''poll'')] [demo_poll])
    in mset (map result_call answered) = mset (ToolCall_dedup [demo_poll])"
  using finish_round_answers_all [OF demo_screened, of "[]" 100 5] by (simp add: Let_def)

end
