(* ===== verification/Loop_Replay.thy ===== *)
theory Loop_Replay
  imports Output_Repeat Tool_Loop_Guard
begin

text \<open>
  \<open>harnx-core/src/loop_guard/replay.rs\<close>: replaying a stored session through the live guards.
  Tool calls go through \<open>ToolRepeatGuard\<close>, saved replies through \<open>detect_in_text\<close>, and the
  report lists what the live guards would have done. The clock of the replay is the log's;
  \<open>DateTime::MIN_UTC\<close>, JSON text, \<open>{:?}\<close> of a string and time formatting are parameters.
\<close>

section \<open>The report\<close>

datatype LoopCheckEventKind = NoteEvent | RefusalEvent | StopEvent

record LoopCheckEvent =
  ev_seq :: seq
  ev_timestamp :: "instant option"
  ev_kind :: LoopCheckEventKind
  ev_tool :: string
  ev_arguments :: json
  ev_count :: nat

record OutputCheckEvent =
  oev_seq :: seq
  oev_timestamp :: "instant option"
  oev_channel :: OutputChannel
  oev_unit :: string
  oev_unit_len :: nat
  oev_at_char :: nat

definition OutputCheckEvent_new ::
  "seq \<Rightarrow> instant option \<Rightarrow> OutputChannel \<Rightarrow> string RepeatedTail \<Rightarrow> OutputCheckEvent" where
  "OutputCheckEvent_new s timestamp channel tail =
     \<lparr>oev_seq = s, oev_timestamp = timestamp, oev_channel = channel,
      oev_unit = concat (take 120 (utf8_chars (concat (rt_unit tail)))),
      oev_unit_len = length (utf8_chars (concat (rt_unit tail))), oev_at_char = rt_at_char tail\<rparr>"

record ReplyText =
  rep_answer :: string
  rep_thinking :: "string option"

definition from_saved :: "string \<Rightarrow> ReplyText" where
  "from_saved s =
     (case Option.bind (strip_prefix_str s (''<think>'' @ newline))
             (\<lambda>rest. split_once rest (newline @ ''</think>'' @ newline)) of
        Some (thinking, answer) \<Rightarrow> \<lparr>rep_answer = answer, rep_thinking = Some thinking\<rparr>
      | None \<Rightarrow> \<lparr>rep_answer = s, rep_thinking = None\<rparr>)"

definition of_tool_calls :: "string \<Rightarrow> string option \<Rightarrow> ReplyText" where
  "of_tool_calls s thought =
     (case thought of
        Some _ \<Rightarrow> \<lparr>rep_answer = s, rep_thinking = thought\<rparr>
      | None \<Rightarrow> from_saved s)"

record LoopCheckReport =
  rpt_tool_calls :: nat
  rpt_events :: "LoopCheckEvent list"
  rpt_output_events :: "OutputCheckEvent list"

definition LoopCheckReport_default :: LoopCheckReport where
  "LoopCheckReport_default = \<lparr>rpt_tool_calls = 0, rpt_events = [], rpt_output_events = []\<rparr>"

definition report_count :: "LoopCheckReport \<Rightarrow> LoopCheckEventKind \<Rightarrow> nat" where
  "report_count r kind = length (filter (\<lambda>ev. ev_kind ev = kind) (rpt_events r))"

definition format_time :: "(instant \<Rightarrow> string) \<Rightarrow> instant option \<Rightarrow> string" where
  "format_time format_utc timestamp =
     (case timestamp of Some t \<Rightarrow> format_utc t | None \<Rightarrow> ''-'')"

definition kind_label :: "LoopCheckEventKind \<Rightarrow> string" where
  "kind_label kind =
     (case kind of NoteEvent \<Rightarrow> ''note'' | RefusalEvent \<Rightarrow> ''refused'' | StopEvent \<Rightarrow> ''turn stopped'')"

definition channel_label :: "OutputChannel \<Rightarrow> string" where
  "channel_label channel =
     (case channel of AnswerChannel \<Rightarrow> ''answer'' | ThinkingChannel \<Rightarrow> ''thinking'')"

definition render_tool_events ::
  "(instant \<Rightarrow> string) \<Rightarrow> (json \<Rightarrow> string) \<Rightarrow> LoopCheckReport \<Rightarrow> string" where
  "render_tool_events format_utc json_text r =
     concat (map (\<lambda>ev. ''seq '' @ show_nat (ev_seq ev) @ '' '' @ format_time format_utc (ev_timestamp ev) @
       '' '' @ kind_label (ev_kind ev) @ '': '' @ ev_tool ev @ '' '' @
       concat (take 120 (utf8_chars (json_text (ev_arguments ev)))) @ '' ('' @ show_nat (ev_count ev) @
       '' identical)'' @ newline) (rpt_events r))"

definition render_output_events ::
  "(instant \<Rightarrow> string) \<Rightarrow> (string \<Rightarrow> string) \<Rightarrow> LoopCheckReport \<Rightarrow> string" where
  "render_output_events format_utc debug r =
     concat (map (\<lambda>ev. ''seq '' @ show_nat (oev_seq ev) @ '' '' @ format_time format_utc (oev_timestamp ev) @
       '' repeated '' @ channel_label (oev_channel ev) @ '': '' @ debug (oev_unit ev) @ '' (unit of '' @
       show_nat (oev_unit_len ev) @ '' chars, caught at char '' @ show_nat (oev_at_char ev) @ '')'' @ newline)
       (rpt_output_events r))"

definition render_summaries :: "LoopCheckReport \<Rightarrow> string" where
  "render_summaries r =
     (let answers = length (filter (\<lambda>ev. oev_channel ev = AnswerChannel) (rpt_output_events r))
      in show_nat (rpt_tool_calls r) @ '' tool calls: '' @ show_nat (report_count r NoteEvent) @
         '' notes, '' @ show_nat (report_count r RefusalEvent) @ '' refusals, '' @
         show_nat (report_count r StopEvent) @ '' stops.'' @ newline @
         show_nat (length (rpt_output_events r)) @ '' repeated outputs ('' @ show_nat answers @
         '' answer, '' @ show_nat (length (rpt_output_events r) - answers) @ '' thinking).'' @ newline)"

definition render_limits :: string where
  "render_limits =
     ''Replay limits: after a refusal the real session may have run the call and gone on, '' @
     ''so later events may differ from a live run; after a stop the replay skips to the '' @
     ''next turn; a response stopped for repeating itself was never saved, so only saved '' @
     ''replies are checked for repeated output.'' @ newline"

definition render_text ::
  "(instant \<Rightarrow> string) \<Rightarrow> (json \<Rightarrow> string) \<Rightarrow> (string \<Rightarrow> string) \<Rightarrow> LoopCheckReport \<Rightarrow> string" where
  "render_text format_utc json_text debug r =
     render_tool_events format_utc json_text r @ render_output_events format_utc debug r @
     render_summaries r @ render_limits"

section \<open>The replay\<close>

definition tool_output :: "json \<Rightarrow> json option" where
  "tool_output stored =
     (if value_get stored ''loop_guard'' = None then Some (strip_note stored) else None)"

record LoggedCall =
  lc_call :: ToolCall
  lc_at :: instant
  lc_seq :: seq

record 'fp Replay =
  rp_guard :: "'fp ToolRepeatGuard"
  rp_pending :: "string \<rightharpoonup> LoggedCall"
  rp_stopped :: bool
  rp_clock :: "instant option"
  rp_report :: LoopCheckReport

definition Replay_default :: "'fp Replay" where
  "Replay_default =
     \<lparr>rp_guard = ToolRepeatGuard_default, rp_pending = Map.empty, rp_stopped = False,
      rp_clock = None, rp_report = LoopCheckReport_default\<rparr>"

definition replay_restart :: "'fp Replay \<Rightarrow> 'fp Replay" where
  "replay_restart r =
     r\<lparr>rp_guard := guard_reset (rp_guard r), rp_pending := Map.empty, rp_stopped := False\<rparr>"

definition replay_now :: "instant \<Rightarrow> 'fp Replay \<Rightarrow> instant option \<Rightarrow> instant \<times> 'fp Replay" where
  "replay_now min_utc r timestamp =
     (let now = (case timestamp of
            Some t \<Rightarrow> t
          | None \<Rightarrow> (case rp_clock r of Some t \<Rightarrow> t | None \<Rightarrow> min_utc))
      in (now, r\<lparr>rp_clock := Some now\<rparr>))"

definition replay_push ::
  "instant \<Rightarrow> 'fp Replay \<Rightarrow> LoggedCall \<Rightarrow> LoopCheckEventKind \<Rightarrow> nat \<Rightarrow> 'fp Replay" where
  "replay_push min_utc r logged kind n =
     r\<lparr>rp_report := (rp_report r)\<lparr>rpt_events := rpt_events (rp_report r) @
       [\<lparr>ev_seq = lc_seq logged,
         ev_timestamp = (if lc_at logged \<noteq> min_utc then Some (lc_at logged) else None),
         ev_kind = kind, ev_tool = call_name (lc_call logged),
         ev_arguments = call_arguments (lc_call logged), ev_count = n\<rparr>]\<rparr>\<rparr>"

definition await_result :: "'fp Replay \<Rightarrow> LoggedCall \<Rightarrow> 'fp Replay" where
  "await_result r logged =
     (case call_id (lc_call logged) of
        Some i \<Rightarrow> r\<lparr>rp_pending := (rp_pending r)(i \<mapsto> logged)\<rparr>
      | None \<Rightarrow> r)"

definition replay_decide ::
  "(json \<Rightarrow> 'fp) \<Rightarrow> instant \<Rightarrow> seq \<Rightarrow> instant \<Rightarrow> 'fp Replay \<Rightarrow> ToolCall \<Rightarrow> 'fp Replay" where
  "replay_decide digest min_utc s at r call =
     (if rp_stopped r then r
      else
        let (verdict, g) = decide digest (rp_guard r) call at;
            r = r\<lparr>rp_guard := g\<rparr>;
            logged = \<lparr>lc_call = call, lc_at = at, lc_seq = s\<rparr>
        in case verdict of
             Run \<Rightarrow> await_result r logged
           | Refuse refusal \<Rightarrow> replay_push min_utc r logged RefusalEvent (ref_count refusal)
           | Stop terminal \<Rightarrow>
               (replay_push min_utc r logged StopEvent
                  (case term_count terminal of Some n \<Rightarrow> n | None \<Rightarrow> 0))
               \<lparr>rp_pending := Map.empty, rp_stopped := True\<rparr>)"

definition replay_calls ::
  "(json \<Rightarrow> 'fp) \<Rightarrow> instant \<Rightarrow> 'fp Replay \<Rightarrow> seq \<Rightarrow> ToolCall list \<Rightarrow> instant option \<Rightarrow> 'fp Replay" where
  "replay_calls digest min_utc r s calls timestamp =
     (let (at, r) = replay_now min_utc r timestamp;
          r = r\<lparr>rp_report := (rp_report r)\<lparr>rpt_tool_calls := rpt_tool_calls (rp_report r) + length calls\<rparr>,
                rp_guard := begin_batch (rp_guard r)\<rparr>
      in foldl (replay_decide digest min_utc s at) r calls)"

definition replay_result ::
  "(json \<Rightarrow> 'fp) \<Rightarrow> instant \<Rightarrow> 'fp Replay \<Rightarrow> ToolOutput \<Rightarrow> 'fp Replay" where
  "replay_result digest min_utc r result =
     (case Option.bind (out_id result) (\<lambda>i. map_option (Pair i) (rp_pending r i)) of
        None \<Rightarrow> r
      | Some (i, logged) \<Rightarrow>
          let r = r\<lparr>rp_pending := (rp_pending r)(i := None)\<rparr>
          in case tool_output (out_output result) of
               None \<Rightarrow> r
             | Some output \<Rightarrow>
                 let (rn, g) = record_execution digest (rp_guard r) (lc_call logged) output (lc_at logged);
                     r = r\<lparr>rp_guard := g\<rparr>
                 in case rn of
                      Some n \<Rightarrow> replay_push min_utc r logged NoteEvent (note_count n)
                    | None \<Rightarrow> r)"

definition reply_events :: "seq \<Rightarrow> instant option \<Rightarrow> ReplyText \<Rightarrow> OutputCheckEvent list" where
  "reply_events s timestamp reply =
     filter_map (\<lambda>(channel, txt). map_option (OutputCheckEvent_new s timestamp channel) (detect_in_text txt))
       [(ThinkingChannel, case rep_thinking reply of Some t \<Rightarrow> t | None \<Rightarrow> []),
        (AnswerChannel, rep_answer reply)]"

definition scan_reply :: "'fp Replay \<Rightarrow> seq \<Rightarrow> instant option \<Rightarrow> ReplyText \<Rightarrow> 'fp Replay" where
  "scan_reply r s timestamp reply =
     r\<lparr>rp_report := (rp_report r)\<lparr>rpt_output_events :=
         rpt_output_events (rp_report r) @ reply_events s timestamp reply\<rparr>\<rparr>"

definition replay_apply ::
  "(json \<Rightarrow> 'fp) \<Rightarrow> instant \<Rightarrow> 'fp Replay \<Rightarrow> seq \<times> SessionLogEntry \<Rightarrow> 'fp Replay" where
  "replay_apply digest min_utc r row =
     (case snd row of
        Message _ User _ _ _ \<Rightarrow> replay_restart r
      | TurnEnd _ _ _ _ \<Rightarrow> replay_restart r
      | Error _ _ _ \<Rightarrow> replay_restart r
      | Cancel _ _ _ _ \<Rightarrow> replay_restart r
      | Compress _ \<Rightarrow> replay_restart r
      | CompactRequest _ _ _ _ \<Rightarrow> replay_restart r
      | CompactResult _ _ _ \<Rightarrow> replay_restart r
      | Message _ Assistant content timestamp _ \<Rightarrow>
          scan_reply r (fst row) timestamp (from_saved (to_text content))
      | ToolCalls txt thought calls timestamp _ \<Rightarrow>
          replay_calls digest min_utc
            (scan_reply r (fst row) timestamp (of_tool_calls txt thought)) (fst row) calls timestamp
      | ToolResults results _ \<Rightarrow> foldl (replay_result digest min_utc) r results
      | _ \<Rightarrow> r)"

definition check_session ::
  "(json \<Rightarrow> 'fp) \<Rightarrow> instant \<Rightarrow> (seq \<times> SessionLogEntry) list \<Rightarrow> LoopCheckReport" where
  "check_session digest min_utc entries =
     rp_report (foldl (replay_apply digest min_utc) Replay_default entries)"

section \<open>What a report accounts for\<close>

definition entry_calls :: "SessionLogEntry \<Rightarrow> ToolCall list" where
  "entry_calls e = (case e of ToolCalls _ _ calls _ _ \<Rightarrow> calls | _ \<Rightarrow> [])"

definition entry_output_events :: "seq \<times> SessionLogEntry \<Rightarrow> OutputCheckEvent list" where
  "entry_output_events row =
     (case snd row of
        Message _ Assistant content timestamp _ \<Rightarrow>
          reply_events (fst row) timestamp (from_saved (to_text content))
      | ToolCalls txt thought _ timestamp _ \<Rightarrow>
          reply_events (fst row) timestamp (of_tool_calls txt thought)
      | _ \<Rightarrow> [])"

definition logged_in :: "(seq \<times> SessionLogEntry) list \<Rightarrow> seq \<Rightarrow> ToolCall \<Rightarrow> bool" where
  "logged_in es s call \<longleftrightarrow> (\<exists>e. (s, e) \<in> set es \<and> call \<in> set (entry_calls e))"

definition event_justified :: "(seq \<times> SessionLogEntry) list \<Rightarrow> LoopCheckEvent \<Rightarrow> bool" where
  "event_justified es ev \<longleftrightarrow>
     (\<exists>call. logged_in es (ev_seq ev) call \<and> call_name call = ev_tool ev \<and>
        call_arguments call = ev_arguments ev) \<and>
     (if ev_kind ev = NoteEvent then 2 else TOOL_REPEAT_LIMIT) \<le> ev_count ev"

definition replay_ok :: "(seq \<times> SessionLogEntry) list \<Rightarrow> 'fp Replay \<Rightarrow> bool" where
  "replay_ok es r \<longleftrightarrow>
     list_all (event_justified es) (rpt_events (rp_report r)) \<and>
     (\<forall>i l. rp_pending r i = Some l \<longrightarrow>
        call_id (lc_call l) = Some i \<and> logged_in es (lc_seq l) (lc_call l)) \<and>
     (rp_stopped r \<longrightarrow> rp_pending r = Map.empty)"

definition replay_account :: "(seq \<times> SessionLogEntry) list \<Rightarrow> 'fp Replay \<Rightarrow> bool" where
  "replay_account es r \<longleftrightarrow>
     replay_ok es r \<and>
     rpt_tool_calls (rp_report r) = sum_list (map (\<lambda>e. length (entry_calls (snd e))) es) \<and>
     rpt_output_events (rp_report r) = concat (map entry_output_events es)"

lemma logged_in_mono: "logged_in es s call \<Longrightarrow> logged_in (es @ es') s call"
  by (auto simp: logged_in_def)

lemma event_justified_mono: "event_justified es ev \<Longrightarrow> event_justified (es @ es') ev"
  by (auto simp: event_justified_def logged_in_def)

lemma replay_ok_mono: "replay_ok es r \<Longrightarrow> replay_ok (es @ es') r"
  by (auto simp: replay_ok_def list_all_iff intro: event_justified_mono logged_in_mono)

lemma replay_ok_push:
  assumes "replay_ok es r" and "logged_in es (lc_seq l) (lc_call l)"
    and "(if kind = NoteEvent then 2 else TOOL_REPEAT_LIMIT) \<le> n"
  shows "replay_ok es (replay_push min_utc r l kind n)"
  using assms by (auto simp: replay_ok_def replay_push_def event_justified_def)

lemma push_keeps [simp]:
  "rpt_tool_calls (rp_report (replay_push min_utc r l kind n)) = rpt_tool_calls (rp_report r)"
  "rpt_output_events (rp_report (replay_push min_utc r l kind n)) = rpt_output_events (rp_report r)"
  "rp_pending (replay_push min_utc r l kind n) = rp_pending r"
  "rp_stopped (replay_push min_utc r l kind n) = rp_stopped r"
  by (simp_all add: replay_push_def)

lemma replay_ok_guard [simp]: "replay_ok es (r\<lparr>rp_guard := g\<rparr>) = replay_ok es r"
  by (simp add: replay_ok_def)

lemma await_result_ok:
  assumes "replay_ok es r" and "\<not> rp_stopped r" and "logged_in es (lc_seq l) (lc_call l)"
  shows "replay_ok es (await_result r l)" and "rp_report (await_result r l) = rp_report r"
  using assms by (auto simp: await_result_def replay_ok_def split: option.splits)

lemma replay_decide_ok:
  assumes "replay_ok es r" and "logged_in es s call"
  shows "replay_ok es (replay_decide digest min_utc s at r call)"
    and "rpt_tool_calls (rp_report (replay_decide digest min_utc s at r call)) =
      rpt_tool_calls (rp_report r)"
    and "rpt_output_events (rp_report (replay_decide digest min_utc s at r call)) =
      rpt_output_events (rp_report r)"
proof -
  let ?l = "\<lparr>lc_call = call, lc_at = at, lc_seq = s\<rparr>"
  obtain v g where d: "decide digest (rp_guard r) call at = (v, g)" by (cases "decide digest (rp_guard r) call at")
  have v: "v = fst (decide digest (rp_guard r) call at)" by (simp add: d)
  have "replay_ok es (replay_decide digest min_utc s at r call) \<and>
    rpt_tool_calls (rp_report (replay_decide digest min_utc s at r call)) = rpt_tool_calls (rp_report r) \<and>
    rpt_output_events (rp_report (replay_decide digest min_utc s at r call)) = rpt_output_events (rp_report r)"
  proof (cases v)
    case Run
    with assms show ?thesis
      using await_result_ok [of es "r\<lparr>rp_guard := g\<rparr>" ?l]
      by (simp add: replay_decide_def d Let_def)
  next
    case (Refuse x)
    then have "TOOL_REPEAT_LIMIT \<le> ref_count x"
      using v by (auto simp: decide_verdict Let_def over_limit_def split: if_splits)
    then have "replay_ok es (replay_push min_utc (r\<lparr>rp_guard := g\<rparr>) ?l RefusalEvent (ref_count x))"
      using assms by (intro replay_ok_push) simp_all
    with Refuse assms(1) show ?thesis by (simp add: replay_decide_def d Let_def)
  next
    case (Stop t)
    then obtain n where n: "term_count t = Some n" "TOOL_REPEAT_LIMIT \<le> n"
      using v by (auto simp: decide_verdict Let_def over_limit_def RepetitionTerminal_tool_calls_def
          split: if_splits)
    then have "replay_ok es (replay_push min_utc (r\<lparr>rp_guard := g\<rparr>) ?l StopEvent n)"
      using assms by (intro replay_ok_push) simp_all
    with Stop assms(1) n show ?thesis by (auto simp: replay_decide_def d replay_ok_def Let_def)
  qed
  then show "replay_ok es (replay_decide digest min_utc s at r call)"
    and "rpt_tool_calls (rp_report (replay_decide digest min_utc s at r call)) =
      rpt_tool_calls (rp_report r)"
    and "rpt_output_events (rp_report (replay_decide digest min_utc s at r call)) =
      rpt_output_events (rp_report r)" by blast+
qed

lemma replay_decides_ok:
  assumes "replay_ok es r" and "\<forall>call \<in> set calls. logged_in es s call"
  shows "replay_ok es (foldl (replay_decide digest min_utc s at) r calls) \<and>
    rpt_tool_calls (rp_report (foldl (replay_decide digest min_utc s at) r calls)) =
      rpt_tool_calls (rp_report r) \<and>
    rpt_output_events (rp_report (foldl (replay_decide digest min_utc s at) r calls)) =
      rpt_output_events (rp_report r)"
  using assms by (induction calls arbitrary: r) (simp_all add: replay_decide_ok)

lemma replay_result_ok:
  assumes "replay_ok es r"
  shows "replay_ok es (replay_result digest min_utc r result) \<and>
    rpt_tool_calls (rp_report (replay_result digest min_utc r result)) = rpt_tool_calls (rp_report r) \<and>
    rpt_output_events (rp_report (replay_result digest min_utc r result)) = rpt_output_events (rp_report r)"
proof (cases "Option.bind (out_id result) (\<lambda>i. map_option (Pair i) (rp_pending r i))")
  case (Some p)
  then obtain i l where p: "rp_pending r i = Some l" "p = (i, l)" "out_id result = Some i"
    by (auto simp: bind_eq_Some_conv)
  let ?r = "r\<lparr>rp_pending := (rp_pending r)(i := None)\<rparr>"
  have ok: "replay_ok es ?r" "logged_in es (lc_seq l) (lc_call l)"
    using assms p by (auto simp: replay_ok_def)
  show ?thesis
  proof (cases "tool_output (out_output result)")
    case None
    with ok p show ?thesis by (simp add: replay_result_def Let_def)
  next
    case (Some v)
    obtain n g where rec: "record_execution digest (rp_guard r) (lc_call l) v (lc_at l) = (n, g)"
      by (cases "record_execution digest (rp_guard r) (lc_call l) v (lc_at l)")
    show ?thesis
    proof (cases n)
      case None
      with ok p Some rec show ?thesis by (simp add: replay_result_def Let_def)
    next
      case (Some x)
      have "n = fst (record_execution digest (rp_guard r) (lc_call l) v (lc_at l))" by (simp add: rec)
      with Some have "2 \<le> note_count x"
        by (auto simp: record_execution_eq Let_def split: if_splits)
      then have "replay_ok es (replay_push min_utc (?r\<lparr>rp_guard := g\<rparr>) l NoteEvent (note_count x))"
        using ok by (intro replay_ok_push) simp_all
      with Some \<open>tool_output (out_output result) = Some v\<close> p rec show ?thesis
        by (simp add: replay_result_def Let_def)
    qed
  qed
qed (use assms in \<open>simp add: replay_result_def\<close>)

lemma replay_results_ok:
  assumes "replay_ok es r"
  shows "replay_ok es (foldl (replay_result digest min_utc) r results) \<and>
    rpt_tool_calls (rp_report (foldl (replay_result digest min_utc) r results)) = rpt_tool_calls (rp_report r) \<and>
    rpt_output_events (rp_report (foldl (replay_result digest min_utc) r results)) =
      rpt_output_events (rp_report r)"
  using assms by (induction results arbitrary: r) (simp_all add: replay_result_ok)

lemma replay_ok_report [simp]:
  "replay_ok es (r\<lparr>rp_report := (rp_report r)\<lparr>rpt_tool_calls := n\<rparr>\<rparr>) = replay_ok es r"
  "replay_ok es (r\<lparr>rp_clock := c\<rparr>) = replay_ok es r"
  "replay_ok es (scan_reply r s ts reply) = replay_ok es r"
  by (simp_all add: replay_ok_def scan_reply_def)

lemma replay_restart_ok: "replay_ok es r \<Longrightarrow> replay_ok es (replay_restart r)"
  by (simp add: replay_ok_def replay_restart_def)

lemma scan_reply_keeps [simp]:
  "rpt_tool_calls (rp_report (scan_reply r s ts reply)) = rpt_tool_calls (rp_report r)"
  "rpt_events (rp_report (scan_reply r s ts reply)) = rpt_events (rp_report r)"
  "rpt_output_events (rp_report (scan_reply r s ts reply)) =
     rpt_output_events (rp_report r) @ reply_events s ts reply"
  "rp_pending (scan_reply r s ts reply) = rp_pending r"
  "rp_stopped (scan_reply r s ts reply) = rp_stopped r"
  by (simp_all add: scan_reply_def)

lemma replay_calls_ok:
  assumes "replay_ok es r" and "\<forall>call \<in> set calls. logged_in es s call"
  shows "replay_ok es (replay_calls digest min_utc r s calls ts) \<and>
    rpt_tool_calls (rp_report (replay_calls digest min_utc r s calls ts)) =
      rpt_tool_calls (rp_report r) + length calls \<and>
    rpt_output_events (rp_report (replay_calls digest min_utc r s calls ts)) =
      rpt_output_events (rp_report r)"
proof -
  obtain at r1 where n: "replay_now min_utc r ts = (at, r1)" by (cases "replay_now min_utc r ts")
  then have r1: "rp_report r1 = rp_report r" "replay_ok es r1"
    using assms(1) by (auto simp: replay_now_def Let_def)
  let ?r = "r1\<lparr>rp_report := (rp_report r1)\<lparr>rpt_tool_calls := rpt_tool_calls (rp_report r1) + length calls\<rparr>,
      rp_guard := begin_batch (rp_guard r1)\<rparr>"
  have "replay_ok es ?r" using r1(2) by simp
  from replay_decides_ok [OF this assms(2), of digest min_utc at]
  show ?thesis by (simp add: replay_calls_def n r1(1) Let_def)
qed

lemma replay_account_step:
  assumes "replay_account es r"
  shows "replay_account (es @ [row]) (replay_apply digest min_utc r row)"
proof -
  obtain s e where row: "row = (s, e)" by (cases row)
  have ok: "replay_ok (es @ [(s, e)]) r"
    and tc: "rpt_tool_calls (rp_report r) = sum_list (map (\<lambda>e. length (entry_calls (snd e))) es)"
    and oe: "rpt_output_events (rp_report r) = concat (map entry_output_events es)"
    using assms by (auto simp: replay_account_def intro: replay_ok_mono)
  note restart = replay_restart_ok [OF ok]
  note defs = row replay_account_def replay_apply_def entry_calls_def entry_output_events_def
  show ?thesis
  proof (cases e)
    case (Message i role content ts f)
    with ok tc oe restart show ?thesis by (cases role) (simp_all add: defs replay_restart_def)
  next
    case (ToolCalls t thought calls ts f)
    have "\<forall>call \<in> set calls. logged_in (es @ [(s, e)]) s call"
      by (auto simp: logged_in_def ToolCalls entry_calls_def)
    from replay_calls_ok [OF _ this, of "scan_reply r s ts (of_tool_calls t thought)" digest min_utc ts] ok
    show ?thesis using ToolCalls tc oe by (simp add: defs)
  next
    case (ToolResults results ts)
    with replay_results_ok [OF ok, of digest min_utc results] tc oe show ?thesis by (simp add: defs)
  qed (use ok tc oe restart in \<open>simp_all add: defs replay_restart_def\<close>)
qed

lemma replay_account_default: "replay_account [] Replay_default"
  by (simp add: replay_account_def replay_ok_def Replay_default_def LoopCheckReport_default_def)

interpretation session_check:
  log_account "replay_apply digest min_utc" Replay_default replay_account
  for digest :: "json \<Rightarrow> 'fp" and min_utc
  by unfold_locales (rule replay_account_default, rule replay_account_step)

text \<open>
  A loop-check report is faithful to the log. It counts every tool call of the log, each
  reported event names a call that the log entry with that sequence number requested,
  with at least two identical results for a note and four for a refusal or stop, and the
  repeated-output events are exactly those of the saved replies, in log order.
\<close>

theorem check_session_accounts:
  "let report = check_session digest min_utc es
   in rpt_tool_calls report = sum_list (map (\<lambda>e. length (entry_calls (snd e))) es) \<and>
      list_all (event_justified es) (rpt_events report) \<and>
      rpt_output_events report = concat (map entry_output_events es)"
  using session_check.account_run [of es digest min_utc]
  by (simp add: check_session_def replay_account_def replay_ok_def Let_def)

section \<open>After a stop\<close>

definition restarts :: "SessionLogEntry \<Rightarrow> bool" where
  "restarts e =
     (case e of
        Message _ User _ _ _ \<Rightarrow> True
      | TurnEnd _ _ _ _ \<Rightarrow> True
      | Error _ _ _ \<Rightarrow> True
      | Cancel _ _ _ _ \<Rightarrow> True
      | Compress _ \<Rightarrow> True
      | CompactRequest _ _ _ _ \<Rightarrow> True
      | CompactResult _ _ _ \<Rightarrow> True
      | _ \<Rightarrow> False)"

definition quiet :: "LoopCheckEvent list \<Rightarrow> 'fp Replay \<Rightarrow> bool" where
  "quiet evs r \<longleftrightarrow> rp_stopped r \<and> rp_pending r = Map.empty \<and> rpt_events (rp_report r) = evs"

lemma quiet_decides: "rp_stopped r \<Longrightarrow> foldl (replay_decide digest min_utc s at) r calls = r"
  by (induction calls) (simp_all add: replay_decide_def)

lemma quiet_results:
  "rp_pending r = Map.empty \<Longrightarrow> foldl (replay_result digest min_utc) r results = r"
proof (induction results)
  case (Cons x results)
  then have "replay_result digest min_utc r x = r"
    by (cases "out_id x") (simp_all add: replay_result_def)
  with Cons show ?case by simp
qed simp

lemma quiet_step:
  assumes "quiet evs r" and "\<not> restarts (snd row)"
  shows "quiet evs (replay_apply digest min_utc r row)"
proof -
  obtain s e where row: "row = (s, e)" by (cases row)
  show ?thesis
  proof (cases e)
    case (Message i role content ts f)
    with assms show ?thesis
      by (cases role) (simp_all add: row replay_apply_def restarts_def quiet_def)
  next
    case (ToolCalls t thought calls ts f)
    with assms show ?thesis
      by (simp add: row replay_apply_def quiet_def replay_calls_def replay_now_def Let_def quiet_decides)
  next
    case (ToolResults results ts)
    with assms show ?thesis by (simp add: row replay_apply_def quiet_def quiet_results)
  qed (use assms in \<open>simp_all add: row replay_apply_def restarts_def quiet_def\<close>)
qed

text \<open>
  After a stop the replay is silent until the next turn. Once a call stopped the turn, no
  entry up to the next user message, turn end, error, cancel or compaction adds a
  note, a refusal or a stop.
\<close>

theorem nothing_after_stop:
  assumes "rp_stopped (foldl (replay_apply digest min_utc) Replay_default before)"
    and "list_all (\<lambda>row. \<not> restarts (snd row)) rest"
  shows "rpt_events (check_session digest min_utc (before @ rest)) =
    rpt_events (check_session digest min_utc before)"
proof -
  let ?r = "foldl (replay_apply digest min_utc) Replay_default before"
  have "quiet (rpt_events (rp_report ?r)) ?r"
    using assms(1) session_check.account_run [of before digest min_utc]
    by (simp add: quiet_def replay_account_def replay_ok_def)
  with assms(2) have "quiet (rpt_events (rp_report ?r)) (foldl (replay_apply digest min_utc) ?r rest)"
    by (induction rest rule: rev_induct) (simp_all add: quiet_step)
  then show ?thesis by (simp add: check_session_def quiet_def)
qed

definition demo_round :: "seq \<Rightarrow> (seq \<times> SessionLogEntry) list" where
  "demo_round s =
     [(s, ToolCalls [] None [demo_poll] None None),
      (s + 1, ToolResults [\<lparr>out_id = Some ''c1'', out_name = ''poll'', out_output = JNull,
         out_markdown = None, out_content = [], out_switch_agent = None\<rparr>] None)]"

definition demo_stopped_log :: "(seq \<times> SessionLogEntry) list" where
  "demo_stopped_log = demo_round 1 @ demo_round 3 @ demo_round 5 @ demo_round 7 @
     [(9, ToolCalls [] None [demo_poll] None None), (10, ToolCalls [] None [demo_poll] None None)]"

theorem nothing_after_stop_witness:
  "rpt_events (check_session (\<lambda>_. ()) 0 (demo_stopped_log @ demo_round 11)) =
    rpt_events (check_session (\<lambda>_. ()) 0 demo_stopped_log)"
proof (rule nothing_after_stop)
  show "rp_stopped (foldl (replay_apply (\<lambda>_. ()) 0) Replay_default demo_stopped_log)"
    by (simp add: demo_stopped_log_def demo_round_def demo_poll_def ToolCall_new_def replay_apply_def
        scan_reply_def replay_calls_def replay_now_def replay_decide_def decide_def matching_executions_def
        refusals_in_window_def begin_batch_def await_result_def replay_push_def replay_result_def
        tool_output_def value_get_def strip_note_def record_execution_def fingerprint_def CallKey_of_def
        Replay_default_def ToolRepeatGuard_default_def LoopCheckReport_default_def Let_def
        window_def TOOL_REPEAT_WINDOW_def RepetitionTerminal_tool_calls_def)
  show "list_all (\<lambda>row. \<not> restarts (snd row)) (demo_round 11)"
    by (simp add: demo_round_def restarts_def)
qed

section \<open>A guarded session replays like an unguarded one\<close>

text \<open>
  The replay compares results as the tools returned them. The result a guarded session
  stored, note included, is read back as the tool's own result, and results the guard
  itself wrote for refused or stopped calls are not read as tool results at all.
\<close>

theorem stored_result_read_back:
  assumes "noteless v" and "value_get v ''loop_guard'' = None"
  shows "tool_output (append_note v (RepeatNote_text note)) = Some v \<and>
    tool_output (refused_output message) = None \<and> tool_output (stopped_output terminal) = None"
proof -
  have "value_get (append_note v (RepeatNote_text note)) ''loop_guard'' = None"
    using assms(2) by (cases v) (auto simp: append_note_def value_get_def map_get_def
        split: option.splits json.splits)
  then show ?thesis
    using strip_note_undo [OF assms(1)]
    by (simp add: tool_output_def refused_output_def stopped_output_def value_get_def map_get_def)
qed

theorem stored_result_read_back_witness:
  "tool_output (append_note (JString ''ok'') (RepeatNote_text \<lparr>note_count = 2\<rparr>)) = Some (JString ''ok'')"
  using stored_result_read_back [of "JString ''ok''" "\<lparr>note_count = 2\<rparr>"]
  by (simp add: noteless_def value_get_def)

end
