(* ===== verification/Access_Rules.thy ===== *)
theory Access_Rules
  imports Harnx_Prelude
begin

text \<open>
  \<open>harnx-core/src/access_rules.rs\<close>: which agents and sessions a caller may use. A rules file
  is validated and compiled to glob sets at startup; a request unions the scopes of the
  rules whose agent globs and at least one identity selector match.

  The \<open>globset\<close> crate is a record of parameters: parsing a pattern, building a set, the empty
  set and matching. \<open>globset_laws\<close> states what its documentation promises. The YAML parser and
  the file read are parameters too. Errors are values, one constructor per \<open>bail!\<close>.
\<close>

section \<open>Scopes\<close>

datatype Scope = ScopePrompt | ScopeAdmin

datatype ScopeSet = ScopeSet (scope_prompt: bool) (scope_admin: bool)

definition ScopeSet_default :: ScopeSet where
  "ScopeSet_default = ScopeSet False False"

definition scope_contains :: "ScopeSet \<Rightarrow> Scope \<Rightarrow> bool" where
  "scope_contains s scope = (case scope of ScopePrompt \<Rightarrow> scope_prompt s | ScopeAdmin \<Rightarrow> scope_admin s)"

definition scope_is_empty :: "ScopeSet \<Rightarrow> bool" where
  "scope_is_empty s \<longleftrightarrow> \<not> scope_prompt s \<and> \<not> scope_admin s"

definition scope_insert :: "ScopeSet \<Rightarrow> Scope \<Rightarrow> ScopeSet" where
  "scope_insert s scope =
     (case scope of
        ScopePrompt \<Rightarrow> ScopeSet True (scope_admin s)
      | ScopeAdmin \<Rightarrow> ScopeSet (scope_prompt s) True)"

definition union_with :: "ScopeSet \<Rightarrow> ScopeSet \<Rightarrow> ScopeSet" where
  "union_with s t = ScopeSet (scope_prompt s \<or> scope_prompt t) (scope_admin s \<or> scope_admin t)"

text \<open>Scope sets are a semilattice under \<open>union_with\<close>, with the default set at the bottom.\<close>

instantiation ScopeSet :: bounded_semilattice_sup_bot
begin

definition sup_ScopeSet :: "ScopeSet \<Rightarrow> ScopeSet \<Rightarrow> ScopeSet" where
  "sup_ScopeSet = union_with"

definition bot_ScopeSet :: ScopeSet where
  "bot_ScopeSet = ScopeSet_default"

definition less_eq_ScopeSet :: "ScopeSet \<Rightarrow> ScopeSet \<Rightarrow> bool" where
  "less_eq_ScopeSet s t \<longleftrightarrow> (scope_prompt s \<longrightarrow> scope_prompt t) \<and> (scope_admin s \<longrightarrow> scope_admin t)"

definition less_ScopeSet :: "ScopeSet \<Rightarrow> ScopeSet \<Rightarrow> bool" where
  "less_ScopeSet s t \<longleftrightarrow> s \<le> t \<and> \<not> t \<le> s"

instance
  by standard
     (auto simp: sup_ScopeSet_def union_with_def bot_ScopeSet_def ScopeSet_default_def
       less_eq_ScopeSet_def less_ScopeSet_def ScopeSet.expand)

end

section \<open>Rules\<close>

record AccessRuleSpec =
  spec_agents :: "string list"
  spec_scopes :: "Scope list option"
  spec_users :: "string list"
  spec_groups :: "string list"
  spec_roles :: "string list"

record AccessRulesFile =
  file_rules :: "AccessRuleSpec list"

record CallerView =
  caller_users :: "string list"
  caller_groups :: "string list"
  caller_roles :: "string list"

definition from_users :: "string list \<Rightarrow> CallerView" where
  "from_users identities = \<lparr>caller_users = identities, caller_groups = [], caller_roles = []\<rparr>"

record ('glob, 'gset, 'err) globset =
  glob_new :: "string \<Rightarrow> 'err + 'glob"
  glob_build :: "'glob list \<Rightarrow> 'err + 'gset"
  glob_empty :: 'gset
  glob_is_match :: "'gset \<Rightarrow> string \<Rightarrow> bool"

record 'gset CompiledAccessRule =
  rule_agents :: 'gset
  rule_scopes :: ScopeSet
  rule_users :: 'gset
  rule_groups :: 'gset
  rule_roles :: 'gset

record 'gset AccessRules =
  ar_rules :: "'gset CompiledAccessRule list"

datatype RuleGlobField = Agents | Users | Groups | Roles

datatype 'err RuleError =
    EmptyScopes nat
  | NoSelector nat
  | EmptyAgents nat
  | EmptyPattern nat RuleGlobField string
  | InvalidPattern nat RuleGlobField string 'err
  | BuildFailed nat RuleGlobField "string list" 'err

datatype ('yaml, 'err) LoadError = ParseFailed 'yaml | InvalidRule "'err RuleError"

datatype ('io, 'yaml, 'err) FileError =
    ReadFailed string 'io
  | LoadFailed string "('yaml, 'err) LoadError"

text \<open>The \<open>for pattern in patterns\<close> loop of \<open>compile_rule_globs\<close>.\<close>

fun add_globs ::
  "('glob, 'gset, 'err) globset \<Rightarrow> nat \<Rightarrow> RuleGlobField \<Rightarrow> string list \<Rightarrow> 'glob list
     \<Rightarrow> 'err RuleError + 'glob list" where
  "add_globs lib i field [] builder = Inr builder"
| "add_globs lib i field (pattern # patterns) builder =
     (if pattern = [] then Inl (EmptyPattern i field pattern)
      else
        case glob_new lib pattern of
          Inl e \<Rightarrow> Inl (InvalidPattern i field pattern e)
        | Inr g \<Rightarrow> add_globs lib i field patterns (builder @ [g]))"

definition compile_rule_globs ::
  "('glob, 'gset, 'err) globset \<Rightarrow> string list \<Rightarrow> nat \<Rightarrow> RuleGlobField \<Rightarrow> 'err RuleError + 'gset" where
  "compile_rule_globs lib patterns i field =
     (if field = Agents \<and> patterns = [] then Inl (EmptyAgents i)
      else if patterns = [] then Inr (glob_empty lib)
      else
        case add_globs lib i field patterns [] of
          Inl e \<Rightarrow> Inl e
        | Inr builder \<Rightarrow>
            (case glob_build lib builder of
               Inl e \<Rightarrow> Inl (BuildFailed i field patterns e)
             | Inr gset \<Rightarrow> Inr gset))"

definition has_any_selector :: "AccessRuleSpec \<Rightarrow> bool" where
  "has_any_selector spec \<longleftrightarrow> spec_users spec \<noteq> [] \<or> spec_groups spec \<noteq> [] \<or> spec_roles spec \<noteq> []"

definition check_selector_presence :: "AccessRuleSpec \<Rightarrow> nat \<Rightarrow> 'err RuleError + unit" where
  "check_selector_presence spec i = (if has_any_selector spec then Inr () else Inl (NoSelector i))"

definition compile_rule ::
  "('glob, 'gset, 'err) globset \<Rightarrow> AccessRuleSpec \<Rightarrow> nat \<Rightarrow> 'err RuleError + 'gset CompiledAccessRule" where
  "compile_rule lib spec i =
     (let scopes = (case spec_scopes spec of Some ss \<Rightarrow> ss | None \<Rightarrow> [ScopePrompt])
      in if scopes = [] then Inl (EmptyScopes i)
         else
           let scope_set = foldl scope_insert ScopeSet_default scopes
           in case check_selector_presence spec i of
                Inl e \<Rightarrow> Inl e
              | Inr _ \<Rightarrow>
                  (case compile_rule_globs lib (spec_agents spec) i Agents of
                     Inl e \<Rightarrow> Inl e
                   | Inr agents \<Rightarrow>
                  (case compile_rule_globs lib (spec_users spec) i Users of
                     Inl e \<Rightarrow> Inl e
                   | Inr users \<Rightarrow>
                  (case compile_rule_globs lib (spec_groups spec) i Groups of
                     Inl e \<Rightarrow> Inl e
                   | Inr groups \<Rightarrow>
                  (case compile_rule_globs lib (spec_roles spec) i Roles of
                     Inl e \<Rightarrow> Inl e
                   | Inr roles \<Rightarrow>
                       Inr \<lparr>rule_agents = agents, rule_scopes = scope_set, rule_users = users,
                            rule_groups = groups, rule_roles = roles\<rparr>)))))"

definition from_yaml ::
  "('glob, 'gset, 'err) globset \<Rightarrow> (string \<Rightarrow> 'yaml + AccessRulesFile) \<Rightarrow> string
     \<Rightarrow> ('yaml, 'err) LoadError + 'gset AccessRules" where
  "from_yaml lib parse yaml =
     (case parse yaml of
        Inl e \<Rightarrow> Inl (ParseFailed e)
      | Inr f \<Rightarrow>
          (case try_collect (\<lambda>(i, spec). compile_rule lib spec i) (enumerate 0 (file_rules f)) of
             Inl e \<Rightarrow> Inl (InvalidRule e)
           | Inr rules \<Rightarrow> Inr \<lparr>ar_rules = rules\<rparr>))"

definition load_rules ::
  "('glob, 'gset, 'err) globset \<Rightarrow> (string \<Rightarrow> 'yaml + AccessRulesFile) \<Rightarrow> (string \<Rightarrow> 'io + string) \<Rightarrow> string
     \<Rightarrow> ('io, 'yaml, 'err) FileError + 'gset AccessRules" where
  "load_rules lib parse read_file path =
     (case read_file path of
        Inl e \<Rightarrow> Inl (ReadFailed path e)
      | Inr yaml \<Rightarrow>
          (case from_yaml lib parse yaml of
             Inl e \<Rightarrow> Inl (LoadFailed path e)
           | Inr rules \<Rightarrow> Inr rules))"

section \<open>Decisions\<close>

definition caller_matches_selectors ::
  "('glob, 'gset, 'err) globset \<Rightarrow> 'gset CompiledAccessRule \<Rightarrow> CallerView \<Rightarrow> bool" where
  "caller_matches_selectors lib rule caller \<longleftrightarrow>
     list_ex (glob_is_match lib (rule_users rule)) (caller_users caller) \<or>
     list_ex (glob_is_match lib (rule_groups rule)) (caller_groups caller) \<or>
     list_ex (glob_is_match lib (rule_roles rule)) (caller_roles caller)"

definition scopes_for ::
  "('glob, 'gset, 'err) globset \<Rightarrow> 'gset AccessRules \<Rightarrow> string \<Rightarrow> CallerView \<Rightarrow> ScopeSet" where
  "scopes_for lib rules agent_ref caller =
     foldl (\<lambda>scopes rule.
         if glob_is_match lib (rule_agents rule) agent_ref \<and> caller_matches_selectors lib rule caller
         then union_with scopes (rule_scopes rule) else scopes)
       ScopeSet_default (ar_rules rules)"

definition can_see_agent ::
  "('glob, 'gset, 'err) globset \<Rightarrow> 'gset AccessRules \<Rightarrow> string \<Rightarrow> CallerView \<Rightarrow> bool" where
  "can_see_agent lib rules agent_ref caller \<longleftrightarrow> \<not> scope_is_empty (scopes_for lib rules agent_ref caller)"

definition can_create_session ::
  "('glob, 'gset, 'err) globset \<Rightarrow> 'gset AccessRules \<Rightarrow> string \<Rightarrow> CallerView \<Rightarrow> bool" where
  "can_create_session lib rules agent_ref caller \<longleftrightarrow>
     scope_contains (scopes_for lib rules agent_ref caller) ScopePrompt"

definition can_access_session ::
  "('glob, 'gset, 'err) globset \<Rightarrow> 'gset AccessRules \<Rightarrow> string \<Rightarrow> CallerView \<Rightarrow> string option \<Rightarrow> bool" where
  "can_access_session lib rules agent_ref caller session_owner \<longleftrightarrow>
     (let scopes = scopes_for lib rules agent_ref caller
      in scope_contains scopes ScopeAdmin \<or>
         scope_contains scopes ScopePrompt \<and>
         (case session_owner of Some owner \<Rightarrow> owner \<in> set (caller_users caller) | None \<Rightarrow> False))"

section \<open>What the compiled rules grant\<close>

text \<open>
  The documented behaviour of \<open>globset\<close>, for a semantics \<open>matches\<close> of pattern strings: a set
  built from parsed patterns matches what one of them matches, the empty set nothing.
\<close>

definition globset_laws ::
  "('glob, 'gset, 'err) globset \<Rightarrow> (string \<Rightarrow> string \<Rightarrow> bool) \<Rightarrow> bool" where
  "globset_laws lib matches \<longleftrightarrow>
     (\<forall>t. \<not> glob_is_match lib (glob_empty lib) t) \<and>
     (\<forall>patterns globs gset t.
        list_all2 (\<lambda>p g. glob_new lib p = Inr g) patterns globs \<longrightarrow> glob_build lib globs = Inr gset \<longrightarrow>
        glob_is_match lib gset t = list_ex (\<lambda>p. matches p t) patterns)"

definition spec_matches :: "(string \<Rightarrow> string \<Rightarrow> bool) \<Rightarrow> AccessRuleSpec \<Rightarrow> string \<Rightarrow> CallerView \<Rightarrow> bool" where
  "spec_matches matches spec agent_ref caller \<longleftrightarrow>
     (\<exists>p \<in> set (spec_agents spec). matches p agent_ref) \<and>
     ((\<exists>p \<in> set (spec_users spec). \<exists>u \<in> set (caller_users caller). matches p u) \<or>
      (\<exists>p \<in> set (spec_groups spec). \<exists>g \<in> set (caller_groups caller). matches p g) \<or>
      (\<exists>p \<in> set (spec_roles spec). \<exists>r \<in> set (caller_roles caller). matches p r))"

definition spec_grants :: "AccessRuleSpec \<Rightarrow> Scope \<Rightarrow> bool" where
  "spec_grants spec scope \<longleftrightarrow>
     (case spec_scopes spec of None \<Rightarrow> scope = ScopePrompt | Some ss \<Rightarrow> scope \<in> set ss)"

lemma scope_contains_union [simp]:
  "scope_contains (union_with s t) scope \<longleftrightarrow> scope_contains s scope \<or> scope_contains t scope"
  "\<not> scope_contains ScopeSet_default scope"
  by (auto simp: scope_contains_def union_with_def ScopeSet_default_def split: Scope.splits)

lemma scope_contains_inserts:
  "scope_contains (foldl scope_insert s ss) scope \<longleftrightarrow> scope_contains s scope \<or> scope \<in> set ss"
  by (induction ss arbitrary: s) (auto simp: scope_contains_def scope_insert_def split: Scope.splits)

lemma scope_is_empty_iff: "scope_is_empty s \<longleftrightarrow> (\<forall>scope. \<not> scope_contains s scope)"
  by (auto simp: scope_is_empty_def scope_contains_def split: Scope.splits)

definition rule_applies ::
  "('glob, 'gset, 'err) globset \<Rightarrow> string \<Rightarrow> CallerView \<Rightarrow> 'gset CompiledAccessRule \<Rightarrow> bool" where
  "rule_applies lib agent_ref caller rule \<longleftrightarrow>
     glob_is_match lib (rule_agents rule) agent_ref \<and> caller_matches_selectors lib rule caller"

lemma scopes_for_contains:
  "scope_contains (scopes_for lib rules agent_ref caller) scope \<longleftrightarrow>
     (\<exists>rule \<in> set (ar_rules rules). rule_applies lib agent_ref caller rule \<and>
        scope_contains (rule_scopes rule) scope)"
proof -
  let ?f = "\<lambda>scopes rule. if glob_is_match lib (rule_agents rule) agent_ref \<and>
      caller_matches_selectors lib rule caller then union_with scopes (rule_scopes rule) else scopes"
  have "scope_contains (foldl ?f s rs) scope \<longleftrightarrow> scope_contains s scope \<or>
      (\<exists>rule \<in> set rs. rule_applies lib agent_ref caller rule \<and> scope_contains (rule_scopes rule) scope)"
    for s rs
    by (induction rs arbitrary: s) (auto simp: rule_applies_def)
  then show ?thesis by (simp add: scopes_for_def)
qed

lemma add_globs_Inr:
  "add_globs lib i field patterns builder = Inr globs \<Longrightarrow>
     \<exists>gs. globs = builder @ gs \<and> list_all2 (\<lambda>p g. glob_new lib p = Inr g) patterns gs"
proof (induction patterns arbitrary: builder)
  case (Cons p patterns)
  then obtain g where g: "glob_new lib p = Inr g" "add_globs lib i field patterns (builder @ [g]) = Inr globs"
    by (auto split: if_splits sum.splits)
  from Cons.IH [OF g(2)] g(1) show ?case by (auto intro: exI [of _ "g # _"])
qed simp

lemma compiled_globs_match:
  assumes "globset_laws lib matches" and "compile_rule_globs lib patterns i field = Inr gset"
  shows "glob_is_match lib gset t \<longleftrightarrow> (\<exists>p \<in> set patterns. matches p t)"
proof (cases "patterns = []")
  case True
  with assms show ?thesis by (auto simp: compile_rule_globs_def globset_laws_def split: if_splits)
next
  case False
  with assms(2) obtain globs where "add_globs lib i field patterns [] = Inr globs" "glob_build lib globs = Inr gset"
    by (auto simp: compile_rule_globs_def split: sum.splits)
  moreover from this(1) have "list_all2 (\<lambda>p g. glob_new lib p = Inr g) patterns globs"
    by (auto dest: add_globs_Inr)
  ultimately have "glob_is_match lib gset t = list_ex (\<lambda>p. matches p t) patterns"
    using assms(1) unfolding globset_laws_def by blast
  then show ?thesis by (simp add: list_ex_iff)
qed

definition spec_scope_list :: "AccessRuleSpec \<Rightarrow> Scope list" where
  "spec_scope_list spec = (case spec_scopes spec of Some ss \<Rightarrow> ss | None \<Rightarrow> [ScopePrompt])"

lemma spec_grants_iff: "spec_grants spec scope \<longleftrightarrow> scope \<in> set (spec_scope_list spec)"
  by (simp add: spec_grants_def spec_scope_list_def split: option.splits)

lemma compile_rule_parts:
  assumes "compile_rule lib spec i = Inr rule"
  shows "spec_scope_list spec \<noteq> []" and "has_any_selector spec"
    and "compile_rule_globs lib (spec_agents spec) i Agents = Inr (rule_agents rule)"
    and "compile_rule_globs lib (spec_users spec) i Users = Inr (rule_users rule)"
    and "compile_rule_globs lib (spec_groups spec) i Groups = Inr (rule_groups rule)"
    and "compile_rule_globs lib (spec_roles spec) i Roles = Inr (rule_roles rule)"
    and "rule_scopes rule = foldl scope_insert ScopeSet_default (spec_scope_list spec)"
  using assms
  by (auto simp: compile_rule_def check_selector_presence_def Let_def spec_scope_list_def
      split: if_splits sum.splits)

lemma compile_rule_complete:
  assumes "compile_rule lib spec i = Inr rule"
  shows "spec_agents spec \<noteq> [] \<and> has_any_selector spec \<and> (\<exists>scope. spec_grants spec scope)"
proof -
  note parts = compile_rule_parts [OF assms]
  from parts(3) have "spec_agents spec \<noteq> []" by (auto simp: compile_rule_globs_def split: if_splits)
  moreover from parts(1) have "\<exists>scope. spec_grants spec scope"
    by (cases "spec_scope_list spec") (auto simp: spec_grants_iff)
  ultimately show ?thesis using parts(2) by blast
qed

lemma compile_rule_Inr:
  assumes "globset_laws lib matches" and "compile_rule lib spec i = Inr rule"
  shows "rule_applies lib agent_ref caller rule \<longleftrightarrow> spec_matches matches spec agent_ref caller"
    and "scope_contains (rule_scopes rule) scope \<longleftrightarrow> spec_grants spec scope"
proof -
  note parts = compile_rule_parts [OF assms(2)]
  note m = parts(3-6) [THEN compiled_globs_match [OF assms(1)]]
  show "rule_applies lib agent_ref caller rule \<longleftrightarrow> spec_matches matches spec agent_ref caller"
    unfolding rule_applies_def spec_matches_def caller_matches_selectors_def list_ex_iff m by blast
  show "scope_contains (rule_scopes rule) scope \<longleftrightarrow> spec_grants spec scope"
    by (simp add: parts(7) scope_contains_inserts spec_grants_iff)
qed

lemma try_collect_InrD:
  "try_collect f xs = Inr ys \<Longrightarrow> list_all2 (\<lambda>x y. f x = Inr y) xs ys"
  by (induction xs arbitrary: ys) (auto split: sum.splits)

lemma try_collect_Inl_first:
  "try_collect f xs = Inl e \<longleftrightarrow>
     (\<exists>i < length xs. f (xs ! i) = Inl e \<and> (\<forall>j < i. \<exists>y. f (xs ! j) = Inr y))"
proof (induction xs)
  case (Cons x xs)
  show ?case
  proof (cases "f x")
    case (Inl a)
    then show ?thesis by (auto simp: Ex_less_Suc2 All_less_Suc2)
  next
    case (Inr y)
    then have "try_collect f (x # xs) = Inl e \<longleftrightarrow> try_collect f xs = Inl e" by (auto split: sum.splits)
    with Cons Inr show ?thesis by (simp add: Ex_less_Suc2 All_less_Suc2)
  qed
qed simp

lemma from_yaml_Inr:
  assumes "globset_laws lib matches" and "parse yaml = Inr f" and "from_yaml lib parse yaml = Inr rules"
  shows "(\<exists>rule \<in> set (ar_rules rules). rule_applies lib agent_ref caller rule \<and>
        scope_contains (rule_scopes rule) scope) \<longleftrightarrow>
     (\<exists>spec \<in> set (file_rules f). spec_matches matches spec agent_ref caller \<and> spec_grants spec scope)"
proof -
  from assms(2,3) have "list_all2 (\<lambda>(i, spec) rule. compile_rule lib spec i = Inr rule)
      (enumerate 0 (file_rules f)) (ar_rules rules)"
    by (auto simp: from_yaml_def case_prod_beta' split: sum.splits dest: try_collect_InrD)
  then have rel: "list_all2 (\<lambda>spec rule. \<exists>i. compile_rule lib spec i = Inr rule)
      (map snd (enumerate 0 (file_rules f))) (ar_rules rules)"
    unfolding list_all2_map1 by (rule list_all2_mono) auto
  let ?P = "\<lambda>rule. rule_applies lib agent_ref caller rule \<and> scope_contains (rule_scopes rule) scope"
  let ?Q = "\<lambda>spec. spec_matches matches spec agent_ref caller \<and> spec_grants spec scope"
  have iff: "?P rule \<longleftrightarrow> ?Q spec" if "\<exists>i. compile_rule lib spec i = Inr rule" for spec rule
    using that compile_rule_Inr [OF assms(1)] by blast
  from rel have "list_ex ?Q (map snd (enumerate 0 (file_rules f))) \<longleftrightarrow> list_ex ?P (ar_rules rules)"
  proof (induction rule: list_all2_induct)
    case (Cons spec specs rule rules)
    with iff [OF Cons(1)] show ?case by simp
  qed simp
  then show ?thesis by (auto simp: list_ex_iff simp flip: set_map)
qed

section \<open>Correctness\<close>

text \<open>
  C28: Access is exactly what the rules file says. For rules loaded from a file, a caller may
  create a session on an agent if and only if some rule of the file grants the prompt
  scope, one of its agent patterns matches the agent and one of its selectors matches a
  caller identity of the same kind; either scope makes the agent visible; and a session may
  be used with an admin grant, or with a prompt grant by a caller whose own user
  identities include the owner: groups, roles and a missing owner never count.
\<close>

theorem access_decisions:
  assumes "globset_laws lib matches" and "parse yaml = Inr f" and "from_yaml lib parse yaml = Inr rules"
  shows "let granted = (\<lambda>scope. \<exists>spec \<in> set (file_rules f).
             spec_matches matches spec agent_ref caller \<and> spec_grants spec scope)
    in can_create_session lib rules agent_ref caller = granted ScopePrompt \<and>
       can_see_agent lib rules agent_ref caller = (granted ScopePrompt \<or> granted ScopeAdmin) \<and>
       can_access_session lib rules agent_ref caller session_owner =
         (granted ScopeAdmin \<or>
          granted ScopePrompt \<and> session_owner \<in> Some ` set (caller_users caller))"
proof -
  have all: "(\<forall>scope. \<not> P scope) \<longleftrightarrow> \<not> (P ScopePrompt \<or> P ScopeAdmin)" for P :: "Scope \<Rightarrow> bool"
    by (metis Scope.exhaust)
  show ?thesis
    unfolding can_create_session_def can_see_agent_def can_access_session_def scope_is_empty_iff all
      scopes_for_contains from_yaml_Inr [OF assms] Let_def
    by (auto split: option.splits)
qed

definition exact_globs :: "(string, string list, unit) globset" where
  "exact_globs = \<lparr>glob_new = Inr, glob_build = Inr, glob_empty = [], glob_is_match = (\<lambda>gs t. t \<in> set gs)\<rparr>"

lemma exact_globs_laws: "globset_laws exact_globs (=)"
proof -
  have "list_all2 (\<lambda>p g. (Inr p :: unit + string) = Inr g) ps gs \<longleftrightarrow> ps = gs" for ps gs
    by (simp add: list.rel_eq)
  then show ?thesis by (auto simp: globset_laws_def exact_globs_def list_ex_iff)
qed

definition demo_rules :: AccessRulesFile where
  "demo_rules = \<lparr>file_rules = [\<lparr>spec_agents = [''coder''], spec_scopes = None, spec_users = [''ann''],
     spec_groups = [], spec_roles = [''ops'']\<rparr>]\<rparr>"

definition demo_compiled :: "string list AccessRules" where
  "demo_compiled = \<lparr>ar_rules = [\<lparr>rule_agents = [''coder''], rule_scopes = ScopeSet True False,
     rule_users = [''ann''], rule_groups = [], rule_roles = [''ops'']\<rparr>]\<rparr>"

lemma demo_from_yaml:
  "from_yaml exact_globs (\<lambda>_. Inr demo_rules :: unit + AccessRulesFile) [] = Inr demo_compiled"
  by (simp add: from_yaml_def demo_rules_def demo_compiled_def compile_rule_def compile_rule_globs_def
      check_selector_presence_def has_any_selector_def exact_globs_def scope_insert_def ScopeSet_default_def)

theorem access_decisions_witness:
  "can_access_session exact_globs demo_compiled ''coder''
     \<lparr>caller_users = [''ann''], caller_groups = [], caller_roles = [''ops'']\<rparr> (Some ''ann'') \<and>
   \<not> can_access_session exact_globs demo_compiled ''coder''
     \<lparr>caller_users = [''bob''], caller_groups = [''ann''], caller_roles = [''ops'']\<rparr> (Some ''ann'')"
  using access_decisions [OF exact_globs_laws _ demo_from_yaml, of demo_rules "''coder''"
      "\<lparr>caller_users = [''ann''], caller_groups = [], caller_roles = [''ops'']\<rparr>" "Some ''ann''"]
    access_decisions [OF exact_globs_laws _ demo_from_yaml, of demo_rules "''coder''"
      "\<lparr>caller_users = [''bob''], caller_groups = [''ann''], caller_roles = [''ops'']\<rparr>" "Some ''ann''"]
  by (simp add: demo_rules_def spec_matches_def spec_grants_def Let_def)

text \<open>
  A bad rules file is rejected with its first bad rule. Loading fails with a rule error
  exactly if that is the error of the rule at some index and every rule before it
  compiles; a rule that compiles names an agent and a selector and grants a scope.
\<close>

theorem from_yaml_rejects_first:
  assumes "parse yaml = Inr f"
  shows "(from_yaml lib parse yaml = Inl (InvalidRule e) \<longleftrightarrow>
      (\<exists>i < length (file_rules f). compile_rule lib (file_rules f ! i) i = Inl e \<and>
         list_all (\<lambda>j. \<exists>rule. compile_rule lib (file_rules f ! j) j = Inr rule) [0..<i])) \<and>
    (compile_rule lib spec k = Inr rule \<longrightarrow>
      spec_agents spec \<noteq> [] \<and> has_any_selector spec \<and> (\<exists>scope. spec_grants spec scope))"
proof
  let ?f = "\<lambda>(i, spec). compile_rule lib spec i"
  have nth: "?f (enumerate 0 (file_rules f) ! i) = compile_rule lib (file_rules f ! i) i"
    if "i < length (file_rules f)" for i
    using that by (simp add: nth_enumerate_eq)
  have "from_yaml lib parse yaml = Inl (InvalidRule e) \<longleftrightarrow>
      try_collect ?f (enumerate 0 (file_rules f)) = Inl e"
    using assms by (simp add: from_yaml_def split: sum.splits)
  also have "\<dots> \<longleftrightarrow> (\<exists>i < length (file_rules f). compile_rule lib (file_rules f ! i) i = Inl e \<and>
         list_all (\<lambda>j. \<exists>rule. compile_rule lib (file_rules f ! j) j = Inr rule) [0..<i])"
    unfolding try_collect_Inl_first length_enumerate
    by (intro ex_cong1 conj_cong refl) (auto simp: nth list_all_iff)
  finally show "from_yaml lib parse yaml = Inl (InvalidRule e) \<longleftrightarrow>
      (\<exists>i < length (file_rules f). compile_rule lib (file_rules f ! i) i = Inl e \<and>
         list_all (\<lambda>j. \<exists>rule. compile_rule lib (file_rules f ! j) j = Inr rule) [0..<i])" .
  show "compile_rule lib spec k = Inr rule \<longrightarrow>
      spec_agents spec \<noteq> [] \<and> has_any_selector spec \<and> (\<exists>scope. spec_grants spec scope)"
    using compile_rule_complete [of lib spec k rule] by blast
qed

theorem from_yaml_rejects_first_witness:
  "from_yaml exact_globs (\<lambda>_. Inr \<lparr>file_rules = file_rules demo_rules @
      [\<lparr>spec_agents = [''x''], spec_scopes = Some [], spec_users = [], spec_groups = [], spec_roles = []\<rparr>]\<rparr>
      :: unit + AccessRulesFile) [] = Inl (InvalidRule (EmptyScopes 1))"
proof -
  let ?bad = "\<lparr>spec_agents = [''x''], spec_scopes = Some [], spec_users = [], spec_groups = [], spec_roles = []\<rparr>"
  let ?f = "\<lparr>file_rules = file_rules demo_rules @ [?bad]\<rparr>"
  have ok: "\<exists>rule. compile_rule exact_globs (file_rules ?f ! 0) 0 = Inr rule"
    by (simp add: demo_rules_def compile_rule_def compile_rule_globs_def
        check_selector_presence_def has_any_selector_def exact_globs_def)
  have bad: "compile_rule exact_globs (file_rules ?f ! 1) 1 = Inl (EmptyScopes 1)"
    by (simp add: demo_rules_def compile_rule_def)
  from from_yaml_rejects_first [of "\<lambda>_. Inr ?f :: unit + AccessRulesFile" "[]" ?f exact_globs "EmptyScopes 1"]
    ok bad
  show ?thesis by (auto simp: demo_rules_def)
qed

text \<open>
  Identities only ever add permissions. A caller with more users, groups and roles is
  granted at least the scopes of the caller with fewer.
\<close>

theorem scopes_for_mono:
  assumes "set (caller_users c) \<subseteq> set (caller_users d)" and "set (caller_groups c) \<subseteq> set (caller_groups d)"
    and "set (caller_roles c) \<subseteq> set (caller_roles d)"
  shows "scopes_for lib rules agent_ref c \<le> scopes_for lib rules agent_ref d"
proof -
  have "rule_applies lib agent_ref c rule \<Longrightarrow> rule_applies lib agent_ref d rule" for rule
    using assms by (auto simp: rule_applies_def caller_matches_selectors_def list_ex_iff)
  then have "scope_contains (scopes_for lib rules agent_ref c) scope \<Longrightarrow>
      scope_contains (scopes_for lib rules agent_ref d) scope" for scope
    unfolding scopes_for_contains by blast
  from this [of ScopePrompt] this [of ScopeAdmin] show ?thesis
    by (simp add: less_eq_ScopeSet_def scope_contains_def)
qed

theorem scopes_for_mono_witness:
  "scopes_for exact_globs demo_compiled ''coder'' (from_users []) \<le>
   scopes_for exact_globs demo_compiled ''coder'' (from_users [''ann''])"
  by (rule scopes_for_mono) (simp_all add: from_users_def)

end
