(* ===== verification/Run_Limits.thy ===== *)
theory Run_Limits
  imports Json_Value
begin

text \<open>
  Wall-clock limits of autonomous runs: \<open>harnx-runtime/src/nats_session_metadata/run_limits.rs\<close>
  (admission records and their deadlines) and the run-limit policy of
  \<open>harnx-core/src/config_data.rs\<close>. A deadline is frozen at admission; a child's is clamped by its
  parent's. \<open>NonZeroU64\<close> is a positive \<open>nat\<close>; its \<open>expect\<close>s are error values. chrono's checked
  operations are a record of parameters with \<open>chrono_laws\<close>, and of \<open>AgentConfig\<close> only the name and
  the run limits are read.
\<close>

section \<open>Policy\<close>

definition DEFAULT_RUN_TIMEOUT_SECS :: nat where
  "DEFAULT_RUN_TIMEOUT_SECS = 86400"

definition i64_max :: nat where
  "i64_max = 2 ^ 63 - 1"

record chrono =
  try_seconds :: "nat \<Rightarrow> duration option"
  checked_add_signed :: "instant \<Rightarrow> duration \<Rightarrow> instant option"

definition chrono_laws :: "chrono \<Rightarrow> bool" where
  "chrono_laws lib \<longleftrightarrow>
     (\<forall>n d. try_seconds lib n = Some d \<longrightarrow> d = int n * 1000000000) \<and>
     (\<forall>t d u. checked_add_signed lib t d = Some u \<longrightarrow> u = t + d)"

datatype RunLimitsTimeout = TimeoutOmit | TimeoutFinite nat

definition is_omit :: "RunLimitsTimeout \<Rightarrow> bool" where
  "is_omit t = (case t of TimeoutOmit \<Rightarrow> True | TimeoutFinite _ \<Rightarrow> False)"

definition as_finite_secs :: "RunLimitsTimeout \<Rightarrow> nat option" where
  "as_finite_secs t = (case t of TimeoutFinite n \<Rightarrow> Some n | TimeoutOmit \<Rightarrow> None)"

datatype TimeoutError = NotIntegerOrNull | TooLarge | ExpectFailed

text \<open>
  \<open>Deserialize for RunLimitsTimeout\<close> on the JSON value; \<open>as_i64\<close> and \<open>as_u64\<close> are the number's
  readings by \<open>serde_json\<close>.
\<close>

definition timeout_deserialize ::
  "chrono \<Rightarrow> (string \<Rightarrow> int option) \<Rightarrow> (string \<Rightarrow> nat option) \<Rightarrow> json \<Rightarrow> TimeoutError + RunLimitsTimeout" where
  "timeout_deserialize lib as_i64 as_u64 v =
     (case v of
        JNull \<Rightarrow> Inr TimeoutOmit
      | JNumber n \<Rightarrow>
          if (case as_i64 n of Some i \<Rightarrow> i \<le> 0 | None \<Rightarrow> False) then Inr TimeoutOmit
          else
            (case as_u64 n of
               None \<Rightarrow> Inl NotIntegerOrNull
             | Some seconds \<Rightarrow>
                 if i64_max < seconds then Inl TooLarge
                 else if try_seconds lib seconds = None then Inl TooLarge
                 else if seconds = 0 then Inl ExpectFailed
                 else Inr (TimeoutFinite seconds))
      | _ \<Rightarrow> Inl NotIntegerOrNull)"

definition deserialize_timeout_override ::
  "chrono \<Rightarrow> (string \<Rightarrow> int option) \<Rightarrow> (string \<Rightarrow> nat option) \<Rightarrow> json \<Rightarrow> TimeoutError + nat option" where
  "deserialize_timeout_override lib as_i64 as_u64 v =
     (case timeout_deserialize lib as_i64 as_u64 v of
        Inl e \<Rightarrow> Inl e
      | Inr t \<Rightarrow> Inr (as_finite_secs t))"

text \<open>\<open>None\<close> is JSON \<open>null\<close>.\<close>

definition timeout_serialize :: "RunLimitsTimeout \<Rightarrow> nat option" where
  "timeout_serialize t = (case t of TimeoutOmit \<Rightarrow> None | TimeoutFinite n \<Rightarrow> Some n)"

record RunLimitsConfig =
  rl_timeout_secs :: RunLimitsTimeout

record ResolvedRunLimits =
  rr_timeout_secs :: nat

definition run_limits_resolve :: "RunLimitsConfig \<Rightarrow> RunLimitsTimeout option \<Rightarrow> ResolvedRunLimits" where
  "run_limits_resolve global agent_override =
     (let seconds =
        (case Option.bind agent_override as_finite_secs of
           Some n \<Rightarrow> n
         | None \<Rightarrow>
             (case as_finite_secs (rl_timeout_secs global) of
                Some n \<Rightarrow> n
              | None \<Rightarrow> DEFAULT_RUN_TIMEOUT_SECS))
      in \<lparr>rr_timeout_secs = seconds\<rparr>)"

record RunLimitsOverride =
  rlo_timeout_secs :: "RunLimitsTimeout option"

record TargetAgent =
  target_name :: string
  target_run_limits :: "RunLimitsOverride option"

section \<open>Admission records\<close>

type_synonym RunIdentity = string
type_synonym InvocationIdentity = string

datatype InvocationEdgeKind = Delegation | Handoff | MacroContinuation

record ParentInvocationLink =
  link_invocation_id :: InvocationIdentity
  link_edge_kind :: InvocationEdgeKind

datatype RunLimitsPolicySource =
    GlobalDefault
  | FromTargetAgent string
  | ExplicitOverride
  | InheritedFrom string

record RunLimitsRecord =
  rec_run_id :: RunIdentity
  rec_invocation_id :: InvocationIdentity
  rec_admitted_at :: instant
  rec_deadline :: "instant option"
  rec_policy_source :: RunLimitsPolicySource
  rec_parent_invocation :: "ParentInvocationLink option"

record EffectiveDeadline =
  eff_deadline :: "instant option"
  eff_local_override_applied :: bool
  eff_ancestor_clamped :: bool
  eff_source :: RunLimitsPolicySource

datatype CallTimeoutOverride = CallOmitted | CallFinite nat

definition call_from_optional :: "nat option \<Rightarrow> CallTimeoutOverride" where
  "call_from_optional secs =
     (case secs of None \<Rightarrow> CallOmitted | Some n \<Rightarrow> if n = 0 then CallOmitted else CallFinite n)"

datatype RunLimitsError = InvalidTimeoutSeconds nat | DeadlineOverflow instant nat

definition compute_deadline :: "chrono \<Rightarrow> instant \<Rightarrow> nat \<Rightarrow> RunLimitsError + instant" where
  "compute_deadline lib admitted_at timeout_secs =
     (if i64_max < timeout_secs then Inl (InvalidTimeoutSeconds timeout_secs)
      else
        (case try_seconds lib timeout_secs of
           None \<Rightarrow> Inl (InvalidTimeoutSeconds timeout_secs)
         | Some d \<Rightarrow>
             (case checked_add_signed lib admitted_at d of
                None \<Rightarrow> Inl (DeadlineOverflow admitted_at timeout_secs)
              | Some t \<Rightarrow> Inr t)))"

definition target_override :: "TargetAgent option \<Rightarrow> RunLimitsTimeout option" where
  "target_override target =
     Option.bind (Option.bind target target_run_limits) rlo_timeout_secs"

definition effective_resolve ::
  "chrono \<Rightarrow> RunLimitsConfig \<Rightarrow> TargetAgent option \<Rightarrow> CallTimeoutOverride \<Rightarrow> RunLimitsRecord option \<Rightarrow> instant
     \<Rightarrow> RunLimitsError + EffectiveDeadline" where
  "effective_resolve lib global target call parent admitted_at =
     (let configured = rr_timeout_secs (run_limits_resolve global (target_override target));
          (timeout, source) =
            (case call of
               CallOmitted \<Rightarrow>
                 (configured,
                  case (target, target_override target) of
                    (Some agent, Some timeout) \<Rightarrow>
                      if \<not> is_omit timeout then FromTargetAgent (target_name agent) else GlobalDefault
                  | _ \<Rightarrow> GlobalDefault)
             | CallFinite secs \<Rightarrow> (secs, ExplicitOverride))
      in case compute_deadline lib admitted_at timeout of
           Inl e \<Rightarrow> Inl e
         | Inr local \<Rightarrow>
             let ancestor = Option.bind parent rec_deadline;
                 ancestor_clamped = (case ancestor of Some a \<Rightarrow> a < local | None \<Rightarrow> False)
             in Inr
                  \<lparr>eff_deadline = (if ancestor_clamped then ancestor else Some local),
                   eff_local_override_applied = (call \<noteq> CallOmitted),
                   eff_ancestor_clamped = ancestor_clamped,
                   eff_source =
                     (case parent of
                        Some p \<Rightarrow> if ancestor_clamped then InheritedFrom (rec_invocation_id p) else source
                      | None \<Rightarrow> source)\<rparr>)"

definition admit_root ::
  "chrono \<Rightarrow> RunIdentity \<Rightarrow> InvocationIdentity \<Rightarrow> instant \<Rightarrow> RunLimitsConfig \<Rightarrow> TargetAgent option
     \<Rightarrow> CallTimeoutOverride \<Rightarrow> RunLimitsError + RunLimitsRecord" where
  "admit_root lib run_id invocation_id admitted_at global target call =
     (case effective_resolve lib global target call None admitted_at of
        Inl e \<Rightarrow> Inl e
      | Inr effective \<Rightarrow>
          Inr \<lparr>rec_run_id = run_id, rec_invocation_id = invocation_id, rec_admitted_at = admitted_at,
               rec_deadline = eff_deadline effective, rec_policy_source = eff_source effective,
               rec_parent_invocation = None\<rparr>)"

definition admit_child ::
  "chrono \<Rightarrow> RunLimitsRecord \<Rightarrow> InvocationIdentity \<Rightarrow> InvocationEdgeKind \<Rightarrow> instant \<Rightarrow> RunLimitsConfig
     \<Rightarrow> TargetAgent option \<Rightarrow> CallTimeoutOverride \<Rightarrow> RunLimitsError + RunLimitsRecord" where
  "admit_child lib parent invocation_id edge_kind admitted_at global target call =
     (case effective_resolve lib global target call (Some parent) admitted_at of
        Inl e \<Rightarrow> Inl e
      | Inr effective \<Rightarrow>
          Inr \<lparr>rec_run_id = rec_run_id parent, rec_invocation_id = invocation_id,
               rec_admitted_at = admitted_at, rec_deadline = eff_deadline effective,
               rec_policy_source = eff_source effective,
               rec_parent_invocation =
                 Some \<lparr>link_invocation_id = rec_invocation_id parent, link_edge_kind = edge_kind\<rparr>\<rparr>)"

definition is_expired_at :: "RunLimitsRecord \<Rightarrow> instant \<Rightarrow> bool" where
  "is_expired_at r now = (case rec_deadline r of Some deadline \<Rightarrow> deadline \<le> now | None \<Rightarrow> False)"

definition record_remaining :: "RunLimitsRecord \<Rightarrow> instant \<Rightarrow> duration option" where
  "record_remaining r now =
     (case rec_deadline r of
        Some deadline \<Rightarrow> if now < deadline then Some (deadline - now) else None
      | None \<Rightarrow> None)"

section \<open>What admission freezes\<close>

definition chosen_timeout :: "RunLimitsConfig \<Rightarrow> TargetAgent option \<Rightarrow> CallTimeoutOverride \<Rightarrow> nat" where
  "chosen_timeout global target call =
     (case call of
        CallFinite n \<Rightarrow> n
      | CallOmitted \<Rightarrow>
          (case target_override target of
             Some (TimeoutFinite n) \<Rightarrow> n
           | _ \<Rightarrow> (case rl_timeout_secs global of TimeoutFinite n \<Rightarrow> n | TimeoutOmit \<Rightarrow> DEFAULT_RUN_TIMEOUT_SECS)))"

definition local_source :: "TargetAgent option \<Rightarrow> CallTimeoutOverride \<Rightarrow> RunLimitsPolicySource" where
  "local_source target call =
     (case call of
        CallFinite _ \<Rightarrow> ExplicitOverride
      | CallOmitted \<Rightarrow>
          (case (target, target_override target) of
             (Some agent, Some (TimeoutFinite _)) \<Rightarrow> FromTargetAgent (target_name agent)
           | _ \<Rightarrow> GlobalDefault))"

lemma configured_timeout:
  "(case call of CallOmitted \<Rightarrow> rr_timeout_secs (run_limits_resolve global (target_override target))
    | CallFinite n \<Rightarrow> n) = chosen_timeout global target call"
  by (auto simp: chosen_timeout_def run_limits_resolve_def as_finite_secs_def Let_def
      split: CallTimeoutOverride.splits RunLimitsTimeout.splits option.splits)

lemma compute_deadline_Inr:
  "chrono_laws lib \<Longrightarrow> compute_deadline lib t n = Inr d \<Longrightarrow> d = t + int n * 1000000000"
  by (auto simp: compute_deadline_def chrono_laws_def split: if_splits option.splits)

lemma effective_resolve_Inl:
  "effective_resolve lib global target call parent admitted_at = Inl e \<longleftrightarrow>
     compute_deadline lib admitted_at (chosen_timeout global target call) = Inl e"
  unfolding configured_timeout [symmetric]
  by (cases call) (auto simp: effective_resolve_def Let_def split: sum.splits)

lemma effective_resolve_Inr:
  assumes "effective_resolve lib global target call parent admitted_at = Inr eff"
  obtains local where
    "compute_deadline lib admitted_at (chosen_timeout global target call) = Inr local"
    "eff_deadline eff = Some (case Option.bind parent rec_deadline of Some a \<Rightarrow> min a local | None \<Rightarrow> local)"
    "eff_ancestor_clamped eff = (case Option.bind parent rec_deadline of Some a \<Rightarrow> a < local | None \<Rightarrow> False)"
  using assms unfolding configured_timeout [symmetric]
  by (cases call) (auto simp: effective_resolve_def Let_def min_def split: sum.splits option.splits)

lemma effective_source:
  assumes "effective_resolve lib global target call parent admitted_at = Inr eff"
  shows "eff_source eff =
    (if eff_ancestor_clamped eff then InheritedFrom (rec_invocation_id (the parent))
     else local_source target call)"
  using assms
  by (auto simp: effective_resolve_def local_source_def Let_def is_omit_def
      split: sum.splits option.splits CallTimeoutOverride.splits RunLimitsTimeout.splits if_splits)

lemma admit_child_Inr:
  assumes "admit_child lib parent i kind admitted_at global target call = Inr r"
  obtains local where
    "compute_deadline lib admitted_at (chosen_timeout global target call) = Inr local"
    "rec_deadline r = Some (case rec_deadline parent of Some a \<Rightarrow> min a local | None \<Rightarrow> local)"
    "rec_run_id r = rec_run_id parent"
    "rec_policy_source r =
      (if (case rec_deadline parent of Some a \<Rightarrow> a < local | None \<Rightarrow> False)
       then InheritedFrom (rec_invocation_id parent)
       else local_source target call)"
proof -
  from assms obtain eff where eff:
    "effective_resolve lib global target call (Some parent) admitted_at = Inr eff"
    and r: "rec_deadline r = eff_deadline eff" "rec_policy_source r = eff_source eff"
      "rec_run_id r = rec_run_id parent"
    by (auto simp: admit_child_def split: sum.splits)
  from eff obtain local where l: "compute_deadline lib admitted_at (chosen_timeout global target call) = Inr local"
    "eff_deadline eff = Some (case rec_deadline parent of Some a \<Rightarrow> min a local | None \<Rightarrow> local)"
    "eff_ancestor_clamped eff = (case rec_deadline parent of Some a \<Rightarrow> a < local | None \<Rightarrow> False)"
    by (rule effective_resolve_Inr) simp
  show thesis
    using that [OF l(1)] r l(2,3) effective_source [OF eff] by simp
qed

section \<open>Correctness\<close>

text \<open>One admission of a child, and the invocation tree below a record.\<close>

inductive child_of :: "chrono \<Rightarrow> RunLimitsRecord \<Rightarrow> RunLimitsRecord \<Rightarrow> bool" for lib where
  admit: "admit_child lib parent i kind admitted_at global target call = Inr r \<Longrightarrow> child_of lib parent r"

inductive_cases child_ofE: "child_of lib parent r"

text \<open>
  C31: No admission extends a run. However deep the delegation, handoff and continuation chain
  below a record with a deadline, and whatever the configuration, target or call asks
  for, every invocation in it belongs to the same run and has a deadline no later than
  that record's.
\<close>

theorem deadline_never_extended:
  assumes "(child_of lib)\<^sup>*\<^sup>* ancestor r" and "rec_deadline ancestor = Some limit"
  shows "\<exists>deadline \<le> limit. rec_deadline r = Some deadline \<and> rec_run_id r = rec_run_id ancestor"
  using assms(1)
proof (induction rule: rtranclp_induct)
  case base
  with assms(2) show ?case by blast
next
  case (step p r)
  then obtain d where d: "d \<le> limit" "rec_deadline p = Some d" "rec_run_id p = rec_run_id ancestor" by blast
  from step.hyps(2) show ?case
  proof (rule child_ofE)
    fix i kind admitted_at global target call
    assume "admit_child lib p i kind admitted_at global target call = Inr r"
    then show ?thesis by (rule admit_child_Inr) (use d in auto)
  qed
qed

definition exact_chrono :: chrono where
  "exact_chrono = \<lparr>try_seconds = (\<lambda>n. Some (int n * 1000000000)), checked_add_signed = (\<lambda>t d. Some (t + d))\<rparr>"

definition demo_root :: RunLimitsRecord where
  "demo_root = \<lparr>rec_run_id = ''run'', rec_invocation_id = ''a'', rec_admitted_at = 0,
     rec_deadline = Some 5000000000, rec_policy_source = ExplicitOverride, rec_parent_invocation = None\<rparr>"

definition demo_child :: RunLimitsRecord where
  "demo_child = projr (admit_child exact_chrono demo_root ''b'' Delegation 2000000000
     \<lparr>rl_timeout_secs = TimeoutOmit\<rparr> None (CallFinite 100))"

lemma demo_admitted:
  "admit_child exact_chrono demo_root ''b'' Delegation 2000000000 \<lparr>rl_timeout_secs = TimeoutOmit\<rparr> None
     (CallFinite 100) = Inr demo_child"
  by (simp add: demo_child_def admit_child_def effective_resolve_def compute_deadline_def exact_chrono_def
      i64_max_def demo_root_def Let_def)

theorem deadline_never_extended_witness:
  "\<exists>deadline \<le> 5000000000. rec_deadline demo_child = Some deadline \<and> rec_run_id demo_child = ''run''"
proof -
  have "(child_of exact_chrono)\<^sup>*\<^sup>* demo_root demo_child"
    using child_of.admit [OF demo_admitted] by blast
  from deadline_never_extended [OF this, of 5000000000] show ?thesis by (simp add: demo_root_def)
qed

text \<open>
  The frozen deadline is the allowance, clamped by the parent. An admitted child's deadline is
  the earlier of its parent's and its admission time plus the allowance, which is the
  call's, else the target's, else the global one, else 24 hours; the recorded source says
  which of them decided. Admission fails exactly if the allowance does not fit chrono's
  seconds or the sum its range.
\<close>

theorem child_admission:
  assumes "chrono_laws lib"
  shows "let secs = chosen_timeout global target call;
             admitted = admit_child lib parent i kind admitted_at global target call
    in (case admitted of
          Inr r \<Rightarrow>
            let local = admitted_at + int secs * 1000000000;
                clamped = (case rec_deadline parent of Some a \<Rightarrow> a < local | None \<Rightarrow> False)
            in rec_deadline r = Some (if clamped then the (rec_deadline parent) else local) \<and>
               rec_policy_source r =
                 (if clamped then InheritedFrom (rec_invocation_id parent)
                  else local_source target call)
        | Inl e \<Rightarrow>
            e = InvalidTimeoutSeconds secs \<and> (i64_max < secs \<or> try_seconds lib secs = None) \<or>
            e = DeadlineOverflow admitted_at secs \<and>
              checked_add_signed lib admitted_at (int secs * 1000000000) = None)"
proof (cases "admit_child lib parent i kind admitted_at global target call")
  case (Inl e)
  then have "compute_deadline lib admitted_at (chosen_timeout global target call) = Inl e"
    using effective_resolve_Inl [of lib global target call "Some parent" admitted_at e]
    by (simp add: admit_child_def split: sum.splits)
  with assms Inl show ?thesis
    by (auto simp: compute_deadline_def chrono_laws_def Let_def split: if_splits option.splits)
next
  case (Inr r)
  then show ?thesis
  proof (rule admit_child_Inr)
    fix local
    assume l: "compute_deadline lib admitted_at (chosen_timeout global target call) = Inr local"
      and d: "rec_deadline r = Some (case rec_deadline parent of Some a \<Rightarrow> min a local | None \<Rightarrow> local)"
      and s: "rec_policy_source r =
        (if (case rec_deadline parent of Some a \<Rightarrow> a < local | None \<Rightarrow> False)
         then InheritedFrom (rec_invocation_id parent)
         else local_source target call)"
    have "local = admitted_at + int (chosen_timeout global target call) * 1000000000"
      by (rule compute_deadline_Inr [OF assms l])
    with Inr d s show ?thesis by (cases "rec_deadline parent") (simp_all add: Let_def min_def)
  qed
qed

theorem child_admission_witness: "rec_policy_source demo_child = InheritedFrom ''a''"
proof -
  have "chrono_laws exact_chrono" by (simp add: chrono_laws_def exact_chrono_def)
  from child_admission [OF this, where parent = demo_root and i = "''b''" and kind = Delegation
      and admitted_at = 2000000000 and global = "\<lparr>rl_timeout_secs = TimeoutOmit\<rparr>" and target = None
      and call = "CallFinite 100"]
  show ?thesis unfolding demo_admitted by (simp add: Let_def demo_root_def chosen_timeout_def)
qed

text \<open>
  A timeout read from configuration is positive, and a nonpositive or missing one inherits:
  the \<open>expect\<close> of the deserialiser cannot fail, given that a number that is 0 as \<open>u64\<close> is 0 as \<open>i64\<close>.
\<close>

lemma timeout_deserialize_positive:
  assumes "\<And>n. as_u64 n = Some 0 \<Longrightarrow> as_i64 n = Some 0"
  shows "timeout_deserialize lib as_i64 as_u64 v \<noteq> Inl ExpectFailed"
    and "timeout_deserialize lib as_i64 as_u64 v = Inr (TimeoutFinite n) \<Longrightarrow> 0 < n \<and> n \<le> i64_max"
  using assms by (auto simp: timeout_deserialize_def split: json.splits if_splits option.splits)

lemma expired_iff_nothing_remains:
  "rec_deadline r \<noteq> None \<Longrightarrow> is_expired_at r now \<longleftrightarrow> record_remaining r now = None"
  by (auto simp: is_expired_at_def record_remaining_def split: option.splits)

end
