(* ===== verification/Timing_Notice.thy ===== *)
theory Timing_Notice
  imports Complex_Main Timing_Identity Run_Limits
begin

text \<open>
  \<open>harnx-runtime/src/timing_notice.rs\<close>: the deterministic schedule of timing notices for a
  run. An evaluation takes explicit timestamps and the progress already committed to the
  log, and says whether a notice is due, which milestones it covers and its text.

  Durations are nonnegative nanoseconds. A \<open>f64\<close> operation is the real operation followed by
  the rounding \<open>rnd\<close> to a double, a parameter; the \<open>as u32\<close> cast of the bucket truncates. The
  receipt's JSON text and chrono's formatting are parameters.
\<close>

section \<open>State and input\<close>

definition ELAPSED_BUCKET_SECS :: nat where
  "ELAPSED_BUCKET_SECS = 900"

record TimingState =
  ts_key :: TimingCacheKey
  ts_fallback_origin :: "instant option"
  ts_last_receipt :: "TimingReceipt option"

definition TimingState_new :: "TimingCacheKey \<Rightarrow> TimingState" where
  "TimingState_new key = \<lparr>ts_key = key, ts_fallback_origin = None, ts_last_receipt = None\<rparr>"

definition with_fallback_origin :: "TimingCacheKey \<Rightarrow> instant \<Rightarrow> TimingState" where
  "with_fallback_origin key origin =
     \<lparr>ts_key = key, ts_fallback_origin = Some origin, ts_last_receipt = None\<rparr>"

definition matches_key :: "TimingState \<Rightarrow> TimingCacheKey \<Rightarrow> bool" where
  "matches_key st key \<longleftrightarrow> ts_key st = key"

definition reset_for_key :: "TimingState \<Rightarrow> TimingCacheKey \<Rightarrow> TimingState" where
  "reset_for_key st key = st\<lparr>ts_key := key, ts_fallback_origin := None, ts_last_receipt := None\<rparr>"

record TimingInput =
  ti_now :: instant
  ti_run_limits :: "RunLimitsRecord option"
  ti_fallback_origin :: "instant option"
  ti_invocation_id :: InvocationIdentity
  ti_committed_progress :: "TimingReceipt option"

definition from_run_limits :: "instant \<Rightarrow> RunLimitsRecord \<Rightarrow> TimingInput" where
  "from_run_limits now limits =
     \<lparr>ti_now = now, ti_run_limits = Some limits, ti_fallback_origin = None,
      ti_invocation_id = rec_invocation_id limits, ti_committed_progress = None\<rparr>"

definition unmanaged :: "instant \<Rightarrow> instant \<Rightarrow> InvocationIdentity \<Rightarrow> TimingInput" where
  "unmanaged now origin invocation_id =
     \<lparr>ti_now = now, ti_run_limits = None, ti_fallback_origin = Some origin,
      ti_invocation_id = invocation_id, ti_committed_progress = None\<rparr>"

definition ti_origin :: "TimingInput \<Rightarrow> instant option" where
  "ti_origin i =
     (case ti_run_limits i of Some r \<Rightarrow> Some (rec_admitted_at r) | None \<Rightarrow> ti_fallback_origin i)"

definition ti_deadline :: "TimingInput \<Rightarrow> instant option" where
  "ti_deadline i = Option.bind (ti_run_limits i) rec_deadline"

definition elapsed :: "TimingInput \<Rightarrow> duration" where
  "elapsed i =
     (case ti_origin i of
        None \<Rightarrow> 0
      | Some origin \<Rightarrow> if ti_now i < origin then 0 else ti_now i - origin)"

definition positive_duration_between :: "instant \<Rightarrow> instant \<Rightarrow> duration option" where
  "positive_duration_between end_at start_at =
     (if 0 < end_at - start_at then Some (end_at - start_at) else None)"

definition ti_remaining :: "TimingInput \<Rightarrow> duration option" where
  "ti_remaining i =
     (case ti_deadline i of None \<Rightarrow> None | Some d \<Rightarrow> positive_duration_between d (ti_now i))"

definition budget :: "TimingInput \<Rightarrow> duration option" where
  "budget i =
     (case (ti_deadline i, ti_origin i) of
        (Some d, Some origin) \<Rightarrow> positive_duration_between d origin
      | _ \<Rightarrow> None)"

definition ti_is_expired :: "TimingInput \<Rightarrow> bool" where
  "ti_is_expired i = (case ti_deadline i of Some deadline \<Rightarrow> deadline \<le> ti_now i | None \<Rightarrow> False)"

section \<open>Evaluation\<close>

datatype TimingReason =
    Initial
  | Threshold50
  | Threshold75
  | Threshold90
  | PeriodicBucket u32
  | Coalesced
  | NoChange

record TimingOutput =
  to_emit :: bool
  to_receipt :: "TimingReceipt option"
  to_notice_line :: "string option"
  to_reason :: "TimingReason option"

definition no_notice :: "TimingReason option \<Rightarrow> TimingOutput" where
  "no_notice why = \<lparr>to_emit = False, to_receipt = None, to_notice_line = None, to_reason = why\<rparr>"

record DueMilestones =
  due_coverage :: MilestoneCoverage
  due_reason :: "TimingReason option"

definition due_add :: "DueMilestones \<Rightarrow> MilestoneCoverage \<Rightarrow> TimingReason \<Rightarrow> DueMilestones" where
  "due_add due coverage why =
     \<lparr>due_coverage = coverage_bitor (due_coverage due) coverage,
      due_reason = Some (case due_reason due of None \<Rightarrow> why | Some _ \<Rightarrow> Coalesced)\<rparr>"

text \<open>\<open>Duration::as_secs\<close> and \<open>Duration::as_secs_f64\<close>: seconds plus the nanoseconds divided by a billion.\<close>

definition as_secs :: "duration \<Rightarrow> nat" where
  "as_secs d = nat (d div 1000000000)"

definition as_secs_f64 :: "(real \<Rightarrow> real) \<Rightarrow> duration \<Rightarrow> real" where
  "as_secs_f64 rnd d =
     rnd (rnd (of_int (d div 1000000000)) + rnd (of_int (d mod 1000000000) / 1000000000))"

definition cover_percentages ::
  "(real \<Rightarrow> real) \<Rightarrow> DueMilestones \<Rightarrow> real \<Rightarrow> MilestoneCoverage \<Rightarrow> DueMilestones" where
  "cover_percentages rnd due fraction committed =
     foldl (\<lambda>due (threshold, coverage, why).
         if threshold \<le> fraction \<and> \<not> coverage_contains committed coverage then due_add due coverage why else due)
       due
       [(rnd (1 / 2), coverage_PERCENT_50, Threshold50),
        (rnd (3 / 4), coverage_PERCENT_75, Threshold75),
        (rnd (9 / 10), coverage_PERCENT_90, Threshold90)]"

definition committed_coverage :: "TimingInput \<Rightarrow> MilestoneCoverage" where
  "committed_coverage i =
     (case ti_committed_progress i of Some r \<Rightarrow> rcpt_coverage r | None \<Rightarrow> coverage_NONE)"

definition committed_bucket :: "TimingInput \<Rightarrow> u32" where
  "committed_bucket i =
     (case ti_committed_progress i of Some r \<Rightarrow> rcpt_highest_elapsed_bucket r | None \<Rightarrow> 0)"

definition due_milestones ::
  "(real \<Rightarrow> real) \<Rightarrow> TimingInput \<Rightarrow> duration \<Rightarrow> u32 \<Rightarrow> u32 \<Rightarrow> DueMilestones" where
  "due_milestones rnd i elapsed_time current_bucket highest =
     (let committed = committed_coverage i;
          due = \<lparr>due_coverage = coverage_NONE, due_reason = None\<rparr>;
          due = (if \<not> coverage_contains committed coverage_INITIAL
                 then due_add due coverage_INITIAL Initial else due);
          due = (case budget i of
                   Some b \<Rightarrow>
                     cover_percentages rnd due (rnd (as_secs_f64 rnd elapsed_time / as_secs_f64 rnd b)) committed
                 | None \<Rightarrow> due)
      in if highest < current_bucket then due_add due coverage_NONE (PeriodicBucket current_bucket) else due)"

definition format_duration :: "duration \<Rightarrow> string \<Rightarrow> string" where
  "format_duration d label =
     (let secs = as_secs d
      in if secs < 60 then label @ '': '' @ show_nat secs @ ''s''
         else
           let mins = secs div 60; leftover_secs = secs mod 60
           in if leftover_secs = 0 then label @ '': '' @ show_nat mins @ ''m''
              else label @ '': '' @ show_nat mins @ ''m '' @ show_nat leftover_secs @ ''s'')"

definition build_timing_context :: "(instant \<Rightarrow> string) \<Rightarrow> TimingInput \<Rightarrow> instant \<Rightarrow> string" where
  "build_timing_context format_utc i origin =
     str_join '', ''
       ([''start: '' @ format_utc origin, ''current: '' @ format_utc (ti_now i),
         format_duration (elapsed i) ''elapsed''] @
        (case ti_deadline i of
           None \<Rightarrow> []
         | Some deadline \<Rightarrow>
             [''deadline: '' @ format_utc deadline] @
             (case ti_remaining i of Some d \<Rightarrow> [format_duration d ''remaining''] | None \<Rightarrow> []) @
             (case budget i of Some d \<Rightarrow> [format_duration d ''budget''] | None \<Rightarrow> [])))"

definition elapsed_bucket :: "TimingInput \<Rightarrow> u32" where
  "elapsed_bucket i = of_nat (as_secs (elapsed i) div ELAPSED_BUCKET_SECS)"

definition evaluate_timing ::
  "(real \<Rightarrow> real) \<Rightarrow> (TimingReceipt \<Rightarrow> string) \<Rightarrow> (instant \<Rightarrow> string) \<Rightarrow> TimingInput \<Rightarrow> TimingOutput" where
  "evaluate_timing rnd to_json format_utc i =
     (case ti_origin i of
        None \<Rightarrow> no_notice None
      | Some origin \<Rightarrow>
          if ti_now i < origin then no_notice None
          else if ti_is_expired i then no_notice (Some NoChange)
          else
            let current_bucket = elapsed_bucket i;
                highest = committed_bucket i;
                milestones = due_milestones rnd i (elapsed i) current_bucket highest
            in if due_coverage milestones = coverage_NONE \<and> current_bucket \<le> highest
               then no_notice (Some NoChange)
               else
                 let receipt = TimingReceipt_new origin (ti_invocation_id i)
                       (coverage_bitor (committed_coverage i) (due_coverage milestones))
                       (max current_bucket highest);
                     notice_line = TIMING_HEADER @ to_json receipt @ TIMING_CONTEXT_SEPARATOR @
                       build_timing_context format_utc i origin
                 in \<lparr>to_emit = True, to_receipt = Some receipt, to_notice_line = Some notice_line,
                     to_reason = due_reason milestones\<rparr>)"

section \<open>Which milestones are due\<close>

definition threshold_due :: "(real \<Rightarrow> real) \<Rightarrow> TimingInput \<Rightarrow> real \<Rightarrow> bool" where
  "threshold_due rnd i q \<longleftrightarrow>
     (case budget i of
        Some b \<Rightarrow> rnd q \<le> rnd (as_secs_f64 rnd (elapsed i) / as_secs_f64 rnd b)
      | None \<Rightarrow> False)"

definition missing :: "TimingInput \<Rightarrow> MilestoneCoverage \<Rightarrow> bool \<Rightarrow> MilestoneCoverage" where
  "missing i m reached = (if reached \<and> \<not> coverage_contains (committed_coverage i) m then m else coverage_NONE)"

lemma coverage_bitor_NONE [simp]:
  "coverage_bitor c coverage_NONE = c" "coverage_bitor coverage_NONE c = c"
  by (cases c; simp add: coverage_bitor_def coverage_NONE_def)+

lemma due_add_coverage [simp]:
  "due_coverage (due_add due c why) = coverage_bitor (due_coverage due) c"
  by (simp add: due_add_def)

lemma due_milestones_coverage:
  "due_coverage (due_milestones rnd i (elapsed i) b h) =
     coverage_bitor (coverage_bitor (coverage_bitor (missing i coverage_INITIAL True)
       (missing i coverage_PERCENT_50 (threshold_due rnd i (1 / 2))))
       (missing i coverage_PERCENT_75 (threshold_due rnd i (3 / 4))))
       (missing i coverage_PERCENT_90 (threshold_due rnd i (9 / 10)))"
  by (auto simp: due_milestones_def cover_percentages_def missing_def threshold_due_def Let_def
      split: option.splits)

lemma coverage_contains_bitor [simp]:
  "coverage_contains (coverage_bitor a b) m \<longleftrightarrow> coverage_contains a m \<or> coverage_contains b m"
proof -
  have "(coverage_bits a OR coverage_bits b) AND coverage_bits m =
      (coverage_bits a AND coverage_bits m) OR (coverage_bits b AND coverage_bits m)"
    by (rule bit_word_eqI) (auto simp: bit_simps)
  then show ?thesis by (simp add: coverage_contains_def coverage_bitor_def or_eq_0_iff)
qed

lemma coverage_contains_NONE [simp]: "\<not> coverage_contains coverage_NONE m"
  by (simp add: coverage_contains_def coverage_NONE_def)

lemma coverage_contains_self [simp]:
  "coverage_contains coverage_INITIAL coverage_INITIAL"
  "coverage_contains coverage_PERCENT_50 coverage_PERCENT_50"
  "coverage_contains coverage_PERCENT_75 coverage_PERCENT_75"
  "coverage_contains coverage_PERCENT_90 coverage_PERCENT_90"
  by (simp_all add: coverage_contains_def coverage_consts)

lemma coverage_bitor_ge: "a \<le> coverage_bitor a b"
  unfolding sup_MilestoneCoverage_def [symmetric] by (rule sup_ge1)

lemma evaluate_emits:
  assumes "to_receipt (evaluate_timing rnd to_json format_utc i) = Some r"
  obtains origin where "ti_origin i = Some origin" "origin \<le> ti_now i" "\<not> ti_is_expired i"
    "rcpt_coverage r = coverage_bitor (committed_coverage i)
       (due_coverage (due_milestones rnd i (elapsed i) (elapsed_bucket i) (committed_bucket i)))"
    "rcpt_highest_elapsed_bucket r = max (elapsed_bucket i) (committed_bucket i)"
    "to_notice_line (evaluate_timing rnd to_json format_utc i) =
       Some (TIMING_HEADER @ to_json r @ TIMING_CONTEXT_SEPARATOR @ build_timing_context format_utc i origin)"
  using assms
  by (auto simp: evaluate_timing_def no_notice_def TimingReceipt_new_def Let_def
      split: option.splits if_splits)

lemma receipt_covers:
  assumes "to_receipt (evaluate_timing rnd to_json format_utc i) = Some r"
  shows "coverage_contains (rcpt_coverage r) coverage_INITIAL"
    and "threshold_due rnd i (1 / 2) \<Longrightarrow> coverage_contains (rcpt_coverage r) coverage_PERCENT_50"
    and "threshold_due rnd i (3 / 4) \<Longrightarrow> coverage_contains (rcpt_coverage r) coverage_PERCENT_75"
    and "threshold_due rnd i (9 / 10) \<Longrightarrow> coverage_contains (rcpt_coverage r) coverage_PERCENT_90"
proof -
  have c: "rcpt_coverage r = coverage_bitor (committed_coverage i)
      (due_coverage (due_milestones rnd i (elapsed i) (elapsed_bucket i) (committed_bucket i)))"
    using assms by (rule evaluate_emits)
  show "coverage_contains (rcpt_coverage r) coverage_INITIAL"
    by (simp add: c due_milestones_coverage missing_def)
  show "threshold_due rnd i (1 / 2) \<Longrightarrow> coverage_contains (rcpt_coverage r) coverage_PERCENT_50"
    by (simp add: c due_milestones_coverage missing_def)
  show "threshold_due rnd i (3 / 4) \<Longrightarrow> coverage_contains (rcpt_coverage r) coverage_PERCENT_75"
    by (simp add: c due_milestones_coverage missing_def)
  show "threshold_due rnd i (9 / 10) \<Longrightarrow> coverage_contains (rcpt_coverage r) coverage_PERCENT_90"
    by (simp add: c due_milestones_coverage missing_def)
qed

section \<open>Correctness\<close>

text \<open>
  Notices are only issued while the run is live, and progress only grows. A notice is issued
  at or after the run's origin and before its deadline; its receipt contains the initial
  milestone and everything committed before, and its elapsed bucket is not below the
  committed one.
\<close>

theorem timing_notice_progress:
  assumes "to_receipt (evaluate_timing rnd to_json format_utc i) = Some r"
  shows "(\<exists>origin \<le> ti_now i. ti_origin i = Some origin) \<and> \<not> ti_is_expired i \<and>
    committed_coverage i \<le> rcpt_coverage r \<and> committed_bucket i \<le> rcpt_highest_elapsed_bucket r \<and>
    coverage_contains (rcpt_coverage r) coverage_INITIAL"
  by (rule evaluate_emits [OF assms]) (use receipt_covers(1) [OF assms] in \<open>auto simp: coverage_bitor_ge\<close>)

definition demo_input :: TimingInput where
  "demo_input = unmanaged 5000000000 0 ''inv''"

lemma demo_emits:
  "to_receipt (evaluate_timing id (\<lambda>_. ''{}'') (\<lambda>_. ''t'') demo_input) =
     Some (TimingReceipt_initial 0 ''inv'')"
  by (simp add: evaluate_timing_def demo_input_def unmanaged_def ti_origin_def ti_is_expired_def ti_deadline_def
      elapsed_bucket_def elapsed_def as_secs_def ELAPSED_BUCKET_SECS_def committed_bucket_def
      committed_coverage_def due_milestones_def budget_def TimingReceipt_initial_def Let_def due_add_def)
     (simp add: coverage_consts)

theorem timing_notice_progress_witness:
  "coverage_contains (rcpt_coverage (TimingReceipt_initial 0 ''inv'')) coverage_INITIAL"
  using timing_notice_progress [OF demo_emits] by blast

text \<open>
  A milestone is announced once. Once a notice's receipt is committed, a later evaluation of
  the same run is silent unless its 15-minute bucket is above the committed one or it has
  reached a percentage of its budget that was not reached when the notice was issued;
  in particular a retry at the same moment repeats nothing.
\<close>

theorem timing_notice_not_repeated:
  assumes "to_receipt (evaluate_timing rnd to_json format_utc i) = Some r"
    and "later = i\<lparr>ti_now := t, ti_committed_progress := Some r\<rparr>"
    and "to_emit (evaluate_timing rnd to_json format_utc later)"
  shows "rcpt_highest_elapsed_bucket r < elapsed_bucket later \<or>
    list_ex (\<lambda>q. threshold_due rnd later q \<and> \<not> threshold_due rnd i q) [1 / 2, 3 / 4, 9 / 10]"
proof (rule ccontr)
  assume quiet: "\<not> ?thesis"
  have c: "committed_coverage later = rcpt_coverage r" "committed_bucket later = rcpt_highest_elapsed_bucket r"
    by (simp_all add: assms(2) committed_coverage_def committed_bucket_def)
  have "due_coverage (due_milestones rnd later (elapsed later) (elapsed_bucket later) (committed_bucket later)) =
      coverage_NONE"
    using quiet receipt_covers [OF assms(1)]
    by (auto simp: due_milestones_coverage missing_def c)
  moreover have "elapsed_bucket later \<le> committed_bucket later" using quiet c(2) by auto
  ultimately have "\<not> to_emit (evaluate_timing rnd to_json format_utc later)"
    by (simp add: evaluate_timing_def no_notice_def Let_def split: option.splits)
  with assms(3) show False by simp
qed

theorem timing_notice_not_repeated_witness:
  "let later = demo_input\<lparr>ti_now := 900000000000, ti_committed_progress := Some (TimingReceipt_initial 0 ''inv'')\<rparr>
   in rcpt_highest_elapsed_bucket (TimingReceipt_initial 0 ''inv'') < elapsed_bucket later \<or>
      list_ex (\<lambda>q. threshold_due id later q \<and> \<not> threshold_due id demo_input q) [1 / 2, 3 / 4, 9 / 10]"
proof -
  let ?later = "demo_input\<lparr>ti_now := 900000000000, ti_committed_progress := Some (TimingReceipt_initial 0 ''inv'')\<rparr>"
  have "to_emit (evaluate_timing id (\<lambda>_. ''{}'') (\<lambda>_. ''t'') ?later)"
    by (simp add: evaluate_timing_def demo_input_def unmanaged_def ti_origin_def ti_is_expired_def ti_deadline_def
        elapsed_bucket_def elapsed_def as_secs_def ELAPSED_BUCKET_SECS_def committed_bucket_def
        TimingReceipt_initial_def TimingReceipt_new_def Let_def)
  from timing_notice_not_repeated [OF demo_emits refl this] show ?thesis by (simp only: Let_def)
qed

text \<open>
  Every notice is recognised for what it is. The line of an emitted notice is classified as a
  timing notice and its receipt is read back from it, given that \<open>serde_json\<close> round-trips
  the receipt and its text holds no bar.
\<close>

theorem timing_notice_recognised:
  assumes "to_receipt (evaluate_timing rnd to_json format_utc i) = Some r"
    and "CHR ''|'' \<notin> set (to_json r)" and "of_json (str_trim (to_json r)) = Some r"
  shows "\<exists>line. to_notice_line (evaluate_timing rnd to_json format_utc i) = Some line \<and>
    is_timing_notice of_json line \<and> from_notice_line of_json line = Some r"
proof -
  from evaluate_emits [OF assms(1)] obtain ctx where
    "to_notice_line (evaluate_timing rnd to_json format_utc i) =
       Some (TIMING_HEADER @ to_json r @ TIMING_CONTEXT_SEPARATOR @ ctx)" by metis
  with assms(3) from_notice_line_format [OF assms(2), of of_json] show ?thesis
    by (auto simp: is_timing_notice_def)
qed

theorem timing_notice_recognised_witness:
  "\<exists>line. to_notice_line (evaluate_timing id (\<lambda>_. ''{}'') (\<lambda>_. ''t'') demo_input) = Some line \<and>
    is_timing_notice (\<lambda>_. Some (TimingReceipt_initial 0 ''inv'')) line \<and>
    from_notice_line (\<lambda>_. Some (TimingReceipt_initial 0 ''inv'')) line = Some (TimingReceipt_initial 0 ''inv'')"
  by (rule timing_notice_recognised [OF demo_emits]) simp_all

end
