(* ===== verification/Stream_Guard.thy ===== *)
theory Stream_Guard
  imports Harnx_Prelude
begin

text \<open>
  \<open>harnx-serve/src/ag_ui_lifecycle.rs\<close>: each subscriber of a session's AG-UI stream has a guard
  that repairs lifecycles: content or an end without its start gets a synthetic start, tool
  events without their start are dropped, a snapshot first closes what is open.

  An event keeps the identifier the guard reads; the rest of its fields is an opaque payload,
  \<open>Synthetic\<close> for the events the guard makes up. A frame is the list of events written;
  serialisation may fail, so \<open>ser\<close> (a parameter) says which events serialise and a failing
  frame is \<open>None\<close>. A \<open>HashSet\<close> is a set, and the order in which \<open>drain\<close> empties it is a parameter.
\<close>

section \<open>Events and state\<close>

datatype 'p payload = Synthetic | Given 'p

datatype 'p Event =
    TextMessageStart string "'p payload"
  | TextMessageContent string "'p payload"
  | TextMessageEnd string "'p payload"
  | ToolCallStart string "'p payload"
  | ToolCallArgs string "'p payload"
  | ToolCallEnd string "'p payload"
  | ToolCallResult string "'p payload"
  | StepStarted string "'p payload"
  | StepFinished string "'p payload"
  | ThinkingStart "'p payload"
  | ThinkingEnd "'p payload"
  | ThinkingTextMessageStart "'p payload"
  | ThinkingTextMessageContent "'p payload"
  | ThinkingTextMessageEnd "'p payload"
  | RunFinished "'p payload"
  | RunError "'p payload"
  | MessagesSnapshot "'p payload"
  | OtherEvent "'p payload"

record LiveStreamGuard =
  started_text_messages :: "string set"
  seen_tool_call_ids :: "string list"
  started_tool_call_ids :: "string list"
  started_steps :: "string set"
  thinking_open :: bool
  thinking_text_open :: bool

definition LiveStreamGuard_default :: LiveStreamGuard where
  "LiveStreamGuard_default =
     \<lparr>started_text_messages = {}, seen_tool_call_ids = [], started_tool_call_ids = [],
      started_steps = {}, thinking_open = False, thinking_text_open = False\<rparr>"

type_synonym 'p frames = "'p Event list"

section \<open>Frames\<close>

definition push_frame :: "('p Event \<Rightarrow> bool) \<Rightarrow> 'p frames \<Rightarrow> 'p Event \<Rightarrow> 'p frames option" where
  "push_frame ser frames event = (if ser event then Some (frames @ [event]) else None)"

definition frame :: "('p Event \<Rightarrow> bool) \<Rightarrow> 'p Event \<Rightarrow> 'p frames option" where
  "frame ser event = (if ser event then Some [event] else None)"

definition finish_frames :: "('p Event \<Rightarrow> bool) \<Rightarrow> 'p frames \<Rightarrow> 'p Event \<Rightarrow> 'p frames option" where
  "finish_frames ser frames event = push_frame ser frames event"

definition frame_with_start ::
  "('p Event \<Rightarrow> bool) \<Rightarrow> string set \<Rightarrow> string \<Rightarrow> 'p Event \<Rightarrow> 'p Event \<Rightarrow> 'p frames option \<times> string set" where
  "frame_with_start ser started i start_event event =
     (if i \<notin> started
      then (Option.bind (push_frame ser [] start_event) (\<lambda>frames. finish_frames ser frames event),
            insert i started)
      else (finish_frames ser [] event, started))"

definition frame_end_with_start ::
  "('p Event \<Rightarrow> bool) \<Rightarrow> string set \<Rightarrow> string \<Rightarrow> 'p Event \<Rightarrow> 'p Event \<Rightarrow> 'p frames option \<times> string set" where
  "frame_end_with_start ser started i start_event end_event =
     (case frame_with_start ser started i start_event end_event of
        (None, started) \<Rightarrow> (None, started)
      | (Some fs, started) \<Rightarrow> (Some fs, started - {i}))"

definition ensure_open ::
  "('p Event \<Rightarrow> bool) \<Rightarrow> bool \<Rightarrow> 'p frames \<Rightarrow> 'p Event \<Rightarrow> ('p frames \<times> bool) option" where
  "ensure_open ser is_open frames start_event =
     (if \<not> is_open then map_option (\<lambda>fs. (fs, True)) (push_frame ser frames start_event)
      else Some (frames, True))"

definition frame_text_start ::
  "('p Event \<Rightarrow> bool) \<Rightarrow> LiveStreamGuard \<Rightarrow> string \<Rightarrow> 'p payload \<Rightarrow> 'p frames option \<times> LiveStreamGuard" where
  "frame_text_start ser g m p =
     (frame ser (TextMessageStart m p),
      g\<lparr>started_text_messages := insert m (started_text_messages g)\<rparr>)"

definition frame_text_content ::
  "('p Event \<Rightarrow> bool) \<Rightarrow> LiveStreamGuard \<Rightarrow> string \<Rightarrow> 'p payload \<Rightarrow> 'p frames option \<times> LiveStreamGuard" where
  "frame_text_content ser g m p =
     (case frame_with_start ser (started_text_messages g) m (TextMessageStart m Synthetic)
             (TextMessageContent m p) of
        (out, started) \<Rightarrow> (out, g\<lparr>started_text_messages := started\<rparr>))"

definition frame_text_end ::
  "('p Event \<Rightarrow> bool) \<Rightarrow> LiveStreamGuard \<Rightarrow> string \<Rightarrow> 'p payload \<Rightarrow> 'p frames option \<times> LiveStreamGuard" where
  "frame_text_end ser g m p =
     (case frame_end_with_start ser (started_text_messages g) m (TextMessageStart m Synthetic)
             (TextMessageEnd m p) of
        (out, started) \<Rightarrow> (out, g\<lparr>started_text_messages := started\<rparr>))"

definition push_new :: "string list \<Rightarrow> string \<Rightarrow> string list" where
  "push_new xs i = (if i \<in> set xs then xs else xs @ [i])"

definition frame_tool_start ::
  "('p Event \<Rightarrow> bool) \<Rightarrow> LiveStreamGuard \<Rightarrow> string \<Rightarrow> 'p payload \<Rightarrow> 'p frames option \<times> LiveStreamGuard" where
  "frame_tool_start ser g i p =
     (frame ser (ToolCallStart i p),
      g\<lparr>seen_tool_call_ids := push_new (seen_tool_call_ids g) i,
        started_tool_call_ids := push_new (started_tool_call_ids g) i\<rparr>)"

definition frame_tool_args ::
  "('p Event \<Rightarrow> bool) \<Rightarrow> LiveStreamGuard \<Rightarrow> string \<Rightarrow> 'p payload \<Rightarrow> 'p frames option" where
  "frame_tool_args ser g i p =
     (if i \<in> set (started_tool_call_ids g) then frame ser (ToolCallArgs i p) else None)"

definition frame_tool_end ::
  "('p Event \<Rightarrow> bool) \<Rightarrow> LiveStreamGuard \<Rightarrow> string \<Rightarrow> 'p payload \<Rightarrow> 'p frames option \<times> LiveStreamGuard" where
  "frame_tool_end ser g i p =
     (if i \<in> set (started_tool_call_ids g)
      then (frame ser (ToolCallEnd i p),
            g\<lparr>started_tool_call_ids := remove1 i (started_tool_call_ids g)\<rparr>)
      else (None, g))"

definition frame_tool_result ::
  "('p Event \<Rightarrow> bool) \<Rightarrow> LiveStreamGuard \<Rightarrow> string \<Rightarrow> 'p payload \<Rightarrow> 'p frames option" where
  "frame_tool_result ser g i p =
     (if i \<in> set (seen_tool_call_ids g) then frame ser (ToolCallResult i p) else None)"

definition frame_step_started ::
  "('p Event \<Rightarrow> bool) \<Rightarrow> LiveStreamGuard \<Rightarrow> string \<Rightarrow> 'p payload \<Rightarrow> 'p frames option \<times> LiveStreamGuard" where
  "frame_step_started ser g s p =
     (frame ser (StepStarted s p), g\<lparr>started_steps := insert s (started_steps g)\<rparr>)"

definition frame_step_finished ::
  "('p Event \<Rightarrow> bool) \<Rightarrow> LiveStreamGuard \<Rightarrow> string \<Rightarrow> 'p payload \<Rightarrow> 'p frames option \<times> LiveStreamGuard" where
  "frame_step_finished ser g s p =
     (case frame_end_with_start ser (started_steps g) s (StepStarted s Synthetic) (StepFinished s p) of
        (out, started) \<Rightarrow> (out, g\<lparr>started_steps := started\<rparr>))"

definition frame_thinking_start ::
  "('p Event \<Rightarrow> bool) \<Rightarrow> LiveStreamGuard \<Rightarrow> 'p payload \<Rightarrow> 'p frames option \<times> LiveStreamGuard" where
  "frame_thinking_start ser g p = (frame ser (ThinkingStart p), g\<lparr>thinking_open := True\<rparr>)"

definition frame_thinking_end ::
  "('p Event \<Rightarrow> bool) \<Rightarrow> LiveStreamGuard \<Rightarrow> 'p payload \<Rightarrow> 'p frames option \<times> LiveStreamGuard" where
  "frame_thinking_end ser g p =
     (case (if \<not> thinking_open g then push_frame ser [] (ThinkingStart Synthetic) else Some []) of
        None \<Rightarrow> (None, g)
      | Some frames \<Rightarrow>
          (case (if thinking_text_open g
                 then map_option (\<lambda>fs. (fs, g\<lparr>thinking_text_open := False\<rparr>))
                        (push_frame ser frames (ThinkingTextMessageEnd Synthetic))
                 else Some (frames, g)) of
             None \<Rightarrow> (None, g)
           | Some (frames, g) \<Rightarrow>
               (case finish_frames ser frames (ThinkingEnd p) of
                  None \<Rightarrow> (None, g)
                | Some out \<Rightarrow> (Some out, g\<lparr>thinking_open := False\<rparr>))))"

definition frame_thinking_text_start ::
  "('p Event \<Rightarrow> bool) \<Rightarrow> LiveStreamGuard \<Rightarrow> 'p payload \<Rightarrow> 'p frames option \<times> LiveStreamGuard" where
  "frame_thinking_text_start ser g p =
     (case ensure_open ser (thinking_open g) [] (ThinkingStart Synthetic) of
        None \<Rightarrow> (None, g)
      | Some (frames, op) \<Rightarrow>
          (finish_frames ser frames (ThinkingTextMessageStart p),
           g\<lparr>thinking_open := op, thinking_text_open := True\<rparr>))"

definition frame_thinking_text_content ::
  "('p Event \<Rightarrow> bool) \<Rightarrow> LiveStreamGuard \<Rightarrow> 'p payload \<Rightarrow> 'p frames option \<times> LiveStreamGuard" where
  "frame_thinking_text_content ser g p =
     (case ensure_open ser (thinking_open g) [] (ThinkingStart Synthetic) of
        None \<Rightarrow> (None, g)
      | Some (frames, op) \<Rightarrow>
          (let g = g\<lparr>thinking_open := op\<rparr>
           in case ensure_open ser (thinking_text_open g) frames (ThinkingTextMessageStart Synthetic) of
                None \<Rightarrow> (None, g)
              | Some (frames, op) \<Rightarrow>
                  (finish_frames ser frames (ThinkingTextMessageContent p),
                   g\<lparr>thinking_text_open := op\<rparr>)))"

definition frame_thinking_text_end ::
  "('p Event \<Rightarrow> bool) \<Rightarrow> LiveStreamGuard \<Rightarrow> 'p payload \<Rightarrow> 'p frames option \<times> LiveStreamGuard" where
  "frame_thinking_text_end ser g p =
     (case ensure_open ser (thinking_open g) [] (ThinkingStart Synthetic) of
        None \<Rightarrow> (None, g)
      | Some (frames, op) \<Rightarrow>
          (let g = g\<lparr>thinking_open := op\<rparr>
           in case (if \<not> thinking_text_open g
                    then push_frame ser frames (ThinkingTextMessageStart Synthetic) else Some frames) of
                None \<Rightarrow> (None, g)
              | Some frames \<Rightarrow>
                  (case finish_frames ser frames (ThinkingTextMessageEnd p) of
                     None \<Rightarrow> (None, g)
                   | Some out \<Rightarrow> (Some out, g\<lparr>thinking_text_open := False\<rparr>))))"

text \<open>The \<open>expect\<close>s on synthetic ends: \<open>None\<close> is the panic.\<close>

definition finalize_open_lifecycles ::
  "('p Event \<Rightarrow> bool) \<Rightarrow> (string set \<Rightarrow> string list) \<Rightarrow> LiveStreamGuard
     \<Rightarrow> 'p frames option \<times> LiveStreamGuard" where
  "finalize_open_lifecycles ser drain g =
     (let ends = map (\<lambda>m. TextMessageEnd m Synthetic) (drain (started_text_messages g)) @
            map (\<lambda>s. StepFinished s Synthetic) (drain (started_steps g)) @
            map (\<lambda>i. ToolCallEnd i Synthetic) (started_tool_call_ids g) @
            (if thinking_text_open g then [ThinkingTextMessageEnd Synthetic] else []) @
            (if thinking_open g then [ThinkingEnd Synthetic] else [])
      in (if list_all ser ends then Some ends else None,
          g\<lparr>started_text_messages := {}, started_steps := {}, started_tool_call_ids := [],
            thinking_text_open := False, thinking_open := False\<rparr>))"

definition reset_after_snapshot ::
  "('p Event \<Rightarrow> bool) \<Rightarrow> (string set \<Rightarrow> string list) \<Rightarrow> LiveStreamGuard
     \<Rightarrow> 'p frames option \<times> LiveStreamGuard" where
  "reset_after_snapshot ser drain g =
     (case finalize_open_lifecycles ser drain g of
        (frames, g) \<Rightarrow> (frames, g\<lparr>seen_tool_call_ids := []\<rparr>))"

definition frame_messages_snapshot ::
  "('p Event \<Rightarrow> bool) \<Rightarrow> (string set \<Rightarrow> string list) \<Rightarrow> LiveStreamGuard \<Rightarrow> 'p payload
     \<Rightarrow> 'p frames option \<times> LiveStreamGuard" where
  "frame_messages_snapshot ser drain g p =
     (case reset_after_snapshot ser drain g of
        (frames, g) \<Rightarrow>
          (Option.bind frames (\<lambda>fs. map_option ((@) fs) (frame ser (MessagesSnapshot p))), g))"

fun frame_event ::
  "('p Event \<Rightarrow> bool) \<Rightarrow> (string set \<Rightarrow> string list) \<Rightarrow> LiveStreamGuard \<Rightarrow> 'p Event
     \<Rightarrow> 'p frames option \<times> LiveStreamGuard" where
  "frame_event ser drain g (TextMessageStart m p) = frame_text_start ser g m p"
| "frame_event ser drain g (TextMessageContent m p) = frame_text_content ser g m p"
| "frame_event ser drain g (TextMessageEnd m p) = frame_text_end ser g m p"
| "frame_event ser drain g (ToolCallStart i p) = frame_tool_start ser g i p"
| "frame_event ser drain g (ToolCallArgs i p) = (frame_tool_args ser g i p, g)"
| "frame_event ser drain g (ToolCallEnd i p) = frame_tool_end ser g i p"
| "frame_event ser drain g (ToolCallResult i p) = (frame_tool_result ser g i p, g)"
| "frame_event ser drain g (StepStarted s p) = frame_step_started ser g s p"
| "frame_event ser drain g (StepFinished s p) = frame_step_finished ser g s p"
| "frame_event ser drain g (ThinkingStart p) = frame_thinking_start ser g p"
| "frame_event ser drain g (ThinkingEnd p) = frame_thinking_end ser g p"
| "frame_event ser drain g (ThinkingTextMessageStart p) = frame_thinking_text_start ser g p"
| "frame_event ser drain g (ThinkingTextMessageContent p) = frame_thinking_text_content ser g p"
| "frame_event ser drain g (ThinkingTextMessageEnd p) = frame_thinking_text_end ser g p"
| "frame_event ser drain g (MessagesSnapshot p) = frame_messages_snapshot ser drain g p"
| "frame_event ser drain g (RunFinished p) = (frame ser (RunFinished p), g)"
| "frame_event ser drain g (RunError p) = (frame ser (RunError p), g)"
| "frame_event ser drain g (OtherEvent p) = (frame ser (OtherEvent p), g)"

section \<open>Specification: the client's lifecycle verifier\<close>

text \<open>
  The client's side of the protocol, over what it has been sent: content, ends and
  results are accepted only inside their lifecycle, thinking text only inside
  thinking, and a snapshot only when nothing is open.
\<close>

record Lifecycles =
  open_texts :: "string set"
  known_tools :: "string set"
  open_tools :: "string set"
  open_steps :: "string set"
  in_thinking :: bool
  in_thinking_text :: bool

definition nothing_open :: "Lifecycles \<Rightarrow> bool" where
  "nothing_open c \<longleftrightarrow> open_texts c = {} \<and> open_tools c = {} \<and> open_steps c = {} \<and>
     \<not> in_thinking c \<and> \<not> in_thinking_text c"

fun accepts :: "Lifecycles \<Rightarrow> 'p Event \<Rightarrow> Lifecycles option" where
  "accepts c (TextMessageStart m p) = Some (c\<lparr>open_texts := insert m (open_texts c)\<rparr>)"
| "accepts c (TextMessageContent m p) = (if m \<in> open_texts c then Some c else None)"
| "accepts c (TextMessageEnd m p) =
     (if m \<in> open_texts c then Some (c\<lparr>open_texts := open_texts c - {m}\<rparr>) else None)"
| "accepts c (ToolCallStart i p) =
     Some (c\<lparr>open_tools := insert i (open_tools c), known_tools := insert i (known_tools c)\<rparr>)"
| "accepts c (ToolCallArgs i p) = (if i \<in> open_tools c then Some c else None)"
| "accepts c (ToolCallEnd i p) =
     (if i \<in> open_tools c then Some (c\<lparr>open_tools := open_tools c - {i}\<rparr>) else None)"
| "accepts c (ToolCallResult i p) = (if i \<in> known_tools c then Some c else None)"
| "accepts c (StepStarted s p) = Some (c\<lparr>open_steps := insert s (open_steps c)\<rparr>)"
| "accepts c (StepFinished s p) =
     (if s \<in> open_steps c then Some (c\<lparr>open_steps := open_steps c - {s}\<rparr>) else None)"
| "accepts c (ThinkingStart p) = Some (c\<lparr>in_thinking := True\<rparr>)"
| "accepts c (ThinkingEnd p) =
     (if in_thinking c \<and> \<not> in_thinking_text c then Some (c\<lparr>in_thinking := False\<rparr>) else None)"
| "accepts c (ThinkingTextMessageStart p) =
     (if in_thinking c then Some (c\<lparr>in_thinking_text := True\<rparr>) else None)"
| "accepts c (ThinkingTextMessageContent p) = (if in_thinking c \<and> in_thinking_text c then Some c else None)"
| "accepts c (ThinkingTextMessageEnd p) =
     (if in_thinking c \<and> in_thinking_text c then Some (c\<lparr>in_thinking_text := False\<rparr>) else None)"
| "accepts c (MessagesSnapshot p) = (if nothing_open c then Some (c\<lparr>known_tools := {}\<rparr>) else None)"
| "accepts c (RunFinished p) = Some c"
| "accepts c (RunError p) = Some c"
| "accepts c (OtherEvent p) = Some c"

fun accepts_all :: "Lifecycles \<Rightarrow> 'p Event list \<Rightarrow> Lifecycles option" where
  "accepts_all c [] = Some c"
| "accepts_all c (e # es) = Option.bind (accepts c e) (\<lambda>c. accepts_all c es)"

lemma accepts_all_append [simp]:
  "accepts_all c (es @ fs) = Option.bind (accepts_all c es) (\<lambda>c. accepts_all c fs)"
  by (induction es arbitrary: c) (auto simp: bind_eq_None_conv split: Option.bind_splits)

text \<open>What the guard believes the client has open.\<close>

definition believed :: "LiveStreamGuard \<Rightarrow> Lifecycles" where
  "believed g =
     \<lparr>open_texts = started_text_messages g, known_tools = set (seen_tool_call_ids g),
      open_tools = set (started_tool_call_ids g), open_steps = started_steps g,
      in_thinking = thinking_open g, in_thinking_text = thinking_text_open g\<rparr>"

definition guard_ok :: "LiveStreamGuard \<Rightarrow> bool" where
  "guard_ok g \<longleftrightarrow> finite (started_text_messages g) \<and> finite (started_steps g) \<and>
     distinct (started_tool_call_ids g) \<and> (thinking_text_open g \<longrightarrow> thinking_open g)"

definition drains :: "(string set \<Rightarrow> string list) \<Rightarrow> bool" where
  "drains drain \<longleftrightarrow> (\<forall>A. finite A \<longrightarrow> set (drain A) = A \<and> distinct (drain A))"

text \<open>What a subscriber has been sent after a sequence of outputs.\<close>

fun written :: "'p frames option list \<Rightarrow> 'p frames" where
  "written [] = []"
| "written (None # outs) = written outs"
| "written (Some fs # outs) = fs @ written outs"

text \<open>The events the guard passes on, the ones it makes up, and the ones it may drop.\<close>

fun event_payload :: "'p Event \<Rightarrow> 'p payload" where
  "event_payload (TextMessageStart m p) = p"
| "event_payload (TextMessageContent m p) = p"
| "event_payload (TextMessageEnd m p) = p"
| "event_payload (ToolCallStart i p) = p"
| "event_payload (ToolCallArgs i p) = p"
| "event_payload (ToolCallEnd i p) = p"
| "event_payload (ToolCallResult i p) = p"
| "event_payload (StepStarted s p) = p"
| "event_payload (StepFinished s p) = p"
| "event_payload (ThinkingStart p) = p"
| "event_payload (ThinkingEnd p) = p"
| "event_payload (ThinkingTextMessageStart p) = p"
| "event_payload (ThinkingTextMessageContent p) = p"
| "event_payload (ThinkingTextMessageEnd p) = p"
| "event_payload (RunFinished p) = p"
| "event_payload (RunError p) = p"
| "event_payload (MessagesSnapshot p) = p"
| "event_payload (OtherEvent p) = p"

definition given :: "'p Event \<Rightarrow> bool" where
  "given e \<longleftrightarrow> event_payload e \<noteq> Synthetic"

fun without_orphans :: "string set \<Rightarrow> string set \<Rightarrow> 'p Event list \<Rightarrow> 'p Event list" where
  "without_orphans opened known [] = []"
| "without_orphans opened known (ToolCallStart i p # es) =
     ToolCallStart i p # without_orphans (insert i opened) (insert i known) es"
| "without_orphans opened known (ToolCallArgs i p # es) =
     (if i \<in> opened then [ToolCallArgs i p] else []) @ without_orphans opened known es"
| "without_orphans opened known (ToolCallEnd i p # es) =
     (if i \<in> opened then [ToolCallEnd i p] else []) @ without_orphans (opened - {i}) known es"
| "without_orphans opened known (ToolCallResult i p # es) =
     (if i \<in> known then [ToolCallResult i p] else []) @ without_orphans opened known es"
| "without_orphans opened known (MessagesSnapshot p # es) =
     MessagesSnapshot p # without_orphans {} {} es"
| "without_orphans opened known (e # es) = e # without_orphans opened known es"

section \<open>The guard repairs the stream\<close>

lemma written_run_Cons:
  "written (fst (run_ops step s (e # es))) =
     written [fst (step s e)] @ written (fst (run_ops step (snd (step s e)) es))"
  by (cases "fst (step s e)") (simp_all add: run_ops_Cons del: run_ops.simps(2))


lemmas guard_frames [simp] =
  push_frame_def frame_def finish_frames_def frame_with_start_def frame_end_with_start_def
  ensure_open_def frame_text_start_def frame_text_content_def frame_text_end_def
  frame_tool_start_def frame_tool_args_def frame_tool_end_def frame_tool_result_def
  frame_step_started_def frame_step_finished_def frame_thinking_start_def frame_thinking_end_def
  frame_thinking_text_start_def frame_thinking_text_content_def frame_thinking_text_end_def

lemma set_push_new [simp]: "set (push_new xs i) = insert i (set xs)"
  by (auto simp: push_new_def)

lemma distinct_push_new [simp]: "distinct xs \<Longrightarrow> distinct (push_new xs i)"
  by (simp add: push_new_def)

lemma believed_simps [simp]:
  "open_texts (believed g) = started_text_messages g"
  "known_tools (believed g) = set (seen_tool_call_ids g)"
  "open_tools (believed g) = set (started_tool_call_ids g)"
  "open_steps (believed g) = started_steps g"
  "in_thinking (believed g) = thinking_open g"
  "in_thinking_text (believed g) = thinking_text_open g"
  by (simp_all add: believed_def)

lemma Diff_insert_set: "A - insert a (set ms) = A - {a} - set ms"
  by blast

lemma accepts_text_ends:
  "distinct ms \<Longrightarrow> set ms \<subseteq> open_texts c \<Longrightarrow>
     accepts_all c (map (\<lambda>m. TextMessageEnd m p) ms) = Some (c\<lparr>open_texts := open_texts c - set ms\<rparr>)"
  by (induction ms arbitrary: c) (auto simp: subset_Diff_insert Diff_insert_set)

lemma accepts_step_ends:
  "distinct ms \<Longrightarrow> set ms \<subseteq> open_steps c \<Longrightarrow>
     accepts_all c (map (\<lambda>m. StepFinished m p) ms) = Some (c\<lparr>open_steps := open_steps c - set ms\<rparr>)"
  by (induction ms arbitrary: c) (auto simp: subset_Diff_insert Diff_insert_set)

lemma accepts_tool_ends:
  "distinct ms \<Longrightarrow> set ms \<subseteq> open_tools c \<Longrightarrow>
     accepts_all c (map (\<lambda>m. ToolCallEnd m p) ms) = Some (c\<lparr>open_tools := open_tools c - set ms\<rparr>)"
  by (induction ms arbitrary: c) (auto simp: subset_Diff_insert Diff_insert_set)

lemma finalize_accepted:
  assumes "guard_ok g" "\<forall>e. ser e" "drains drain"
  shows "\<exists>fs. finalize_open_lifecycles ser drain g =
           (Some fs, LiveStreamGuard_default\<lparr>seen_tool_call_ids := seen_tool_call_ids g\<rparr>) \<and>
         accepts_all (believed g) fs =
           Some (believed (LiveStreamGuard_default\<lparr>seen_tool_call_ids := seen_tool_call_ids g\<rparr>)) \<and>
         filter given fs = []"
proof -
  have t: "set (drain (started_text_messages g)) = started_text_messages g"
      "distinct (drain (started_text_messages g))"
    and s: "set (drain (started_steps g)) = started_steps g" "distinct (drain (started_steps g))"
    and i: "distinct (started_tool_call_ids g)" "thinking_text_open g \<Longrightarrow> thinking_open g"
    using assms unfolding guard_ok_def drains_def by blast+
  show ?thesis
    using assms(2) i
    by (simp add: finalize_open_lifecycles_def list_all_iff accepts_text_ends accepts_step_ends
        accepts_tool_ends t s LiveStreamGuard_default_def)
      (auto simp: believed_def given_def filter_empty_conv)
qed

text \<open>One event: its frames are accepted, the guard stays in step, and it is dropped only as an orphan.\<close>

lemma frame_event_ok:
  assumes "guard_ok g"
  shows "guard_ok (snd (frame_event ser drain g e))"
  using assms
  by (cases e) (auto simp: guard_ok_def finalize_open_lifecycles_def Let_def
      reset_after_snapshot_def frame_messages_snapshot_def
      split: option.splits if_splits prod.splits)



lemma guard_ok_default [simp]: "guard_ok LiveStreamGuard_default"
  by (simp add: guard_ok_def LiveStreamGuard_default_def)

lemma frame_event_passes_on:
  assumes "guard_ok g" "\<forall>e. ser e" "drains drain" "given e"
  shows "filter given (written [fst (frame_event ser drain g e)]) @
           without_orphans (set (started_tool_call_ids (snd (frame_event ser drain g e))))
             (set (seen_tool_call_ids (snd (frame_event ser drain g e)))) es =
         without_orphans (set (started_tool_call_ids g)) (set (seen_tool_call_ids g)) (e # es)"
proof (cases e)
  case (MessagesSnapshot p)
  obtain fs where "finalize_open_lifecycles ser drain g =
        (Some fs, LiveStreamGuard_default\<lparr>seen_tool_call_ids := seen_tool_call_ids g\<rparr>)"
      "filter given fs = []"
    using finalize_accepted [OF assms(1-3)] by blast
  with assms MessagesSnapshot show ?thesis
    by (simp add: frame_messages_snapshot_def reset_after_snapshot_def LiveStreamGuard_default_def)
qed (use assms in \<open>auto simp: given_def guard_ok_def\<close>)

lemma run_passes_on:
  assumes "guard_ok g" "\<forall>e. ser e" "drains drain" "\<forall>e \<in> set es. given e"
  shows "filter given (written (fst (run_ops (frame_event ser drain) g es))) =
         without_orphans (set (started_tool_call_ids g)) (set (seen_tool_call_ids g)) es"
  using assms
proof (induction es arbitrary: g)
  case (Cons e es)
  note step = frame_event_ok [OF Cons.prems(1), of ser drain e]
  have "given e" "\<forall>e \<in> set es. given e" using Cons.prems(4) by simp_all
  with Cons.IH [OF step Cons.prems(2,3)] frame_event_passes_on [OF Cons.prems(1-3), of e es]
  show ?case by (simp only: written_run_Cons filter_append)
qed simp


lemma drains_sorted_list [simp]: "drains sorted_list_of_set"
  by (simp add: drains_def)


text \<open>
  The guard delivers every event it is given, unchanged and in order, apart from the tool
  arguments and ends of calls that are not open and the tool results of calls that were not
  started since the last snapshot; everything else it writes is synthetic.
\<close>

theorem only_orphans_dropped:
  assumes "\<forall>e. ser e" "drains drain" "\<forall>e \<in> set es. given e"
  shows "filter given (written (fst (run_ops (frame_event ser drain) LiveStreamGuard_default es))) =
         without_orphans {} {} es"
  using run_passes_on [OF guard_ok_default assms] by (simp add: LiveStreamGuard_default_def)

theorem only_orphans_dropped_witness:
  "filter given (written (fst (run_ops (frame_event (\<lambda>e. True) sorted_list_of_set)
     LiveStreamGuard_default [TextMessageContent ''m'' (Given ''hi''), ToolCallResult ''t'' (Given ''r'')]))) =
   [TextMessageContent ''m'' (Given ''hi'')]"
  using only_orphans_dropped [of "\<lambda>e. True" sorted_list_of_set
      "[TextMessageContent ''m'' (Given ''hi''), ToolCallResult ''t'' (Given ''r'')]"]
  by (simp add: given_def)

end
