(* ===== verification/Approval_State.thy ===== *)
theory Approval_State
  imports Turn_Status
begin

text \<open>
  Human approval of tool calls, the worker's side: which tool round of the log is open and
  which approvals it still waits for (\<open>harnx-runtime/src/nats_worker/agent_loop/mod.rs\<close>), how a
  request is appended (\<open>agent_loop/hitl_attention.rs\<close>), how a decision is accepted
  (\<open>nats_worker/control/hitl.rs\<close>) and what a resumed round may then run
  (\<open>harnx-runtime/src/agent_loop.rs\<close>).

  Reading the log, the lease and the broker's append are arguments: a load is
  an error or the rows it returned, an append is an error, \<open>None\<close> for a lost compare-and-swap or the
  sequence number assigned. \<open>partition_point\<close> is what its documentation promises on a
  slice that is partitioned, as rows in log order are.
\<close>

section \<open>Open tool rounds\<close>

definition partition_point :: "('a \<Rightarrow> bool) \<Rightarrow> 'a list \<Rightarrow> nat" where
  "partition_point P xs = length (takeWhile P xs)"

definition tail_seq :: "log \<Rightarrow> seq" where
  "tail_seq entries = (if entries = [] then 0 else fst (last entries))"

record PendingToolCalls =
  ptc_seq :: seq
  ptc_text :: string
  ptc_thought :: "string option"
  ptc_calls :: "ToolCall list"
  ptc_timestamp :: "instant option"

text \<open>One iteration of the scan: the orphans so far and the open candidate.\<close>

definition orphan_scan ::
  "PendingToolCalls list \<times> PendingToolCalls option \<Rightarrow> seq \<times> SessionLogEntry
     \<Rightarrow> PendingToolCalls list \<times> PendingToolCalls option" where
  "orphan_scan st row =
     (case (st, row) of ((orphans, last_tool_calls), (seq, entry)) \<Rightarrow>
       (case entry of
          ToolCalls t thought calls ts _ \<Rightarrow>
            (case last_tool_calls of Some previous \<Rightarrow> orphans @ [previous] | None \<Rightarrow> orphans,
             Some \<lparr>ptc_seq = seq, ptc_text = t, ptc_thought = thought,
                   ptc_calls = calls, ptc_timestamp = ts\<rparr>)
        | ToolResults _ _ \<Rightarrow> (orphans, None)
        | Cancel _ _ _ _ \<Rightarrow> (orphans, None)
        | _ \<Rightarrow> (orphans, last_tool_calls)))"

definition find_orphan_tool_calls :: "log \<Rightarrow> PendingToolCalls list" where
  "find_orphan_tool_calls entries =
     (case foldl orphan_scan ([], None) entries of
        (orphans, None) \<Rightarrow> orphans
      | (orphans, Some tc) \<Rightarrow> orphans @ [tc])"

definition has_orphan_tool_calls :: "log \<Rightarrow> bool" where
  "has_orphan_tool_calls entries \<longleftrightarrow> find_orphan_tool_calls entries \<noteq> []"

definition calls_or_results :: "SessionLogEntry \<Rightarrow> bool" where
  "calls_or_results e = (case e of ToolCalls _ _ _ _ _ \<Rightarrow> True | ToolResults _ _ \<Rightarrow> True | _ \<Rightarrow> False)"

definition tool_round_entries :: "log \<Rightarrow> seq \<Rightarrow> log" where
  "tool_round_entries entries tool_calls_seq =
     (let start = partition_point (\<lambda>e. fst e \<le> tool_calls_seq) entries;
          stop = (case position (\<lambda>e. calls_or_results (snd e)) (drop start entries) of
                    None \<Rightarrow> length entries
                  | Some offset \<Rightarrow> start + offset)
      in take (stop - start) (drop start entries))"

definition last_orphan :: "log \<Rightarrow> PendingToolCalls option" where
  "last_orphan effective =
     (case find_orphan_tool_calls effective of [] \<Rightarrow> None | os \<Rightarrow> Some (last os))"

section \<open>Pending work\<close>

fun pending_compaction_scan :: "log \<Rightarrow> string set \<Rightarrow> string option" where
  "pending_compaction_scan [] resolved_ids = None"
| "pending_compaction_scan (row # rows) resolved_ids =
     (case snd row of
        CompactResult compaction_id _ _ \<Rightarrow> pending_compaction_scan rows (insert compaction_id resolved_ids)
      | CompactRequest _ compaction_id _ _ \<Rightarrow>
          if compaction_id \<notin> resolved_ids then Some compaction_id
          else pending_compaction_scan rows resolved_ids
      | _ \<Rightarrow> pending_compaction_scan rows resolved_ids)"

definition derive_pending_compaction :: "log \<Rightarrow> string option" where
  "derive_pending_compaction entries = pending_compaction_scan (rev entries) {}"

definition derive_attention_seq :: "log \<Rightarrow> seq" where
  "derive_attention_seq entries =
     (case filter_map (\<lambda>row. case snd row of
             TurnEnd through_seq _ _ _ \<Rightarrow> if 0 < through_seq then Some (fst row) else None
           | HitlApprovalRequested _ _ _ \<Rightarrow> Some (fst row)
           | _ \<Rightarrow> None) entries of
        [] \<Rightarrow> 0
      | s # ss \<Rightarrow> foldl max s ss)"

record PendingHitlApproval =
  request_seq :: seq
  tool_round_seq :: seq
  tool_call_id :: string
  tool_name :: string
  arguments :: json
  summary :: string

text \<open>A later row of the round that answers or repeats a request.\<close>

definition supersedes :: "seq \<Rightarrow> string \<Rightarrow> seq \<times> SessionLogEntry \<Rightarrow> bool" where
  "supersedes req_seq i row \<longleftrightarrow> req_seq < fst row \<and>
     (case snd row of
        HitlApprovalDecision decided_id _ _ _ \<Rightarrow> decided_id = i
      | HitlApprovalRequested decided_id _ _ \<Rightarrow> decided_id = i
      | _ \<Rightarrow> False)"

definition pending_row ::
  "PendingToolCalls \<Rightarrow> log \<Rightarrow> seq \<times> SessionLogEntry \<Rightarrow> PendingHitlApproval option" where
  "pending_row orphan round_entries row =
     (case snd row of
        HitlApprovalRequested i text_summary _ \<Rightarrow>
          if \<not> list_ex (supersedes (fst row) i) round_entries
          then map_option (\<lambda>call.
                   \<lparr>request_seq = fst row, tool_round_seq = ptc_seq orphan, tool_call_id = i,
                    tool_name = call_name call, arguments = call_arguments call, summary = text_summary\<rparr>)
                 (find (\<lambda>call. call_id call = Some i) (ptc_calls orphan))
          else None
      | _ \<Rightarrow> None)"

definition pending_in_round :: "PendingToolCalls \<Rightarrow> log \<Rightarrow> PendingHitlApproval list" where
  "pending_in_round orphan round_entries = filter_map (pending_row orphan round_entries) round_entries"

definition derive_pending_hitl_approvals ::
  "nat \<Rightarrow> yaml_parser \<Rightarrow> log \<Rightarrow> SeqError + PendingHitlApproval list" where
  "derive_pending_hitl_approvals usize_max yaml entries =
     (case apply_log_mutations_nats usize_max yaml entries of
        Inl err \<Rightarrow> Inl err
      | Inr effective \<Rightarrow>
          (case last_orphan effective of
             None \<Rightarrow> Inr []
           | Some orphan \<Rightarrow>
               Inr (pending_in_round orphan (tool_round_entries effective (ptc_seq orphan)))))"

definition hitl_managed_tool_call_ids :: "log \<Rightarrow> seq \<Rightarrow> string set" where
  "hitl_managed_tool_call_ids entries tool_calls_seq =
     set (filter_map (\<lambda>row. case snd row of HitlApprovalRequested i _ _ \<Rightarrow> Some i | _ \<Rightarrow> None)
            (tool_round_entries entries tool_calls_seq))"

definition hitl_managed :: "log \<Rightarrow> PendingToolCalls \<Rightarrow> bool" where
  "hitl_managed entries orphan =
     list_ex (\<lambda>call. case call_id call of
         None \<Rightarrow> False
       | Some i \<Rightarrow> i \<in> hitl_managed_tool_call_ids entries (ptc_seq orphan)) (ptc_calls orphan)"

definition preserves_hitl_pending :: "log \<Rightarrow> bool" where
  "preserves_hitl_pending effective_entries =
     list_ex (hitl_managed effective_entries) (find_orphan_tool_calls effective_entries)"

definition should_defer_compaction ::
  "nat \<Rightarrow> yaml_parser \<Rightarrow> log \<Rightarrow> log \<Rightarrow> SeqError + bool" where
  "should_defer_compaction usize_max yaml effective_entries raw_entries =
     (case derive_pending_hitl_approvals usize_max yaml raw_entries of
        Inl err \<Rightarrow> Inl err
      | Inr pending_hitl \<Rightarrow> Inr (has_orphan_tool_calls effective_entries \<or> pending_hitl \<noteq> []))"

section \<open>Resuming an approved round\<close>

record PendingToolRound =
  ptr_seq :: seq
  ptr_output :: string
  ptr_thought :: "string option"
  ptr_calls :: "ToolCall list"

record ToolApprovalDecision =
  tad_tool_call_id :: string
  tad_approved :: bool
  tad_reason :: "string option"

record HitlToolRoundContinuation =
  cont_round :: PendingToolRound
  cont_decisions :: "ToolApprovalDecision list"

text \<open>One iteration over the round's rows: the ids requested and the decisions after them.\<close>

definition decision_scan ::
  "string set \<times> (string \<rightharpoonup> bool \<times> string option) \<Rightarrow> seq \<times> SessionLogEntry
     \<Rightarrow> string set \<times> (string \<rightharpoonup> bool \<times> string option)" where
  "decision_scan st row =
     (case st of (seen_requests, decisions) \<Rightarrow>
       (case snd row of
          HitlApprovalRequested i _ _ \<Rightarrow> (insert i seen_requests, decisions)
        | HitlApprovalDecision i approved remark _ \<Rightarrow>
            if i \<in> seen_requests then (seen_requests, decisions(i \<mapsto> (approved, remark)))
            else (seen_requests, decisions)
        | _ \<Rightarrow> (seen_requests, decisions)))"

definition round_decisions :: "PendingToolCalls \<Rightarrow> log \<Rightarrow> ToolApprovalDecision list" where
  "round_decisions orphan round_entries =
     (let decisions = snd (foldl decision_scan ({}, Map.empty) round_entries)
      in filter_map (\<lambda>call. case call_id call of
             None \<Rightarrow> None
           | Some i \<Rightarrow> map_option (\<lambda>(approved, remark).
                 \<lparr>tad_tool_call_id = i, tad_approved = approved, tad_reason = remark\<rparr>) (decisions i))
           (ptc_calls orphan))"

definition derive_hitl_tool_round_continuation ::
  "nat \<Rightarrow> yaml_parser \<Rightarrow> log \<Rightarrow> SeqError + HitlToolRoundContinuation option" where
  "derive_hitl_tool_round_continuation usize_max yaml entries =
     (case apply_log_mutations_nats usize_max yaml entries of
        Inl err \<Rightarrow> Inl err
      | Inr effective \<Rightarrow>
          (case last_orphan effective of
             None \<Rightarrow> Inr None
           | Some orphan \<Rightarrow>
               if \<not> hitl_managed effective orphan then Inr None
               else Inr (Some
                 \<lparr>cont_round = \<lparr>ptr_seq = ptc_seq orphan, ptr_output = ptc_text orphan,
                                ptr_thought = ptc_thought orphan, ptr_calls = ptc_calls orphan\<rparr>,
                  cont_decisions =
                    round_decisions orphan (tool_round_entries effective (ptc_seq orphan))\<rparr>)))"

datatype ToolUseConfirmation = Approve | Deny "string option" | Defer

text \<open>The preseeded confirmation function of a resumed round.\<close>

definition confirm_override ::
  "ToolApprovalDecision list \<Rightarrow> string set \<Rightarrow> ToolCall \<Rightarrow> string option \<Rightarrow> ToolUseConfirmation" where
  "confirm_override decisions pending_interrupt_ids call reason =
     (case call_id call of
        None \<Rightarrow> Defer
      | Some i \<Rightarrow>
          (case find (\<lambda>d. tad_tool_call_id d = i) decisions of
             Some decision \<Rightarrow>
               if tad_approved decision then Approve
               else Deny (case tad_reason decision of Some r \<Rightarrow> Some r | None \<Rightarrow> reason)
           | None \<Rightarrow> if i \<notin> pending_interrupt_ids then Approve else Defer))"

definition pending_interrupt_ids :: "HitlToolRoundContinuation \<Rightarrow> string set" where
  "pending_interrupt_ids continuation = set (filter_map call_id (ptr_calls (cont_round continuation)))"

section \<open>Requesting an approval\<close>

record DeferredToolCall =
  deferred_call :: ToolCall
  deferred_arguments :: json
  deferred_reason :: "string option"

definition build_hitl_entry :: "DeferredToolCall \<Rightarrow> fence \<Rightarrow> SessionLogEntry" where
  "build_hitl_entry deferred fence =
     (let i = (case call_id (deferred_call deferred) of Some i \<Rightarrow> i | None \<Rightarrow> []);
          text_summary = (case deferred_reason deferred of
              Some reason \<Rightarrow> if str_trim reason \<noteq> [] then reason
                             else ''Approve tool call `'' @ call_name (deferred_call deferred) @ ''`''
            | None \<Rightarrow> ''Approve tool call `'' @ call_name (deferred_call deferred) @ ''`'')
      in HitlApprovalRequested i text_summary fence)"

datatype HitlError =
    LeaseLost
  | NoToolCallId
  | LoadFailed string
  | DeriveFailed SeqError
  | AppendFailed string
  | CasRace
  | LostRaces

datatype AppendHitlResult = AppendExistingPending string | AppendAppended seq

datatype HitlOutcome = ExistingPending string | Appended string | Fallback string

definition is_cas_race :: "HitlError \<Rightarrow> bool" where
  "is_cas_race err =
     (case err of
        CasRace \<Rightarrow> True
      | LoadFailed msg \<Rightarrow> str_find msg ''CAS race'' \<noteq> None
      | AppendFailed msg \<Rightarrow> str_find msg ''CAS race'' \<noteq> None
      | _ \<Rightarrow> False)"

type_synonym cas_append = "SessionLogEntry \<Rightarrow> seq \<Rightarrow> string + seq option"

definition try_append_hitl_approval ::
  "nat \<Rightarrow> yaml_parser \<Rightarrow> bool \<Rightarrow> string + log \<Rightarrow> cas_append \<Rightarrow> SessionLogEntry
     \<Rightarrow> HitlError + AppendHitlResult" where
  "try_append_hitl_approval usize_max yaml is_held load append_cas entry =
     (if \<not> is_held then Inl LeaseLost
      else (case load of
              Inl msg \<Rightarrow> Inl (LoadFailed msg)
            | Inr entries \<Rightarrow>
                (case derive_pending_hitl_approvals usize_max yaml entries of
                   Inl err \<Rightarrow> Inl (DeriveFailed err)
                 | Inr (oldest # _) \<Rightarrow> Inr (AppendExistingPending (tool_call_id oldest))
                 | Inr [] \<Rightarrow>
                     (case append_cas entry (tail_seq entries) of
                        Inl msg \<Rightarrow> Inl (AppendFailed msg)
                      | Inr (Some assigned_seq) \<Rightarrow> Inr (AppendAppended assigned_seq)
                      | Inr None \<Rightarrow> Inl CasRace))))"

text \<open>
  The retry loop runs over what it finds at each attempt: the lease, the load and the append;
  \<open>final\<close> is the load after the last attempt.
\<close>

type_synonym attempt = "bool \<times> (string + log) \<times> cas_append"

fun try_append_with_retries ::
  "nat \<Rightarrow> yaml_parser \<Rightarrow> attempt list \<Rightarrow> string + log \<Rightarrow> SessionLogEntry \<Rightarrow> string
     \<Rightarrow> HitlError + HitlOutcome" where
  "try_append_with_retries usize_max yaml [] final entry i =
     (case final of
        Inl msg \<Rightarrow> Inl (LoadFailed msg)
      | Inr entries \<Rightarrow>
          (case derive_pending_hitl_approvals usize_max yaml entries of
             Inl err \<Rightarrow> Inl (DeriveFailed err)
           | Inr (oldest # _) \<Rightarrow> Inr (Fallback (tool_call_id oldest))
           | Inr [] \<Rightarrow> Inl LostRaces))"
| "try_append_with_retries usize_max yaml ((is_held, load, append_cas) # attempts) final entry i =
     (case try_append_hitl_approval usize_max yaml is_held load append_cas entry of
        Inr (AppendExistingPending pending_id) \<Rightarrow> Inr (ExistingPending pending_id)
      | Inr (AppendAppended assigned_seq) \<Rightarrow> Inr (Appended i)
      | Inl err \<Rightarrow> if is_cas_race err
                   then try_append_with_retries usize_max yaml attempts final entry i
                   else Inl err)"

definition handle_hitl_approval_request ::
  "nat \<Rightarrow> yaml_parser \<Rightarrow> DeferredToolCall \<Rightarrow> fence \<Rightarrow> bool \<Rightarrow> attempt \<Rightarrow> attempt \<Rightarrow> attempt
     \<Rightarrow> string + log \<Rightarrow> HitlError + string" where
  "handle_hitl_approval_request usize_max yaml deferred fence is_held first second third final =
     (if \<not> is_held then Inl LeaseLost
      else (case call_id (deferred_call deferred) of
              None \<Rightarrow> Inl NoToolCallId
            | Some i \<Rightarrow>
                (case try_append_with_retries usize_max yaml [first, second, third] final
                        (build_hitl_entry deferred fence) i of
                   Inl err \<Rightarrow> Inl err
                 | Inr (ExistingPending j) \<Rightarrow> Inr j
                 | Inr (Appended j) \<Rightarrow> Inr j
                 | Inr (Fallback j) \<Rightarrow> Inr j)))"

section \<open>Accepting a decision\<close>

record HitlDecisionParams =
  dp_tool_call_id :: string
  dp_approved :: bool
  dp_note :: "string option"
  dp_request_seq :: "seq option"

definition has_terminal_entry_after :: "log \<Rightarrow> seq \<Rightarrow> bool" where
  "has_terminal_entry_after entries round_seq =
     list_ex (\<lambda>row. round_seq < fst row \<and> is_terminator (snd row)) entries"

definition matches_requested_approval :: "PendingHitlApproval \<Rightarrow> HitlDecisionParams \<Rightarrow> bool" where
  "matches_requested_approval approval params \<longleftrightarrow>
     tool_call_id approval = dp_tool_call_id params \<and>
     (case dp_request_seq params of None \<Rightarrow> True | Some expected \<Rightarrow> expected = request_seq approval)"

definition is_eligible_hitl_decision ::
  "PendingHitlApproval list \<Rightarrow> log \<Rightarrow> HitlDecisionParams \<Rightarrow> bool" where
  "is_eligible_hitl_decision pending entries params =
     list_ex (\<lambda>approval. matches_requested_approval approval params \<and>
       \<not> has_terminal_entry_after entries (tool_round_seq approval)) pending"

definition decision_entry_of :: "HitlDecisionParams \<Rightarrow> fence \<Rightarrow> SessionLogEntry" where
  "decision_entry_of params fence =
     HitlApprovalDecision (dp_tool_call_id params) (dp_approved params) (dp_note params) fence"

definition commit_hitl_decision ::
  "cas_append \<Rightarrow> log \<Rightarrow> HitlDecisionParams \<Rightarrow> fence \<Rightarrow> seq option" where
  "commit_hitl_decision append_cas entries params fence =
     (case append_cas (decision_entry_of params fence) (tail_seq entries) of
        Inr (Some n) \<Rightarrow> Some n
      | _ \<Rightarrow> None)"

text \<open>
  \<open>Some n\<close> when the decision was committed at \<open>n\<close>, which is when it is announced and acknowledged.
  The lease is checked twice.
\<close>

definition apply_hitl_decision ::
  "nat \<Rightarrow> yaml_parser \<Rightarrow> bool \<Rightarrow> string + log \<Rightarrow> bool \<Rightarrow> cas_append \<Rightarrow> HitlDecisionParams \<Rightarrow> fence
     \<Rightarrow> seq option" where
  "apply_hitl_decision usize_max yaml should_append load is_held append_cas params fence =
     (if \<not> should_append then None
      else (case load of
              Inl _ \<Rightarrow> None
            | Inr entries \<Rightarrow>
                (case derive_pending_hitl_approvals usize_max yaml entries of
                   Inl _ \<Rightarrow> None
                 | Inr pending \<Rightarrow>
                     if \<not> is_eligible_hitl_decision pending entries params then None
                     else if \<not> is_held then None
                     else commit_hitl_decision append_cas entries params fence)))"

section \<open>Rounds of a log in order\<close>

definition log_in_order :: "log \<Rightarrow> bool" where
  "log_in_order es \<longleftrightarrow> sorted_wrt (<) (map fst es)"

abbreviation fresh_seq :: "log \<Rightarrow> seq \<Rightarrow> bool" where
  "fresh_seq es n \<equiv> (\<forall>r \<in> set es. fst r < n)"

lemma log_in_order_simps [simp]:
  "log_in_order []"
  "log_in_order (e # es) \<longleftrightarrow> (\<forall>r \<in> set es. fst e < fst r) \<and> log_in_order es"
  "log_in_order (es @ [row]) \<longleftrightarrow> log_in_order es \<and> fresh_seq es (fst row)"
  by (auto simp: log_in_order_def sorted_wrt_append)

lemma drop_partition_point:
  "log_in_order es \<Longrightarrow> drop (partition_point (\<lambda>e. fst e \<le> s) es) es = filter (\<lambda>e. s < fst e) es"
proof (induction es)
  case (Cons e es)
  show ?case
  proof (cases "fst e \<le> s")
    case False
    with Cons.prems have "\<forall>x \<in> set (e # es). s < fst x" by fastforce
    then have "filter (\<lambda>e. s < fst e) (e # es) = e # es" by (simp add: filter_id_conv)
    with False show ?thesis by (simp add: partition_point_def)
  qed (use Cons in \<open>simp add: partition_point_def\<close>)
qed (simp add: partition_point_def)

lemma take_position: "take (case position P xs of None \<Rightarrow> length xs | Some i \<Rightarrow> i) xs = takeWhile (\<lambda>x. \<not> P x) xs"
  by (induction xs) (auto split: option.splits)

lemma tool_round_entries_eq:
  assumes "log_in_order es"
  shows "tool_round_entries es s = takeWhile (\<lambda>e. \<not> calls_or_results (snd e)) (filter (\<lambda>e. s < fst e) es)"
proof -
  let ?k = "partition_point (\<lambda>e. fst e \<le> s) es" and ?P = "\<lambda>e :: seq \<times> SessionLogEntry. calls_or_results (snd e)"
  have "?k \<le> length es" by (simp add: partition_point_def length_takeWhile_le)
  then have "(case position ?P (drop ?k es) of None \<Rightarrow> length es | Some offset \<Rightarrow> ?k + offset) - ?k =
      (case position ?P (drop ?k es) of None \<Rightarrow> length (drop ?k es) | Some i \<Rightarrow> i)"
    by (simp split: option.split)
  then show ?thesis
    by (simp only: tool_round_entries_def Let_def take_position drop_partition_point [OF assms])
qed

definition round_closed :: "log \<Rightarrow> seq \<Rightarrow> bool" where
  "round_closed es s \<longleftrightarrow> (\<exists>r \<in> set es. s < fst r \<and> calls_or_results (snd r))"

lemma takeWhile_snoc:
  "takeWhile Q (xs @ [x]) =
     takeWhile Q xs @ (if (\<exists>y \<in> set xs. \<not> Q y) \<or> \<not> Q x then [] else [x])"
  by (induction xs) auto

lemma tool_round_entries_snoc:
  assumes "log_in_order (es @ [(n, e)])" "s < n"
  shows "tool_round_entries (es @ [(n, e)]) s =
    (if round_closed es s \<or> calls_or_results e then tool_round_entries es s
     else tool_round_entries es s @ [(n, e)])"
proof -
  let ?Q = "\<lambda>e :: seq \<times> SessionLogEntry. \<not> calls_or_results (snd e)"
    and ?xs = "filter (\<lambda>e. s < fst e) es"
  have "tool_round_entries (es @ [(n, e)]) s = takeWhile ?Q (?xs @ [(n, e)])"
    using assms by (simp add: tool_round_entries_eq [OF assms(1)])
  moreover have "tool_round_entries es s = takeWhile ?Q ?xs"
    using assms(1) by (simp add: tool_round_entries_eq)
  moreover have "round_closed es s \<longleftrightarrow> (\<exists>r \<in> set ?xs. \<not> ?Q r)"
    unfolding round_closed_def set_filter by blast
  ultimately show ?thesis by (simp only: takeWhile_snoc) (auto split: if_splits)
qed

lemma tool_round_entries_subset: "log_in_order es \<Longrightarrow> set (tool_round_entries es s) \<subseteq> set es"
  by (auto simp: tool_round_entries_eq dest!: set_takeWhileD)

text \<open>What the scan knows about the rounds it found.\<close>

definition scan_knows :: "log \<Rightarrow> PendingToolCalls list \<times> PendingToolCalls option \<Rightarrow> bool" where
  "scan_knows es st \<longleftrightarrow> log_in_order es \<longrightarrow>
     (\<forall>o' \<in> set (fst st). ptc_seq o' \<in> fst ` set es \<and> round_closed es (ptc_seq o')) \<and>
     (\<forall>tc. snd st = Some tc \<longrightarrow> ptc_seq tc \<in> fst ` set es \<and> \<not> round_closed es (ptc_seq tc))"

lemma round_closed_snoc:
  "s < n \<Longrightarrow> round_closed (es @ [(n, e)]) s \<longleftrightarrow> round_closed es s \<or> calls_or_results e"
  by (auto simp: round_closed_def)

lemma round_closed_new: "log_in_order (es @ [(n, e)]) \<Longrightarrow> \<not> round_closed (es @ [(n, e)]) n"
  by (auto simp: round_closed_def)

interpretation orphans: log_account orphan_scan "([], None)" scan_knows
proof
  show "scan_knows [] ([], None)" by (simp add: scan_knows_def)
  fix es :: log and st and row :: "seq \<times> SessionLogEntry" assume knows: "scan_knows es st"
  obtain os cur n e where st: "st = (os, cur)" and row: "row = (n, e)" by (cases st; cases row) auto
  show "scan_knows (es @ [row]) (orphan_scan st row)"
    unfolding scan_knows_def
  proof
    assume order: "log_in_order (es @ [row])"
    then have below: "s \<in> fst ` set es \<Longrightarrow> s < n" for s by (auto simp: row)
    have old: "\<And>o'. o' \<in> set os \<Longrightarrow> ptc_seq o' \<in> fst ` set es \<and> round_closed es (ptc_seq o')"
      and cur: "\<And>tc. cur = Some tc \<Longrightarrow> ptc_seq tc \<in> fst ` set es \<and> \<not> round_closed es (ptc_seq tc)"
      using knows order by (auto simp: scan_knows_def st)
    show "(\<forall>o' \<in> set (fst (orphan_scan st row)). ptc_seq o' \<in> fst ` set (es @ [row]) \<and>
          round_closed (es @ [row]) (ptc_seq o')) \<and>
        (\<forall>tc. snd (orphan_scan st row) = Some tc \<longrightarrow> ptc_seq tc \<in> fst ` set (es @ [row]) \<and>
          \<not> round_closed (es @ [row]) (ptc_seq tc))"
      using old cur below round_closed_new [of es n e] order
      by (cases e) (auto simp: st row orphan_scan_def round_closed_snoc calls_or_results_def
          split: option.splits)
  qed
qed

section \<open>Pending requests\<close>

definition answers :: "SessionLogEntry \<Rightarrow> string \<Rightarrow> bool" where
  "answers e i =
     (case e of
        HitlApprovalDecision j _ _ _ \<Rightarrow> j = i | HitlApprovalRequested j _ _ \<Rightarrow> j = i | _ \<Rightarrow> False)"

lemma supersedes_alt: "supersedes s i row \<longleftrightarrow> s < fst row \<and> answers (snd row) i"
  by (auto simp: supersedes_def answers_def split: SessionLogEntry.splits)

lemma pending_row_append:
  "pending_row o' (rs @ [(n, e)]) row =
     (case pending_row o' rs row of
        None \<Rightarrow> None
      | Some p \<Rightarrow> if fst row < n \<and> answers e (tool_call_id p) then None else Some p)"
  by (auto simp: pending_row_def supersedes_alt split: SessionLogEntry.splits option.splits)

lemma filter_filter_map:
  "(\<And>x. x \<in> set xs \<Longrightarrow> g x = (case f x of None \<Rightarrow> None | Some y \<Rightarrow> if P y then None else Some y)) \<Longrightarrow>
     filter_map g xs = filter (\<lambda>y. \<not> P y) (filter_map f xs)"
  by (induction xs) (auto simp: filter_map_def map_filter_simps split: option.splits)

lemma pending_row_fresh: "fresh_seq rs n \<Longrightarrow> pending_row o' (rs @ [(n, e)]) (n, e) = pending_row o' [(n, e)] (n, e)"
  by (auto simp: pending_row_def supersedes_alt list_ex_iff split: SessionLogEntry.splits option.splits)

lemma pending_in_round_snoc:
  assumes "fresh_seq rs n"
  shows "pending_in_round o' (rs @ [(n, e)]) =
    filter (\<lambda>p. \<not> answers e (tool_call_id p)) (pending_in_round o' rs) @ pending_in_round o' [(n, e)]"
proof -
  have "filter_map (pending_row o' (rs @ [(n, e)])) rs =
      filter (\<lambda>p. \<not> answers e (tool_call_id p)) (filter_map (pending_row o' rs) rs)"
    using assms by (intro filter_filter_map) (auto simp: pending_row_append split: option.splits)
  moreover have "filter_map (pending_row o' (rs @ [(n, e)])) [(n, e)] = filter_map (pending_row o' [(n, e)]) [(n, e)]"
    by (simp only: filter_map_simps pending_row_fresh [OF assms])
  ultimately show ?thesis by (simp only: pending_in_round_def filter_map_append)
qed

lemma pending_in_round_singleton:
  "length (pending_in_round o' [row]) \<le> 1"
  "(\<And>i s f. snd row \<noteq> HitlApprovalRequested i s f) \<Longrightarrow> pending_in_round o' [row] = []"
  by (auto simp: pending_in_round_def pending_row_def split: SessionLogEntry.splits option.splits)

section \<open>Concurrent writers\<close>

text \<open>
  A session log has many writers. The broker appends under an expected last sequence number: the
  append succeeds exactly if the log still ends there. A worker's request and a handler's decision
  are computed from the rows loaded earlier, a prefix of the log; other writers append any row
  that is not a request, a decision or a mutation.
\<close>

definition broker :: "log \<Rightarrow> seq \<Rightarrow> cas_append" where
  "broker current n entry expected = Inr (if expected = tail_seq current then Some n else None)"

definition next_seq :: "nat \<Rightarrow> log \<Rightarrow> seq \<Rightarrow> bool" where
  "next_seq usize_max current n \<longleftrightarrow> 0 < n \<and> n \<le> usize_max \<and> fresh_seq current n"



lemma tail_seq_snoc [simp]: "tail_seq (es @ [row]) = fst row"
  by (simp add: tail_seq_def)

lemma same_tail_no_unseen:
  assumes "log_in_order (loaded @ unseen)" "\<forall>r \<in> set (loaded @ unseen). 0 < fst r"
    "tail_seq loaded = tail_seq (loaded @ unseen)"
  shows "unseen = []"
proof (rule ccontr)
  assume "unseen \<noteq> []"
  then obtain us u where u: "unseen = us @ [u]" by (cases unseen rule: rev_exhaust) auto
  then have "tail_seq loaded = fst u" using assms(3) by (simp add: tail_seq_def)
  moreover have "fresh_seq (loaded @ us) (fst u)" "0 < fst u"
    using assms(1,2) u log_in_order_simps(3) [of "loaded @ us" u] by auto
  ultimately show False by (cases loaded rule: rev_exhaust) (auto simp: tail_seq_def)
qed

text \<open>The invariant: rows in order, and at most one request pending in any open round.\<close>

definition log_ok :: "nat \<Rightarrow> log \<Rightarrow> bool" where
  "log_ok usize_max es \<longleftrightarrow> log_in_order es \<and> (\<forall>r \<in> set es. 0 < fst r \<and> fst r \<le> usize_max)"


lemma find_orphans_cases:
  "foldl orphan_scan ([], None) eff = (os, cur) \<Longrightarrow>
     find_orphan_tool_calls eff = os @ (case cur of None \<Rightarrow> [] | Some tc \<Rightarrow> [tc])"
  by (auto simp: find_orphan_tool_calls_def split: option.splits)

lemma scan_facts:
  assumes "foldl orphan_scan ([], None) eff = (os, cur)" "log_in_order eff"
  shows "o' \<in> set os \<Longrightarrow> ptc_seq o' \<in> fst ` set eff \<and> round_closed eff (ptc_seq o')"
    and "cur = Some tc \<Longrightarrow> ptc_seq tc \<in> fst ` set eff \<and> \<not> round_closed eff (ptc_seq tc)"
  using orphans.account_run [of eff] assms by (auto simp: scan_knows_def)

lemma round_fresh:
  "log_in_order eff \<Longrightarrow> fresh_seq eff n \<Longrightarrow> fresh_seq (tool_round_entries eff s) n"
  using tool_round_entries_subset [of eff s] by blast



lemma derive_pending_fits:
  assumes "usize_max \<le> u64_max" "log_ok usize_max es"
  shows "derive_pending_hitl_approvals usize_max yaml es = Inr (case last_orphan (apply_log_mutations yaml es) of
      None \<Rightarrow> []
    | Some o' \<Rightarrow> pending_in_round o' (tool_round_entries (apply_log_mutations yaml es) (ptc_seq o')))"
  using apply_log_mutations_nats_fits [OF assms(1), of es yaml] assms(2)
  by (auto simp: derive_pending_hitl_approvals_def log_ok_def split: option.splits)

lemma log_ok_snoc: "log_ok usize_max es \<Longrightarrow> next_seq usize_max es n \<Longrightarrow> log_ok usize_max (es @ [(n, e)])"
  by (auto simp: log_ok_def next_seq_def)

lemma log_ok_prefix: "log_ok usize_max (es @ fs) \<Longrightarrow> log_ok usize_max es"
  by (auto simp: log_ok_def log_in_order_def sorted_wrt_append)

lemma broker_up_to_date:
  assumes "log_ok usize_max (loaded @ unseen)"
    "broker (loaded @ unseen) n entry (tail_seq loaded) = Inr (Some m)"
  shows "unseen = [] \<and> m = n"
  using assms same_tail_no_unseen [of loaded unseen] by (auto simp: log_ok_def broker_def split: if_splits)


lemma decide_step:
  assumes "usize_max \<le> u64_max" "log_ok usize_max (loaded @ unseen)"
    "apply_hitl_decision usize_max yaml True (Inr loaded) True (broker (loaded @ unseen) n) params f = Some n"
  obtains pending where "unseen = []" "derive_pending_hitl_approvals usize_max yaml loaded = Inr pending"
    "is_eligible_hitl_decision pending loaded params"
  using assms broker_up_to_date [OF assms(2)] derive_pending_fits [OF assms(1) log_ok_prefix [OF assms(2)]]
  by (auto simp: apply_hitl_decision_def commit_hitl_decision_def split: sum.splits if_splits option.splits)

lemma effective_fresh: "next_seq usize_max es n \<Longrightarrow> fresh_seq (apply_log_mutations yaml es) n"
  using apply_log_mutations_seqs [of yaml es] by (fastforce simp: next_seq_def)




section \<open>Decisions of a round\<close>

definition requested_ids :: "log \<Rightarrow> string set" where
  "requested_ids rs = {i. \<exists>n s f. (n, HitlApprovalRequested i s f) \<in> set rs}"

definition decides :: "string \<Rightarrow> SessionLogEntry \<Rightarrow> bool" where
  "decides i e = (case e of HitlApprovalDecision j _ _ _ \<Rightarrow> j = i | _ \<Rightarrow> False)"

text \<open>The last decision in the round that came after a request for the same call.\<close>

definition decided_in :: "log \<Rightarrow> string \<Rightarrow> bool \<Rightarrow> string option \<Rightarrow> bool" where
  "decided_in rs i approved remark \<longleftrightarrow>
     (\<exists>us n f vs. rs = us @ (n, HitlApprovalDecision i approved remark f) # vs \<and>
        i \<in> requested_ids us \<and> (\<forall>v \<in> set vs. \<not> decides i (snd v)))"

lemma requested_ids_snoc:
  "requested_ids (rs @ [(n, e)]) =
     requested_ids rs \<union> (case e of HitlApprovalRequested i _ _ \<Rightarrow> {i} | _ \<Rightarrow> {})"
  by (auto simp: requested_ids_def split: SessionLogEntry.splits)

lemma requested_ids_mono: "set us \<subseteq> set rs \<Longrightarrow> requested_ids us \<subseteq> requested_ids rs"
  by (auto simp: requested_ids_def)

lemma decided_in_snoc_other: "\<not> decides i e \<Longrightarrow> decided_in rs i a m \<Longrightarrow> decided_in (rs @ [(n, e)]) i a m"
  unfolding decided_in_def by fastforce

lemma decided_in_snoc_decision:
  "i \<in> requested_ids rs \<Longrightarrow> decided_in (rs @ [(n, HitlApprovalDecision i a m f)]) i a m"
  unfolding decided_in_def by fastforce

interpretation round_scan: log_account decision_scan "({}, Map.empty)"
  "\<lambda>rs st. fst st = requested_ids rs \<and>
     (\<forall>i a m. snd st i = Some (a, m) \<longrightarrow> decided_in rs i a m)"
proof
  show "fst ({}, Map.empty :: string \<rightharpoonup> bool \<times> string option) = requested_ids [] \<and>
      (\<forall>i a m. snd ({}, Map.empty :: string \<rightharpoonup> bool \<times> string option) i = Some (a, m) \<longrightarrow> decided_in [] i a m)"
    by (simp add: requested_ids_def)
  fix rs :: log and st and row :: "seq \<times> SessionLogEntry"
  assume IH: "fst st = requested_ids rs \<and> (\<forall>i a m. snd st i = Some (a, m) \<longrightarrow> decided_in rs i a m)"
  obtain n e seen dec where row: "row = (n, e)" and st: "st = (seen, dec)" by fastforce
  have "decided_in (rs @ [row]) i a m" if "snd (decision_scan st row) i = Some (a, m)" for i a m
  proof (cases "decides i e")
    case True
    then obtain a' m' f where e: "e = HitlApprovalDecision i a' m' f"
      by (auto simp: decides_def split: SessionLogEntry.splits)
    show ?thesis
    proof (cases "i \<in> seen")
      case True
      with that e IH show ?thesis
        using decided_in_snoc_decision [of i rs] by (simp add: decision_scan_def st row)
    next
      case False
      with that e have "dec i = Some (a, m)" by (simp add: decision_scan_def st row)
      with IH have "decided_in rs i a m" by (simp add: st)
      then obtain us n' f' vs where "rs = us @ (n', HitlApprovalDecision i a m f') # vs" "i \<in> requested_ids us"
        unfolding decided_in_def by blast
      then have "i \<in> requested_ids rs" using requested_ids_mono [of us rs] by auto
      with False IH show ?thesis by (simp add: st)
    qed
  next
    case False
    with that have "dec i = Some (a, m)"
      by (cases e) (auto simp: decision_scan_def st row decides_def split: if_splits)
    with IH False show ?thesis using decided_in_snoc_other [of i e rs a m n] by (simp add: st row)
  qed
  with IH show "fst (decision_scan st row) = requested_ids (rs @ [row]) \<and>
      (\<forall>i a m. snd (decision_scan st row) i = Some (a, m) \<longrightarrow> decided_in (rs @ [row]) i a m)"
    by (cases e) (auto simp: decision_scan_def st row requested_ids_snoc)
qed

lemma decision_recorded:
  "d \<in> set (round_decisions o' rs) \<Longrightarrow> decided_in rs (tad_tool_call_id d) (tad_approved d) (tad_reason d)"
  using round_scan.account_run [of rs]
  by (auto simp: round_decisions_def Let_def split: option.splits)

section \<open>An example session\<close>

definition demo_rows :: log where
  "demo_rows = [(1, ToolCalls ''clean up'' None [ToolCall_new ''rm'' JNull (Some ''c1'') None] None None)]"

definition demo_request :: "seq \<times> SessionLogEntry" where
  "demo_request = (2, HitlApprovalRequested ''c1'' ''Remove files?'' 7)"

definition demo_params :: "bool \<Rightarrow> HitlDecisionParams" where
  "demo_params yes = \<lparr>dp_tool_call_id = ''c1'', dp_approved = yes, dp_note = None, dp_request_seq = Some 2\<rparr>"

lemmas demo_eval = demo_rows_def demo_request_def demo_params_def apply_log_mutations_nats_def
  apply_log_mutations_def apply_log_mutations_with_name_def apply_log_step_def u64_max_def
  find_orphan_tool_calls_def orphan_scan_def last_orphan_def tool_round_entries_def partition_point_def
  calls_or_results_def pending_in_round_def pending_row_def supersedes_def ToolCall_new_def
  broker_def tail_seq_def derive_pending_hitl_approvals_def

lemma demo_pending:
  "derive_pending_hitl_approvals 100 (\<lambda>_. None) demo_rows = Inr []"
  "derive_pending_hitl_approvals 100 (\<lambda>_. None) (demo_rows @ [demo_request]) =
     Inr [\<lparr>request_seq = 2, tool_round_seq = 1, tool_call_id = ''c1'', tool_name = ''rm'',
           arguments = JNull, summary = ''Remove files?''\<rparr>]"
  by (simp_all add: demo_eval)



lemma demo_decided:
  "apply_hitl_decision 100 (\<lambda>_. None) True (Inr (demo_rows @ [demo_request])) True
     (broker ((demo_rows @ [demo_request]) @ []) 3) (demo_params True) 7 = Some 3"
  by (simp add: apply_hitl_decision_def demo_pending commit_hitl_decision_def broker_def
      is_eligible_hitl_decision_def matches_requested_approval_def has_terminal_entry_after_def
      is_terminator_def demo_params_def) (simp add: demo_rows_def demo_request_def)

section \<open>Properties\<close>



text \<open>
  C11: Nothing gated runs without a human's yes. When a resumed round asks whether one of its calls
  may run, the answer is approval only if the round's log holds a request for that call followed
  by an approving decision, and no later decision of the round for that call.
\<close>

theorem approved_only_by_decision:
  assumes "derive_hitl_tool_round_continuation usize_max yaml es = Inr (Some c)"
    and "call \<in> set (ptr_calls (cont_round c))"
    and "confirm_override (cont_decisions c) (pending_interrupt_ids c) call reason = Approve"
  shows "\<exists>i eff remark. call_id call = Some i \<and> apply_log_mutations_nats usize_max yaml es = Inr eff \<and>
    decided_in (tool_round_entries eff (ptr_seq (cont_round c))) i True remark"
proof -
  obtain eff o' where eff: "apply_log_mutations_nats usize_max yaml es = Inr eff" and
    c: "ptr_seq (cont_round c) = ptc_seq o'" "ptr_calls (cont_round c) = ptc_calls o'"
      "cont_decisions c = round_decisions o' (tool_round_entries eff (ptc_seq o'))"
    using assms(1)
    by (auto simp: derive_hitl_tool_round_continuation_def split: sum.splits option.splits if_splits)
  obtain i d where i: "call_id call = Some i" and "find (\<lambda>d. tad_tool_call_id d = i) (cont_decisions c) = Some d"
      "tad_approved d"
    using assms(2,3) by (auto simp: confirm_override_def pending_interrupt_ids_def split: option.splits if_splits)
  then have "d \<in> set (cont_decisions c)" "tad_tool_call_id d = i" "tad_approved d"
    by (auto simp: find_Some_iff)
  then have "decided_in (tool_round_entries eff (ptc_seq o')) i True (tad_reason d)"
    using decision_recorded [of d o'] by (auto simp: c)
  with i eff c(1) show ?thesis by auto
qed

theorem approved_only_by_decision_witness:
  "\<exists>i eff remark. call_id (ToolCall_new ''rm'' JNull (Some ''c1'') None) = Some i \<and>
     apply_log_mutations_nats 100 (\<lambda>_. None)
       (demo_rows @ [demo_request, (3, decision_entry_of (demo_params True) 7)]) = Inr eff \<and>
     decided_in (tool_round_entries eff 1) i True remark"
proof -
  let ?c = "\<lparr>cont_round = \<lparr>ptr_seq = 1, ptr_output = ''clean up'', ptr_thought = None,
      ptr_calls = [ToolCall_new ''rm'' JNull (Some ''c1'') None]\<rparr>,
    cont_decisions = [\<lparr>tad_tool_call_id = ''c1'', tad_approved = True, tad_reason = None\<rparr>]\<rparr>"
  have "derive_hitl_tool_round_continuation 100 (\<lambda>_. None)
      (demo_rows @ [demo_request, (3, decision_entry_of (demo_params True) 7)]) = Inr (Some ?c)"
    by (simp add: derive_hitl_tool_round_continuation_def demo_eval decision_entry_of_def hitl_managed_def
        hitl_managed_tool_call_ids_def round_decisions_def decision_scan_def)
  from approved_only_by_decision [OF this, of "ToolCall_new ''rm'' JNull (Some ''c1'') None" None]
  show ?thesis by (simp add: confirm_override_def ToolCall_new_def)
qed

lemma last_orphan_alt:
  "last_orphan eff =
     (if find_orphan_tool_calls eff = [] then None else Some (last (find_orphan_tool_calls eff)))"
  by (simp add: last_orphan_def split: list.split)

lemma last_orphan_open:
  assumes "log_in_order eff" "last_orphan eff = Some o'" "\<not> round_closed eff (ptc_seq o')"
  shows "\<exists>os. foldl orphan_scan ([], None) eff = (os, Some o')"
proof -
  obtain os cur where scan: "foldl orphan_scan ([], None) eff = (os, cur)" by fastforce
  have "last os = o' \<Longrightarrow> os \<noteq> [] \<Longrightarrow> round_closed eff (ptc_seq o')"
    using scan_facts(1) [OF scan assms(1)] last_in_set by blast
  with assms(2,3) scan show ?thesis
    by (auto simp: last_orphan_alt find_orphans_cases [OF scan] split: option.splits if_splits)
qed

text \<open>A decision appended while a round is open becomes the last row of that round.\<close>

lemma round_after_decision:
  assumes "log_in_order eff" "last_orphan eff = Some o'" "\<not> round_closed eff (ptc_seq o')" "fresh_seq eff n"
    and d: "d = HitlApprovalDecision i a m f"
  shows "last_orphan (eff @ [(n, d)]) = Some o'"
    "tool_round_entries (eff @ [(n, d)]) (ptc_seq o') = tool_round_entries eff (ptc_seq o') @ [(n, d)]"
    "pending_in_round o' (tool_round_entries (eff @ [(n, d)]) (ptc_seq o')) =
       filter (\<lambda>p. tool_call_id p \<noteq> i) (pending_in_round o' (tool_round_entries eff (ptc_seq o')))"
proof -
  obtain os where scan: "foldl orphan_scan ([], None) eff = (os, Some o')"
    using last_orphan_open [OF assms(1-3)] by blast
  then show "last_orphan (eff @ [(n, d)]) = Some o'"
    by (simp add: last_orphan_alt find_orphan_tool_calls_def orphan_scan_def d)
  have "ptc_seq o' < n" using scan_facts(2) [OF scan assms(1) refl] assms(4) by auto
  then show rs: "tool_round_entries (eff @ [(n, d)]) (ptc_seq o') = tool_round_entries eff (ptc_seq o') @ [(n, d)]"
    using tool_round_entries_snoc [of eff n d "ptc_seq o'"] assms(1,3,4)
    by (simp add: d calls_or_results_def)
  show "pending_in_round o' (tool_round_entries (eff @ [(n, d)]) (ptc_seq o')) =
      filter (\<lambda>p. tool_call_id p \<noteq> i) (pending_in_round o' (tool_round_entries eff (ptc_seq o')))"
    using pending_in_round_singleton(2) [where o' = o' and row = "(n, d)"]
    unfolding rs by (subst pending_in_round_snoc [OF round_fresh [OF assms(1,4)]])
      (auto simp: answers_def d intro!: filter_cong)
qed

lemma pending_row_SomeD:
  assumes "pending_row o' rs row = Some p"
  obtains s f call where "row = (request_seq p, HitlApprovalRequested (tool_call_id p) s f)"
    "tool_round_seq p = ptc_seq o'" "call \<in> set (ptc_calls o')" "call_id call = Some (tool_call_id p)"
    "\<not> list_ex (supersedes (request_seq p) (tool_call_id p)) rs"
  using assms by (cases row; cases "snd row") (auto simp: pending_row_def find_Some_iff dest: nth_mem split: if_splits)

lemma pending_member:
  assumes "p \<in> set (pending_in_round o' rs)"
  shows "tool_call_id p \<in> requested_ids rs" "tool_round_seq p = ptc_seq o'"
    "\<exists>call \<in> set (ptc_calls o'). call_id call = Some (tool_call_id p)"
proof -
  obtain row where row: "row \<in> set rs" "pending_row o' rs row = Some p"
    using assms by (auto simp: pending_in_round_def)
  from row(2) show "tool_call_id p \<in> requested_ids rs"
    by (rule pending_row_SomeD) (use row(1) in \<open>auto simp: requested_ids_def\<close>)
  from row(2) show "tool_round_seq p = ptc_seq o'" by (rule pending_row_SomeD)
  from row(2) show "\<exists>call \<in> set (ptc_calls o'). call_id call = Some (tool_call_id p)"
    by (rule pending_row_SomeD) blast
qed

lemma find_filter_map_key:
  "x \<in> set xs \<Longrightarrow> key x = Some i \<Longrightarrow> val i = Some v \<Longrightarrow> (\<And>j w. val j = Some w \<Longrightarrow> idx (mk j w) = j) \<Longrightarrow>
     find (\<lambda>d. idx d = i) (filter_map (\<lambda>x. case key x of None \<Rightarrow> None | Some j \<Rightarrow> map_option (mk j) (val j)) xs)
       = Some (mk i v)"
  by (induction xs) (auto split: option.splits)

lemma round_decisions_find:
  assumes "call \<in> set (ptc_calls o')" "call_id call = Some i" "i \<in> requested_ids rs"
  shows "find (\<lambda>d. tad_tool_call_id d = i) (round_decisions o' (rs @ [(n, HitlApprovalDecision i a m f)])) =
    Some \<lparr>tad_tool_call_id = i, tad_approved = a, tad_reason = m\<rparr>"
proof -
  obtain seen dec where scan: "foldl decision_scan ({}, Map.empty) rs = (seen, dec)" by fastforce
  then have "i \<in> seen" using round_scan.account_run [of rs] assms(3) by simp
  then have fold: "snd (foldl decision_scan ({}, Map.empty) (rs @ [(n, HitlApprovalDecision i a m f)])) =
      dec(i \<mapsto> (a, m))"
    by (simp add: scan decision_scan_def)
  show ?thesis
    unfolding round_decisions_def Let_def fold
    using find_filter_map_key [OF assms(1), of call_id i "dec(i \<mapsto> (a, m))" "(a, m)" tad_tool_call_id
        "\<lambda>j (approved, remark). \<lparr>tad_tool_call_id = j, tad_approved = approved, tad_reason = remark\<rparr>"]
      assms(2)
    by (simp add: case_prod_unfold)
qed

lemma continuation_after_decision:
  assumes "log_in_order eff" "last_orphan eff = Some o'" "\<not> round_closed eff (ptc_seq o')" "fresh_seq eff n"
    and d: "d = HitlApprovalDecision i a m f"
    and nats: "apply_log_mutations_nats usize_max yaml es = Inr (eff @ [(n, d)])"
    and p: "p \<in> set (pending_in_round o' (tool_round_entries eff (ptc_seq o')))" "tool_call_id p = i"
  shows "\<exists>c. derive_hitl_tool_round_continuation usize_max yaml es = Inr (Some c) \<and>
    (\<forall>call \<in> set (ptr_calls (cont_round c)). call_id call = Some i \<longrightarrow>
       confirm_override (cont_decisions c) (pending_interrupt_ids c) call None = (if a then Approve else Deny m))"
proof -
  let ?rs = "tool_round_entries eff (ptc_seq o')"
  note after = round_after_decision(1,2) [OF assms(1-4) d]
  have req: "i \<in> requested_ids ?rs" using pending_member(1) [OF p(1)] p(2) by simp
  then have "i \<in> hitl_managed_tool_call_ids (eff @ [(n, d)]) (ptc_seq o')"
    by (force simp: hitl_managed_tool_call_ids_def after(2) requested_ids_def)
  then have "hitl_managed (eff @ [(n, d)]) o'"
    using pending_member(3) [OF p(1)] p(2) by (force simp: hitl_managed_def list_ex_iff)
  then obtain c where c: "derive_hitl_tool_round_continuation usize_max yaml es = Inr (Some c)"
      "ptr_calls (cont_round c) = ptc_calls o'" "cont_decisions c = round_decisions o' (?rs @ [(n, d)])"
    by (simp add: derive_hitl_tool_round_continuation_def nats after)
  moreover have "confirm_override (cont_decisions c) (pending_interrupt_ids c) call None =
      (if a then Approve else Deny m)"
    if "call \<in> set (ptc_calls o')" "call_id call = Some i" for call
    using round_decisions_find [OF that req] that(2)
    by (simp add: confirm_override_def c(3) d split: option.splits)
  ultimately show ?thesis by auto
qed

text \<open>
  C12: An accepted decision takes effect. When a handler commits a decision for a request of the
  round in progress, its view of the log was current, that request is no longer pending while every
  other one still is, and the resumed round runs or refuses the call as the decision says.
\<close>

theorem committed_decision_takes_effect:
  assumes "usize_max \<le> u64_max" "log_ok usize_max (loaded @ unseen)" "next_seq usize_max (loaded @ unseen) n"
    and commit: "apply_hitl_decision usize_max yaml True (Inr loaded) True (broker (loaded @ unseen) n) params f = Some n"
    and round_open: "log_in_order (apply_log_mutations yaml loaded)"
      "last_orphan (apply_log_mutations yaml loaded) = Some o'"
      "\<not> round_closed (apply_log_mutations yaml loaded) (ptc_seq o')"
  shows "\<exists>pending c. unseen = [] \<and> derive_pending_hitl_approvals usize_max yaml loaded = Inr pending \<and>
    derive_pending_hitl_approvals usize_max yaml (loaded @ [(n, decision_entry_of params f)]) =
      Inr (filter (\<lambda>p. tool_call_id p \<noteq> dp_tool_call_id params) pending) \<and>
    derive_hitl_tool_round_continuation usize_max yaml (loaded @ [(n, decision_entry_of params f)]) = Inr (Some c) \<and>
    (\<forall>call \<in> set (ptr_calls (cont_round c)). call_id call = Some (dp_tool_call_id params) \<longrightarrow>
       confirm_override (cont_decisions c) (pending_interrupt_ids c) call None =
         (if dp_approved params then Approve else Deny (dp_note params)))"
proof -
  let ?d = "decision_entry_of params f" and ?eff = "apply_log_mutations yaml loaded"
  let ?rs = "tool_round_entries ?eff (ptc_seq o')" and ?i = "dp_tool_call_id params"
  obtain pending where up: "unseen = []" and pend: "derive_pending_hitl_approvals usize_max yaml loaded = Inr pending"
    and elig: "is_eligible_hitl_decision pending loaded params"
    using decide_step [OF assms(1,2) commit] by blast
  have ok: "log_ok usize_max loaded" "next_seq usize_max loaded n" using assms(2,3) up by simp_all
  note ok' = log_ok_snoc [OF ok, of ?d] and fresh = effective_fresh [OF ok(2), of yaml]
  have p: "pending = pending_in_round o' ?rs"
    using derive_pending_fits [OF assms(1) ok(1), of yaml] pend round_open(2) by simp
  have eff': "apply_log_mutations yaml (loaded @ [(n, ?d)]) = ?eff @ [(n, ?d)]"
    by (simp add: apply_log_mutations_snoc apply_log_step_plain control_row_def decision_entry_of_def)
  note after = round_after_decision [OF round_open fresh decision_entry_of_def]
  have derived: "derive_pending_hitl_approvals usize_max yaml (loaded @ [(n, ?d)]) =
      Inr (filter (\<lambda>p. tool_call_id p \<noteq> ?i) pending)"
    using derive_pending_fits [OF assms(1) ok', of yaml] by (simp add: eff' after(1,3) p)
  have nats: "apply_log_mutations_nats usize_max yaml (loaded @ [(n, ?d)]) = Inr (?eff @ [(n, ?d)])"
    using apply_log_mutations_nats_fits [OF assms(1), of "loaded @ [(n, ?d)]" yaml] ok'
    by (simp add: log_ok_def eff')
  obtain a where "a \<in> set (pending_in_round o' ?rs)" "tool_call_id a = ?i"
    using elig p by (auto simp: is_eligible_hitl_decision_def list_ex_iff matches_requested_approval_def)
  from continuation_after_decision [OF round_open fresh decision_entry_of_def nats this]
  show ?thesis using up pend derived by blast
qed

theorem committed_decision_takes_effect_witness:
  "\<exists>c. derive_pending_hitl_approvals 100 (\<lambda>_. None)
       (demo_rows @ [demo_request, (3, decision_entry_of (demo_params True) 7)]) = Inr [] \<and>
     derive_hitl_tool_round_continuation 100 (\<lambda>_. None)
       (demo_rows @ [demo_request, (3, decision_entry_of (demo_params True) 7)]) = Inr (Some c)"
proof -
  let ?o = "\<lparr>ptc_seq = 1, ptc_text = ''clean up'', ptc_thought = None,
    ptc_calls = [ToolCall_new ''rm'' JNull (Some ''c1'') None], ptc_timestamp = None\<rparr>"
  have "\<exists>pending c. [] = ([] :: log) \<and>
      derive_pending_hitl_approvals 100 (\<lambda>_. None) (demo_rows @ [demo_request]) = Inr pending \<and>
      derive_pending_hitl_approvals 100 (\<lambda>_. None)
        ((demo_rows @ [demo_request]) @ [(3, decision_entry_of (demo_params True) 7)]) =
        Inr (filter (\<lambda>p. tool_call_id p \<noteq> dp_tool_call_id (demo_params True)) pending) \<and>
      derive_hitl_tool_round_continuation 100 (\<lambda>_. None)
        ((demo_rows @ [demo_request]) @ [(3, decision_entry_of (demo_params True) 7)]) = Inr (Some c) \<and>
      (\<forall>call \<in> set (ptr_calls (cont_round c)). call_id call = Some (dp_tool_call_id (demo_params True)) \<longrightarrow>
         confirm_override (cont_decisions c) (pending_interrupt_ids c) call None =
           (if dp_approved (demo_params True) then Approve else Deny (dp_note (demo_params True))))"
    by (rule committed_decision_takes_effect [where unseen = "[]" and o' = ?o, OF _ _ _ demo_decided])
       (simp_all add: demo_eval log_ok_def next_seq_def round_closed_def)
  then show ?thesis by (auto simp: demo_pending demo_params_def)
qed

end
