(* ===== verification/Turn_Outcome.thy ===== *)
theory Turn_Outcome
  imports Reconstruct Approval_State Run_Limits
begin

text \<open>
  What became of a prompt: \<open>harnx-runtime/src/nats_session.rs\<close> (whether a request still needs a
  worker, which row ended it, its reply and error), \<open>terminated_result/timeout.rs\<close> (the
  deadline marker inside a \<open>Cancel\<close>), \<open>nats_worker/agent_loop/selected_input.rs\<close> (which prompts are
  injected into a running turn) and \<open>nats_session/fixed_admission/ticket.rs\<close> (prompts that are
  admitted at one fixed place of the log or not at all).

  \<open>of_json\<close> parses a timing receipt, \<open>to_text\<close> of \<open>serde_json\<close> is \<open>terminal_text\<close> and
  its inverse \<open>terminal_of\<close>.
\<close>

section \<open>Deadline terminals\<close>

datatype TimeoutScope = LocalInvocation | InheritedDeadline | OuterRun

record TimeoutTerminal =
  tt_scope :: TimeoutScope
  tt_deadline :: instant
  tt_run_id :: string
  tt_invocation_id :: string

definition TIMEOUT_TERMINAL_PREFIX :: string where
  "TIMEOUT_TERMINAL_PREFIX = ''harnx:timeout ''"

definition terminal_from_record :: "RunLimitsRecord \<Rightarrow> TimeoutTerminal option" where
  "terminal_from_record r =
     map_option (\<lambda>deadline.
         \<lparr>tt_scope = (if rec_parent_invocation r = None then OuterRun
                      else case rec_policy_source r of
                             InheritedFrom _ \<Rightarrow> InheritedDeadline
                           | _ \<Rightarrow> LocalInvocation),
          tt_deadline = deadline, tt_run_id = rec_run_id r, tt_invocation_id = rec_invocation_id r\<rparr>)
       (rec_deadline r)"

definition terminal_message :: "(TimeoutTerminal \<Rightarrow> string) \<Rightarrow> TimeoutTerminal \<Rightarrow> string" where
  "terminal_message terminal_text t = ''worker deadline: '' @ TIMEOUT_TERMINAL_PREFIX @ terminal_text t"

definition parse_timeout_terminal :: "(string \<Rightarrow> TimeoutTerminal option) \<Rightarrow> string \<Rightarrow> TimeoutTerminal option" where
  "parse_timeout_terminal terminal_of message =
     (case str_rfind message TIMEOUT_TERMINAL_PREFIX of
        None \<Rightarrow> None
      | Some start \<Rightarrow>
          (case terminal_of (drop (start + length TIMEOUT_TERMINAL_PREFIX) message) of
             None \<Rightarrow> None
           | Some terminal \<Rightarrow>
               if tt_run_id terminal = [] \<or> tt_invocation_id terminal = [] then None else Some terminal))"

section \<open>Requests and their outcome\<close>

datatype RequestedSeqStatus = Pending | Covered

definition requested_seq_status_with_effective ::
  "nat \<Rightarrow> yaml_parser \<Rightarrow> (string \<Rightarrow> TimingReceipt option) \<Rightarrow> log \<Rightarrow> log \<Rightarrow> seq \<Rightarrow> RequestedSeqStatus" where
  "requested_seq_status_with_effective usize_max yaml of_json entries effective requested_seq =
     (if prompt_is_covered entries requested_seq then Covered
      else if list_ex (\<lambda>row. fst row = requested_seq) effective then Pending
      else (let reconstructed = reconstruct_state_from_nats usize_max yaml of_json entries
            in if next_turn_messages reconstructed = [] \<and> resumable_ctx reconstructed = None
               then Covered else Pending))"

definition requested_seq_status ::
  "nat \<Rightarrow> yaml_parser \<Rightarrow> (string \<Rightarrow> TimingReceipt option) \<Rightarrow> log \<Rightarrow> seq \<Rightarrow> SeqError + RequestedSeqStatus" where
  "requested_seq_status usize_max yaml of_json entries requested_seq =
     (case apply_log_mutations_nats usize_max yaml entries of
        Inl err \<Rightarrow> Inl err
      | Inr effective \<Rightarrow>
          Inr (requested_seq_status_with_effective usize_max yaml of_json entries effective requested_seq))"

definition maintenance_id :: "log \<Rightarrow> seq \<Rightarrow> string option" where
  "maintenance_id entries prompt =
     find_map (\<lambda>row. case snd row of
         CompactRequest _ compaction_id _ _ \<Rightarrow> if fst row = prompt then Some compaction_id else None
       | _ \<Rightarrow> None) entries"

definition ends_invocation :: "string option \<Rightarrow> seq \<Rightarrow> seq \<times> SessionLogEntry \<Rightarrow> bool" where
  "ends_invocation maintenance prompt row \<longleftrightarrow> prompt < fst row \<and>
     (case snd row of
        TurnEnd through_seq _ _ _ \<Rightarrow> maintenance = None \<and> prompt \<le> through_seq
      | Cancel _ _ _ _ \<Rightarrow> True
      | Error _ _ _ \<Rightarrow> True
      | CompactResult compaction_id _ _ \<Rightarrow> maintenance = Some compaction_id
      | _ \<Rightarrow> False)"

definition invocation_terminal_seq :: "log \<Rightarrow> seq \<Rightarrow> seq option" where
  "invocation_terminal_seq entries prompt =
     map_option fst (find (ends_invocation (maintenance_id entries prompt) prompt) entries)"

definition is_turn_completion_visible ::
  "nat \<Rightarrow> yaml_parser \<Rightarrow> (string \<Rightarrow> TimingReceipt option) \<Rightarrow> log \<Rightarrow> log option \<Rightarrow> seq \<Rightarrow> bool" where
  "is_turn_completion_visible usize_max yaml of_json entries effective user_msg_seq =
     (let status = (case effective of
              None \<Rightarrow> (case requested_seq_status usize_max yaml of_json entries user_msg_seq of
                         Inl _ \<Rightarrow> None | Inr st \<Rightarrow> Some st)
            | Some eff \<Rightarrow>
                Some (requested_seq_status_with_effective usize_max yaml of_json entries eff user_msg_seq));
          awaiting_hitl = (case derive_pending_hitl_approvals usize_max yaml entries of
              Inl _ \<Rightarrow> False
            | Inr pending \<Rightarrow> list_ex (\<lambda>approval. user_msg_seq < tool_round_seq approval) pending)
      in status = Some Covered \<or> awaiting_hitl)"

text \<open>\<open>unwrap_or(u64::MAX)\<close>: without a terminator every later row counts.\<close>

definition turn_end_bound :: "log \<Rightarrow> seq \<Rightarrow> seq" where
  "turn_end_bound entries user_msg_seq =
     (case invocation_terminal_seq entries user_msg_seq of None \<Rightarrow> u64_max | Some s \<Rightarrow> s)"

definition turn_rows :: "log \<Rightarrow> seq \<Rightarrow> log" where
  "turn_rows entries user_msg_seq =
     filter (\<lambda>row. user_msg_seq < fst row \<and> fst row \<le> turn_end_bound entries user_msg_seq) entries"

definition extract_turn_error ::
  "(string \<Rightarrow> TimeoutTerminal option) \<Rightarrow> log \<Rightarrow> seq \<Rightarrow> string option" where
  "extract_turn_error terminal_of entries user_msg_seq =
     find_map (\<lambda>row. case snd row of
         Error message _ _ \<Rightarrow> Some message
       | Cancel _ _ (Some reason) _ \<Rightarrow>
           if parse_timeout_terminal terminal_of reason \<noteq> None then Some reason else None
       | _ \<Rightarrow> None) (rev (turn_rows entries user_msg_seq))"

definition extract_final_response ::
  "nat \<Rightarrow> yaml_parser \<Rightarrow> log \<Rightarrow> seq \<Rightarrow> string option" where
  "extract_final_response usize_max yaml entries user_msg_seq =
     (case apply_log_mutations_nats usize_max yaml (turn_rows entries user_msg_seq) of
        Inl _ \<Rightarrow> None
      | Inr effective \<Rightarrow>
          find_map (\<lambda>row. case snd row of
              Message _ role content _ _ \<Rightarrow> if is_assistant role then Some (to_text content) else None
            | _ \<Rightarrow> None) (rev effective))"

definition extract_turn_outcome ::
  "nat \<Rightarrow> yaml_parser \<Rightarrow> (string \<Rightarrow> TimeoutTerminal option) \<Rightarrow> log \<Rightarrow> seq \<Rightarrow> string option \<times> string option" where
  "extract_turn_outcome usize_max yaml terminal_of entries user_msg_seq =
     (extract_final_response usize_max yaml entries user_msg_seq,
      extract_turn_error terminal_of entries user_msg_seq)"

record NatsTurnResult =
  tr_response :: "string option"
  tr_session_id :: string
  tr_was_cancelled :: bool
  tr_error :: "string option"
  tr_user_msg_seq :: seq
  tr_user_msg_id :: string

section \<open>Prompts for a running turn\<close>

definition is_executable_user_message ::
  "(string \<Rightarrow> TimingReceipt option) \<Rightarrow> string option \<Rightarrow> MessageRole \<Rightarrow> MessageContent \<Rightarrow> bool" where
  "is_executable_user_message of_json i role content \<longleftrightarrow>
     is_user role \<and> \<not> is_timing_notice of_json (to_text content) \<and> \<not> is_runtime_note_id i"

definition executable_user_message_id ::
  "(string \<Rightarrow> TimingReceipt option) \<Rightarrow> SessionLogEntry \<Rightarrow> string option option" where
  "executable_user_message_id of_json entry =
     (case entry of
        Message i role content _ _ \<Rightarrow>
          if is_executable_user_message of_json i role content then Some i else None
      | _ \<Rightarrow> None)"

definition advance_cursor :: "seq option \<Rightarrow> seq \<Rightarrow> seq" where
  "advance_cursor cursor s = (case cursor of None \<Rightarrow> s | Some seen \<Rightarrow> max seen s)"

text \<open>One iteration of the fold: ids seen, messages selected, newest sequence. \<open>now\<close> is the clock.\<close>

definition fold_user_step ::
  "(string \<Rightarrow> TimingReceipt option) \<Rightarrow> instant \<Rightarrow> seq option
     \<Rightarrow> string set \<times> Message list \<times> seq option \<Rightarrow> seq \<times> SessionLogEntry
     \<Rightarrow> string set \<times> Message list \<times> seq option" where
  "fold_user_step of_json now cursor st row =
     (case (st, row) of ((seen_ids, messages, latest_seq), (s, entry)) \<Rightarrow>
       (case entry of
          Message i role content timestamp _ \<Rightarrow>
            if \<not> is_executable_user_message of_json i role content then st
            else (let is_copy = (case i of None \<Rightarrow> False | Some j \<Rightarrow> j \<in> seen_ids);
                      seen_ids' = (case i of None \<Rightarrow> seen_ids | Some j \<Rightarrow> insert j seen_ids)
                  in if is_copy \<or> (case cursor of None \<Rightarrow> False | Some seen \<Rightarrow> s \<le> seen)
                     then (seen_ids', messages, latest_seq)
                     else (seen_ids',
                           messages @ [\<lparr>msg_role = role, msg_content = content, msg_id = i,
                             msg_log_seq = Some s,
                             msg_log_timestamp = Some (case timestamp of Some ts \<Rightarrow> ts | None \<Rightarrow> now)\<rparr>],
                           Some (advance_cursor latest_seq s)))
        | _ \<Rightarrow> st))"

definition fold_new_user_messages_since ::
  "nat \<Rightarrow> yaml_parser \<Rightarrow> (string \<Rightarrow> TimingReceipt option) \<Rightarrow> instant \<Rightarrow> log \<Rightarrow> seq option
     \<Rightarrow> Message list \<times> seq option" where
  "fold_new_user_messages_since usize_max yaml of_json now entries cursor =
     (case apply_log_mutations_nats usize_max yaml entries of
        Inl _ \<Rightarrow> ([], cursor)
      | Inr effective_entries \<Rightarrow>
          snd (foldl (fold_user_step of_json now cursor) ({}, [], cursor) effective_entries))"

text \<open>
  \<open>restore_selected_user_messages\<close> on the live and the archived messages of a session: one
  iteration over the selected messages from the last to the first, with the insertion point.
\<close>

definition restore_step :: "Message list \<Rightarrow> nat \<times> Message list \<Rightarrow> Message \<Rightarrow> nat \<times> Message list" where
  "restore_step compressed_messages st message =
     (case st of (insert_at, messages) \<Rightarrow>
       (case position (\<lambda>live. same_identity live message) messages of
          Some index \<Rightarrow> (index, messages)
        | None \<Rightarrow>
            (case find (\<lambda>archived. same_identity archived message) (rev compressed_messages) of
               Some archived \<Rightarrow> (insert_at, take insert_at messages @ archived # drop insert_at messages)
             | None \<Rightarrow> (insert_at, messages))))"

definition restore_selected_user_messages :: "Message list \<Rightarrow> Message list \<Rightarrow> Message list \<Rightarrow> Message list" where
  "restore_selected_user_messages messages compressed_messages selected =
     snd (foldl (restore_step compressed_messages) (length messages, messages) (rev selected))"

section \<open>Fixed admissions\<close>

record FixedAdmissionTicket =
  tk_storage_key :: string
  tk_invocation_id :: string
  tk_prompt_id :: string
  tk_closure_id :: string
  tk_expected_predecessor :: seq

datatype FixedAdmissionOutcome = AdmissionPending | Admitted seq | Closed seq | Fenced seq

datatype TicketError =
    EmptyIdentity | UnsafeInvocation | ReservedPrompt | ReservedInvocation | PredecessorOverflow
  | WrongPredecessor | LogGap | ClosureMismatch

definition kv_safe :: "char \<Rightarrow> bool" where
  "kv_safe c \<longleftrightarrow>
     (let b = (of_char c :: nat)
      in 48 \<le> b \<and> b \<le> 57 \<or> 65 \<le> b \<and> b \<le> 90 \<or> 97 \<le> b \<and> b \<le> 122 \<or> b = 45 \<or> b = 95)"

definition ticket_validate :: "FixedAdmissionTicket \<Rightarrow> TicketError + unit" where
  "ticket_validate t =
     (if tk_storage_key t = [] \<or> tk_prompt_id t = [] \<or> tk_closure_id t = [] then Inl EmptyIdentity
      else if tk_invocation_id t = [] \<or> \<not> list_all kv_safe (tk_invocation_id t) then Inl UnsafeInvocation
      else if is_reserved_message_id (tk_prompt_id t) then Inl ReservedPrompt
      else if is_reserved_message_id (tk_invocation_id t) then Inl ReservedInvocation
      else if u64_max \<le> tk_expected_predecessor t then Inl PredecessorOverflow
      else Inr ())"

definition ticket_from_parts ::
  "string \<Rightarrow> string \<Rightarrow> string \<Rightarrow> string \<Rightarrow> seq \<Rightarrow> TicketError + FixedAdmissionTicket" where
  "ticket_from_parts storage_key invocation_id prompt_id closure_id expected_predecessor =
     (let t = \<lparr>tk_storage_key = storage_key, tk_invocation_id = invocation_id, tk_prompt_id = prompt_id,
               tk_closure_id = closure_id, tk_expected_predecessor = expected_predecessor\<rparr>
      in case ticket_validate t of Inl err \<Rightarrow> Inl err | Inr _ \<Rightarrow> Inr t)"

definition is_ticket_prompt :: "FixedAdmissionTicket \<Rightarrow> SessionLogEntry \<Rightarrow> bool" where
  "is_ticket_prompt t e =
     (case e of Message (Some i) role _ _ _ \<Rightarrow> is_user role \<and> i = tk_prompt_id t | _ \<Rightarrow> False)"

definition ticket_outcome :: "FixedAdmissionTicket \<Rightarrow> log \<Rightarrow> TicketError + FixedAdmissionOutcome" where
  "ticket_outcome t entries =
     (case ticket_validate t of
        Inl err \<Rightarrow> Inl err
      | Inr _ \<Rightarrow>
          (let successor = tk_expected_predecessor t + 1
           in case find (\<lambda>row. is_ticket_prompt t (snd row)) entries of
                Some (s, _) \<Rightarrow> if s = successor then Inr (Admitted s) else Inl WrongPredecessor
              | None \<Rightarrow>
                  (case find (\<lambda>row. fst row = successor) entries of
                     None \<Rightarrow> if tail_seq entries = tk_expected_predecessor t then Inr AdmissionPending
                             else Inl LogGap
                   | Some (s, entry) \<Rightarrow>
                       (case entry of
                          AdmissionClosed invocation_id prompt_id closure_id expected_predecessor \<Rightarrow>
                            if invocation_id = tk_invocation_id t \<and> prompt_id = tk_prompt_id t
                            then (if closure_id = tk_closure_id t \<and>
                                     expected_predecessor = tk_expected_predecessor t
                                  then Inr (Closed s) else Inl ClosureMismatch)
                            else Inr (Fenced s)
                        | _ \<Rightarrow> Inr (Fenced s)))))"

definition close_entry :: "FixedAdmissionTicket \<Rightarrow> SessionLogEntry" where
  "close_entry t =
     AdmissionClosed (tk_invocation_id t) (tk_prompt_id t) (tk_closure_id t) (tk_expected_predecessor t)"

definition admission_closed :: "log \<Rightarrow> string \<Rightarrow> string \<Rightarrow> bool" where
  "admission_closed entries invocation prompt =
     list_ex (\<lambda>row. case snd row of
         AdmissionClosed invocation_id prompt_id _ _ \<Rightarrow> invocation_id = invocation \<or> prompt_id = prompt
       | _ \<Rightarrow> False) entries"

section \<open>Competing for one place in the log\<close>

text \<open>
  The writers of a fixed admission: a client that found the ticket pending in some earlier view of
  the log appends its prompt, or the closure, under the ticket's predecessor as expected last
  sequence; everyone else appends rows that are not the ticket's own. The broker numbers the
  rows of a session's stream consecutively.
\<close>

definition numbered :: "log \<Rightarrow> bool" where
  "numbered es \<longleftrightarrow> map fst es = [1..<Suc (length es)]"

definition is_ticket_close :: "FixedAdmissionTicket \<Rightarrow> SessionLogEntry \<Rightarrow> bool" where
  "is_ticket_close t e =
     (case e of
        AdmissionClosed invocation_id prompt_id _ _ \<Rightarrow>
          invocation_id = tk_invocation_id t \<and> prompt_id = tk_prompt_id t
      | _ \<Rightarrow> False)"

inductive fixed_step :: "FixedAdmissionTicket \<Rightarrow> log \<Rightarrow> log \<Rightarrow> bool" for t where
  prompt: "\<lbrakk>ticket_outcome t loaded = Inr AdmissionPending; tail_seq (loaded @ unseen) = tk_expected_predecessor t\<rbrakk>
    \<Longrightarrow> fixed_step t (loaded @ unseen) ((loaded @ unseen) @
          [(Suc (tail_seq (loaded @ unseen)), Message (Some (tk_prompt_id t)) User content None None)])"
| close: "\<lbrakk>ticket_outcome t loaded = Inr AdmissionPending; tail_seq (loaded @ unseen) = tk_expected_predecessor t\<rbrakk>
    \<Longrightarrow> fixed_step t (loaded @ unseen) ((loaded @ unseen) @ [(Suc (tail_seq (loaded @ unseen)), close_entry t)])"
| other: "\<lbrakk>\<not> is_ticket_prompt t e; \<not> is_ticket_close t e\<rbrakk>
    \<Longrightarrow> fixed_step t es (es @ [(Suc (tail_seq es), e)])"

definition ticket_rows_placed :: "FixedAdmissionTicket \<Rightarrow> log \<Rightarrow> bool" where
  "ticket_rows_placed t es \<longleftrightarrow> numbered es \<and> tk_expected_predecessor t \<le> length es \<and>
     (\<forall>r \<in> set es. is_ticket_prompt t (snd r) \<longrightarrow> fst r = Suc (tk_expected_predecessor t)) \<and>
     (\<forall>r \<in> set es. is_ticket_close t (snd r) \<longrightarrow>
        fst r = Suc (tk_expected_predecessor t) \<and> snd r = close_entry t)"

lemma numbered_nth: "numbered es \<Longrightarrow> i < length es \<Longrightarrow> fst (es ! i) = Suc i"
  using nth_map [of i es fst] by (simp add: numbered_def del: upt_Suc)

lemma numbered_tail: "numbered es \<Longrightarrow> tail_seq es = length es"
  using numbered_nth [of es "length es - 1"] by (simp add: tail_seq_def last_conv_nth)

lemma numbered_snoc: "numbered es \<Longrightarrow> numbered (es @ [(Suc (tail_seq es), e)])"
  by (simp add: numbered_tail) (simp add: numbered_def)

lemma numbered_find:
  assumes "numbered es"
  shows "find (\<lambda>r. fst r = Suc k) es = (if k < length es then Some (es ! k) else None)"
proof (cases "k < length es")
  case True
  with assms show ?thesis by (auto simp: find_Some_iff numbered_nth intro!: exI [of _ k])
next
  case False
  have "fst r \<noteq> Suc k" if "r \<in> set es" for r
    using that False numbered_nth [OF assms] by (fastforce simp: in_set_conv_nth)
  with False show ?thesis by (fastforce simp: find_None_iff)
qed

lemma fixed_step_placed:
  assumes "fixed_step t es es'" "ticket_rows_placed t es"
  shows "ticket_rows_placed t es' \<and> (\<exists>row. es' = es @ [row])"
  using assms
proof cases
  case (other e)
  then show ?thesis using assms(2) numbered_snoc [of es e] by (auto simp: ticket_rows_placed_def)
next
  case (prompt loaded unseen content)
  then show ?thesis
    using assms(2) numbered_snoc [of "loaded @ unseen" "Message (Some (tk_prompt_id t)) User content None None"]
    by (auto simp: ticket_rows_placed_def is_ticket_close_def)
next
  case (close loaded unseen)
  then show ?thesis
    using assms(2) numbered_snoc [of "loaded @ unseen" "close_entry t"]
    by (auto simp: ticket_rows_placed_def close_entry_def is_ticket_prompt_def)
qed

lemma fixed_steps_placed:
  assumes "(fixed_step t)\<^sup>*\<^sup>* es es'" "ticket_rows_placed t es"
  shows "ticket_rows_placed t es' \<and> (\<exists>later. es' = es @ later)"
  using assms(1)
proof (induction rule: rtranclp_induct)
  case base
  show ?case using assms(2) by simp
next
  case (step es1 es2)
  then show ?case using fixed_step_placed [of t es1 es2] by fastforce
qed

text \<open>The row behind the predecessor decides.\<close>

definition verdict :: "FixedAdmissionTicket \<Rightarrow> seq \<times> SessionLogEntry \<Rightarrow> FixedAdmissionOutcome" where
  "verdict t row =
     (if is_ticket_prompt t (snd row) then Admitted (fst row)
      else if is_ticket_close t (snd row) then Closed (fst row) else Fenced (fst row))"

lemma ticket_outcome_placed:
  assumes "ticket_validate t = Inr ()" "ticket_rows_placed t es"
  shows "ticket_outcome t es = Inr (if length es = tk_expected_predecessor t then AdmissionPending
    else verdict t (es ! tk_expected_predecessor t))"
proof -
  let ?p = "tk_expected_predecessor t" and ?P = "\<lambda>row. is_ticket_prompt t (snd row)"
  have num: "numbered es" "?p \<le> length es" using assms(2) by (auto simp: ticket_rows_placed_def)
  show ?thesis
  proof (cases "find ?P es")
    case (Some row)
    then obtain i where i: "i < length es" "row = es ! i" "?P row" by (auto simp: find_Some_iff)
    then have "fst row = Suc ?p" using assms(2) nth_mem by (fastforce simp: ticket_rows_placed_def)
    with i num have "i = ?p" by (simp add: numbered_nth)
    with i Some \<open>fst row = Suc ?p\<close> assms(1) show ?thesis
      by (auto simp: ticket_outcome_def verdict_def split: prod.splits)
  next
    case None
    show ?thesis
    proof (cases "length es = ?p")
      case True
      with None num assms(1) show ?thesis
        by (simp add: ticket_outcome_def numbered_find numbered_tail)
    next
      case False
      with num have lt: "?p < length es" by simp
      obtain s e where row: "es ! ?p = (s, e)" by fastforce
      have "\<not> is_ticket_prompt t e" using None lt row nth_mem [OF lt] by (fastforce simp: find_None_iff)
      moreover have "is_ticket_close t e \<longrightarrow> e = close_entry t"
        using assms(2) row nth_mem [OF lt] by (fastforce simp: ticket_rows_placed_def)
      ultimately show ?thesis
        using None num lt row False assms(1)
        by (auto simp: ticket_outcome_def numbered_find verdict_def is_ticket_close_def close_entry_def
            split: SessionLogEntry.splits)
    qed
  qed
qed

section \<open>Properties\<close>

text \<open>
  A fixed admission is decided once and for good. However prompt, closure and other rows race
  for the log, the ticket's outcome is always defined, it is pending exactly as long as the
  log ends at the ticket's predecessor, and once it is admitted, closed or fenced no later row
  changes it: a closed or fenced prompt can never be admitted, nor an admitted one closed.
\<close>

theorem fixed_admission_settles:
  assumes "ticket_validate t = Inr ()" "ticket_rows_placed t start"
    and "(fixed_step t)\<^sup>*\<^sup>* start es" "(fixed_step t)\<^sup>*\<^sup>* es es'"
  shows "\<exists>x. ticket_outcome t es = Inr x \<and> (x = AdmissionPending \<longleftrightarrow> tail_seq es = tk_expected_predecessor t) \<and>
    (x \<noteq> AdmissionPending \<longrightarrow> ticket_outcome t es' = Inr x)"
proof -
  have es: "ticket_rows_placed t es" using fixed_steps_placed [OF assms(3,2)] by blast
  obtain later where es': "ticket_rows_placed t es'" "es' = es @ later"
    using fixed_steps_placed [OF assms(4) es] by blast
  have num: "numbered es" "tk_expected_predecessor t \<le> length es" using es by (auto simp: ticket_rows_placed_def)
  have "verdict t row \<noteq> AdmissionPending" for row by (simp add: verdict_def)
  moreover have "ticket_outcome t es' = ticket_outcome t es" if "length es \<noteq> tk_expected_predecessor t"
    using that num(2) unfolding ticket_outcome_placed [OF assms(1) es] ticket_outcome_placed [OF assms(1) es'(1)]
    by (simp add: es'(2) nth_append)
  ultimately show ?thesis using num(1) by (simp add: ticket_outcome_placed [OF assms(1) es] numbered_tail)
qed

definition demo_ticket :: FixedAdmissionTicket where
  "demo_ticket = \<lparr>tk_storage_key = ''s'', tk_invocation_id = ''inv-1'', tk_prompt_id = ''p'',
     tk_closure_id = ''c'', tk_expected_predecessor = 1\<rparr>"

theorem fixed_admission_settles_witness:
  "\<exists>x. ticket_outcome demo_ticket [(1, Clear), (2, close_entry demo_ticket)] = Inr x \<and>
     (x = AdmissionPending \<longleftrightarrow> tail_seq [(1, Clear), (2, close_entry demo_ticket)] = tk_expected_predecessor demo_ticket) \<and>
     (x \<noteq> AdmissionPending \<longrightarrow>
        ticket_outcome demo_ticket [(1, Clear), (2, close_entry demo_ticket), (3, Compress ''s'')] = Inr x)"
proof (rule fixed_admission_settles)
  show valid: "ticket_validate demo_ticket = Inr ()"
    by (simp add: ticket_validate_def demo_ticket_def kv_safe_def is_reserved_message_id_def
        is_runtime_note_message_id_def RUNTIME_NOTE_ID_PREFIX_def TIMING_MESSAGE_ID_PREFIX_def starts_with_def u64_max_def)
  show "ticket_rows_placed demo_ticket [(1, Clear)]"
    by (simp add: ticket_rows_placed_def numbered_def demo_ticket_def is_ticket_prompt_def is_ticket_close_def)
  have "ticket_outcome demo_ticket [(1, Clear)] = Inr AdmissionPending"
    using valid by (simp add: ticket_outcome_def is_ticket_prompt_def tail_seq_def) (simp add: demo_ticket_def)
  from fixed_step.close [OF this, of "[]"]
  have "fixed_step demo_ticket [(1, Clear)] [(1, Clear), (2, close_entry demo_ticket)]"
    by (simp add: tail_seq_def demo_ticket_def numeral_2_eq_2)
  then show "(fixed_step demo_ticket)\<^sup>*\<^sup>* [(1, Clear)] [(1, Clear), (2, close_entry demo_ticket)]" by simp
  have "fixed_step demo_ticket [(1, Clear), (2, close_entry demo_ticket)]
      ([(1, Clear), (2, close_entry demo_ticket)] @
        [(Suc (tail_seq [(1, Clear), (2, close_entry demo_ticket)]), Compress ''s'')])"
    by (rule fixed_step.other) (simp_all add: is_ticket_prompt_def is_ticket_close_def)
  then show "(fixed_step demo_ticket)\<^sup>*\<^sup>* [(1, Clear), (2, close_entry demo_ticket)]
      [(1, Clear), (2, close_entry demo_ticket), (3, Compress ''s'')]"
    by (simp add: tail_seq_def)
qed

text \<open>The rows of an invocation end with its terminator.\<close>

lemma find_append_Some: "find P xs = Some x \<Longrightarrow> find P (xs @ ys) = Some x"
  by (induction xs) auto

lemma maintenance_id_append:
  "(\<forall>r \<in> set later. fst r \<noteq> p) \<Longrightarrow> maintenance_id (es @ later) p = maintenance_id es p"
proof -
  assume "\<forall>r \<in> set later. fst r \<noteq> p"
  then have "find_map (\<lambda>row. case snd row of
      CompactRequest _ compaction_id _ _ \<Rightarrow> if fst row = p then Some compaction_id else None
    | _ \<Rightarrow> None) later = None"
    by (auto simp: find_map_None_iff split: SessionLogEntry.splits)
  then show ?thesis by (simp add: maintenance_id_def find_map_append split: option.splits)
qed

lemma invocation_terminal_stable:
  assumes "invocation_terminal_seq es p = Some t" "\<forall>r \<in> set later. t < fst r"
  shows "invocation_terminal_seq (es @ later) p = Some t" "turn_rows (es @ later) p = turn_rows es p"
proof -
  obtain row where row: "find (ends_invocation (maintenance_id es p) p) es = Some row" "fst row = t"
    using assms(1) by (auto simp: invocation_terminal_seq_def)
  then have "p < t" by (auto simp: find_Some_iff ends_invocation_def)
  then have "maintenance_id (es @ later) p = maintenance_id es p"
    using assms(2) by (intro maintenance_id_append) auto
  with row show stable: "invocation_terminal_seq (es @ later) p = Some t"
    by (simp add: invocation_terminal_seq_def find_append_Some)
  have "filter (\<lambda>r. p < fst r \<and> fst r \<le> t) later = []" using assms(2) by (auto simp: filter_empty_conv)
  then show "turn_rows (es @ later) p = turn_rows es p"
    by (simp add: turn_rows_def turn_end_bound_def stable assms(1))
qed

lemma terminal_covers:
  assumes "invocation_terminal_seq es p = Some t" "maintenance_id es p = None"
  shows "prompt_is_covered es p"
proof -
  obtain row where "find (ends_invocation None p) es = Some row"
    using assms by (auto simp: invocation_terminal_seq_def)
  then have "row \<in> set es" "ends_invocation None p row" by (auto simp: find_Some_iff)
  moreover then have "covers_prompt p row"
    by (cases row; cases "snd row") (auto simp: ends_invocation_def covers_prompt_def)
  ultimately show ?thesis by (auto simp: prompt_is_covered_iff)
qed

text \<open>
  C38: A finished invocation keeps its result. Once the log holds the row that ended a prompt's
  invocation, no row appended later changes that row, the reply, the error or, for a prompt, that
  the request counts as covered: a later turn never leaks into an earlier turn's outcome.
\<close>

theorem finished_outcome_is_final:
  assumes "invocation_terminal_seq es p = Some t" "\<forall>r \<in> set later. t < fst r" "maintenance_id es p = None"
  shows "invocation_terminal_seq (es @ later) p = Some t \<and>
    extract_turn_outcome usize_max yaml terminal_of (es @ later) p =
      extract_turn_outcome usize_max yaml terminal_of es p \<and>
    requested_seq_status_with_effective usize_max yaml of_json (es @ later) effective p = Covered"
proof -
  note stable = invocation_terminal_stable [OF assms(1,2)]
  have "prompt_is_covered es p" using terminal_covers [OF assms(1,3)] .
  then have "prompt_is_covered (es @ later) p" by (auto simp: prompt_is_covered_iff)
  with stable show ?thesis
    by (simp add: extract_turn_outcome_def extract_final_response_def extract_turn_error_def
        requested_seq_status_with_effective_def)
qed

theorem finished_outcome_is_final_witness:
  "let es = [(1, Message None User (Text ''go'') None None), (2, Error ''failed'' 0 None)];
       later = [(3, Message None User (Text ''again'') None None), (4, Error ''other'' 0 None)]
   in invocation_terminal_seq (es @ later) 1 = Some 2 \<and>
      extract_turn_error (\<lambda>_. None) (es @ later) 1 = Some ''failed''"
proof -
  let ?es = "[(1, Message None User (Text ''go'') None None), (2, Error ''failed'' 0 None)]"
  let ?after = "[(3, Message None User (Text ''again'') None None), (4, Error ''other'' 0 None)]"
  have main: "maintenance_id ?es 1 = None" by (simp add: maintenance_id_def)
  then have terminal: "invocation_terminal_seq ?es (Suc 0) = Some 2"
    by (simp add: invocation_terminal_seq_def ends_invocation_def)
  then have "extract_turn_error (\<lambda>_. None) ?es 1 = Some ''failed''"
    by (simp add: extract_turn_error_def turn_rows_def turn_end_bound_def)
  with terminal show ?thesis
    using finished_outcome_is_final [of ?es 1 2 ?after 0 "\<lambda>_. None" "\<lambda>_. None" "\<lambda>_. None" "[]"] main
    by (simp add: Let_def extract_turn_outcome_def)
qed

section \<open>Prompts are injected once\<close>

definition exec_ids :: "(string \<Rightarrow> TimingReceipt option) \<Rightarrow> log \<Rightarrow> string set" where
  "exec_ids of_json rows = {j. \<exists>r \<in> set rows. executable_user_message_id of_json (snd r) = Some (Some j)}"

text \<open>The rows that are prompts and not copies of an earlier one.\<close>

fun new_prompts :: "(string \<Rightarrow> TimingReceipt option) \<Rightarrow> string set \<Rightarrow> log \<Rightarrow> log" where
  "new_prompts of_json seen [] = []"
| "new_prompts of_json seen (row # rows) =
     (case executable_user_message_id of_json (snd row) of
        None \<Rightarrow> new_prompts of_json seen rows
      | Some None \<Rightarrow> row # new_prompts of_json seen rows
      | Some (Some j) \<Rightarrow> (if j \<in> seen then [] else [row]) @ new_prompts of_json (insert j seen) rows)"

fun prompt_message :: "instant \<Rightarrow> seq \<times> SessionLogEntry \<Rightarrow> Message" where
  "prompt_message now (s, Message i role content timestamp f) =
     \<lparr>msg_role = role, msg_content = content, msg_id = i, msg_log_seq = Some s,
      msg_log_timestamp = Some (case timestamp of Some ts \<Rightarrow> ts | None \<Rightarrow> now)\<rparr>"
| "prompt_message now (s, e) = Message_new User (Text [])"

definition past_cursor :: "seq option \<Rightarrow> seq \<times> SessionLogEntry \<Rightarrow> bool" where
  "past_cursor cursor row = (case cursor of None \<Rightarrow> True | Some seen \<Rightarrow> seen < fst row)"

lemma exec_ids_simps [simp]:
  "exec_ids of_json [] = {}"
  "exec_ids of_json (row # rows) =
     {j. executable_user_message_id of_json (snd row) = Some (Some j)} \<union> exec_ids of_json rows"
  by (auto simp: exec_ids_def)

lemma new_prompts_append:
  "new_prompts of_json seen (xs @ ys) = new_prompts of_json seen xs @ new_prompts of_json (seen \<union> exec_ids of_json xs) ys"
  by (induction xs arbitrary: seen) (auto split: option.splits)

lemma new_prompts_subset: "set (new_prompts of_json seen rows) \<subseteq> set rows"
  by (induction rows arbitrary: seen) (auto split: option.splits if_splits)

lemma fold_user_step_eq:
  "fold_user_step of_json now cursor (seen, ms, latest) row =
     (case executable_user_message_id of_json (snd row) of
        None \<Rightarrow> (seen, ms, latest)
      | Some i \<Rightarrow>
          if (\<exists>j. i = Some j \<and> j \<in> seen) \<or> \<not> past_cursor cursor row
          then (seen \<union> {j. i = Some j}, ms, latest)
          else (seen \<union> {j. i = Some j}, ms @ [prompt_message now row], Some (advance_cursor latest (fst row))))"
  by (cases row; cases "snd row")
     (auto simp: fold_user_step_def executable_user_message_id_def past_cursor_def split: option.splits)

lemma fold_user_eq:
  "foldl (fold_user_step of_json now cursor) (seen, ms, latest) rows =
     (seen \<union> exec_ids of_json rows,
      ms @ map (prompt_message now) (filter (past_cursor cursor) (new_prompts of_json seen rows)),
      foldl (\<lambda>c s. Some (advance_cursor c s)) latest
        (map fst (filter (past_cursor cursor) (new_prompts of_json seen rows))))"
  by (induction rows arbitrary: seen ms latest)
     (auto simp: fold_user_step_eq Un_assoc split: option.splits)

lemma advance_all:
  "case foldl (\<lambda>c s. Some (advance_cursor c s)) latest ss of
     None \<Rightarrow> ss = [] \<and> latest = None
   | Some m \<Rightarrow> (\<forall>s \<in> set ss. s \<le> m) \<and> (\<forall>l. latest = Some l \<longrightarrow> l \<le> m)"
  by (induction ss rule: rev_induct) (auto simp: advance_cursor_def split: option.splits)

lemma nothing_above_latest:
  assumes "latest = foldl (\<lambda>c s. Some (advance_cursor c s)) cursor (map fst (filter (past_cursor cursor) rows))"
  shows "filter (past_cursor latest) rows = []"
  using advance_all [where latest = cursor and ss = "map fst (filter (past_cursor cursor) rows)"]
  unfolding assms [symmetric]
  by (fastforce simp: past_cursor_def filter_empty_conv split: option.splits)

lemma advance_bound:
  assumes "foldl (\<lambda>c s. Some (advance_cursor c s)) cursor ss = Some m"
  shows "cursor = Some m \<or> m \<in> set ss"
  using assms
proof (induction ss arbitrary: m rule: rev_induct)
  case (snoc s ss)
  then show ?case
    by (cases "foldl (\<lambda>c s. Some (advance_cursor c s)) cursor ss") (auto simp: advance_cursor_def max_def split: if_splits)
qed simp

text \<open>
  A prompt that arrives during a turn is injected exactly once. When a running turn folds the
  log from its cursor and later folds the grown log from the cursor it got back, the second fold
  returns exactly the new prompts among the rows appended since, in order: prompts already returned or
  known, compaction copies of them, notices and notes are not returned again.
\<close>

theorem prompts_injected_once:
  assumes "usize_max \<le> u64_max" "\<forall>r \<in> set (es @ later). fst r \<le> usize_max" "no_control later"
    and "\<forall>r \<in> set es. \<forall>l \<in> set later. fst r < fst l" "\<forall>c. cursor = Some c \<longrightarrow> (\<forall>l \<in> set later. c < fst l)"
  shows "fst (fold_new_user_messages_since usize_max yaml of_json now' (es @ later)
      (snd (fold_new_user_messages_since usize_max yaml of_json now es cursor))) =
    map (prompt_message now') (new_prompts of_json (exec_ids of_json (apply_log_mutations yaml es)) later)"
proof -
  let ?eff = "apply_log_mutations yaml es" and ?prompts = "\<lambda>eff. new_prompts of_json {} eff"
  let ?latest = "foldl (\<lambda>c s. Some (advance_cursor c s)) cursor (map fst (filter (past_cursor cursor) (?prompts ?eff)))"
  have eff': "apply_log_mutations yaml (es @ later) = ?eff @ later"
    using foldl_apply_log_step_plain [OF assms(3)]
    by (simp add: apply_log_mutations_def apply_log_mutations_with_name_def)
  have first: "snd (fold_new_user_messages_since usize_max yaml of_json now es cursor) = ?latest"
    using apply_log_mutations_nats_fits [OF assms(1), of es yaml] assms(2)
    by (simp add: fold_new_user_messages_since_def fold_user_eq)
  have second: "fst (fold_new_user_messages_since usize_max yaml of_json now' (es @ later) ?latest) =
      map (prompt_message now') (filter (past_cursor ?latest) (?prompts (?eff @ later)))"
    using apply_log_mutations_nats_fits [OF assms(1,2), of yaml]
    by (simp add: fold_new_user_messages_since_def fold_user_eq eff' new_prompts_append)
  have "past_cursor ?latest l" if "l \<in> set later" for l
  proof (cases ?latest)
    case (Some m)
    have "cursor = Some m \<or> m \<in> fst ` set ?eff"
      using advance_bound [OF Some] new_prompts_subset [of of_json "{}" ?eff] by auto
    then have "cursor = Some m \<or> m \<in> fst ` set es" using apply_log_mutations_seqs [of yaml es] by blast
    then have "m < fst l" using that assms(4,5) by auto
    with Some show ?thesis by (simp add: past_cursor_def)
  qed (simp add: past_cursor_def)
  then have "filter (past_cursor ?latest) (new_prompts of_json (exec_ids of_json ?eff) later) =
      new_prompts of_json (exec_ids of_json ?eff) later"
    unfolding filter_id_conv using new_prompts_subset [of of_json "exec_ids of_json ?eff" later] by blast
  with second first nothing_above_latest [where cursor = cursor and rows = "?prompts ?eff", OF refl] show ?thesis
    by (simp add: new_prompts_append)
qed

theorem prompts_injected_once_witness:
  "let m = Message (Some ''a'') User (Text ''hi'') None None; k = Message (Some ''b'') User (Text ''more'') None None
   in map msg_id (fst (fold_new_user_messages_since 100 (\<lambda>_. None) (\<lambda>_. None) 0 ([(1, m)] @ [(2, m), (3, k)])
        (snd (fold_new_user_messages_since 100 (\<lambda>_. None) (\<lambda>_. None) 0 [(1, m)] None)))) = [Some ''b'']"
proof -
  let ?m = "Message (Some ''a'') User (Text ''hi'') None None" and ?k = "Message (Some ''b'') User (Text ''more'') None None"
  have "executable_user_message_id (\<lambda>_. None) ?m = Some (Some ''a'')"
    "executable_user_message_id (\<lambda>_. None) ?k = Some (Some ''b'')"
    by (simp_all add: executable_user_message_id_def is_executable_user_message_def is_user_def
        is_timing_notice_def is_runtime_note_id_def is_runtime_note_message_id_def
        RUNTIME_NOTE_ID_PREFIX_def starts_with_def)
  moreover have "fst (fold_new_user_messages_since 100 (\<lambda>_. None) (\<lambda>_. None) 0 ([(1, ?m)] @ [(2, ?m), (3, ?k)])
      (snd (fold_new_user_messages_since 100 (\<lambda>_. None) (\<lambda>_. None) 0 [(1, ?m)] None))) =
    map (prompt_message 0) (new_prompts (\<lambda>_. None) (exec_ids (\<lambda>_. None) (apply_log_mutations (\<lambda>_. None) [(1, ?m)]))
      [(2, ?m), (3, ?k)])"
    by (rule prompts_injected_once) (simp_all add: u64_max_def no_control_def control_row_def)
  ultimately show ?thesis
    by (simp add: Let_def apply_log_mutations_plain no_control_def control_row_def)
qed

section \<open>Restoring selected prompts\<close>

definition restored :: "Message list \<Rightarrow> Message list \<Rightarrow> Message list \<Rightarrow> nat \<times> Message list \<Rightarrow> bool" where
  "restored live archive done_sel st \<longleftrightarrow> fst st \<le> length (snd st) \<and> subseq live (snd st) \<and>
     set (snd st) \<subseteq> set live \<union> set archive \<and>
     (\<forall>m \<in> set done_sel. (\<exists>x \<in> set live \<union> set archive. same_identity x m) \<longrightarrow>
        (\<exists>x \<in> set (snd st). same_identity x m))"

lemma subseq_insert: "subseq xs (ys @ zs) \<Longrightarrow> subseq xs (ys @ z # zs)"
  by (erule subseq_order.trans) (induction ys, auto)

lemma subseq_set: "subseq xs ys \<Longrightarrow> set xs \<subseteq> set ys"
  by (induction rule: list_emb.induct) auto

interpretation restore: log_account "restore_step archive" "(length live, live)" "restored live archive"
  for archive live
proof
  show "restored live archive [] (length live, live)" by (simp add: restored_def)
  fix sel st m assume IH: "restored live archive sel st"
  obtain k ms where st: "st = (k, ms)" by fastforce
  show "restored live archive (sel @ [m]) (restore_step archive st m)"
  proof (cases "position (\<lambda>x. same_identity x m) ms")
    case (Some i)
    with IH position_SomeD [OF Some] show ?thesis
      by (auto simp: restored_def restore_step_def st dest: nth_mem)
  next
    case None
    then have no: "\<forall>x \<in> set ms. \<not> same_identity x m" by (simp add: position_None_iff)
    have "set live \<subseteq> set ms" using IH by (auto simp: restored_def st dest: subseq_set)
    show ?thesis
    proof (cases "find (\<lambda>x. same_identity x m) (rev archive)")
      case None
      then have "\<forall>x \<in> set archive. \<not> same_identity x m" by (simp add: find_None_iff)
      with no \<open>set live \<subseteq> set ms\<close> IH None \<open>position _ ms = None\<close> show ?thesis
        by (auto simp: restored_def restore_step_def st)
    next
      case (Some a)
      then obtain i where "i < length (rev archive)" "a = rev archive ! i" "same_identity a m"
        by (auto simp: find_Some_iff)
      then have a: "a \<in> set archive" "same_identity a m" using nth_mem [of i "rev archive"] by simp_all
      have "subseq live (take k ms @ a # drop k ms)"
        using IH subseq_insert [of live "take k ms" "drop k ms" a] by (simp add: restored_def st)
      moreover have "set (take k ms @ a # drop k ms) = insert a (set ms)"
        using set_append [of "take k ms" "drop k ms"] by auto
      ultimately show ?thesis
        using IH Some a \<open>position _ ms = None\<close> by (fastforce simp: restored_def restore_step_def st)
    qed
  qed
qed

lemma restore_nothing:
  assumes "\<forall>m \<in> set sel. (\<exists>x \<in> set archive. same_identity x m) \<longrightarrow> (\<exists>x \<in> set ms. same_identity x m)"
  shows "snd (foldl (restore_step archive) (k, ms) sel) = ms"
  using assms
proof (induction sel arbitrary: k)
  case (Cons m sel)
  have "position (\<lambda>x. same_identity x m) ms \<noteq> None \<or> find (\<lambda>x. same_identity x m) (rev archive) = None"
    using Cons.prems by (auto simp: position_None_iff find_None_iff)
  then have "snd (restore_step archive (k, ms) m) = ms"
    by (auto simp: restore_step_def split: option.splits)
  with Cons show ?case by (metis foldl_Cons list.set_intros(2) prod.collapse)
qed simp

text \<open>
  Compaction cannot lose a prompt a turn was started for. Restoring the selected prompts keeps
  the live messages in their order, adds only archived messages, brings back every selected
  prompt that is still in the archive, and doing it again changes nothing.
\<close>

theorem restore_selected_spec:
  "subseq live (restore_selected_user_messages live archive sel) \<and>
   set (restore_selected_user_messages live archive sel) \<subseteq> set live \<union> set archive \<and>
   (\<forall>m \<in> set sel. (\<exists>x \<in> set live \<union> set archive. same_identity x m) \<longrightarrow>
      (\<exists>x \<in> set (restore_selected_user_messages live archive sel). same_identity x m)) \<and>
   restore_selected_user_messages (restore_selected_user_messages live archive sel) archive sel =
     restore_selected_user_messages live archive sel"
proof -
  let ?r = "restore_selected_user_messages live archive sel"
  have "restored live archive (rev sel) (foldl (restore_step archive) (length live, live) (rev sel))"
    by (rule restore.account_run)
  then have r: "subseq live ?r" "set ?r \<subseteq> set live \<union> set archive"
    "\<forall>m \<in> set sel. (\<exists>x \<in> set live \<union> set archive. same_identity x m) \<longrightarrow> (\<exists>x \<in> set ?r. same_identity x m)"
    by (auto simp: restored_def restore_selected_user_messages_def)
  have "restore_selected_user_messages ?r archive sel = ?r"
    unfolding restore_selected_user_messages_def [of ?r]
    by (rule restore_nothing) (use r(3) in auto)
  with r show ?thesis by blast
qed

theorem restore_selected_spec_witness:
  "\<exists>x \<in> set (restore_selected_user_messages [] [Message_new User (Text ''a'')\<lparr>msg_id := Some ''i''\<rparr>]
       [Message_new User (Text ''old'')\<lparr>msg_id := Some ''i''\<rparr>]). msg_id x = Some ''i''"
  using restore_selected_spec [of "[]" "[Message_new User (Text ''a'')\<lparr>msg_id := Some ''i''\<rparr>]"
      "[Message_new User (Text ''old'')\<lparr>msg_id := Some ''i''\<rparr>]"]
  by (simp add: same_identity_def)

end
