(* ===== verification/Approval_Decision.thy ===== *)
theory Approval_Decision
  imports Turn_Outcome
begin

text \<open>
  Human approval of tool calls, the client's side: \<open>harnx-runtime/src/nats_session/hitl.rs\<close> (the
  progress of an invocation, and the decision of one exact request), \<open>hitl/receipts.rs\<close> (the last
  decision of an invocation), \<open>hitl_decision.rs\<close> and \<open>hitl_decision/outcome.rs\<close> (what a decision
  attempt reports). Admission lookups in the metadata store are arguments; waiting, activation
  and the control request are I/O and not modelled.
\<close>

section \<open>Requests and rounds\<close>

record ApprovalRef =
  ref_invocation_id :: string
  ref_tool_round_seq :: seq
  ref_request_seq :: seq
  ref_tool_call_id :: string


record HitlDecisionReceipt =
  receipt_request :: ApprovalRef
  receipt_decision_seq :: seq
  receipt_approved :: bool
  receipt_note :: "string option"

datatype HitlDecisionOutcome = Applied | AlreadyApplied bool "string option" | Conflicting | Stale

datatype PromptProgress =
    Running "HitlDecisionReceipt option"
  | InputRequired PendingHitlApproval
  | Terminal NatsTurnResult

record InvocationProgressScope =
  scope_invocation_id :: string
  scope_prompt_id :: string
  scope_prompt_sequence :: seq
  scope_session_id :: string

definition round_contains :: "SessionLogEntry \<Rightarrow> string \<Rightarrow> bool" where
  "round_contains entry i =
     (case entry of
        ToolCalls _ _ calls _ _ \<Rightarrow> list_ex (\<lambda>call. call_id call = Some i) calls
      | _ \<Rightarrow> False)"

definition is_request :: "SessionLogEntry \<Rightarrow> string \<Rightarrow> bool" where
  "is_request entry i = (case entry of HitlApprovalRequested j _ _ \<Rightarrow> j = i | _ \<Rightarrow> False)"

definition ends_round :: "SessionLogEntry \<Rightarrow> bool" where
  "ends_round entry =
     (case entry of
        ToolCalls _ _ _ _ _ \<Rightarrow> True | ToolResults _ _ \<Rightarrow> True | Cancel _ _ _ _ \<Rightarrow> True | Clear \<Rightarrow> True
      | _ \<Rightarrow> False)"

definition round_entries :: "log \<Rightarrow> nat \<Rightarrow> log" where
  "round_entries entries round =
     (let rest = drop (round + 1) entries
      in take (case position (\<lambda>row. ends_round (snd row)) rest of None \<Rightarrow> length rest | Some stop \<Rightarrow> stop) rest)"

definition decision_after_request :: "log \<Rightarrow> string \<Rightarrow> (bool \<times> string option) option" where
  "decision_after_request entries i =
     find_map (\<lambda>row. case snd row of
         HitlApprovalDecision j approved remark _ \<Rightarrow> if j = i then Some (approved, remark) else None
       | _ \<Rightarrow> None) (takeWhile (\<lambda>row. \<not> is_request (snd row) i) entries)"

record ApprovalRequest =
  req_tool_call_id :: string
  req_tool_round_seq :: seq
  req_request_seq :: seq

definition request_of_ref :: "ApprovalRef \<Rightarrow> ApprovalRequest" where
  "request_of_ref r =
     \<lparr>req_tool_call_id = ref_tool_call_id r, req_tool_round_seq = ref_tool_round_seq r,
      req_request_seq = ref_request_seq r\<rparr>"

definition decision_entry :: "ApprovalRequest \<Rightarrow> log \<Rightarrow> (bool \<times> string option) option" where
  "decision_entry q effective =
     (case position (\<lambda>row. fst row = req_tool_round_seq q \<and> round_contains (snd row) (req_tool_call_id q))
             effective of
        None \<Rightarrow> None
      | Some round \<Rightarrow>
          (let entries = round_entries effective round
           in case position (\<lambda>row. fst row = req_request_seq q \<and> is_request (snd row) (req_tool_call_id q))
                     entries of
                None \<Rightarrow> None
              | Some request \<Rightarrow> decision_after_request (drop (request + 1) entries) (req_tool_call_id q)))"

definition request_decision :: "ApprovalRequest \<Rightarrow> log \<Rightarrow> bool option" where
  "request_decision q effective = map_option fst (decision_entry q effective)"

definition decision_with_note ::
  "nat \<Rightarrow> yaml_parser \<Rightarrow> ApprovalRequest \<Rightarrow> log \<Rightarrow> SeqError + (bool \<times> string option) option" where
  "decision_with_note usize_max yaml q entries =
     (case apply_log_mutations_nats usize_max yaml entries of
        Inl err \<Rightarrow> Inl err
      | Inr effective \<Rightarrow> Inr (decision_entry q effective))"

definition request_outcome ::
  "nat \<Rightarrow> yaml_parser \<Rightarrow> ApprovalRequest \<Rightarrow> log \<Rightarrow> bool \<Rightarrow> SeqError + bool option" where
  "request_outcome usize_max yaml q entries approved =
     (case derive_pending_hitl_approvals usize_max yaml entries of
        Inl err \<Rightarrow> Inl err
      | Inr pending \<Rightarrow>
          if list_ex (\<lambda>p. tool_call_id p = req_tool_call_id q \<and>
               tool_round_seq p = req_tool_round_seq q \<and> request_seq p = req_request_seq q) pending
          then Inr None
          else (case apply_log_mutations_nats usize_max yaml entries of
                  Inl err \<Rightarrow> Inl err
                | Inr effective \<Rightarrow> Inr (Some (request_decision q effective = Some approved))))"

definition already_decided ::
  "nat \<Rightarrow> yaml_parser \<Rightarrow> log \<Rightarrow> string \<Rightarrow> bool \<Rightarrow> SeqError + bool" where
  "already_decided usize_max yaml entries i approved =
     (case apply_log_mutations_nats usize_max yaml entries of
        Inl err \<Rightarrow> Inl err
      | Inr effective \<Rightarrow>
          (case rposition (\<lambda>row. round_contains (snd row) i) effective of
             None \<Rightarrow> Inr False
           | Some round \<Rightarrow>
               (let rows = round_entries effective round
                in case rposition (\<lambda>row. is_request (snd row) i) rows of
                     None \<Rightarrow> Inr False
                   | Some request \<Rightarrow>
                       (case decision_after_request (drop (request + 1) rows) i of
                          None \<Rightarrow> Inr False
                        | Some (decided, _) \<Rightarrow> Inr (decided = approved)))))"

definition latest_request ::
  "nat \<Rightarrow> yaml_parser \<Rightarrow> log \<Rightarrow> string \<Rightarrow> SeqError + ApprovalRequest option" where
  "latest_request usize_max yaml entries i =
     (case apply_log_mutations_nats usize_max yaml entries of
        Inl err \<Rightarrow> Inl err
      | Inr effective \<Rightarrow>
          (case rposition (\<lambda>row. round_contains (snd row) i) effective of
             None \<Rightarrow> Inr None
           | Some round \<Rightarrow>
               Inr (find_map (\<lambda>row. if is_request (snd row) i
                       then Some \<lparr>req_tool_call_id = i, req_tool_round_seq = fst (effective ! round),
                                  req_request_seq = fst row\<rparr>
                       else None) (rev (round_entries effective round)))))"

section \<open>The last decision of an invocation\<close>

record DecisionHistory =
  dh_invocation_id :: string
  dh_round :: "(seq \<times> SessionLogEntry) option"
  dh_requests :: "string \<rightharpoonup> seq \<times> seq"
  dh_last_decision :: "HitlDecisionReceipt option"

definition remember_request :: "DecisionHistory \<Rightarrow> seq \<Rightarrow> string \<Rightarrow> DecisionHistory" where
  "remember_request h s i =
     (case dh_round h of
        Some (round_seq, entry) \<Rightarrow>
          if round_contains entry i then h\<lparr>dh_requests := (dh_requests h)(i \<mapsto> (round_seq, s))\<rparr> else h
      | None \<Rightarrow> h)"

definition observe :: "DecisionHistory \<Rightarrow> seq \<times> SessionLogEntry \<Rightarrow> DecisionHistory" where
  "observe h row =
     (case row of (s, entry) \<Rightarrow>
       (case entry of
          ToolCalls _ _ _ _ _ \<Rightarrow> h\<lparr>dh_round := Some (s, entry), dh_requests := Map.empty\<rparr>
        | ToolResults _ _ \<Rightarrow> h\<lparr>dh_round := None, dh_requests := Map.empty\<rparr>
        | Cancel _ _ _ _ \<Rightarrow> h\<lparr>dh_round := None, dh_requests := Map.empty\<rparr>
        | Clear \<Rightarrow> h\<lparr>dh_round := None, dh_requests := Map.empty\<rparr>
        | HitlApprovalRequested i _ _ \<Rightarrow> remember_request h s i
        | HitlApprovalDecision i approved remark _ \<Rightarrow>
            (case dh_requests h i of
               None \<Rightarrow> h
             | Some (round_seq, req_seq) \<Rightarrow>
                 h\<lparr>dh_requests := (dh_requests h)(i := None),
                   dh_last_decision := Some
                     \<lparr>receipt_request =
                        \<lparr>ref_invocation_id = dh_invocation_id h, ref_tool_round_seq = round_seq,
                         ref_request_seq = req_seq, ref_tool_call_id = i\<rparr>,
                      receipt_decision_seq = s, receipt_approved = approved, receipt_note = remark\<rparr>\<rparr>)
        | _ \<Rightarrow> h))"

definition history_start :: "string \<Rightarrow> DecisionHistory" where
  "history_start invocation_id =
     \<lparr>dh_invocation_id = invocation_id, dh_round = None, dh_requests = Map.empty, dh_last_decision = None\<rparr>"

definition last_decision_receipt ::
  "nat \<Rightarrow> yaml_parser \<Rightarrow> string \<Rightarrow> seq \<Rightarrow> log \<Rightarrow> SeqError + HitlDecisionReceipt option" where
  "last_decision_receipt usize_max yaml invocation_id prompt_sequence entries =
     (case apply_log_mutations_nats usize_max yaml entries of
        Inl err \<Rightarrow> Inl err
      | Inr effective \<Rightarrow>
          Inr (dh_last_decision (foldl observe (history_start invocation_id)
                 (filter (\<lambda>row. prompt_sequence < fst row) effective))))"

section \<open>Progress of an invocation\<close>

definition terminal_progress ::
  "nat \<Rightarrow> yaml_parser \<Rightarrow> (string \<Rightarrow> TimeoutTerminal option) \<Rightarrow> InvocationProgressScope \<Rightarrow> log \<Rightarrow> seq \<Rightarrow> PromptProgress" where
  "terminal_progress usize_max yaml terminal_of scope entries terminal =
     (case extract_turn_outcome usize_max yaml terminal_of entries (scope_prompt_sequence scope) of
        (response, err) \<Rightarrow>
          Terminal \<lparr>tr_response = response, tr_session_id = scope_session_id scope,
            tr_was_cancelled = list_ex (\<lambda>row. fst row = terminal \<and> is_cancel (snd row)) entries,
            tr_error = err, tr_user_msg_seq = scope_prompt_sequence scope,
            tr_user_msg_id = scope_prompt_id scope\<rparr>)"

definition pending_approval_for_invocation ::
  "nat \<Rightarrow> yaml_parser \<Rightarrow> log \<Rightarrow> seq \<Rightarrow> SeqError + PendingHitlApproval option" where
  "pending_approval_for_invocation usize_max yaml entries prompt_sequence =
     (case derive_pending_hitl_approvals usize_max yaml entries of
        Inl err \<Rightarrow> Inl err
      | Inr pending \<Rightarrow> Inr (find (\<lambda>p. prompt_sequence < tool_round_seq p) pending))"

definition invocation_progress_from_entries ::
  "nat \<Rightarrow> yaml_parser \<Rightarrow> (string \<Rightarrow> TimeoutTerminal option) \<Rightarrow> InvocationProgressScope \<Rightarrow> log
     \<Rightarrow> SeqError + PromptProgress" where
  "invocation_progress_from_entries usize_max yaml terminal_of scope entries =
     (case invocation_terminal_seq entries (scope_prompt_sequence scope) of
        Some terminal \<Rightarrow> Inr (terminal_progress usize_max yaml terminal_of scope entries terminal)
      | None \<Rightarrow>
          (case pending_approval_for_invocation usize_max yaml entries (scope_prompt_sequence scope) of
             Inl err \<Rightarrow> Inl err
           | Inr (Some pending) \<Rightarrow> Inr (InputRequired pending)
           | Inr None \<Rightarrow>
               (case last_decision_receipt usize_max yaml (scope_invocation_id scope)
                       (scope_prompt_sequence scope) entries of
                  Inl err \<Rightarrow> Inl err
                | Inr last_decision \<Rightarrow> Inr (Running last_decision))))"

definition fixed_prompt_progress_from_entries ::
  "nat \<Rightarrow> yaml_parser \<Rightarrow> (string \<Rightarrow> TimeoutTerminal option) \<Rightarrow> FixedAdmissionTicket \<Rightarrow> seq \<Rightarrow> string \<Rightarrow> log
     \<Rightarrow> SeqError + PromptProgress" where
  "fixed_prompt_progress_from_entries usize_max yaml terminal_of ticket prompt_sequence session_id entries =
     invocation_progress_from_entries usize_max yaml terminal_of
       \<lparr>scope_invocation_id = tk_invocation_id ticket, scope_prompt_id = tk_prompt_id ticket,
        scope_prompt_sequence = prompt_sequence, scope_session_id = session_id\<rparr> entries"

section \<open>Deciding an exact request\<close>






definition user_message_id :: "SessionLogEntry \<Rightarrow> string option" where
  "user_message_id entry =
     (case entry of Message (Some i) role _ _ _ \<Rightarrow> if is_user role then Some i else None | _ \<Rightarrow> None)"

text \<open>\<open>admission\<close> is the store's answer for a prompt id: the invocation it was admitted under.\<close>

fun round_prompt_scan :: "(string \<Rightarrow> string + string option) \<Rightarrow> log \<Rightarrow> string + (seq \<times> string \<times> string) option" where
  "round_prompt_scan admission [] = Inr None"
| "round_prompt_scan admission (row # rows) =
     (case user_message_id (snd row) of
        None \<Rightarrow> round_prompt_scan admission rows
      | Some i \<Rightarrow>
          (case admission i of
             Inl err \<Rightarrow> Inl err
           | Inr (Some invocation_id) \<Rightarrow> Inr (Some (fst row, i, invocation_id))
           | Inr None \<Rightarrow> round_prompt_scan admission rows))"

definition hitl_round_prompt ::
  "(string \<Rightarrow> string + string option) \<Rightarrow> seq \<Rightarrow> log \<Rightarrow> string + (seq \<times> string \<times> string) option" where
  "hitl_round_prompt admission round_seq entries =
     round_prompt_scan admission (filter (\<lambda>row. fst row < round_seq) (rev entries))"

definition fixed_ticket_root ::
  "string \<Rightarrow> ApprovalRef \<Rightarrow> FixedAdmissionTicket \<Rightarrow> log \<Rightarrow> TicketError + (seq \<times> string) option" where
  "fixed_ticket_root storage_key reference ticket entries =
     (if tk_storage_key ticket \<noteq> storage_key \<or> tk_invocation_id ticket \<noteq> ref_invocation_id reference then Inr None
      else (case ticket_outcome ticket entries of
              Inl err \<Rightarrow> Inl err
            | Inr (Admitted prompt_sequence) \<Rightarrow> Inr (Some (prompt_sequence, tk_prompt_id ticket))
            | Inr _ \<Rightarrow> Inr None))"

definition round_prompt_root ::
  "(string \<Rightarrow> string + string option) \<Rightarrow> ApprovalRef \<Rightarrow> log \<Rightarrow> string + (seq \<times> string) option" where
  "round_prompt_root admission reference entries =
     (case hitl_round_prompt admission (ref_tool_round_seq reference) entries of
        Inl err \<Rightarrow> Inl err
      | Inr None \<Rightarrow> Inr None
      | Inr (Some (s, prompt_id, invocation_id)) \<Rightarrow>
          Inr (if invocation_id \<noteq> ref_invocation_id reference then None else Some (s, prompt_id)))"

definition hitl_reference ::
  "(string \<Rightarrow> string + string option) \<Rightarrow> ApprovalRequest \<Rightarrow> log \<Rightarrow> string + ApprovalRef option" where
  "hitl_reference admission request entries =
     (case hitl_round_prompt admission (req_tool_round_seq request) entries of
        Inl err \<Rightarrow> Inl err
      | Inr found \<Rightarrow> Inr (map_option (\<lambda>(_, _, invocation_id).
            \<lparr>ref_invocation_id = invocation_id, ref_tool_round_seq = req_tool_round_seq request,
             ref_request_seq = req_request_seq request, ref_tool_call_id = req_tool_call_id request\<rparr>) found))"

definition is_applied_outcome :: "HitlDecisionOutcome \<Rightarrow> bool" where
  "is_applied_outcome out = (case out of Applied \<Rightarrow> True | AlreadyApplied _ _ \<Rightarrow> True | _ \<Rightarrow> False)"

section \<open>The receipt and the request agree\<close>

definition quiet :: "log \<Rightarrow> bool" where
  "quiet rs \<longleftrightarrow> (\<forall>r \<in> set rs. \<not> ends_round (snd r))"

definition unanswered :: "string \<Rightarrow> log \<Rightarrow> bool" where
  "unanswered i rs \<longleftrightarrow> (\<forall>r \<in> set rs. \<not> answers (snd r) i)"

lemma quiet_simps [simp]:
  "quiet []" "quiet (r # rs) \<longleftrightarrow> \<not> ends_round (snd r) \<and> quiet rs" "quiet (rs @ ss) \<longleftrightarrow> quiet rs \<and> quiet ss"
  by (auto simp: quiet_def)

lemma unanswered_simps [simp]:
  "unanswered i []" "unanswered i (r # rs) \<longleftrightarrow> \<not> answers (snd r) i \<and> unanswered i rs"
  "unanswered i (rs @ ss) \<longleftrightarrow> unanswered i rs \<and> unanswered i ss"
  by (auto simp: unanswered_def)

text \<open>A request of the newest round that nothing has answered, and one that was then decided.\<close>

definition request_open :: "log \<Rightarrow> string \<Rightarrow> seq \<Rightarrow> seq \<Rightarrow> bool" where
  "request_open rows i rs qs \<longleftrightarrow>
     (\<exists>pre e A s f B. rows = pre @ (rs, e) # A @ (qs, HitlApprovalRequested i s f) # B \<and>
        round_contains e i \<and> quiet A \<and> quiet B \<and> unanswered i B)"

definition request_decided :: "log \<Rightarrow> HitlDecisionReceipt \<Rightarrow> bool" where
  "request_decided rows r \<longleftrightarrow>
     (\<exists>us g C. rows = us @ (receipt_decision_seq r, HitlApprovalDecision (ref_tool_call_id (receipt_request r))
                (receipt_approved r) (receipt_note r) g) # C \<and>
        request_open us (ref_tool_call_id (receipt_request r)) (ref_tool_round_seq (receipt_request r))
          (ref_request_seq (receipt_request r)))"

lemma request_open_snoc:
  assumes "request_open rows i rs qs" "\<not> ends_round e" "\<not> answers e i"
  shows "request_open (rows @ [(n, e)]) i rs qs"
proof -
  obtain pre e' A s f B where "rows = pre @ (rs, e') # A @ (qs, HitlApprovalRequested i s f) # B"
      "round_contains e' i" "quiet A" "quiet B" "unanswered i B"
    using assms(1) unfolding request_open_def by blast
  with assms(2,3) have "rows @ [(n, e)] = pre @ (rs, e') # A @ (qs, HitlApprovalRequested i s f) # (B @ [(n, e)]) \<and>
      round_contains e' i \<and> quiet A \<and> quiet (B @ [(n, e)]) \<and> unanswered i (B @ [(n, e)])"
    by simp
  then show ?thesis unfolding request_open_def by blast
qed

lemma request_open_new:
  assumes "rows = pre @ (rs, e) # A" "quiet A" "round_contains e i"
  shows "request_open (rows @ [(n, HitlApprovalRequested i s f)]) i rs n"
proof -
  have "rows @ [(n, HitlApprovalRequested i s f)] = pre @ (rs, e) # A @ (n, HitlApprovalRequested i s f) # [] \<and>
      round_contains e i \<and> quiet A \<and> quiet [] \<and> unanswered i []"
    using assms by simp
  then show ?thesis unfolding request_open_def by blast
qed

lemma request_decided_snoc: "request_decided rows r \<Longrightarrow> request_decided (rows @ [row]) r"
  unfolding request_decided_def by fastforce

definition round_at :: "log \<Rightarrow> seq \<Rightarrow> SessionLogEntry \<Rightarrow> bool" where
  "round_at rows rs e \<longleftrightarrow> (\<exists>pre A. rows = pre @ (rs, e) # A \<and> quiet A)"

lemma round_at_snoc: "round_at rows rs e \<Longrightarrow> \<not> ends_round e' \<Longrightarrow> round_at (rows @ [(n, e')]) rs e"
  unfolding round_at_def by fastforce

lemma round_at_new: "round_at (rows @ [(n, e)]) n e"
  unfolding round_at_def by fastforce

definition history_knows :: "string \<Rightarrow> log \<Rightarrow> DecisionHistory \<Rightarrow> bool" where
  "history_knows invocation_id rows h \<longleftrightarrow> dh_invocation_id h = invocation_id \<and>
     (\<forall>rs e. dh_round h = Some (rs, e) \<longrightarrow> round_at rows rs e) \<and>
     (\<forall>i rs qs. dh_requests h i = Some (rs, qs) \<longrightarrow>
        request_open rows i rs qs \<and> (\<exists>e. dh_round h = Some (rs, e) \<and> round_contains e i)) \<and>
     (\<forall>r. dh_last_decision h = Some r \<longrightarrow>
        request_decided rows r \<and> ref_invocation_id (receipt_request r) = invocation_id)"

lemma history_knows_quiet:
  assumes "history_knows iv rows h" "\<not> ends_round e" "\<And>i. \<not> answers e i"
  shows "history_knows iv (rows @ [(n, e)]) h"
  using assms request_open_snoc [OF _ assms(2,3)] request_decided_snoc round_at_snoc
  unfolding history_knows_def by blast

lemma history_knows_end:
  assumes "history_knows iv rows h" "\<And>rs e'. r = Some (rs, e') \<Longrightarrow> (rs, e') = (n, e)"
  shows "history_knows iv (rows @ [(n, e)]) (h\<lparr>dh_round := r, dh_requests := Map.empty\<rparr>)"
  using assms request_decided_snoc round_at_new unfolding history_knows_def by fastforce

lemma history_knows_request:
  assumes "history_knows iv rows h" "e = HitlApprovalRequested i s f"
  shows "history_knows iv (rows @ [(n, e)]) (remember_request h n i)"
proof -
  have ends: "\<not> ends_round e" by (simp add: ends_round_def assms(2))
  have round: "round_at (rows @ [(n, e)]) rs e'" if "dh_round h = Some (rs, e')" for rs e'
    using that assms(1) round_at_snoc [OF _ ends] unfolding history_knows_def by blast
  have new: "request_open (rows @ [(n, e)]) i rs n" if "dh_round h = Some (rs, e')" "round_contains e' i" for rs e'
    using that assms(1) request_open_new [of rows _ rs e' _ i n s f]
    unfolding history_knows_def round_at_def assms(2) by blast
  have old: "request_open (rows @ [(n, e)]) j rs qs" if "dh_requests h j = Some (rs, qs)" "j \<noteq> i" for j rs qs
    using that assms(1) ends by (intro request_open_snoc) (auto simp: history_knows_def answers_def assms(2))
  show ?thesis
  proof (cases "\<exists>rs e'. dh_round h = Some (rs, e') \<and> round_contains e' i")
    case True
    with assms(1) round new old request_decided_snoc [of rows _ "(n, e)"] show ?thesis
      unfolding history_knows_def remember_request_def by (auto split: if_splits)
  next
    case False
    then have "dh_requests h j = Some (rs, qs) \<Longrightarrow> j \<noteq> i" for j rs qs
      using assms(1) unfolding history_knows_def by blast
    moreover have "remember_request h n i = h" using False by (auto simp: remember_request_def split: option.splits)
    ultimately show ?thesis
      using assms(1) round old request_decided_snoc [of rows _ "(n, e)"] unfolding history_knows_def by auto
  qed
qed

lemma history_knows_decision:
  assumes "history_knows iv rows h" "e = HitlApprovalDecision i a m f"
  shows "history_knows iv (rows @ [(n, e)]) (observe h (n, e))"
proof -
  have ends: "\<not> ends_round e" by (simp add: ends_round_def assms(2))
  have round: "round_at (rows @ [(n, e)]) rs e'" if "dh_round h = Some (rs, e')" for rs e'
    using that assms(1) round_at_snoc [OF _ ends] unfolding history_knows_def by blast
  have old: "request_open (rows @ [(n, e)]) j rs qs" if "dh_requests h j = Some (rs, qs)" "j \<noteq> i" for j rs qs
    using that assms(1) ends by (intro request_open_snoc) (auto simp: history_knows_def answers_def assms(2))
  have new: "request_decided (rows @ [(n, e)])
      \<lparr>receipt_request = \<lparr>ref_invocation_id = iv, ref_tool_round_seq = rs, ref_request_seq = qs, ref_tool_call_id = i\<rparr>,
       receipt_decision_seq = n, receipt_approved = a, receipt_note = m\<rparr>" if "dh_requests h i = Some (rs, qs)" for rs qs
    using that assms(1) unfolding history_knows_def request_decided_def assms(2) by fastforce
  have none: "dh_requests h i = None \<Longrightarrow> dh_requests h j = Some (rs, qs) \<Longrightarrow> j \<noteq> i" for j rs qs by auto
  show ?thesis
    using assms(1) round new old none request_decided_snoc [of rows _ "(n, e)"]
    unfolding history_knows_def observe_def assms(2)
    by (auto split: option.splits if_splits)
qed

interpretation history: log_account observe "history_start iv" "history_knows iv" for iv
proof
  show "history_knows iv [] (history_start iv)" by (simp add: history_knows_def history_start_def)
  fix rows :: log and h and row :: "seq \<times> SessionLogEntry" assume IH: "history_knows iv rows h"
  obtain n e where row: "row = (n, e)" by fastforce
  show "history_knows iv (rows @ [row]) (observe h row)"
    using history_knows_request [OF IH, of e] history_knows_decision [OF IH, of e]
      history_knows_end [OF IH, of None n e] history_knows_end [OF IH, of "Some (n, e)" n e]
      history_knows_quiet [OF IH, of e n]
    by (cases e) (simp_all add: row observe_def ends_round_def answers_def)
qed

lemma position_split: "P x \<Longrightarrow> (\<And>y. y \<in> set pre \<Longrightarrow> \<not> P y) \<Longrightarrow> position P (pre @ x # post) = Some (length pre)"
  by (induction pre) auto

lemma round_entries_split:
  "quiet A \<Longrightarrow> round_entries (pre @ row # A @ post) (length pre) = A @ takeWhile (\<lambda>r. \<not> ends_round (snd r)) post"
  by (simp add: round_entries_def Let_def take_position takeWhile_append2 quiet_def)

lemma in_order_distinct:
  assumes "log_in_order (pre @ row # post)" "r \<in> set pre"
  shows "fst r \<noteq> fst row"
  using assms by (auto simp: log_in_order_def sorted_wrt_append)

lemma in_order_drop: "log_in_order (xs @ ys) \<Longrightarrow> log_in_order ys"
  by (simp add: log_in_order_def sorted_wrt_append)

lemma answers_iff: "answers e i \<longleftrightarrow> is_request e i \<or> decides i e"
  by (cases e) (simp_all add: answers_def is_request_def decides_def)

lemma decision_entry_decided:
  assumes ord: "log_in_order eff" and dec: "request_decided eff r"
  shows "decision_entry (request_of_ref (receipt_request r)) eff = Some (receipt_approved r, receipt_note r)"
proof -
  let ?i = "ref_tool_call_id (receipt_request r)"
  let ?D = "\<lambda>g. (receipt_decision_seq r, HitlApprovalDecision ?i (receipt_approved r) (receipt_note r) g)"
  obtain pre e A s f B g C where eff: "eff = pre @ (ref_tool_round_seq (receipt_request r), e) # A @
        (ref_request_seq (receipt_request r), HitlApprovalRequested ?i s f) # B @ ?D g # C"
      and e: "round_contains e ?i" and q: "quiet A" "quiet B" "unanswered ?i B"
    using dec unfolding request_decided_def request_open_def by auto
  let ?R = "(ref_request_seq (receipt_request r), HitlApprovalRequested ?i s f)"
  let ?C = "takeWhile (\<lambda>r. \<not> ends_round (snd r)) C"
  have round: "position (\<lambda>row. fst row = ref_tool_round_seq (receipt_request r) \<and> round_contains (snd row) ?i) eff =
      Some (length pre)"
    unfolding eff by (rule position_split) (use e ord in_order_distinct in \<open>fastforce simp: eff\<close>)+
  have rows: "round_entries eff (length pre) = A @ ?R # B @ ?D g # ?C"
    using round_entries_split [of "A @ ?R # B @ [?D g]" pre _ C] q
    by (simp add: eff ends_round_def)
  have "log_in_order (A @ ?R # B @ ?D g # C)" using ord in_order_drop [of "pre @ [_]"] by (simp add: eff)
  then have req: "position (\<lambda>row. fst row = ref_request_seq (receipt_request r) \<and> is_request (snd row) ?i)
      (A @ ?R # B @ ?D g # ?C) = Some (length A)"
    by (intro position_split) (use in_order_distinct in \<open>fastforce simp: is_request_def\<close>)+
  have "\<forall>b \<in> set B. \<not> is_request (snd b) ?i" "\<forall>b \<in> set B. \<not> decides ?i (snd b)"
    using q(3) by (simp_all add: unanswered_def answers_iff)
  then have "decision_after_request (B @ ?D g # ?C) ?i = Some (receipt_approved r, receipt_note r)"
    by (induction B) (auto simp: decision_after_request_def is_request_def decides_def split: SessionLogEntry.splits)
  then show ?thesis
    by (simp add: decision_entry_def request_of_ref_def round rows req Let_def)
qed

lemma request_decided_append: "request_decided rows r \<Longrightarrow> request_decided (us @ rows) r"
  unfolding request_decided_def request_open_def by (metis append_Cons append_assoc)

lemma in_order_suffix:
  assumes "log_in_order eff"
  shows "\<exists>us. eff = us @ filter (\<lambda>row. p < fst row) eff"
  using drop_partition_point [OF assms, of p] append_take_drop_id [of _ eff] by metis

section \<open>Properties\<close>

text \<open>
  A decision receipt names the request it answered. The receipt a client gets for an
  invocation belongs to that invocation, and reading the decision of the exact request it names gives the
  receipt's answer and note, so two clients never see different answers for one request.
\<close>

theorem receipt_names_its_request:
  assumes "apply_log_mutations_nats usize_max yaml es = Inr eff" "log_in_order eff"
    and "last_decision_receipt usize_max yaml invocation prompt es = Inr (Some r)"
  shows "ref_invocation_id (receipt_request r) = invocation \<and>
    decision_with_note usize_max yaml (request_of_ref (receipt_request r)) es =
      Inr (Some (receipt_approved r, receipt_note r))"
proof -
  let ?rows = "filter (\<lambda>row. prompt < fst row) eff"
  have "dh_last_decision (foldl observe (history_start invocation) ?rows) = Some r"
    using assms(1,3) by (simp add: last_decision_receipt_def)
  then have "request_decided ?rows r" "ref_invocation_id (receipt_request r) = invocation"
    using history.account_run [of invocation ?rows] by (auto simp: history_knows_def)
  moreover obtain us where "eff = us @ ?rows" using in_order_suffix [OF assms(2)] by blast
  ultimately have "request_decided eff r" using request_decided_append by metis
  then show ?thesis
    using decision_entry_decided [OF assms(2)] assms(1) \<open>ref_invocation_id (receipt_request r) = invocation\<close>
    by (simp add: decision_with_note_def)
qed

definition demo_session :: log where
  "demo_session = demo_rows @ [demo_request]"

definition demo_decision :: SessionLogEntry where
  "demo_decision = HitlApprovalDecision ''c1'' True (Some ''fine'') 7"

lemma demo_nats:
  "apply_log_mutations_nats 100 (\<lambda>_. None) (demo_session @ [(3, demo_decision)]) = Inr (demo_session @ [(3, demo_decision)])"
  by (simp add: demo_session_def demo_decision_def demo_eval)

theorem receipt_names_its_request_witness:
  "\<exists>r. last_decision_receipt 100 (\<lambda>_. None) ''inv'' 0 (demo_session @ [(3, demo_decision)]) = Inr (Some r) \<and>
     decision_with_note 100 (\<lambda>_. None) (request_of_ref (receipt_request r)) (demo_session @ [(3, demo_decision)]) =
       Inr (Some (True, Some ''fine''))"
proof -
  let ?r = "\<lparr>receipt_request = \<lparr>ref_invocation_id = ''inv'', ref_tool_round_seq = 1, ref_request_seq = 2,
      ref_tool_call_id = ''c1''\<rparr>, receipt_decision_seq = 3, receipt_approved = True, receipt_note = Some ''fine''\<rparr>"
  have r: "last_decision_receipt 100 (\<lambda>_. None) ''inv'' 0 (demo_session @ [(3, demo_decision)]) = Inr (Some ?r)"
    by (simp add: last_decision_receipt_def demo_nats)
       (simp add: demo_session_def demo_decision_def demo_rows_def demo_request_def history_start_def observe_def
         remember_request_def round_contains_def ToolCall_new_def)
  have "log_in_order (demo_session @ [(3, demo_decision)])"
    by (simp add: demo_session_def demo_rows_def demo_request_def)
  from receipt_names_its_request [OF demo_nats this r] r show ?thesis by simp
qed
















text \<open>
  The two sides end a round differently: \<open>Clear\<close> ends it for the client and not for the worker, so
  the worker still accepts a decision that the client then calls stale.
\<close>

lemma clear_splits_round:
  "derive_pending_hitl_approvals 100 (\<lambda>_. None) (demo_session @ [(3, Clear)]) =
     derive_pending_hitl_approvals 100 (\<lambda>_. None) demo_session"
  "last_decision_receipt 100 (\<lambda>_. None) ''inv'' 0 (demo_session @ [(3, Clear), (4, demo_decision)]) = Inr None"
  by (simp_all add: demo_session_def demo_decision_def demo_eval last_decision_receipt_def history_start_def
      observe_def remember_request_def round_contains_def)

end
