(* ===== verification/Session_Replay.thy ===== *)
theory Session_Replay
  imports Log_Mutations Tool_Loop_Guard
begin

text \<open>
  How a session's model-facing messages are rebuilt from its log
  (\<open>harnx-runtime/src/config/session/replay.rs\<close> and \<open>replay/runtime_note.rs\<close>). A tool round is
  two log rows and one message; whatever the user says while a round is open waits behind it, so
  that a call and its results stay adjacent. Fresh message ids are drawn from a supply \<open>fresh\<close>:
  \<open>fresh n\<close> is the text of the \<open>n\<close>-th generated identifier. Of \<open>Session\<close> the record has the fields
  that replay, compaction and the transcript operations read or write; the rest are settings.
\<close>

section \<open>Session state\<close>

record Session =
  sess_id :: string
  sess_agent_instructions :: string
  sess_compaction_summary :: "string option"
  sess_compressed_messages :: "Message list"
  sess_messages :: "Message list"
  sess_data_urls :: "string \<rightharpoonup> string"
  sess_dirty :: bool
  sess_log_entry_count :: nat
  sess_completion_usage :: CompletionTokenUsage
  sess_replay_warnings :: "string list"

definition Session_default :: Session where
  "Session_default =
     \<lparr>sess_id = [], sess_agent_instructions = [], sess_compaction_summary = None,
      sess_compressed_messages = [], sess_messages = [], sess_data_urls = Map.empty,
      sess_dirty = False, sess_log_entry_count = 0,
      sess_completion_usage = CompletionTokenUsage_new None None None,
      sess_replay_warnings = []\<rparr>"

record ReplayToolCalls =
  rtc_seq :: seq
  rtc_text :: string
  rtc_thought :: "string option"
  rtc_calls :: "ToolCall list"
  rtc_timestamp :: "instant option"

definition LOST_TOOL_RESPONSE_ERROR :: string where
  "LOST_TOOL_RESPONSE_ERROR =
     ''tool response lost (session was interrupted before results were persisted)''"

definition PENDING_TOOL_RESPONSE_ERROR :: string where
  "PENDING_TOOL_RESPONSE_ERROR = ''tool response pending (results not yet persisted)''"

definition INTERRUPTED_TOOL_RESPONSE_ERROR :: string where
  "INTERRUPTED_TOOL_RESPONSE_ERROR = ''tool call interrupted by user''"

definition interrupted_tool_outputs :: "ToolCall list \<Rightarrow> string option \<Rightarrow> ToolOutput list" where
  "interrupted_tool_outputs calls cancellation_id =
     map (\<lambda>call.
       \<lparr>out_id = call_id call, out_name = call_name call,
        out_output = JObject [(''error'', JString INTERRUPTED_TOOL_RESPONSE_ERROR),
          (''cancellation_id'', case cancellation_id of None \<Rightarrow> JNull | Some i \<Rightarrow> JString i)],
        out_markdown = None, out_content = [], out_switch_agent = None\<rparr>) calls"

section \<open>Assembling a tool message\<close>

text \<open>
  Each call takes the entry of the map at its own id, removing it, or else the next entry that has
  no id. The same matching serves stored outputs here and fresh results in
  \<open>session_tool_results.rs\<close>.
\<close>

fun match_by_id ::
  "(string \<rightharpoonup> 'a) \<Rightarrow> 'a list \<Rightarrow> string option list \<Rightarrow> 'a option list" where
  "match_by_id by_id positional [] = []"
| "match_by_id by_id positional (None # ids) =
     (case positional of
        [] \<Rightarrow> None # match_by_id by_id [] ids
      | x # rest \<Rightarrow> Some x # match_by_id by_id rest ids)"
| "match_by_id by_id positional (Some i # ids) =
     (case by_id i of
        Some x \<Rightarrow> Some x # match_by_id (by_id(i := None)) positional ids
      | None \<Rightarrow>
          (case positional of
             [] \<Rightarrow> None # match_by_id by_id [] ids
           | x # rest \<Rightarrow> Some x # match_by_id by_id rest ids))"

text \<open>Collecting pairs into a \<open>HashMap\<close>: a later pair with the same key wins.\<close>

definition index_by_id :: "('a \<Rightarrow> string option) \<Rightarrow> 'a list \<Rightarrow> (string \<rightharpoonup> 'a)" where
  "index_by_id key xs = map_of (rev (filter_map (\<lambda>x. map_option (\<lambda>i. (i, x)) (key x)) xs))"

definition stored_result :: "ToolCall \<Rightarrow> ToolOutput option \<Rightarrow> ToolResult" where
  "stored_result call slot =
     (case slot of
        Some out \<Rightarrow>
          \<lparr>result_call = call, result_output = out_output out, result_markdown = out_markdown out,
           result_content = out_content out, result_switch_agent = out_switch_agent out,
           result_execution_context = None\<rparr>
      | None \<Rightarrow> ToolResult_new call (JObject [(''error'', JString LOST_TOOL_RESPONSE_ERROR)]))"

definition assemble_tool_message ::
  "string \<Rightarrow> string option \<Rightarrow> ToolCall list \<Rightarrow> ToolOutput list \<Rightarrow> Message" where
  "assemble_tool_message text' thought calls results =
     (let slots = match_by_id (index_by_id out_id results)
                    (filter (\<lambda>r. out_id r = None) results) (map call_id calls)
      in Message_new Tool (ToolCallsContent
           (MessageContentToolCalls_new (map2 stored_result calls slots) text' thought)))"

definition assemble_synthetic_tool_message ::
  "string \<Rightarrow> ReplayToolCalls \<Rightarrow> string \<Rightarrow> Message" where
  "assemble_synthetic_tool_message new_id pending err =
     (let results = map (\<lambda>c.
            \<lparr>out_id = call_id c, out_name = call_name c,
             out_output = JObject [(''error'', JString err)], out_markdown = None,
             out_content = [], out_switch_agent = None\<rparr>) (rtc_calls pending);
          message = (assemble_tool_message (rtc_text pending) (rtc_thought pending)
              (rtc_calls pending) results)
            \<lparr>msg_id := Some new_id, msg_log_seq := Some (rtc_seq pending)\<rparr>
      in (case rtc_timestamp pending of
            Some ts \<Rightarrow> message\<lparr>msg_log_timestamp := Some ts\<rparr>
          | None \<Rightarrow> message))"

definition is_pending_tool_result :: "ToolResult \<Rightarrow> bool" where
  "is_pending_tool_result r =
     (case as_object (result_output r) of
        Some output \<Rightarrow> length output = 1 \<and>
          Option.bind (map_get output ''error'') as_str = Some PENDING_TOOL_RESPONSE_ERROR
      | None \<Rightarrow> False)"

section \<open>Runtime notes\<close>

datatype RuntimeNote = NoteSubAgentStarted string string | NoteCancel

definition note_from_entry :: "SessionLogEntry \<Rightarrow> RuntimeNote option" where
  "note_from_entry entry =
     (case entry of
        SubAgentStarted agent session_id _ _ _ \<Rightarrow> Some (NoteSubAgentStarted agent session_id)
      | Cancel _ _ _ _ \<Rightarrow> Some NoteCancel
      | _ \<Rightarrow> None)"

definition note_text :: "RuntimeNote \<Rightarrow> string" where
  "note_text n =
     RUNTIME_NOTE_PREFIX @
     (case n of
        NoteSubAgentStarted agent session_id \<Rightarrow>
          ''Started sub-agent '' @ [CHR 0x27] @ agent @ [CHR 0x27] @ '' in session '' @ session_id @ ''.''
      | NoteCancel \<Rightarrow>
          ''The user interrupted this turn. Incomplete tool calls above were cancelled.'')"

definition note_into_message :: "string \<Rightarrow> RuntimeNote \<Rightarrow> seq \<Rightarrow> Message" where
  "note_into_message new_id n s =
     (Message_new User (Text (note_text n)))
       \<lparr>msg_id := Some (new_runtime_note_message_id new_id), msg_log_seq := Some s\<rparr>"

section \<open>The replay state machine\<close>

datatype TrailingToolCallPolicy = TrailingInterrupted | TrailingPending

record ReplayOptions =
  opt_allow_embedded_metadata :: bool
  opt_trailing_tool_calls :: TrailingToolCallPolicy

definition ReplayOptions_new :: "bool \<Rightarrow> bool \<Rightarrow> ReplayOptions" where
  "ReplayOptions_new allow_embedded_metadata preserve_pending =
     \<lparr>opt_allow_embedded_metadata = allow_embedded_metadata,
      opt_trailing_tool_calls =
        (if preserve_pending then TrailingPending else TrailingInterrupted)\<rparr>"

datatype ReplayError =
    UnsupportedEntry \<comment> \<open>a legacy row in a canonical transcript\<close>
  | ToolRoleMessage  \<comment> \<open>a message row with the tool role\<close>

record ReplayState =
  rs_session :: Session
  rs_pending :: "ReplayToolCalls option"
  rs_queued :: "Message list"
  rs_completed_ids :: "string set"
  rs_minted :: nat \<comment> \<open>identifiers drawn from the supply so far\<close>

definition ReplayState_new :: "Session \<Rightarrow> ReplayState" where
  "ReplayState_new session =
     \<lparr>rs_session = session, rs_pending = None, rs_queued = [], rs_completed_ids = {}, rs_minted = 0\<rparr>"

definition push_messages :: "Message list \<Rightarrow> ReplayState \<Rightarrow> ReplayState" where
  "push_messages ms st =
     st\<lparr>rs_session := (rs_session st)\<lparr>sess_messages := sess_messages (rs_session st) @ ms\<rparr>\<rparr>"

definition drain_queue :: "ReplayState \<Rightarrow> ReplayState" where
  "drain_queue st = (push_messages (rs_queued st) st)\<lparr>rs_queued := []\<rparr>"

definition close_pending :: "(nat \<Rightarrow> string) \<Rightarrow> string \<Rightarrow> ReplayState \<Rightarrow> ReplayState" where
  "close_pending fresh err st =
     (case rs_pending st of
        None \<Rightarrow> st
      | Some pending \<Rightarrow>
          (push_messages
             [assemble_synthetic_tool_message (fresh (rs_minted st)) pending err] st)
           \<lparr>rs_pending := None, rs_minted := rs_minted st + 1\<rparr>)"

definition finish_orphaned_tool_round :: "(nat \<Rightarrow> string) \<Rightarrow> ReplayState \<Rightarrow> ReplayState" where
  "finish_orphaned_tool_round fresh st =
     drain_queue (close_pending fresh LOST_TOOL_RESPONSE_ERROR st)"

definition replay_message ::
  "(nat \<Rightarrow> string) \<Rightarrow> Message \<Rightarrow> ReplayState \<Rightarrow> ReplayError + ReplayState" where
  "replay_message fresh message st =
     (if msg_role message = Tool then Inl ToolRoleMessage
      else if msg_role message = System \<and> sess_agent_instructions (rs_session st) \<noteq> [] then Inr st
      else if is_user (msg_role message) \<and> rs_pending st \<noteq> None
        then Inr (st\<lparr>rs_queued := rs_queued st @ [message]\<rparr>)
      else Inr (push_messages [message] (finish_orphaned_tool_round fresh st)))"

definition replay_runtime_note ::
  "(nat \<Rightarrow> string) \<Rightarrow> RuntimeNote \<Rightarrow> seq \<Rightarrow> ReplayState \<Rightarrow> ReplayState" where
  "replay_runtime_note fresh n s st =
     (let message = note_into_message (fresh (rs_minted st)) n s;
          st1 = st\<lparr>rs_minted := rs_minted st + 1\<rparr>
      in if rs_pending st \<noteq> None then st1\<lparr>rs_queued := rs_queued st @ [message]\<rparr>
         else push_messages [message] st1)"

definition replay_tool_calls ::
  "(nat \<Rightarrow> string) \<Rightarrow> ReplayToolCalls \<Rightarrow> ReplayState \<Rightarrow> ReplayState" where
  "replay_tool_calls fresh pending st =
     (let st1 = finish_orphaned_tool_round fresh st
      in st1\<lparr>rs_completed_ids := rs_completed_ids st1 - set (filter_map call_id (rtc_calls pending)),
             rs_pending := Some pending\<rparr>)"

definition orphan_warning :: "string \<Rightarrow> seq \<Rightarrow> string" where
  "orphan_warning name s =
     ''Ignored orphan tool results at log entry '' @ show_nat s @ '' in session '' @ name @
     ''; the corresponding tool call was missing or interrupted''"

definition orphaned_tool_results ::
  "string \<Rightarrow> seq \<Rightarrow> ToolOutput list \<Rightarrow> ReplayState \<Rightarrow> ReplayState" where
  "orphaned_tool_results name s results st =
     (let duplicate = results \<noteq> [] \<and>
            list_all (\<lambda>r. case out_id r of None \<Rightarrow> False | Some i \<Rightarrow> i \<in> rs_completed_ids st) results
      in if duplicate then st
         else st\<lparr>rs_session := (rs_session st)
                  \<lparr>sess_replay_warnings := sess_replay_warnings (rs_session st) @ [orphan_warning name s]\<rparr>\<rparr>)"

definition replay_tool_results ::
  "string \<Rightarrow> seq \<Rightarrow> ToolOutput list \<Rightarrow> ReplayState \<Rightarrow> ReplayState" where
  "replay_tool_results name s results st =
     (case rs_pending st of
        None \<Rightarrow> orphaned_tool_results name s results st
      | Some p \<Rightarrow>
          (let message = (assemble_tool_message (rtc_text p) (rtc_thought p) (rtc_calls p) results)
                 \<lparr>msg_log_seq := Some (rtc_seq p)\<rparr>;
               message' = (case rtc_timestamp p of
                 Some ts \<Rightarrow> message\<lparr>msg_log_timestamp := Some ts\<rparr> | None \<Rightarrow> message)
           in drain_queue (push_messages [message']
                (st\<lparr>rs_pending := None,
                    rs_completed_ids := rs_completed_ids st \<union> set (filter_map call_id (rtc_calls p))\<rparr>))))"

definition replay_compress :: "(nat \<Rightarrow> string) \<Rightarrow> string \<Rightarrow> ReplayState \<Rightarrow> ReplayState" where
  "replay_compress fresh prompt st =
     (let st1 = finish_orphaned_tool_round fresh st; s = rs_session st1
      in st1\<lparr>rs_session := s
           \<lparr>sess_compressed_messages := sess_compressed_messages s @ sess_messages s,
            sess_messages := [], sess_compaction_summary := Some prompt\<rparr>\<rparr>)"

definition replay_clear :: "ReplayState \<Rightarrow> ReplayState" where
  "replay_clear st =
     st\<lparr>rs_pending := None, rs_queued := [], rs_completed_ids := {},
        rs_session := (rs_session st)
          \<lparr>sess_messages := [], sess_compressed_messages := [], sess_data_urls := Map.empty,
           sess_compaction_summary := None\<rparr>\<rparr>"

definition apply_entry ::
  "(nat \<Rightarrow> string) \<Rightarrow> string \<Rightarrow> bool \<Rightarrow> seq \<Rightarrow> SessionLogEntry \<Rightarrow> ReplayState
     \<Rightarrow> ReplayError + ReplayState" where
  "apply_entry fresh name allow_embedded_metadata s entry st =
     (case entry of
        Message i role content ts _ \<Rightarrow>
          replay_message fresh
            \<lparr>msg_role = role, msg_content = content, msg_id = i, msg_log_seq = Some s,
             msg_log_timestamp = ts\<rparr> st
      | ToolCalls t thought calls ts _ \<Rightarrow>
          Inr (replay_tool_calls fresh
            \<lparr>rtc_seq = s, rtc_text = t, rtc_thought = thought, rtc_calls = calls, rtc_timestamp = ts\<rparr> st)
      | ToolResults results _ \<Rightarrow> Inr (replay_tool_results name s results st)
      | DataUrls urls \<Rightarrow>
          Inr (st\<lparr>rs_session := (rs_session st)
            \<lparr>sess_data_urls := sess_data_urls (rs_session st) ++ urls\<rparr>\<rparr>)
      | Compress prompt \<Rightarrow> Inr (replay_compress fresh prompt st)
      | Clear \<Rightarrow> Inr (replay_clear st)
      | Unknown \<Rightarrow> if allow_embedded_metadata then Inr st else Inl UnsupportedEntry
      | _ \<Rightarrow> Inr st)"

definition replay_step ::
  "(nat \<Rightarrow> string) \<Rightarrow> string \<Rightarrow> bool \<Rightarrow> ReplayError + ReplayState \<Rightarrow> seq \<times> SessionLogEntry
     \<Rightarrow> ReplayError + ReplayState" where
  "replay_step fresh name allow acc row =
     (case acc of
        Inl err \<Rightarrow> Inl err
      | Inr st \<Rightarrow>
          (case note_from_entry (snd row) of
             Some n \<Rightarrow> Inr (replay_runtime_note fresh n (fst row) st)
           | None \<Rightarrow> apply_entry fresh name allow (fst row) (snd row) st))"

definition replay_finish :: "(nat \<Rightarrow> string) \<Rightarrow> TrailingToolCallPolicy \<Rightarrow> ReplayState \<Rightarrow> Session" where
  "replay_finish fresh trailing_tool_calls st =
     rs_session (drain_queue (close_pending fresh
       (case trailing_tool_calls of
          TrailingInterrupted \<Rightarrow> LOST_TOOL_RESPONSE_ERROR
        | TrailingPending \<Rightarrow> PENDING_TOOL_RESPONSE_ERROR) st))"

definition replay_log_entries_into_session ::
  "yaml_parser \<Rightarrow> (nat \<Rightarrow> string) \<Rightarrow> log \<Rightarrow> string \<Rightarrow> Session \<Rightarrow> ReplayOptions
     \<Rightarrow> ReplayError + Session" where
  "replay_log_entries_into_session yaml fresh raw_entries name session options =
     (if \<not> opt_allow_embedded_metadata options \<and> list_ex (\<lambda>row. snd row = Unknown) raw_entries
      then Inl UnsupportedEntry
      else (case foldl (replay_step fresh name (opt_allow_embedded_metadata options))
                   (Inr (ReplayState_new session))
                   (apply_log_mutations_with_name yaml raw_entries name) of
              Inl err \<Rightarrow> Inl err
            | Inr st \<Rightarrow> Inr (replay_finish fresh (opt_trailing_tool_calls options) st)))"

definition replay_log_entries_for_external ::
  "yaml_parser \<Rightarrow> (nat \<Rightarrow> string) \<Rightarrow> log \<Rightarrow> string \<Rightarrow> bool \<Rightarrow> ReplayError + Session" where
  "replay_log_entries_for_external yaml fresh raw_entries name preserve_pending =
     replay_log_entries_into_session yaml fresh raw_entries name Session_default
       (ReplayOptions_new True preserve_pending)"

definition replay_nats_entries_into_session ::
  "yaml_parser \<Rightarrow> (nat \<Rightarrow> string) \<Rightarrow> log \<Rightarrow> string \<Rightarrow> Session \<Rightarrow> bool \<Rightarrow> ReplayError + Session" where
  "replay_nats_entries_into_session yaml fresh raw_entries name session preserve_pending =
     replay_log_entries_into_session yaml fresh raw_entries name session
       (ReplayOptions_new False preserve_pending)"

section \<open>Matching calls and outputs\<close>

lemma length_match_by_id [simp]: "length (match_by_id m ps ids) = length ids"
  by (induction m ps ids rule: match_by_id.induct)
    (auto simp del: fun_upd_apply split: option.splits list.splits)

lemma result_call_stored [simp]: "result_call (stored_result c slot) = c"
  by (simp add: stored_result_def ToolResult_new_def split: option.splits)

lemma map_result_call_stored [simp]:
  "length slots = length calls \<Longrightarrow>
     map (result_call \<circ> (\<lambda>(call, slot). stored_result call slot)) (zip calls slots) = calls"
  by (induction calls slots rule: list_induct2') auto

lemma index_by_id_None: "i \<notin> set (filter_map key xs) \<Longrightarrow> index_by_id key xs i = None"
  by (auto simp: index_by_id_def map_of_eq_None_iff image_iff)

lemma index_by_id_Cons:
  "index_by_id key (x # xs) i =
     (case index_by_id key xs i of Some y \<Rightarrow> Some y | None \<Rightarrow> if key x = Some i then Some x else None)"
  by (auto simp: index_by_id_def map_add_def split: option.splits)

text \<open>With distinct ids, every entry goes back to its own place.\<close>

lemma match_own_slots:
  "distinct (filter_map key xs) \<Longrightarrow>
     match_by_id (index_by_id key xs) (filter (\<lambda>x. key x = None) xs) (map key xs) = map Some xs"
proof (induction xs)
  case (Cons x xs)
  show ?case
  proof (cases "key x")
    case None
    have "index_by_id key (x # xs) = index_by_id key xs"
      by (rule ext) (simp add: index_by_id_Cons None split: option.splits)
    with Cons None show ?thesis by simp
  next
    case (Some i)
    have fresh: "index_by_id key xs i = None" "i \<notin> set (filter_map key xs)"
      using Cons.prems Some by (auto intro: index_by_id_None)
    have "(index_by_id key (x # xs))(i := None) = index_by_id key xs"
      by (rule ext) (use Some fresh(1) in \<open>auto simp: index_by_id_Cons split: option.splits\<close>)
    moreover have "index_by_id key (x # xs) i = Some x" using Some fresh(1) by (simp add: index_by_id_Cons)
    ultimately show ?thesis using Cons Some by (simp del: fun_upd_apply)
  qed
qed simp

section \<open>What a replay keeps\<close>

text \<open>
  Two views of a transcript: what was said, in order, and the tool rounds, in order. The same views
  of a log: its message and note rows, and its call rows, since the last \<open>Clear\<close>.
\<close>

definition said :: "Message \<Rightarrow> MessageRole \<times> MessageContent \<times> seq option" where
  "said m = (msg_role m, msg_content m, msg_log_seq m)"

definition spoken :: "Message list \<Rightarrow> (MessageRole \<times> MessageContent \<times> seq option) list" where
  "spoken ms = map said (filter (\<lambda>m. msg_role m \<noteq> Tool) ms)"

type_synonym round_key = "seq option \<times> string \<times> string option \<times> ToolCall list"

definition round_of :: "Message \<Rightarrow> round_key option" where
  "round_of m =
     (case msg_content m of
        ToolCallsContent c \<Rightarrow>
          if msg_role m = Tool
          then Some (msg_log_seq m, mtc_text c, mtc_thought c, map result_call (mtc_tool_results c))
          else None
      | _ \<Rightarrow> None)"

definition row_said :: "bool \<Rightarrow> seq \<times> SessionLogEntry \<Rightarrow> (MessageRole \<times> MessageContent \<times> seq option) option" where
  "row_said instructed row =
     (case note_from_entry (snd row) of
        Some n \<Rightarrow> Some (User, Text (note_text n), Some (fst row))
      | None \<Rightarrow>
          (case snd row of
             Message _ role content _ _ \<Rightarrow>
               if role = System \<and> instructed then None else Some (role, content, Some (fst row))
           | _ \<Rightarrow> None))"

definition row_round :: "seq \<times> SessionLogEntry \<Rightarrow> round_key option" where
  "row_round row =
     (case snd row of ToolCalls t thought calls _ _ \<Rightarrow> Some (Some (fst row), t, thought, calls) | _ \<Rightarrow> None)"

definition since_clear :: "log \<Rightarrow> log" where
  "since_clear es = drop (after_last (\<lambda>row. snd row = Clear) es) es"

lemma since_clear_Nil [simp]: "since_clear [] = []"
  by (simp add: since_clear_def)

lemma since_clear_snoc [simp]:
  "since_clear (es @ [row]) = (if snd row = Clear then [] else since_clear es @ [row])"
  using last_boundary.cut_le [of "\<lambda>row. snd row = Clear" es]
  by (simp add: since_clear_def last_boundary.cut_append_boundary last_boundary.cut_append_clean)

definition all_messages :: "ReplayState \<Rightarrow> Message list" where
  "all_messages st = sess_compressed_messages (rs_session st) @ sess_messages (rs_session st)"

definition pending_key :: "ReplayToolCalls \<Rightarrow> round_key" where
  "pending_key p = (Some (rtc_seq p), rtc_text p, rtc_thought p, rtc_calls p)"

definition state_spoken where
  "state_spoken st = spoken (all_messages st @ rs_queued st)"

definition state_rounds where
  "state_rounds st =
     filter_map round_of (all_messages st) @ map pending_key (case rs_pending st of None \<Rightarrow> [] | Some p \<Rightarrow> [p])"

definition instructed :: "ReplayState \<Rightarrow> bool" where
  "instructed st \<longleftrightarrow> sess_agent_instructions (rs_session st) \<noteq> []"

definition queue_ok :: "ReplayState \<Rightarrow> bool" where
  "queue_ok st \<longleftrightarrow> (rs_pending st = None \<longrightarrow> rs_queued st = []) \<and>
     (\<forall>m \<in> set (rs_queued st). is_user (msg_role m))"

lemmas view_defs = state_spoken_def state_rounds_def instructed_def all_messages_def queue_ok_def
  spoken_def said_def

lemma role_assembled [simp]:
  "msg_role (assemble_tool_message t th calls rs) = Tool"
  "msg_role (assemble_synthetic_tool_message i p err) = Tool"
  by (simp_all add: assemble_tool_message_def assemble_synthetic_tool_message_def Message_new_def
      Let_def split: option.splits)

lemma round_of_assembled [simp]:
  "round_of ((assemble_tool_message t th calls rs)\<lparr>msg_log_seq := Some s\<rparr>) = Some (Some s, t, th, calls)"
  "round_of ((assemble_tool_message t th calls rs)\<lparr>msg_log_seq := Some s, msg_log_timestamp := ts\<rparr>) =
     Some (Some s, t, th, calls)"
  "round_of (assemble_synthetic_tool_message i p err) = Some (pending_key p)"
  by (simp_all add: round_of_def assemble_tool_message_def assemble_synthetic_tool_message_def
      Message_new_def MessageContentToolCalls_new_def pending_key_def Let_def split: option.splits)

lemma round_of_not_tool: "msg_role m \<noteq> Tool \<Longrightarrow> round_of m = None"
  by (simp add: round_of_def split: MessageContent.splits)

lemma filter_map_none: "\<forall>x \<in> set xs. f x = None \<Longrightarrow> filter_map f xs = []"
  by (induction xs) auto

lemma rounds_of_users: "\<forall>m \<in> set ms. is_user (msg_role m) \<Longrightarrow> filter_map round_of ms = []"
  by (rule filter_map_none) (auto simp: is_user_def intro: round_of_not_tool)

lemma close_pending_views [simp]:
  "state_spoken (close_pending fresh err st) = state_spoken st"
  "state_rounds (close_pending fresh err st) = state_rounds st"
  "rs_pending (close_pending fresh err st) = None"
  "rs_queued (close_pending fresh err st) = rs_queued st"
  "instructed (close_pending fresh err st) = instructed st"
  by (auto simp: close_pending_def push_messages_def view_defs split: option.splits)

lemma drain_queue_views:
  assumes "rs_pending st = None" "\<forall>m \<in> set (rs_queued st). is_user (msg_role m)"
  shows "state_spoken (drain_queue st) = state_spoken st"
    "state_rounds (drain_queue st) = state_rounds st"
    "rs_pending (drain_queue st) = None" "rs_queued (drain_queue st) = []"
    "instructed (drain_queue st) = instructed st"
  using assms rounds_of_users [OF assms(2)]
  by (simp_all add: drain_queue_def push_messages_def view_defs)

lemma finish_orphaned_views:
  assumes "queue_ok st"
  shows "state_spoken (finish_orphaned_tool_round fresh st) = state_spoken st"
    "state_rounds (finish_orphaned_tool_round fresh st) = state_rounds st"
    "rs_pending (finish_orphaned_tool_round fresh st) = None"
    "rs_queued (finish_orphaned_tool_round fresh st) = []"
    "instructed (finish_orphaned_tool_round fresh st) = instructed st"
  using assms
  by (simp_all add: finish_orphaned_tool_round_def drain_queue_views queue_ok_def)

lemma push_message_views:
  assumes "rs_pending st = None" "rs_queued st = []" "msg_role m \<noteq> Tool"
  shows "state_spoken (push_messages [m] st) = state_spoken st @ [said m]"
    "state_rounds (push_messages [m] st) = state_rounds st"
    "queue_ok (push_messages [m] st)"
    "instructed (push_messages [m] st) = instructed st"
  using assms by (simp_all add: push_messages_def view_defs round_of_not_tool)

lemma enqueue_views:
  assumes "rs_pending st \<noteq> None" "queue_ok st" "is_user (msg_role m)"
  shows "state_spoken (st\<lparr>rs_queued := rs_queued st @ [m]\<rparr>) = state_spoken st @ [said m]"
    "state_rounds (st\<lparr>rs_queued := rs_queued st @ [m]\<rparr>) = state_rounds st"
    "queue_ok (st\<lparr>rs_queued := rs_queued st @ [m]\<rparr>)"
    "instructed (st\<lparr>rs_queued := rs_queued st @ [m]\<rparr>) = instructed st"
  using assms by (auto simp: view_defs is_user_def)

text \<open>What each handler adds to the two views.\<close>

definition adds :: "ReplayState \<Rightarrow> ReplayState
    \<Rightarrow> (MessageRole \<times> MessageContent \<times> seq option) list \<Rightarrow> round_key list \<Rightarrow> bool" where
  "adds st st' words rounds \<longleftrightarrow>
     state_spoken st' = state_spoken st @ words \<and> state_rounds st' = state_rounds st @ rounds \<and>
     queue_ok st' \<and> instructed st' = instructed st"

lemma replay_message_adds:
  assumes "queue_ok st" "replay_message fresh m st = Inr st'"
  shows "adds st st' (if msg_role m = System \<and> instructed st then [] else [said m]) []"
  using assms finish_orphaned_views [OF assms(1)]
    push_message_views [of "finish_orphaned_tool_round fresh st" m] enqueue_views [of st m]
  by (auto simp: adds_def replay_message_def instructed_def is_user_def split: if_splits)

lemma replay_note_adds:
  assumes "queue_ok st"
  shows "adds st (replay_runtime_note fresh n s st) [(User, Text (note_text n), Some s)] []"
proof -
  let ?m = "note_into_message (fresh (rs_minted st)) n s" and ?st = "st\<lparr>rs_minted := rs_minted st + 1\<rparr>"
  have m: "is_user (msg_role ?m)" "said ?m = (User, Text (note_text n), Some s)"
    by (simp_all add: note_into_message_def Message_new_def said_def is_user_def)
  have "adds st ?st [] []" using assms by (simp add: adds_def view_defs)
  then show ?thesis
    using assms m push_message_views [of ?st ?m] enqueue_views [of ?st ?m]
    by (auto simp: adds_def replay_runtime_note_def Let_def is_user_def queue_ok_def)
qed

lemma replay_calls_adds:
  "queue_ok st \<Longrightarrow> adds st (replay_tool_calls fresh p st) [] [pending_key p]"
  using finish_orphaned_views [of st fresh]
  by (simp add: adds_def replay_tool_calls_def Let_def state_spoken_def state_rounds_def all_messages_def
      instructed_def queue_ok_def)

lemma replay_results_adds:
  assumes "queue_ok st"
  shows "adds st (replay_tool_results name s rs st) [] []"
proof (cases "rs_pending st")
  case None
  then show ?thesis using assms
    by (auto simp: adds_def replay_tool_results_def orphaned_tool_results_def view_defs Let_def)
next
  case (Some p)
  then show ?thesis using assms rounds_of_users [of "rs_queued st"]
    by (auto simp: adds_def replay_tool_results_def Let_def drain_queue_def push_messages_def view_defs
        pending_key_def split: option.splits)
qed

lemma replay_compress_adds: "queue_ok st \<Longrightarrow> adds st (replay_compress fresh prompt st) [] []"
  using finish_orphaned_views [of st fresh]
  by (simp add: adds_def replay_compress_def Let_def state_spoken_def state_rounds_def all_messages_def
      instructed_def queue_ok_def)

definition opt_list :: "'a option \<Rightarrow> 'a list" where
  [simp]: "opt_list x = (case x of None \<Rightarrow> [] | Some y \<Rightarrow> [y])"

lemma filter_map_snoc: "filter_map f (xs @ [x]) = filter_map f xs @ opt_list (f x)"
  by (simp split: option.splits)

lemma adds_nothing: "queue_ok st \<Longrightarrow> adds st st [] []"
  by (simp add: adds_def)

lemma replay_step_adds:
  assumes "queue_ok st" "replay_step fresh name allow (Inr st) row = Inr st'" "snd row \<noteq> Clear"
  shows "adds st st' (opt_list (row_said (instructed st) row)) (opt_list (row_round row))"
proof (cases "snd row")
  case (Message i role content ts f)
  let ?m = "\<lparr>msg_role = role, msg_content = content, msg_id = i, msg_log_seq = Some (fst row),
    msg_log_timestamp = ts\<rparr>"
  have "replay_message fresh ?m st = Inr st'"
    using assms(2) Message by (simp add: replay_step_def note_from_entry_def apply_entry_def)
  from replay_message_adds [OF assms(1) this] Message show ?thesis
    by (auto simp: row_said_def row_round_def note_from_entry_def said_def)
next
  case (ToolCalls t th calls ts f)
  then show ?thesis
    using assms(2) replay_calls_adds [OF assms(1), of fresh "\<lparr>rtc_seq = fst row, rtc_text = t,
      rtc_thought = th, rtc_calls = calls, rtc_timestamp = ts\<rparr>"]
    by (auto simp: replay_step_def note_from_entry_def apply_entry_def row_said_def row_round_def
        pending_key_def)
next
  case (DataUrls urls)
  then show ?thesis using assms(1,2)
    by (auto simp: replay_step_def note_from_entry_def apply_entry_def row_said_def row_round_def
        adds_def view_defs)
next
  case Unknown
  then show ?thesis using assms(1,2)
    by (auto simp: replay_step_def note_from_entry_def apply_entry_def row_said_def row_round_def
        adds_nothing split: if_splits)
qed (use assms in \<open>auto simp: replay_step_def note_from_entry_def apply_entry_def row_said_def row_round_def
       intro: adds_nothing replay_note_adds replay_results_adds replay_compress_adds\<close>)

lemma replay_clear_views:
  assumes "replay_step fresh name allow (Inr st) (s, Clear) = Inr st'"
  shows "state_spoken st' = []" "state_rounds st' = []" "queue_ok st'" "instructed st' = instructed st"
  using assms
  by (auto simp: replay_step_def note_from_entry_def apply_entry_def replay_clear_def view_defs)

definition conversation_kept :: "bool \<Rightarrow> log \<Rightarrow> ReplayError + ReplayState \<Rightarrow> bool" where
  "conversation_kept ins es r =
     (case r of
        Inl _ \<Rightarrow> True
      | Inr st \<Rightarrow> queue_ok st \<and> instructed st = ins \<and>
          state_spoken st = filter_map (row_said ins) (since_clear es) \<and>
          state_rounds st = filter_map row_round (since_clear es))"

definition emptied :: "Session \<Rightarrow> Session" where
  "emptied session = session\<lparr>sess_messages := [], sess_compressed_messages := []\<rparr>"

interpretation conversation: log_account "replay_step fresh name allow"
  "Inr (ReplayState_new (emptied session))" "conversation_kept (sess_agent_instructions session \<noteq> [])"
  for fresh name allow session
proof
  show "conversation_kept (sess_agent_instructions session \<noteq> []) [] (Inr (ReplayState_new (emptied session)))"
    by (simp add: conversation_kept_def ReplayState_new_def emptied_def view_defs)
next
  fix es r row
  assume acc: "conversation_kept (sess_agent_instructions session \<noteq> []) es r"
  show "conversation_kept (sess_agent_instructions session \<noteq> []) (es @ [row]) (replay_step fresh name allow r row)"
  proof (cases "replay_step fresh name allow r row")
    case (Inr st')
    then obtain st where r: "r = Inr st" by (cases r) (auto simp: replay_step_def)
    show ?thesis
    proof (cases "snd row = Clear")
      case True
      with Inr r have "replay_step fresh name allow (Inr st) (fst row, Clear) = Inr st'"
        by (metis prod.collapse)
      from replay_clear_views [OF this] acc r True Inr show ?thesis by (simp add: conversation_kept_def)
    next
      case False
      have "queue_ok st" using acc r by (simp add: conversation_kept_def)
      from replay_step_adds [OF this _ False, of fresh name allow st'] acc r False Inr show ?thesis
        by (simp add: conversation_kept_def adds_def filter_map_snoc del: opt_list_def filter_map_append)
    qed
  qed (simp add: conversation_kept_def)
qed

lemma finish_views:
  assumes "queue_ok st"
  shows "spoken (sess_compressed_messages (replay_finish fresh p st) @ sess_messages (replay_finish fresh p st)) =
      state_spoken st"
    "filter_map round_of (sess_compressed_messages (replay_finish fresh p st) @
       sess_messages (replay_finish fresh p st)) = state_rounds st"
proof -
  let ?c = "close_pending fresh (case p of TrailingInterrupted \<Rightarrow> LOST_TOOL_RESPONSE_ERROR
    | TrailingPending \<Rightarrow> PENDING_TOOL_RESPONSE_ERROR) st"
  have q: "rs_pending ?c = None" "\<forall>m \<in> set (rs_queued ?c). is_user (msg_role m)"
    using assms by (simp_all add: queue_ok_def)
  let ?d = "drain_queue ?c"
  note d = drain_queue_views [OF q]
  have f: "replay_finish fresh p st = rs_session ?d" by (simp only: replay_finish_def)
  have "spoken (all_messages ?d) = state_spoken ?d" using d(4) by (simp add: state_spoken_def)
  then show "spoken (sess_compressed_messages (replay_finish fresh p st) @ sess_messages (replay_finish fresh p st)) =
      state_spoken st"
    by (simp only: f d(1) close_pending_views all_messages_def)
  have "filter_map round_of (all_messages ?d) = state_rounds ?d" using d(3) by (simp add: state_rounds_def)
  then show "filter_map round_of (sess_compressed_messages (replay_finish fresh p st) @
       sess_messages (replay_finish fresh p st)) = state_rounds st"
    by (simp only: f d(2) close_pending_views all_messages_def)
qed

section \<open>Properties\<close>

text \<open>
  C22: A replay keeps the conversation. Whatever the order of rows, user messages sent while a tool
  round was open included, the rebuilt transcript (archived messages, then the active ones) holds
  every message and every runtime note since the last clear exactly once and in log order, and
  one tool message for every tool round since then, with its calls in order.
\<close>

theorem replay_keeps_conversation:
  assumes "replay_log_entries_into_session yaml fresh raw name session options = Inr s"
    and "sess_messages session = []" "sess_compressed_messages session = []"
  shows "spoken (sess_compressed_messages s @ sess_messages s) =
      filter_map (row_said (sess_agent_instructions session \<noteq> [])) (since_clear (apply_log_mutations yaml raw))
    \<and> filter_map round_of (sess_compressed_messages s @ sess_messages s) =
      filter_map row_round (since_clear (apply_log_mutations yaml raw))"
proof -
  have e: "emptied session = session" using assms(2,3) by (simp add: emptied_def)
  obtain st where st: "foldl (replay_step fresh name (opt_allow_embedded_metadata options))
      (Inr (ReplayState_new session)) (apply_log_mutations yaml raw) = Inr st"
    "s = replay_finish fresh (opt_trailing_tool_calls options) st"
    using assms(1) by (auto simp: replay_log_entries_into_session_def apply_log_mutations_def
        apply_log_mutations_with_name_def split: if_splits sum.splits)
  have "conversation_kept (sess_agent_instructions session \<noteq> []) (apply_log_mutations yaml raw) (Inr st)"
    using conversation.account_run [of session "apply_log_mutations yaml raw" fresh name] st(1) e by metis
  then show ?thesis using finish_views [of st] st(2) by (simp add: conversation_kept_def)
qed

definition demo_log :: log where
  "demo_log =
     [(1, Message (Some ''m1'') User (Text ''go'') None None),
      (2, ToolCalls ''t'' None [ToolCall_new ''ls'' JNull (Some ''c1'') None] None None),
      (3, Message (Some ''m2'') User (Text ''also'') None None),
      (4, ToolResults [\<lparr>out_id = Some ''c1'', out_name = ''ls'', out_output = JString ''ok'',
         out_markdown = None, out_content = [], out_switch_agent = None\<rparr>] None)]"

lemmas replay_eval = replay_log_entries_into_session_def apply_log_mutations_with_name_def
  apply_log_step_def replay_step_def apply_entry_def note_from_entry_def replay_message_def
  replay_tool_calls_def replay_tool_results_def finish_orphaned_tool_round_def close_pending_def
  drain_queue_def push_messages_def replay_finish_def ReplayState_new_def Session_default_def
  is_user_def

lemma demo_replays:
  "\<exists>s. replay_log_entries_into_session yaml fresh demo_log name Session_default (ReplayOptions_new a p) = Inr s"
  by (simp add: demo_log_def replay_eval ReplayOptions_new_def Let_def)

lemma demo_effective: "apply_log_mutations yaml demo_log = demo_log"
  by (rule apply_log_mutations_plain) (simp add: demo_log_def no_control_def control_row_def)

lemma demo_said:
  "filter_map (row_said False) (since_clear demo_log) =
     [(User, Text ''go'', Some 1), (User, Text ''also'', Some 3)]"
  by (simp add: demo_log_def since_clear_def after_last_def rposition_def row_said_def note_from_entry_def)

theorem replay_keeps_conversation_witness:
  "\<exists>s. replay_log_entries_into_session (\<lambda>_. None) (\<lambda>_. ''x'') demo_log ''s'' Session_default
      (ReplayOptions_new True False) = Inr s \<and>
    spoken (sess_compressed_messages s @ sess_messages s) =
      [(User, Text ''go'', Some 1), (User, Text ''also'', Some 3)]"
proof -
  obtain s where s: "replay_log_entries_into_session (\<lambda>_. None) (\<lambda>_. ''x'') demo_log ''s'' Session_default
      (ReplayOptions_new True False) = Inr s"
    using demo_replays by blast
  have "spoken (sess_compressed_messages s @ sess_messages s) =
      filter_map (row_said False) (since_clear demo_log)"
    using replay_keeps_conversation [OF s] by (simp add: demo_effective Session_default_def)
  with s demo_said show ?thesis by auto
qed

section \<open>Where a round stands\<close>

definition grows :: "ReplayState \<Rightarrow> ReplayState \<Rightarrow> bool" where
  "grows st st' \<longleftrightarrow> (\<exists>ms. all_messages st' = all_messages st @ ms)"

lemma grows_refl [simp]: "grows st st"
  by (simp add: grows_def)

lemma grows_trans [trans]: "grows a b \<Longrightarrow> grows b c \<Longrightarrow> grows a c"
  by (auto simp: grows_def)

lemma grows_close [simp]: "grows st (close_pending fresh err st)"
  by (auto simp: grows_def close_pending_def push_messages_def all_messages_def split: option.splits)

lemma grows_drain [simp]: "grows st (drain_queue st)"
  by (simp add: grows_def drain_queue_def push_messages_def all_messages_def)

lemma grows_push [simp]: "grows st (push_messages ms st)"
  by (simp add: grows_def push_messages_def all_messages_def)

lemma grows_finish_orphaned [simp]: "grows st (finish_orphaned_tool_round fresh st)"
  unfolding finish_orphaned_tool_round_def by (rule grows_trans [OF grows_close grows_drain])

lemma grows_keep: "all_messages st'' = all_messages st' \<Longrightarrow> grows st st' \<Longrightarrow> grows st st''"
  by (simp add: grows_def)

lemma grows_step:
  assumes "replay_step fresh name allow (Inr st) row = Inr st'" "snd row \<noteq> Clear"
  shows "grows st st'"
proof (cases "snd row")
  case (Message i role content ts f)
  then show ?thesis using assms(1) grows_trans [OF grows_finish_orphaned grows_push]
    by (auto simp: replay_step_def note_from_entry_def apply_entry_def replay_message_def
        split: if_splits intro: grows_keep [of _ st])
       (auto simp: grows_def all_messages_def)
next
  case (ToolCalls t th calls ts f)
  then show ?thesis using assms(1)
    by (auto simp: replay_step_def note_from_entry_def apply_entry_def replay_tool_calls_def Let_def
        intro!: grows_keep [OF _ grows_finish_orphaned]) (simp add: all_messages_def)
next
  case (Compress p)
  then show ?thesis using assms(1)
    by (auto simp: replay_step_def note_from_entry_def apply_entry_def replay_compress_def Let_def
        intro!: grows_keep [OF _ grows_finish_orphaned]) (simp add: all_messages_def)
qed (use assms in \<open>auto simp: replay_step_def note_from_entry_def apply_entry_def replay_tool_results_def
       orphaned_tool_results_def replay_runtime_note_def grows_def drain_queue_def push_messages_def
       all_messages_def Let_def split: if_splits option.splits\<close>)

lemma replay_step_Inl [simp]: "foldl (replay_step fresh name allow) (Inl err) rows = Inl err"
  by (induction rows) (simp_all add: replay_step_def)

lemma replay_run_snocE:
  assumes "foldl (replay_step fresh name allow) r (rows @ rest) = Inr st'"
  obtains st where "foldl (replay_step fresh name allow) r rows = Inr st"
    "foldl (replay_step fresh name allow) (Inr st) rest = Inr st'"
  using assms by (cases "foldl (replay_step fresh name allow) r rows") auto

lemma grows_run:
  "foldl (replay_step fresh name allow) (Inr st) rows = Inr st' \<Longrightarrow> \<forall>row \<in> set rows. snd row \<noteq> Clear \<Longrightarrow>
     grows st st'"
proof (induction rows arbitrary: st)
  case (Cons row rows)
  then obtain st1 where s1: "replay_step fresh name allow (Inr st) row = Inr st1"
    by (cases "replay_step fresh name allow (Inr st) row") auto
  from Cons s1 have "grows st1 st'" by simp
  moreover have "grows st st1" using grows_step [OF s1] Cons.prems(2) by simp
  ultimately show ?case by (metis grows_trans)
qed simp

text \<open>Rows that leave an open round open.\<close>

definition keeps_open :: "SessionLogEntry \<Rightarrow> bool" where
  "keeps_open e =
     (case e of
        Message _ role _ _ _ \<Rightarrow> role = User
      | ToolCalls _ _ _ _ _ \<Rightarrow> False | ToolResults _ _ \<Rightarrow> False
      | Compress _ \<Rightarrow> False | Clear \<Rightarrow> False | _ \<Rightarrow> True)"

lemma keeps_open_step:
  assumes "replay_step fresh name allow (Inr st) row = Inr st'" "keeps_open (snd row)" "rs_pending st = Some p"
  shows "rs_pending st' = Some p \<and> all_messages st' = all_messages st"
  using assms
  by (cases "snd row")
    (auto simp: replay_step_def note_from_entry_def apply_entry_def replay_message_def is_user_def
      replay_runtime_note_def keeps_open_def all_messages_def Let_def split: if_splits)

lemma keeps_open_run:
  "foldl (replay_step fresh name allow) (Inr st) rows = Inr st' \<Longrightarrow> \<forall>row \<in> set rows. keeps_open (snd row) \<Longrightarrow>
     rs_pending st = Some p \<Longrightarrow> rs_pending st' = Some p \<and> all_messages st' = all_messages st"
proof (induction rows arbitrary: st)
  case (Cons row rows)
  then obtain st1 where s1: "replay_step fresh name allow (Inr st) row = Inr st1"
    by (cases "replay_step fresh name allow (Inr st) row") auto
  with keeps_open_step [OF s1 _ Cons.prems(3)] Cons show ?case by simp
qed simp

definition round_message ::
  "seq \<Rightarrow> string \<Rightarrow> string option \<Rightarrow> ToolCall list \<Rightarrow> instant option \<Rightarrow> ToolOutput list \<Rightarrow> Message" where
  "round_message s t th calls ts rs =
     (assemble_tool_message t th calls rs)\<lparr>msg_log_seq := Some s, msg_log_timestamp := ts\<rparr>"

lemma answer_step:
  assumes "replay_step fresh name allow (Inr st) (s', ToolResults rs ts') = Inr st'"
    and "rs_pending st = Some p"
  shows "all_messages st' = all_messages st @
    round_message (rtc_seq p) (rtc_text p) (rtc_thought p) (rtc_calls p) (rtc_timestamp p) rs # rs_queued st"
proof -
  have "m\<lparr>msg_log_timestamp := None\<rparr> = m" if "msg_log_timestamp m = None" for m :: Message
    using that by simp
  moreover have "msg_log_timestamp (assemble_tool_message t th calls rs) = None" for t th calls
    by (simp add: assemble_tool_message_def Message_new_def)
  ultimately show ?thesis using assms
    by (auto simp: replay_step_def note_from_entry_def apply_entry_def replay_tool_results_def Let_def
        drain_queue_def push_messages_def all_messages_def round_message_def split: option.splits)
qed

lemma open_step:
  assumes "queue_ok st" "replay_step fresh name allow (Inr st) (s, ToolCalls t th calls ts f) = Inr st'"
  shows "rs_pending st' =
      Some \<lparr>rtc_seq = s, rtc_text = t, rtc_thought = th, rtc_calls = calls, rtc_timestamp = ts\<rparr>"
    "spoken (all_messages st') = state_spoken st"
  using assms(2) finish_orphaned_views(1,4) [OF assms(1), of fresh]
  by (auto simp: replay_step_def note_from_entry_def apply_entry_def replay_tool_calls_def Let_def
      all_messages_def state_spoken_def)

lemma grows_replay_finish:
  "\<exists>ms. sess_compressed_messages (replay_finish fresh p st) @ sess_messages (replay_finish fresh p st) =
     all_messages st @ ms"
  using grows_trans [OF grows_close grows_drain, of st]
  by (simp add: grows_def replay_finish_def all_messages_def)

text \<open>
  An answered round is replayed where it happened. A call row whose results row is the next row
  of a kind that ends a round becomes one tool message, built from those calls and results, that
  stands behind everything said before the call and before everything said after it, messages
  that reached the log between call and results included.
\<close>

theorem answered_round_replayed:
  assumes replayed: "replay_log_entries_into_session yaml fresh raw name session options = Inr s"
    and empty: "sess_messages session = []" "sess_compressed_messages session = []"
    and rows: "apply_log_mutations yaml raw =
      pre @ (n, ToolCalls t th calls ts f) # mid @ (n', ToolResults rs ts') # post"
    and open_mid: "\<forall>row \<in> set mid. keeps_open (snd row)"
    and no_clear: "\<forall>row \<in> set post. snd row \<noteq> Clear"
  shows "\<exists>before behind.
    sess_compressed_messages s @ sess_messages s = before @ round_message n t th calls ts rs # behind \<and>
    spoken before = filter_map (row_said (sess_agent_instructions session \<noteq> [])) (since_clear pre)"
proof -
  let ?step = "replay_step fresh name (opt_allow_embedded_metadata options)"
  have e: "emptied session = session" using empty by (simp add: emptied_def)
  obtain st where run: "foldl ?step (Inr (ReplayState_new session))
      (pre @ (n, ToolCalls t th calls ts f) # mid @ (n', ToolResults rs ts') # post) = Inr st"
    and s: "s = replay_finish fresh (opt_trailing_tool_calls options) st"
    using replayed rows by (auto simp: replay_log_entries_into_session_def apply_log_mutations_def
        apply_log_mutations_with_name_def split: if_splits sum.splits)
  obtain st1 where st1: "foldl ?step (Inr (ReplayState_new session)) pre = Inr st1"
    and run1: "foldl ?step (Inr st1) ([(n, ToolCalls t th calls ts f)] @ mid @ (n', ToolResults rs ts') # post) = Inr st"
    using replay_run_snocE [OF run] by auto
  obtain st2 where st2: "?step (Inr st1) (n, ToolCalls t th calls ts f) = Inr st2"
    and run2: "foldl ?step (Inr st2) (mid @ (n', ToolResults rs ts') # post) = Inr st"
    using replay_run_snocE [OF run1] by auto
  obtain st3 where st3: "foldl ?step (Inr st2) mid = Inr st3"
    and run3: "foldl ?step (Inr st3) ([(n', ToolResults rs ts')] @ post) = Inr st"
    using replay_run_snocE [OF run2] by auto
  obtain st4 where st4: "?step (Inr st3) (n', ToolResults rs ts') = Inr st4" and run4: "foldl ?step (Inr st4) post = Inr st"
    using replay_run_snocE [OF run3] by auto
  have kept: "queue_ok st1"
    "state_spoken st1 = filter_map (row_said (sess_agent_instructions session \<noteq> [])) (since_clear pre)"
    using conversation.account_run [of session pre fresh name "opt_allow_embedded_metadata options"] st1 e
    by (simp_all add: conversation_kept_def)
  note opened = open_step [OF kept(1) st2] and mid = keeps_open_run [OF st3 open_mid open_step(1) [OF kept(1) st2]]
  have "all_messages st4 = all_messages st2 @ round_message n t th calls ts rs # rs_queued st3"
    using answer_step [OF st4 conjunct1 [OF mid]] mid by simp
  moreover obtain ms where "all_messages st = all_messages st4 @ ms"
    using grows_run [OF run4 no_clear] by (auto simp: grows_def)
  ultimately show ?thesis using opened(2) kept(2) grows_replay_finish [of fresh _ st] s by fastforce
qed

theorem answered_round_replayed_witness:
  "\<exists>s before behind.
    replay_log_entries_into_session (\<lambda>_. None) (\<lambda>_. ''x'') demo_log ''s'' Session_default
      (ReplayOptions_new True False) = Inr s \<and>
    sess_compressed_messages s @ sess_messages s =
      before @ round_message 2 ''t'' None [ToolCall_new ''ls'' JNull (Some ''c1'') None] None
        [\<lparr>out_id = Some ''c1'', out_name = ''ls'', out_output = JString ''ok'',
         out_markdown = None, out_content = [], out_switch_agent = None\<rparr>] # behind"
proof -
  obtain s where s: "replay_log_entries_into_session (\<lambda>_. None) (\<lambda>_. ''x'') demo_log ''s'' Session_default
      (ReplayOptions_new True False) = Inr s"
    using demo_replays by blast
  have "apply_log_mutations (\<lambda>_. None) demo_log =
      [(1, Message (Some ''m1'') User (Text ''go'') None None)] @
      (2, ToolCalls ''t'' None [ToolCall_new ''ls'' JNull (Some ''c1'') None] None None) #
      [(3, Message (Some ''m2'') User (Text ''also'') None None)] @
      (4, ToolResults [\<lparr>out_id = Some ''c1'', out_name = ''ls'', out_output = JString ''ok'',
         out_markdown = None, out_content = [], out_switch_agent = None\<rparr>] None) # []"
    unfolding demo_effective by (simp add: demo_log_def)
  from answered_round_replayed [OF s _ _ this] s show ?thesis
    by (fastforce simp: Session_default_def keeps_open_def)
qed

section \<open>Which logs are rejected\<close>

definition rejected :: "bool \<Rightarrow> SessionLogEntry \<Rightarrow> ReplayError option" where
  "rejected allow e =
     (case e of
        Message _ role _ _ _ \<Rightarrow> if role = Tool then Some ToolRoleMessage else None
      | Unknown \<Rightarrow> if allow then None else Some UnsupportedEntry
      | _ \<Rightarrow> None)"

lemma replay_step_cases:
  "case rejected allow (snd row) of
     Some err \<Rightarrow> replay_step fresh name allow (Inr st) row = Inl err
   | None \<Rightarrow> \<exists>st'. replay_step fresh name allow (Inr st) row = Inr st'"
  by (cases "snd row")
    (auto simp: rejected_def replay_step_def note_from_entry_def apply_entry_def replay_message_def)

lemma replay_run_rejected:
  "foldl (replay_step fresh name allow) (Inr st) rows = Inl err \<longleftrightarrow>
     find_map (\<lambda>row. rejected allow (snd row)) rows = Some err"
proof (induction rows arbitrary: st)
  case (Cons row rows)
  then show ?case using replay_step_cases [where allow = allow and row = row and fresh = fresh and name = name and st = st]
    by (cases "rejected allow (snd row)") auto
qed simp

text \<open>
  Replay fails on exactly the logs it must refuse, with the error of the first offending row:
  a canonical transcript with a legacy row, before edits and rewinds could hide it, or an
  effective log with a tool-role message or a legacy row. Every other log replays.
\<close>

theorem replay_rejects_first:
  "replay_log_entries_into_session yaml fresh raw name session options = Inl err \<longleftrightarrow>
     (if \<not> opt_allow_embedded_metadata options \<and> Unknown \<in> snd ` set raw then err = UnsupportedEntry
      else find_map (\<lambda>row. rejected (opt_allow_embedded_metadata options) (snd row))
             (apply_log_mutations yaml raw) = Some err)"
proof -
  let ?run = "foldl (replay_step fresh name (opt_allow_embedded_metadata options))
    (Inr (ReplayState_new session)) (apply_log_mutations yaml raw)"
  have "list_ex (\<lambda>row. snd row = Unknown) raw \<longleftrightarrow> Unknown \<in> snd ` set raw"
    by (force simp: list_ex_iff)
  moreover have "apply_log_mutations_with_name yaml raw name = apply_log_mutations yaml raw"
    by (simp add: apply_log_mutations_def apply_log_mutations_with_name_def)
  ultimately have "replay_log_entries_into_session yaml fresh raw name session options = Inl err \<longleftrightarrow>
     (if \<not> opt_allow_embedded_metadata options \<and> Unknown \<in> snd ` set raw then err = UnsupportedEntry
      else ?run = Inl err)"
    by (auto simp: replay_log_entries_into_session_def split: sum.splits)
  then show ?thesis by (simp add: replay_run_rejected)
qed

end
