(* ===== verification/Compaction_Plan.thy ===== *)
theory Compaction_Plan
  imports Timing_Identity
begin

text \<open>
  Which messages a compaction keeps verbatim and which it hands to the summarizer
  (\<open>harnx-runtime/src/config/compaction.rs\<close>), and the threshold that triggers it
  (\<open>harnx-core/src/session.rs\<close>, \<open>model.rs\<close>). \<open>tok\<close> is \<open>model.messages_tokens\<close> on one message;
  \<open>messages_tokens\<close> itself is below, over the floating-point word estimate, the think-tag regular
  expression and \<open>serde_json\<close>, which are arguments. \<open>usize\<close> sums are natural numbers, saturating
  ones are capped at \<open>usize_max\<close>.
\<close>

section \<open>Token counts and the threshold\<close>

definition PER_MESSAGES_TOKENS :: nat where "PER_MESSAGES_TOKENS = 5"

definition message_tokens ::
  "(string \<Rightarrow> nat) \<Rightarrow> (string \<Rightarrow> string) \<Rightarrow> (ToolResult \<Rightarrow> string option) \<Rightarrow> bool \<Rightarrow> Message \<Rightarrow> nat" where
  "message_tokens estimate strip_think to_json is_last m =
     (case msg_content m of
        Text t \<Rightarrow>
          if is_assistant (msg_role m) \<and> \<not> is_last then estimate (strip_think t) else estimate t
      | Array parts \<Rightarrow>
          sum_list (map (\<lambda>part. case part of TextPart t \<Rightarrow> estimate t | ImageUrlPart _ \<Rightarrow> 0) parts)
      | ToolCallsContent c \<Rightarrow>
          estimate (mtc_text c) +
          sum_list (map (\<lambda>r. case to_json r of Some j \<Rightarrow> estimate j | None \<Rightarrow> 0) (mtc_tool_results c)))"

definition messages_tokens ::
  "(string \<Rightarrow> nat) \<Rightarrow> (string \<Rightarrow> string) \<Rightarrow> (ToolResult \<Rightarrow> string option) \<Rightarrow> Message list \<Rightarrow> nat" where
  "messages_tokens estimate strip_think to_json messages =
     sum_list (map (\<lambda>(i, m). message_tokens estimate strip_think to_json (i = length messages - 1) m)
       (List.enumerate 0 messages))"

definition total_tokens :: "(Message list \<Rightarrow> nat) \<Rightarrow> Message list \<Rightarrow> nat" where
  "total_tokens count_tokens messages =
     (if messages = [] then 0
      else if is_user (msg_role (last messages))
        then length messages * PER_MESSAGES_TOKENS + count_tokens messages
      else (length messages - 1) * PER_MESSAGES_TOKENS + count_tokens messages)"

definition COMPRESS_THRESHOLD_MODEL_LIMIT_PERCENT :: nat where
  "COMPRESS_THRESHOLD_MODEL_LIMIT_PERCENT = 90"

definition effective_compress_threshold :: "nat \<Rightarrow> nat option \<Rightarrow> nat option \<Rightarrow> nat \<Rightarrow> nat" where
  "effective_compress_threshold usize_max max_input_tokens configured default' =
     (let threshold = (case configured of Some t \<Rightarrow> t | None \<Rightarrow> default')
      in case max_input_tokens of
           Some limit \<Rightarrow>
             min threshold (min usize_max (limit * COMPRESS_THRESHOLD_MODEL_LIMIT_PERCENT) div 100)
         | None \<Rightarrow> threshold)"

definition need_compress ::
  "nat \<Rightarrow> nat option \<Rightarrow> nat option \<Rightarrow> bool \<Rightarrow> nat \<Rightarrow> nat \<Rightarrow> bool" where
  "need_compress usize_max max_input_tokens configured compressing tokens global_threshold =
     (if compressing then False
      else let threshold = effective_compress_threshold usize_max max_input_tokens configured global_threshold
           in if threshold < 1 then False else threshold < tokens)"

section \<open>The plan\<close>

definition DEFAULT_KEEP_RECENT_TURNS :: nat where "DEFAULT_KEEP_RECENT_TURNS = 3"

definition DEFAULT_KEEP_RECENT_TOKENS :: nat where "DEFAULT_KEEP_RECENT_TOKENS = 8000"

definition DEFAULT_TOOL_OUTPUT_MAX_CHARS :: nat where "DEFAULT_TOOL_OUTPUT_MAX_CHARS = 2000"

record CompactionParams =
  keep_recent_turns :: nat
  keep_recent_tokens :: nat
  tool_output_max_chars :: nat

text \<open>The three arguments are the agent's own settings.\<close>

definition compaction_params :: "nat option \<Rightarrow> nat option \<Rightarrow> nat option \<Rightarrow> CompactionParams" where
  "compaction_params turns tokens max_chars =
     \<lparr>keep_recent_turns = (case turns of Some n \<Rightarrow> n | None \<Rightarrow> DEFAULT_KEEP_RECENT_TURNS),
      keep_recent_tokens = (case tokens of Some n \<Rightarrow> n | None \<Rightarrow> DEFAULT_KEEP_RECENT_TOKENS),
      tool_output_max_chars = (case max_chars of Some n \<Rightarrow> n | None \<Rightarrow> DEFAULT_TOOL_OUTPUT_MAX_CHARS)\<rparr>"

record KeepPlan =
  prompt_idx :: "nat option"
  tail_from :: nat

definition plan_contains :: "KeepPlan \<Rightarrow> nat \<Rightarrow> bool" where
  "plan_contains plan i \<longleftrightarrow> tail_from plan \<le> i \<or> prompt_idx plan = Some i"

definition prompt_before_tail :: "KeepPlan \<Rightarrow> nat \<Rightarrow> nat option" where
  "prompt_before_tail plan len =
     (case prompt_idx plan of
        Some i \<Rightarrow> if i < min (tail_from plan) len then Some i else None
      | None \<Rightarrow> None)"

definition kept_count :: "KeepPlan \<Rightarrow> nat \<Rightarrow> nat" where
  "kept_count plan len =
     (len - tail_from plan) + (if prompt_before_tail plan len \<noteq> None then 1 else 0)"

definition kept_indices :: "KeepPlan \<Rightarrow> nat \<Rightarrow> nat list" where
  "kept_indices plan len =
     (case prompt_before_tail plan len of Some i \<Rightarrow> [i] | None \<Rightarrow> []) @ [min (tail_from plan) len..<len]"

definition is_turn_prompt :: "(string \<Rightarrow> TimingReceipt option) \<Rightarrow> Message \<Rightarrow> bool" where
  "is_turn_prompt of_json m \<longleftrightarrow>
     is_user (msg_role m) \<and>
     \<not> is_timing_notice of_json (case msg_content m of Text t \<Rightarrow> t | c \<Rightarrow> to_text c)"

definition is_round_boundary :: "Message \<Rightarrow> bool" where
  "is_round_boundary m \<longleftrightarrow>
     msg_role m = Assistant \<or> (case msg_content m of ToolCallsContent _ \<Rightarrow> True | _ \<Rightarrow> False)"

text \<open>The loop \<open>for i in (0..len).rev()\<close>: the counter is one past the index it looks at next.\<close>

primrec suffix_floor_loop ::
  "(Message \<Rightarrow> bool) \<Rightarrow> (Message \<Rightarrow> nat) \<Rightarrow> nat \<Rightarrow> nat \<Rightarrow> Message list \<Rightarrow> nat \<Rightarrow> nat \<Rightarrow> nat \<Rightarrow> nat" where
  "suffix_floor_loop prompt tok keep_turns keep_tokens messages 0 turns tokens = 0"
| "suffix_floor_loop prompt tok keep_turns keep_tokens messages (Suc i) turns tokens =
     (let t = tok (messages ! i); user = prompt (messages ! i)
      in if (user \<and> keep_turns \<le> turns) \<or> keep_tokens < tokens + t then Suc i
         else suffix_floor_loop prompt tok keep_turns keep_tokens messages i
                (if user then turns + 1 else turns) (tokens + t))"

definition recent_suffix_floor ::
  "(Message \<Rightarrow> bool) \<Rightarrow> (Message \<Rightarrow> nat) \<Rightarrow> Message list \<Rightarrow> nat \<Rightarrow> nat \<Rightarrow> nat" where
  "recent_suffix_floor prompt tok messages keep_turns keep_tokens =
     suffix_floor_loop prompt tok keep_turns keep_tokens messages (length messages) 0 0"

definition first_from :: "(Message \<Rightarrow> bool) \<Rightarrow> Message list \<Rightarrow> nat \<Rightarrow> nat" where
  "first_from P messages start =
     (case find (\<lambda>i. P (messages ! i)) [start..<length messages] of
        Some i \<Rightarrow> i | None \<Rightarrow> length messages)"

definition whole_turn_suffix ::
  "(Message \<Rightarrow> bool) \<Rightarrow> (Message \<Rightarrow> nat) \<Rightarrow> Message list \<Rightarrow> CompactionParams \<Rightarrow> nat" where
  "whole_turn_suffix prompt tok messages params =
     (let tail = first_from prompt messages
            (recent_suffix_floor prompt tok messages (keep_recent_turns params) (keep_recent_tokens params))
      in if tail = 0
         then (case rposition prompt messages of
                 Some i \<Rightarrow> if 0 < i then i else length messages
               | None \<Rightarrow> length messages)
         else tail)"

primrec round_safe_loop ::
  "nat \<Rightarrow> (Message \<Rightarrow> nat) \<Rightarrow> nat \<Rightarrow> Message list \<Rightarrow> nat list \<Rightarrow> nat \<Rightarrow> nat \<Rightarrow> nat" where
  "round_safe_loop usize_max tok budget messages [] tail tokens = tail"
| "round_safe_loop usize_max tok budget messages (i # is) tail tokens =
     (let tokens' = min usize_max (tokens + tok (messages ! i))
      in if budget < tokens' then tail
         else round_safe_loop usize_max tok budget messages is
                (if is_round_boundary (messages ! i) then i else tail) tokens')"

definition round_safe_tail ::
  "nat \<Rightarrow> (Message \<Rightarrow> nat) \<Rightarrow> Message list \<Rightarrow> nat \<Rightarrow> nat \<Rightarrow> nat" where
  "round_safe_tail usize_max tok messages after_prompt budget =
     round_safe_loop usize_max tok budget messages (rev [after_prompt..<length messages])
       (length messages) 0"

definition split_latest_turn ::
  "nat \<Rightarrow> (Message \<Rightarrow> bool) \<Rightarrow> (Message \<Rightarrow> nat) \<Rightarrow> Message list \<Rightarrow> nat \<Rightarrow> nat \<Rightarrow> KeepPlan" where
  "split_latest_turn usize_max prompt tok messages keep_tokens effective_threshold =
     (let latest_prompt = rposition prompt messages;
          prompt_tokens = (case latest_prompt of Some i \<Rightarrow> tok (messages ! i) | None \<Rightarrow> 0);
          pidx = (if prompt_tokens \<le> keep_tokens \<or> prompt_tokens < (effective_threshold + 1) div 2
                  then latest_prompt else None);
          reserved = (if pidx = None then 0 else prompt_tokens)
      in \<lparr>prompt_idx = pidx,
          tail_from = round_safe_tail usize_max tok messages
            (case latest_prompt of Some i \<Rightarrow> i + 1 | None \<Rightarrow> 0) (keep_tokens - reserved)\<rparr>)"

definition leave_something_to_compact :: "KeepPlan \<Rightarrow> Message list \<Rightarrow> KeepPlan" where
  "leave_something_to_compact plan messages =
     (if messages = [] \<or> kept_count plan (length messages) < length messages then plan
      else if tail_from plan = length messages then plan\<lparr>prompt_idx := None\<rparr>
      else plan\<lparr>tail_from := first_from is_round_boundary messages (tail_from plan + 1)\<rparr>)"

definition plan_compaction ::
  "nat \<Rightarrow> (string \<Rightarrow> TimingReceipt option) \<Rightarrow> (Message \<Rightarrow> nat) \<Rightarrow> Message list \<Rightarrow> CompactionParams
     \<Rightarrow> nat \<Rightarrow> KeepPlan" where
  "plan_compaction usize_max of_json tok messages params effective_threshold =
     (if keep_recent_turns params = 0
      then \<lparr>prompt_idx = None, tail_from = length messages\<rparr>
      else let tail = whole_turn_suffix (is_turn_prompt of_json) tok messages params
           in if tail < length messages then \<lparr>prompt_idx = None, tail_from = tail\<rparr>
              else leave_something_to_compact
                     (split_latest_turn usize_max (is_turn_prompt of_json) tok messages
                        (keep_recent_tokens params) effective_threshold) messages)"

definition protect_suffix :: "KeepPlan \<Rightarrow> nat option \<Rightarrow> KeepPlan" where
  "protect_suffix plan protected_from =
     (case protected_from of
        None \<Rightarrow> plan
      | Some from \<Rightarrow>
          let tail = min (tail_from plan) from
          in \<lparr>prompt_idx = (case prompt_idx plan of Some i \<Rightarrow> if i < tail then Some i else None | None \<Rightarrow> None),
              tail_from = tail\<rparr>)"

section \<open>Budgets of a tail\<close>

definition tail_tokens :: "(Message \<Rightarrow> nat) \<Rightarrow> Message list \<Rightarrow> nat \<Rightarrow> nat" where
  "tail_tokens tok messages i = sum_list (map tok (drop i messages))"

definition tail_turns :: "(Message \<Rightarrow> bool) \<Rightarrow> Message list \<Rightarrow> nat \<Rightarrow> nat" where
  "tail_turns prompt messages i = length (filter prompt (drop i messages))"

lemma tail_at_end [simp]:
  "length messages \<le> i \<Longrightarrow> tail_tokens tok messages i = 0"
  "length messages \<le> i \<Longrightarrow> tail_turns prompt messages i = 0"
  by (simp_all add: tail_tokens_def tail_turns_def)

lemma tail_one_more:
  assumes "i < length messages"
  shows "tail_tokens tok messages i = tok (messages ! i) + tail_tokens tok messages (Suc i)"
    "tail_turns prompt messages i = (if prompt (messages ! i) then 1 else 0) + tail_turns prompt messages (Suc i)"
  using assms by (simp_all add: tail_tokens_def tail_turns_def Cons_nth_drop_Suc [symmetric])

lemma tail_mono:
  assumes "i \<le> j"
  shows "tail_tokens tok messages j \<le> tail_tokens tok messages i"
    "tail_turns prompt messages j \<le> tail_turns prompt messages i"
  using assms
proof (induction rule: inc_induct)
  case (step n)
  case 1 show ?case using step tail_one_more(1) [of n messages tok] by (cases "n < length messages") auto
  case 2 show ?case using step tail_one_more(2) [of n messages prompt] by (cases "n < length messages") auto
qed simp_all

lemma suffix_floor_loop_fits:
  assumes "n \<le> length messages" "tail_tokens tok messages n \<le> keep_tokens" "tail_turns prompt messages n \<le> keep_turns"
    and "fl = suffix_floor_loop prompt tok keep_turns keep_tokens messages n
      (tail_turns prompt messages n) (tail_tokens tok messages n)"
  shows "fl \<le> n \<and> tail_tokens tok messages fl \<le> keep_tokens \<and> tail_turns prompt messages fl \<le> keep_turns"
  using assms
proof (induction n)
  case (Suc n)
  then have n: "n < length messages" by simp
  note one = tail_one_more [OF n]
  show ?case
  proof (cases "(prompt (messages ! n) \<and> keep_turns \<le> tail_turns prompt messages (Suc n)) \<or>
      keep_tokens < tail_tokens tok messages (Suc n) + tok (messages ! n)")
    case True
    then show ?thesis using Suc.prems by (simp add: Let_def)
  next
    case False
    then have "fl = suffix_floor_loop prompt tok keep_turns keep_tokens messages n
        (tail_turns prompt messages n) (tail_tokens tok messages n)"
      using Suc.prems(4) by (auto simp: Let_def one add.commute)
    moreover have "tail_tokens tok messages n \<le> keep_tokens" "tail_turns prompt messages n \<le> keep_turns"
      using False Suc.prems(3) one by (auto simp: not_le)
    ultimately show ?thesis using Suc.IH n by simp
  qed
qed simp

lemma recent_suffix_floor_fits:
  "recent_suffix_floor prompt tok messages turns tokens \<le> length messages"
  "tail_tokens tok messages (recent_suffix_floor prompt tok messages turns tokens) \<le> tokens"
  "tail_turns prompt messages (recent_suffix_floor prompt tok messages turns tokens) \<le> turns"
  using suffix_floor_loop_fits [of "length messages" messages tok tokens prompt turns]
  by (simp_all add: recent_suffix_floor_def)

lemma first_from_cases:
  assumes "start \<le> length messages"
  obtains (none) "first_from P messages start = length messages"
      "\<forall>i. start \<le> i \<and> i < length messages \<longrightarrow> \<not> P (messages ! i)"
  | (found) "start \<le> first_from P messages start" "first_from P messages start < length messages"
      "P (messages ! first_from P messages start)"
      "\<forall>i. start \<le> i \<and> i < first_from P messages start \<longrightarrow> \<not> P (messages ! i)"
proof (cases "find (\<lambda>i. P (messages ! i)) [start..<length messages]")
  case None
  then have "\<forall>i. start \<le> i \<and> i < length messages \<longrightarrow> \<not> P (messages ! i)" by (simp add: find_None_iff)
  with None show ?thesis by (intro none) (simp_all add: first_from_def)
next
  case (Some i)
  then obtain k where k: "k < length messages - start" "i = start + k" "P (messages ! i)"
      "\<forall>j < k. \<not> P (messages ! (start + j))"
    by (auto simp: find_Some_iff)
  have "\<not> P (messages ! j)" if "start \<le> j" "j < i" for j
    using that k(2) k(4) [rule_format, of "j - start"] by simp
  with k Some show ?thesis by (intro found) (auto simp: first_from_def)
qed

lemma round_safe_loop_fits:
  assumes "budget < usize_max" "a \<le> n" "n \<le> length messages" "tail_tokens tok messages n \<le> budget"
    and "n \<le> tail" "tail \<le> length messages" "tail = length messages \<or> is_round_boundary (messages ! tail)"
  shows "let t = round_safe_loop usize_max tok budget messages (rev [a..<n]) tail (tail_tokens tok messages n) in
    a \<le> t \<and> t \<le> length messages \<and> tail_tokens tok messages t \<le> budget \<and>
    (t = length messages \<or> is_round_boundary (messages ! t))"
  using assms(2-)
proof (induction n arbitrary: tail)
  case 0
  then show ?case using tail_mono(1) [where i = 0 and j = tail and tok = tok and messages = messages] by simp
next
  case (Suc n)
  show ?case
  proof (cases "a \<le> n")
    case False
    with Suc.prems have "rev [a..<Suc n] = []" by simp
    moreover have "tail_tokens tok messages tail \<le> budget"
      using Suc.prems(3,4) tail_mono(1) [where i = "Suc n" and j = tail and tok = tok and messages = messages] by simp
    ultimately show ?thesis using Suc.prems by (simp add: Let_def)
  next
    case True
    let ?t = "tail_tokens tok messages (Suc n) + tok (messages ! n)"
    have one: "tail_tokens tok messages n = ?t" using tail_one_more(1) [of n messages tok] Suc.prems(2) by simp
    have r: "rev [a..<Suc n] = n # rev [a..<n]" using True by simp
    show ?thesis
    proof (cases "budget < min usize_max ?t")
      case True
      moreover have "tail_tokens tok messages tail \<le> budget"
        using Suc.prems(3,4) tail_mono(1) [where i = "Suc n" and j = tail and tok = tok and messages = messages] by simp
      ultimately show ?thesis using Suc.prems r by (simp add: Let_def)
    next
      case False
      then have le: "?t \<le> budget" "min usize_max ?t = tail_tokens tok messages n"
        using assms(1) one by (auto simp: min_def split: if_splits)
      let ?tl = "if is_round_boundary (messages ! n) then n else tail"
      have "n \<le> ?tl" "?tl \<le> length messages" "?tl = length messages \<or> is_round_boundary (messages ! ?tl)"
        using Suc.prems by auto
      from Suc.IH [OF \<open>a \<le> n\<close> _ _ this] Suc.prems(2) le one False \<open>a \<le> n\<close> show ?thesis
        by (simp add: r Let_def)
    qed
  qed
qed

lemma round_safe_tail_fits:
  assumes "budget < usize_max" "a \<le> length messages"
  shows "a \<le> round_safe_tail usize_max tok messages a budget"
    "round_safe_tail usize_max tok messages a budget \<le> length messages"
    "tail_tokens tok messages (round_safe_tail usize_max tok messages a budget) \<le> budget"
    "round_safe_tail usize_max tok messages a budget = length messages \<or>
       is_round_boundary (messages ! round_safe_tail usize_max tok messages a budget)"
  using round_safe_loop_fits [OF assms, where tok = tok and messages = messages and tail = "length messages"]
  by (simp_all add: round_safe_tail_def Let_def)

section \<open>What a plan promises\<close>

text \<open>
  The contract of a plan over a transcript: the kept prompt is the latest one and stands before
  the tail, the tail begins where a turn or a round begins, and it fits the two budgets.
\<close>

definition plan_ok ::
  "(Message \<Rightarrow> bool) \<Rightarrow> (Message \<Rightarrow> nat) \<Rightarrow> Message list \<Rightarrow> CompactionParams \<Rightarrow> KeepPlan \<Rightarrow> bool" where
  "plan_ok prompt tok messages params plan \<longleftrightarrow>
     tail_from plan \<le> length messages \<and>
     (\<forall>i. prompt_idx plan = Some i \<longrightarrow> i < tail_from plan \<and> rposition prompt messages = Some i) \<and>
     (tail_from plan < length messages \<longrightarrow>
        prompt (messages ! tail_from plan) \<or> is_round_boundary (messages ! tail_from plan)) \<and>
     tail_tokens tok messages (tail_from plan) \<le> keep_recent_tokens params \<and>
     tail_turns prompt messages (tail_from plan) \<le> keep_recent_turns params"

lemma whole_turn_suffix_cases:
  assumes "whole_turn_suffix prompt tok messages params < length messages"
  shows "0 < whole_turn_suffix prompt tok messages params \<and>
    plan_ok prompt tok messages params \<lparr>prompt_idx = None, tail_from = whole_turn_suffix prompt tok messages params\<rparr> \<and>
    (\<forall>i. rposition prompt messages = Some i \<longrightarrow> whole_turn_suffix prompt tok messages params \<le> i)"
proof -
  let ?floor = "recent_suffix_floor prompt tok messages (keep_recent_turns params) (keep_recent_tokens params)"
  let ?first = "first_from prompt messages ?floor" and ?w = "whole_turn_suffix prompt tok messages params"
  note fl = recent_suffix_floor_fits [where prompt = prompt and tok = tok and messages = messages
    and turns = "keep_recent_turns params" and tokens = "keep_recent_tokens params"]
  have w: "?floor \<le> ?w" "prompt (messages ! ?w)" "0 < ?w"
    "\<forall>i. rposition prompt messages = Some i \<longrightarrow> ?w \<le> i"
  proof -
    have *: "?floor \<le> ?w \<and> prompt (messages ! ?w) \<and> 0 < ?w \<and> (\<forall>i. rposition prompt messages = Some i \<longrightarrow> ?w \<le> i)"
    proof (cases "?first = 0")
      case True
      then obtain i where i: "rposition prompt messages = Some i" "0 < i" "?w = i"
        using assms by (auto simp: whole_turn_suffix_def Let_def split: option.splits if_splits)
      moreover have "?floor = 0" using True assms by (cases rule: first_from_cases [OF fl(1), of prompt]) auto
      ultimately show ?thesis by (auto dest: rposition_SomeD)
    next
      case False
      then have w: "?w = ?first" by (simp add: whole_turn_suffix_def Let_def)
      then have lt: "?first < length messages" using assms by simp
      have f: "?floor \<le> ?first" "prompt (messages ! ?first)"
        using lt by (cases rule: first_from_cases [OF fl(1), of prompt]; simp)+
      have "?first \<le> i" if "rposition prompt messages = Some i" for i
        using rposition_SomeD [OF that] f(2) lt by (metis not_le)
      with f False w show ?thesis by simp
    qed
    then show "?floor \<le> ?w" "prompt (messages ! ?w)" "0 < ?w"
      "\<forall>i. rposition prompt messages = Some i \<longrightarrow> ?w \<le> i" by blast+
  qed
  have "tail_tokens tok messages ?w \<le> keep_recent_tokens params" "tail_turns prompt messages ?w \<le> keep_recent_turns params"
    using tail_mono(1) [OF w(1), where messages = messages and tok = tok]
      tail_mono(2) [OF w(1), where messages = messages and prompt = prompt] fl(2,3) by simp_all
  with w assms show ?thesis by (simp add: plan_ok_def)
qed

lemma turns_after_latest:
  assumes "rposition prompt messages = Some i \<or> rposition prompt messages = None \<and> i = 0"
    and "rposition prompt messages = Some i \<Longrightarrow> i < t"
  shows "tail_turns prompt messages t = 0"
proof -
  have "\<not> prompt (messages ! j)" if "t \<le> j" "j < length messages" for j
    using assms that rposition_SomeD [of prompt messages i] by (auto simp: rposition_None_iff)
  then show ?thesis
    by (auto simp: tail_turns_def filter_empty_conv in_set_conv_nth)
qed

lemma split_latest_turn_ok:
  assumes "keep_recent_tokens params < usize_max"
    and "plan = split_latest_turn usize_max prompt tok messages (keep_recent_tokens params) threshold"
  shows "plan_ok prompt tok messages params plan \<and>
    tail_turns prompt messages (tail_from plan) = 0 \<and>
    (\<forall>i. rposition prompt messages = Some i \<longrightarrow> i < tail_from plan \<and>
       (tok (messages ! i) \<le> keep_recent_tokens params \<longrightarrow> prompt_idx plan = Some i))"
proof -
  let ?latest = "rposition prompt messages"
  let ?a = "case ?latest of Some i \<Rightarrow> i + 1 | None \<Rightarrow> 0"
  obtain reserved where t: "tail_from plan =
      round_safe_tail usize_max tok messages ?a (keep_recent_tokens params - reserved)"
    by (auto simp: assms(2) split_latest_turn_def Let_def)
  have a: "?a \<le> length messages" by (auto dest: rposition_SomeD split: option.splits)
  have "keep_recent_tokens params - reserved < usize_max" using assms(1) by simp
  note f = round_safe_tail_fits [OF this a, of tok, folded t]
  have z: "tail_turns prompt messages (tail_from plan) = 0"
    using f(1) by (cases ?latest) (auto intro!: turns_after_latest [of prompt messages])
  have p: "prompt_idx plan = Some i \<Longrightarrow> ?latest = Some i" for i
    by (auto simp: assms(2) split_latest_turn_def Let_def split: if_splits)
  have q: "?latest = Some i \<Longrightarrow> tok (messages ! i) \<le> keep_recent_tokens params \<Longrightarrow> prompt_idx plan = Some i" for i
    by (simp add: assms(2) split_latest_turn_def Let_def)
  have i: "?latest = Some i \<Longrightarrow> i < tail_from plan" for i using f(1) by simp
  have tokens: "tail_tokens tok messages (tail_from plan) \<le> keep_recent_tokens params" using f(3) by linarith
  have "plan_ok prompt tok messages params plan"
    unfolding plan_ok_def using p i z f(2,4) tokens by fastforce
  with z i q show ?thesis by blast
qed

lemma first_from_bounds:
  assumes "start \<le> length messages"
  shows "start \<le> first_from P messages start" "first_from P messages start \<le> length messages"
    "first_from P messages start < length messages \<Longrightarrow> P (messages ! first_from P messages start)"
  using assms by (cases rule: first_from_cases [OF assms, of P]; simp)+

lemma leave_something_ok:
  assumes ok: "plan_ok prompt tok messages params plan" and "messages \<noteq> []"
    and z: "tail_turns prompt messages (tail_from plan) = 0"
  shows "plan_ok prompt tok messages params (leave_something_to_compact plan messages) \<and>
    kept_count (leave_something_to_compact plan messages) (length messages) < length messages \<and>
    (1 < length messages \<longrightarrow> prompt_idx (leave_something_to_compact plan messages) = prompt_idx plan)"
proof (cases "kept_count plan (length messages) < length messages")
  case True
  then show ?thesis using ok by (simp add: leave_something_to_compact_def)
next
  case False
  have t: "tail_from plan \<le> length messages" "\<And>i. prompt_idx plan = Some i \<Longrightarrow> i < tail_from plan"
    using ok by (simp_all add: plan_ok_def)
  show ?thesis
  proof (cases "tail_from plan = length messages")
    case True
    have "length messages = 1"
      using False True assms(2) by (cases messages) (auto simp: kept_count_def split: if_splits)
    then show ?thesis using True False ok assms(2)
      by (simp add: leave_something_to_compact_def plan_ok_def kept_count_def prompt_before_tail_def)
  next
    case lt: False
    let ?t = "first_from is_round_boundary messages (tail_from plan + 1)"
    have b: "tail_from plan + 1 \<le> ?t" "?t \<le> length messages"
      "?t < length messages \<Longrightarrow> is_round_boundary (messages ! ?t)"
      using first_from_bounds [of "tail_from plan + 1" messages is_round_boundary] lt t(1) by simp_all
    have new: "leave_something_to_compact plan messages = plan\<lparr>tail_from := ?t\<rparr>"
      using False lt assms(2) by (simp add: leave_something_to_compact_def)
    have "plan_ok prompt tok messages params (plan\<lparr>tail_from := ?t\<rparr>)"
      using ok b tail_mono(1) [where i = "tail_from plan" and j = ?t and messages = messages and tok = tok]
        tail_mono(2) [where i = "tail_from plan" and j = ?t and messages = messages and prompt = prompt]
      by (fastforce simp: plan_ok_def)
    moreover have "kept_count (plan\<lparr>tail_from := ?t\<rparr>) (length messages) < length messages"
      using False t lt b
      by (cases "prompt_idx plan") (auto simp: kept_count_def prompt_before_tail_def split: if_splits)
    ultimately show ?thesis using new by simp
  qed
qed

lemma kept_indices_spec:
  assumes "\<And>i. prompt_idx plan = Some i \<Longrightarrow> i < tail_from plan"
  shows "sorted_wrt (<) (kept_indices plan len)"
    "set (kept_indices plan len) = {i. i < len \<and> plan_contains plan i}"
    "length (kept_indices plan len) = kept_count plan len"
  using assms
  by (auto simp: kept_indices_def prompt_before_tail_def plan_contains_def kept_count_def
      sorted_wrt_append split: option.splits)

section \<open>Properties\<close>

text \<open>
  C24: A compaction plan is sound. On any non-empty transcript it leaves something to summarize; the
  verbatim tail fits the token budget and the turn budget and begins with a prompt, an assistant
  reply or a tool round, so no round is cut; a prompt kept apart from the tail is the latest one;
  and the kept indices are the plan's set in strictly increasing order.
\<close>

theorem plan_compaction_sound:
  assumes "messages \<noteq> []" "keep_recent_tokens params < usize_max"
    and "plan = plan_compaction usize_max of_json tok messages params threshold"
  shows "kept_count plan (length messages) < length messages \<and>
    tail_tokens tok messages (tail_from plan) \<le> keep_recent_tokens params \<and>
    tail_turns (is_turn_prompt of_json) messages (tail_from plan) \<le> keep_recent_turns params \<and>
    (tail_from plan < length messages \<longrightarrow>
       is_turn_prompt of_json (messages ! tail_from plan) \<or> is_round_boundary (messages ! tail_from plan)) \<and>
    (\<forall>i. prompt_idx plan = Some i \<longrightarrow> i < tail_from plan \<and> rposition (is_turn_prompt of_json) messages = Some i) \<and>
    sorted_wrt (<) (kept_indices plan (length messages)) \<and>
    set (kept_indices plan (length messages)) = {i. i < length messages \<and> plan_contains plan i} \<and>
    length (kept_indices plan (length messages)) = kept_count plan (length messages)"
proof -
  let ?p = "is_turn_prompt of_json" and ?w = "whole_turn_suffix (is_turn_prompt of_json) tok messages params"
  have "plan_ok ?p tok messages params plan \<and> kept_count plan (length messages) < length messages"
  proof (cases "keep_recent_turns params = 0")
    case True
    then show ?thesis using assms
      by (simp add: plan_compaction_def plan_ok_def kept_count_def prompt_before_tail_def)
  next
    case turns: False
    show ?thesis
    proof (cases "?w < length messages")
      case True
      have "length messages - ?w < length messages" using whole_turn_suffix_cases [OF True] True by linarith
      with True whole_turn_suffix_cases [OF True] turns assms(3) show ?thesis
        by (simp add: plan_compaction_def kept_count_def prompt_before_tail_def)
    next
      case False
      let ?s = "split_latest_turn usize_max ?p tok messages (keep_recent_tokens params) threshold"
      have "plan = leave_something_to_compact ?s messages"
        using False turns assms(3) by (simp add: plan_compaction_def)
      then show ?thesis
        using split_latest_turn_ok [OF assms(2) refl, of ?p tok messages threshold]
          leave_something_ok [OF _ assms(1), of ?p tok params ?s] by simp
    qed
  qed
  moreover from this have "prompt_idx plan = Some i \<Longrightarrow> i < tail_from plan" for i by (simp add: plan_ok_def)
  ultimately show ?thesis using kept_indices_spec [of plan "length messages"] by (simp add: plan_ok_def)
qed

definition demo_prompt :: "string \<Rightarrow> Message" where
  "demo_prompt t = Message_new User (Text t)"

definition demo_reply :: "string \<Rightarrow> Message" where
  "demo_reply t = Message_new Assistant (Text t)"

theorem plan_compaction_sound_witness:
  "let plan = plan_compaction 1000 (\<lambda>_. None) (\<lambda>_. 4) [demo_prompt ''a'', demo_reply ''b'', demo_reply ''c'']
     (compaction_params (Some 1) (Some 10) None) 100
   in kept_count plan 3 < 3 \<and> sorted_wrt (<) (kept_indices plan 3)"
  using plan_compaction_sound [of "[demo_prompt ''a'', demo_reply ''b'', demo_reply ''c'']"
      "compaction_params (Some 1) (Some 10) None" 1000 _ "\<lambda>_. None" "\<lambda>_. 4" 100, OF _ _ refl]
  by (simp add: Let_def compaction_params_def numeral_eq_Suc)

text \<open>
  The latest prompt survives compaction. When turns are kept at all and the last thing the user
  asked fits the token budget, it is kept verbatim, unless it is the only message.
\<close>

theorem latest_prompt_kept:
  assumes "0 < keep_recent_turns params" "keep_recent_tokens params < usize_max" "1 < length messages"
    and "rposition (is_turn_prompt of_json) messages = Some i" "tok (messages ! i) \<le> keep_recent_tokens params"
  shows "plan_contains (plan_compaction usize_max of_json tok messages params threshold) i"
proof (cases "whole_turn_suffix (is_turn_prompt of_json) tok messages params < length messages")
  case True
  with whole_turn_suffix_cases [OF True] assms show ?thesis
    by (simp add: plan_compaction_def plan_contains_def)
next
  case False
  let ?p = "is_turn_prompt of_json"
  let ?s = "split_latest_turn usize_max ?p tok messages (keep_recent_tokens params) threshold"
  have "messages \<noteq> []" using assms(3) by auto
  with leave_something_ok [of ?p tok messages params ?s] split_latest_turn_ok [OF assms(2) refl, of ?p tok messages threshold]
  have "prompt_idx (leave_something_to_compact ?s messages) = Some i" using assms(3-5) by simp
  then show ?thesis using False assms(1) by (simp add: plan_compaction_def plan_contains_def)
qed

theorem latest_prompt_kept_witness:
  "plan_contains (plan_compaction 1000 (\<lambda>_. None) (\<lambda>_. 4) [demo_prompt ''a'', demo_reply ''b'', demo_reply ''c'']
     (compaction_params (Some 1) (Some 10) None) 100) 0"
  by (rule latest_prompt_kept)
    (simp_all add: compaction_params_def demo_prompt_def demo_reply_def Message_new_def is_turn_prompt_def is_user_def)

text \<open>A protected suffix is kept whole, and protection never drops what the plan kept.\<close>

lemma protect_suffix_contains:
  "plan_contains (protect_suffix plan (Some from)) i \<longleftrightarrow> plan_contains plan i \<or> from \<le> i"
  by (auto simp: protect_suffix_def plan_contains_def Let_def split: option.splits)

end
