(* ===== verification/Session_Store.thy ===== *)
theory Session_Store
  imports Session_Replay Compaction_Plan
begin

text \<open>
  The session as its worker keeps it: every operation changes the messages in memory and appends
  the rows a replay rebuilds them from (\<open>harnx-runtime/src/config/session.rs\<close>,
  \<open>session/input_append.rs\<close>, \<open>session_tool_results.rs\<close>, \<open>session_persistence.rs\<close>).
  The durable log stands beside the session; a sink answers an append with the row's sequence
  number or an error, and a refused row is not in the log. Identifiers, clock readings and the
  attachment store come from the environment; the first two are indexed by the number of messages
  the session holds when they are drawn. The token counter and announcements are left out.
\<close>

section \<open>Appending\<close>

record Sink =
  sink_append :: "log \<Rightarrow> SessionLogEntry \<Rightarrow> string + seq"
  sink_validate_output :: "string + unit"
  sink_failure_is_fatal :: bool

record AppendStatus =
  as_complete :: bool
  as_error :: "string option"

definition status_complete :: AppendStatus where
  "status_complete = \<lparr>as_complete = True, as_error = None\<rparr>"

definition status_from_result :: "string + seq option \<Rightarrow> AppendStatus" where
  "status_from_result r =
     (case r of
        Inr (Some _) \<Rightarrow> status_complete
      | Inr None \<Rightarrow> \<lparr>as_complete = False, as_error = None\<rparr>
      | Inl err \<Rightarrow> \<lparr>as_complete = False, as_error = Some err\<rparr>)"

definition status_into_result :: "AppendStatus \<Rightarrow> string + unit" where
  "status_into_result a =
     (case as_error a of
        Some err \<Rightarrow> Inl err
      | None \<Rightarrow> if as_complete a then Inr () else Inl ''session append was dropped'')"

definition status_bitand :: "AppendStatus \<Rightarrow> AppendStatus \<Rightarrow> AppendStatus" where
  "status_bitand a b =
     \<lparr>as_complete = (as_complete a \<and> as_complete b),
      as_error = (if as_error a = None then as_error b else as_error a)\<rparr>"

datatype StoreError =
    NotPersisted string string \<comment> \<open>the operation and the cause\<close>
  | OutputRefused string
  | AgentFailed string
  | EmptySession
  | NotPendingRound
  | NotToolRole
  | ClearNotPersisted
  | HistoryChanged

type_synonym store = "Session \<times> log"

definition append_through :: "Sink option \<Rightarrow> log \<Rightarrow> SessionLogEntry \<Rightarrow> (string + seq option) \<times> log" where
  "append_through sink rows entry =
     (case sink of
        None \<Rightarrow> (Inr None, rows)
      | Some k \<Rightarrow>
          (case sink_append k rows entry of
             Inr n \<Rightarrow> (Inr (Some n), rows @ [(n, entry)])
           | Inl err \<Rightarrow> (Inl err, rows)))"

definition append_event_seq :: "Sink option \<Rightarrow> SessionLogEntry \<Rightarrow> store \<Rightarrow> (string + seq option) \<times> store" where
  "append_event_seq sink entry st =
     (case st of (session, rows) \<Rightarrow>
       (case append_through sink rows entry of
          (Inr (Some n), rows') \<Rightarrow> (Inr (Some n), session\<lparr>sess_log_entry_count := n\<rparr>, rows')
        | (r, rows') \<Rightarrow> (r, session, rows')))"

definition append_event_status :: "Sink option \<Rightarrow> SessionLogEntry \<Rightarrow> store \<Rightarrow> AppendStatus \<times> store" where
  "append_event_status sink entry st =
     (case append_event_seq sink entry st of (r, st') \<Rightarrow> (status_from_result r, st'))"

definition append_event :: "Sink option \<Rightarrow> SessionLogEntry \<Rightarrow> store \<Rightarrow> bool \<times> store" where
  "append_event sink entry st =
     (case append_event_status sink entry st of (a, st') \<Rightarrow> (as_complete a, st'))"

definition require_authoritative_appends ::
  "Sink option \<Rightarrow> AppendStatus \<Rightarrow> string \<Rightarrow> StoreError + unit" where
  "require_authoritative_appends sink appends operation =
     (if as_complete appends then Inr ()
      else (case sink of
              None \<Rightarrow> Inr ()
            | Some k \<Rightarrow>
                if \<not> sink_failure_is_fatal k then Inr ()
                else (case sink_validate_output k of
                        Inl err \<Rightarrow> Inl (OutputRefused err)
                      | Inr _ \<Rightarrow>
                          (case status_into_result appends of
                             Inl err \<Rightarrow> Inl (NotPersisted operation err)
                           | Inr _ \<Rightarrow> Inr ()))))"

definition session_next_seq :: "Session \<Rightarrow> seq" where
  "session_next_seq session = sess_log_entry_count session"

definition push_message :: "Message \<Rightarrow> store \<Rightarrow> store" where
  "push_message m st =
     (case st of (session, rows) \<Rightarrow> (session\<lparr>sess_messages := sess_messages session @ [m]\<rparr>, rows))"

section \<open>Turn input\<close>

text \<open>What these operations read of \<open>Input\<close>; \<open>in_agent_messages\<close> is \<open>agent().build_messages(input)\<close>.\<close>

record Input =
  in_session_input_start :: "nat option"
  in_has_tool_calls :: bool
  in_skip_user_log_append :: bool
  in_continue_output :: "string option"
  in_regenerate :: bool
  in_message_content :: MessageContent
  in_data_urls :: "(string \<times> string) list"
  in_injected_user_text :: "string option"
  in_injected_user_messages :: "Message list"
  in_preferred_assistant_message_id :: "string option"
  in_agent_messages :: "string + Message list"
  in_inject_system_prompt :: bool
  in_system_text :: "string + string"

record Env =
  env_fresh :: "nat \<Rightarrow> string"
  env_now :: "nat \<Rightarrow> instant"
  env_externalize :: "MessageContent \<Rightarrow> MessageContent \<times> (string \<times> string) list"
  env_externalize_results :: "ToolResult list \<Rightarrow> ToolResult list \<times> (string \<times> string) list"

definition is_tool_continuation :: "Input \<Rightarrow> bool" where
  "is_tool_continuation input = in_has_tool_calls input"

definition append_session_message_with_id ::
  "Env \<Rightarrow> Sink option \<Rightarrow> string \<Rightarrow> MessageRole \<Rightarrow> MessageContent \<Rightarrow> store \<Rightarrow> AppendStatus \<times> store" where
  "append_session_message_with_id env sink i role content st =
     append_event_status sink
       (Message (Some i) role content (Some (env_now env (length (sess_messages (fst st))))) None) st"

definition record_externalized ::
  "Sink option \<Rightarrow> (string \<times> string) list \<Rightarrow> store \<Rightarrow> AppendStatus \<times> store" where
  "record_externalized sink cid_urls st =
     (if cid_urls = [] then (status_complete, st)
      else (case append_event_status sink (DataUrls (map_of cid_urls)) st of
              (a, session, rows) \<Rightarrow>
                (a, session\<lparr>sess_data_urls := sess_data_urls session ++ map_of cid_urls\<rparr>, rows)))"

text \<open>The loop of \<open>append_initial_agent_messages\<close>: the status and the attachment names so far.\<close>

fun append_agent_messages ::
  "Env \<Rightarrow> Sink option \<Rightarrow> Message list \<Rightarrow> AppendStatus \<Rightarrow> (string \<times> string) list \<Rightarrow> store
     \<Rightarrow> AppendStatus \<times> (string \<times> string) list \<times> store" where
  "append_agent_messages env sink [] all_appended cid_urls st = (all_appended, cid_urls, st)"
| "append_agent_messages env sink (msg # rest) all_appended cid_urls st =
     (if msg_role msg = System then append_agent_messages env sink rest all_appended cid_urls st
      else (case env_externalize env (msg_content msg) of (content, cids) \<Rightarrow>
        (let s = session_next_seq (fst st); i = env_fresh env (length (sess_messages (fst st)))
         in case append_session_message_with_id env sink i (msg_role msg) content st of
              (a, st') \<Rightarrow>
                append_agent_messages env sink rest (status_bitand all_appended a) (cids @ cid_urls)
                  (push_message (msg\<lparr>msg_content := content, msg_id := Some i, msg_log_seq := Some s\<rparr>) st'))))"

definition append_initial_agent_messages ::
  "Env \<Rightarrow> Sink option \<Rightarrow> Input \<Rightarrow> store \<Rightarrow> StoreError + AppendStatus \<times> store" where
  "append_initial_agent_messages env sink input st =
     (case in_agent_messages input of
        Inl err \<Rightarrow> Inl (AgentFailed err)
      | Inr agent_messages \<Rightarrow>
          (case append_agent_messages env sink agent_messages status_complete [] st of
             (a, cid_urls, st') \<Rightarrow>
               (case record_externalized sink cid_urls st' of
                  (b, st'') \<Rightarrow> Inr (status_bitand a b, st''))))"

definition append_user_turn_message ::
  "Env \<Rightarrow> Sink option \<Rightarrow> Input \<Rightarrow> store \<Rightarrow> AppendStatus \<times> store" where
  "append_user_turn_message env sink input st =
     (let s = session_next_seq (fst st); i = env_fresh env (length (sess_messages (fst st)))
      in case env_externalize env (in_message_content input) of (content, cid_urls) \<Rightarrow>
        (case append_session_message_with_id env sink i User content st of (a, st') \<Rightarrow>
          (case record_externalized sink cid_urls
                  (push_message ((Message_new User content)\<lparr>msg_id := Some i, msg_log_seq := Some s\<rparr>) st') of
             (b, st'') \<Rightarrow> (status_bitand a b, st''))))"

definition append_input_data_urls :: "Sink option \<Rightarrow> Input \<Rightarrow> store \<Rightarrow> AppendStatus \<times> store" where
  "append_input_data_urls sink input st =
     (case (if in_data_urls input \<noteq> []
            then append_event_status sink (DataUrls (map_of (in_data_urls input))) st
            else (status_complete, st)) of
        (a, session, rows) \<Rightarrow>
          (a, session\<lparr>sess_data_urls := sess_data_urls session ++ map_of (in_data_urls input)\<rparr>, rows))"

definition restore_injected_user_messages :: "Input \<Rightarrow> string \<Rightarrow> store \<Rightarrow> store" where
  "restore_injected_user_messages input injected st =
     (case st of (session, rows) \<Rightarrow>
       (session\<lparr>sess_messages := sess_messages session @
          (if in_injected_user_messages input = [] then [Message_new User (Text injected)]
           else in_injected_user_messages input)\<rparr>, rows))"

definition append_injected_user_text ::
  "Env \<Rightarrow> Sink option \<Rightarrow> Input \<Rightarrow> store \<Rightarrow> AppendStatus \<times> store" where
  "append_injected_user_text env sink input st =
     (case in_injected_user_text input of
        None \<Rightarrow> (status_complete, st)
      | Some injected \<Rightarrow>
          if in_skip_user_log_append input
          then (status_complete, restore_injected_user_messages input injected st)
          else let s = session_next_seq (fst st); i = env_fresh env (length (sess_messages (fst st)))
               in case append_session_message_with_id env sink i User (Text injected) st of (a, st') \<Rightarrow>
                    (a, push_message ((Message_new User (Text injected))
                          \<lparr>msg_id := Some i, msg_log_seq := Some s\<rparr>) st'))"

definition begin_turn ::
  "Env \<Rightarrow> Sink option \<Rightarrow> Input \<Rightarrow> store \<Rightarrow> StoreError + AppendStatus \<times> store" where
  "begin_turn env sink input st =
     (if in_session_input_start input \<noteq> None then Inr (status_complete, st)
      else (case (if sess_messages (fst st) = [] \<and> \<not> is_tool_continuation input
                  then append_initial_agent_messages env sink input st
                  else if \<not> is_tool_continuation input \<and> \<not> in_skip_user_log_append input
                  then Inr (append_user_turn_message env sink input st)
                  else Inr (status_complete, st)) of
              Inl err \<Rightarrow> Inl err
            | Inr (a, st1) \<Rightarrow>
                (case append_input_data_urls sink input st1 of (b, st2) \<Rightarrow>
                  (case append_injected_user_text env sink input st2 of (c, st3) \<Rightarrow>
                    Inr (status_bitand (status_bitand a b) c, st3)))))"

text \<open>\<open>clear_patch\<close> is \<open>Input::clear_patch\<close>.\<close>

definition prepare_input ::
  "(Input \<Rightarrow> Input) \<Rightarrow> Env \<Rightarrow> Sink option \<Rightarrow> Input \<Rightarrow> store \<Rightarrow> (StoreError + Input) \<times> store" where
  "prepare_input clear_patch env sink input st =
     (if in_session_input_start input \<noteq> None \<or> in_continue_output input \<noteq> None \<or> in_regenerate input
      then (Inr input, st)
      else let history_len = length (sess_messages (fst st))
           in case begin_turn env sink (clear_patch input) st of
                Inl err \<Rightarrow> (Inl err, st)
              | Inr (a, session, rows) \<Rightarrow>
                  (let session' = session\<lparr>sess_dirty := sess_dirty session \<or> \<not> as_complete a\<rparr>
                   in case require_authoritative_appends sink a ''user input'' of
                        Inl err \<Rightarrow> (Inl err, session', rows)
                      | Inr _ \<Rightarrow>
                          (Inr (input\<lparr>in_session_input_start := Some history_len\<rparr>), session', rows)))"

section \<open>Answers and tool rounds\<close>

definition edit_last_text :: "(string \<Rightarrow> string) \<Rightarrow> Session \<Rightarrow> Session" where
  "edit_last_text f session =
     (case rev (sess_messages session) of
        [] \<Rightarrow> session
      | m # rest \<Rightarrow>
          (case msg_content m of
             Text t \<Rightarrow> session\<lparr>sess_messages := rev rest @ [m\<lparr>msg_content := Text (f t)\<rparr>]\<rparr>
           | _ \<Rightarrow> session))"

definition add_assistant_text ::
  "Env \<Rightarrow> Sink option \<Rightarrow> Input \<Rightarrow> string \<Rightarrow> string option \<Rightarrow> store \<Rightarrow> (StoreError + unit) \<times> store" where
  "add_assistant_text env sink input output thought st =
     (if in_continue_output input \<noteq> None
      then (Inr (), (edit_last_text (\<lambda>t. t @ output) (fst st))\<lparr>sess_dirty := True\<rparr>, snd st)
      else if in_regenerate input
      then (Inr (), (edit_last_text (\<lambda>t. output) (fst st))\<lparr>sess_dirty := True\<rparr>, snd st)
      else (case begin_turn env sink input st of
              Inl err \<Rightarrow> (Inl err, st)
            | Inr (a, st1) \<Rightarrow>
                (let content = Text (case thought of
                       Some v \<Rightarrow> ''<think>'' @ newline @ v @ newline @ ''</think>'' @ newline @ output
                     | None \<Rightarrow> output);
                     s = session_next_seq (fst st1);
                     ts = env_now env (length (sess_messages (fst st1)));
                     i = (case in_preferred_assistant_message_id input of
                            Some j \<Rightarrow> j | None \<Rightarrow> env_fresh env (length (sess_messages (fst st1))))
                 in case append_event_status sink (Message (Some i) Assistant content (Some ts) None) st1 of
                      (b, st2) \<Rightarrow>
                        (case push_message ((Message_new Assistant content)\<lparr>msg_id := Some i,
                                msg_log_seq := Some s, msg_log_timestamp := Some ts\<rparr>) st2 of
                           (session, rows) \<Rightarrow>
                             (let all_appended = status_bitand a b
                              in (require_authoritative_appends sink all_appended ''assistant response'',
                                  session\<lparr>sess_dirty := \<not> as_complete all_appended\<rparr>, rows))))))"

definition pending_result :: "ToolCall \<Rightarrow> ToolResult" where
  "pending_result call = ToolResult_new call (JObject [(''error'', JString PENDING_TOOL_RESPONSE_ERROR)])"

definition add_tool_calls ::
  "Env \<Rightarrow> Sink option \<Rightarrow> Input \<Rightarrow> string \<Rightarrow> string option \<Rightarrow> ToolCall list \<Rightarrow> store
     \<Rightarrow> (StoreError + seq option) \<times> store" where
  "add_tool_calls env sink input output thought calls0 st =
     (let calls = ToolCall_dedup calls0
      in case begin_turn env sink input st of
           Inl err \<Rightarrow> (Inl err, st)
         | Inr (a, st1) \<Rightarrow>
             (let s = session_next_seq (fst st1); n = length (sess_messages (fst st1))
              in case append_event_seq sink
                        (ToolCalls output thought calls (Some (env_now env n)) None) st1 of
                   (round, st2) \<Rightarrow>
                     (case push_message ((Message_new Tool (ToolCallsContent
                              (MessageContentToolCalls_new (map pending_result calls) output thought)))
                              \<lparr>msg_id := Some (env_fresh env n), msg_log_seq := Some s\<rparr>) st2 of
                        (session, rows) \<Rightarrow>
                          (let all_appended = status_bitand a (status_from_result round);
                               session' = session\<lparr>sess_dirty := \<not> as_complete all_appended\<rparr>
                           in case require_authoritative_appends sink all_appended ''tool calls'' of
                                Inl err \<Rightarrow> (Inl err, session', rows)
                              | Inr _ \<Rightarrow>
                                  (Inr (case round of Inr (Some n') \<Rightarrow> Some n' | _ \<Rightarrow> None), session', rows)))))"

text \<open>A slot keeps its call and its markdown; output, content and hand-over come from the result.\<close>

definition fill_slot :: "ToolResult \<Rightarrow> ToolResult option \<Rightarrow> ToolResult" where
  "fill_slot slot replacement =
     (case replacement of
        None \<Rightarrow> slot
      | Some r \<Rightarrow>
          slot\<lparr>result_output := result_output r, result_content := result_content r,
               result_switch_agent := result_switch_agent r\<rparr>)"

definition replacements :: "ToolResult list \<Rightarrow> ToolResult list \<Rightarrow> ToolResult option list" where
  "replacements pending_results results =
     match_by_id (index_by_id (\<lambda>r. call_id (result_call r)) results)
       (filter (\<lambda>r. call_id (result_call r) = None) results)
       (map (\<lambda>r. call_id (result_call r)) pending_results)"

definition accept_tool_result_replacements ::
  "ToolResult list \<Rightarrow> ToolResult list \<Rightarrow> ToolResult list \<times> ExecutionContextObservation list" where
  "accept_tool_result_replacements pending_results results =
     (let slots = replacements pending_results results
      in (map2 fill_slot pending_results slots,
          filter_map (\<lambda>r. Option.bind r result_execution_context) slots))"

definition tool_outputs :: "ToolResult list \<Rightarrow> ToolOutput list" where
  "tool_outputs results =
     map (\<lambda>r. \<lparr>out_id = call_id (result_call r), out_name = call_name (result_call r),
        out_output = result_output r, out_markdown = result_markdown r,
        out_content = result_content r, out_switch_agent = result_switch_agent r\<rparr>) results"

text \<open>
  On success: the results as the caller gets them back, the observations to persist and whether the
  round is durable. The first three errors leave the log alone.
\<close>

definition prepare_tool_results_in_place ::
  "Env \<Rightarrow> Sink option \<Rightarrow> ToolResult list \<Rightarrow> store
     \<Rightarrow> (StoreError + ToolResult list \<times> ExecutionContextObservation list \<times> bool) \<times> store" where
  "prepare_tool_results_in_place env sink results0 st =
     (case env_externalize_results env results0 of (results, cid_urls) \<Rightarrow>
       (case rev (sess_messages (fst st)) of
          [] \<Rightarrow> (Inl EmptySession, st)
        | m # rest \<Rightarrow>
            (case msg_content m of
               ToolCallsContent pending \<Rightarrow>
                 if msg_role m \<noteq> Tool then (Inl NotToolRole, st)
                 else (case accept_tool_result_replacements (mtc_tool_results pending) results of
                   (filled, observations) \<Rightarrow>
                     (let session = (fst st)\<lparr>sess_messages := rev rest @
                            [m\<lparr>msg_content := ToolCallsContent (pending\<lparr>mtc_tool_results := filled\<rparr>)\<rparr>]\<rparr>
                      in case append_event_status sink
                                (ToolResults (tool_outputs filled)
                                   (Some (env_now env (length (sess_messages session))))) (session, snd st) of
                           (a, st1) \<Rightarrow>
                             (case record_externalized sink cid_urls st1 of
                                (b, session2, rows) \<Rightarrow>
                                  (let all_appended = status_bitand a b;
                                       session3 = session2\<lparr>sess_dirty :=
                                         sess_dirty session2 \<or> \<not> as_complete all_appended\<rparr>
                                   in case require_authoritative_appends sink all_appended ''tool results'' of
                                        Inl err \<Rightarrow> (Inl err, session3, rows)
                                      | Inr _ \<Rightarrow>
                                          (Inr (results, observations, as_complete all_appended),
                                           session3, rows)))))
             | _ \<Rightarrow> (Inl NotPendingRound, st))))"

definition clear_messages_in_memory :: "Session \<Rightarrow> Session" where
  "clear_messages_in_memory session =
     session\<lparr>sess_messages := [], sess_compressed_messages := [], sess_data_urls := Map.empty,
             sess_compaction_summary := None,
             sess_completion_usage := CompletionTokenUsage_new None None None\<rparr>"

definition clear_messages :: "Sink option \<Rightarrow> store \<Rightarrow> (StoreError + unit) \<times> store" where
  "clear_messages sink st =
     (case append_event sink Clear st of
        (appended, session, rows) \<Rightarrow>
          if \<not> appended then (Inl ClearNotPersisted, session\<lparr>sess_dirty := True\<rparr>, rows)
          else (Inr (), clear_messages_in_memory session, rows))"

section \<open>Recording a compaction\<close>

definition relog_entries :: "Message \<Rightarrow> SessionLogEntry list" where
  "relog_entries msg =
     (case (msg_role msg, msg_content msg) of
        (Tool, ToolCallsContent tc) \<Rightarrow>
          [ToolCalls (mtc_text tc) (mtc_thought tc) (map result_call (mtc_tool_results tc))
             (msg_log_timestamp msg) None,
           ToolResults (tool_outputs (mtc_tool_results tc)) (msg_log_timestamp msg)]
      | _ \<Rightarrow> [Message (msg_id msg) (msg_role msg) (msg_content msg) (msg_log_timestamp msg) None])"

record CompactionLog =
  cl_session_id :: string
  cl_summary :: string
  cl_kept_indices :: "nat list"
  cl_message_count :: nat
  cl_log_entry_count :: nat
  cl_entries :: "SessionLogEntry list list"

record AppendedCompaction =
  ac_summary :: string
  ac_kept_indices :: "nat list"
  ac_message_count :: nat
  ac_entry_seqs :: "nat list"
  ac_log_entry_count :: nat
  ac_all_appended :: bool

definition compaction_log_plan :: "Session \<Rightarrow> string \<Rightarrow> KeepPlan \<Rightarrow> CompactionLog" where
  "compaction_log_plan session summary keep_plan =
     (let kept = kept_indices keep_plan (length (sess_messages session))
      in \<lparr>cl_session_id = sess_id session, cl_summary = summary, cl_kept_indices = kept,
          cl_message_count = length (sess_messages session),
          cl_log_entry_count = sess_log_entry_count session,
          cl_entries = filter_map (\<lambda>i. if i < length (sess_messages session)
            then Some (relog_entries (sess_messages session ! i)) else None) kept\<rparr>)"

definition append_one :: "Sink option \<Rightarrow> SessionLogEntry \<Rightarrow> nat \<times> log \<Rightarrow> bool \<times> nat \<times> log" where
  "append_one sink entry st =
     (case append_through sink (snd st) entry of
        (Inr (Some n), rows) \<Rightarrow> (True, n, rows)
      | (_, rows) \<Rightarrow> (False, fst st, rows))"

fun append_all :: "Sink option \<Rightarrow> SessionLogEntry list \<Rightarrow> bool \<times> nat \<times> log \<Rightarrow> bool \<times> nat \<times> log" where
  "append_all sink [] acc = acc"
| "append_all sink (entry # entries) (ok, st) =
     (case append_one sink entry st of (a, st') \<Rightarrow> append_all sink entries (ok \<and> a, st'))"

fun append_kept ::
  "Sink option \<Rightarrow> SessionLogEntry list list \<Rightarrow> bool \<times> nat \<times> log \<Rightarrow> nat list \<Rightarrow> nat list \<times> bool \<times> nat \<times> log" where
  "append_kept sink [] acc seqs = (seqs, acc)"
| "append_kept sink (entries # rest) acc seqs =
     append_kept sink rest (append_all sink entries acc) (seqs @ [fst (snd acc)])"

definition compaction_log_append :: "Sink option \<Rightarrow> CompactionLog \<Rightarrow> log \<Rightarrow> AppendedCompaction \<times> log" where
  "compaction_log_append sink cl rows =
     (case append_kept sink (cl_entries cl)
             (append_one sink (Compress (cl_summary cl)) (cl_log_entry_count cl, rows)) [] of
        (seqs, all_appended, log_entry_count, rows') \<Rightarrow>
          (\<lparr>ac_summary = cl_summary cl, ac_kept_indices = cl_kept_indices cl,
            ac_message_count = cl_message_count cl, ac_entry_seqs = seqs,
            ac_log_entry_count = log_entry_count, ac_all_appended = all_appended\<rparr>, rows'))"

text \<open>The loop of \<open>AppendedCompaction::apply\<close>: the kept indices left, the messages kept and archived.\<close>

fun split_kept ::
  "nat \<Rightarrow> nat list \<Rightarrow> nat \<Rightarrow> Message list \<Rightarrow> Message list \<times> Message list \<Rightarrow> Message list \<times> Message list" where
  "split_kept message_count kept index [] acc = acc"
| "split_kept message_count kept index (m # ms) (keep, archived) =
     (if kept \<noteq> [] \<and> hd kept = index
      then split_kept message_count (tl kept) (index + 1) ms (keep @ [m], archived)
      else if message_count \<le> index
      then split_kept message_count kept (index + 1) ms (keep @ [m], archived)
      else split_kept message_count kept (index + 1) ms (keep, archived @ [m]))"

fun stamp_seqs :: "Message list \<Rightarrow> nat list \<Rightarrow> Message list" where
  "stamp_seqs (m # ms) (s # seqs) = m\<lparr>msg_log_seq := Some s\<rparr> # stamp_seqs ms seqs"
| "stamp_seqs ms _ = ms"

definition appended_compaction_apply :: "AppendedCompaction \<Rightarrow> Session \<Rightarrow> Session" where
  "appended_compaction_apply ac session =
     (case split_kept (ac_message_count ac) (ac_kept_indices ac) 0 (sess_messages session)
             ([], sess_compressed_messages session) of
        (keep, archived) \<Rightarrow>
          session\<lparr>sess_messages := stamp_seqs keep (ac_entry_seqs ac),
                  sess_compressed_messages := archived,
                  sess_compaction_summary := Some (ac_summary ac),
                  sess_log_entry_count := max (sess_log_entry_count session) (ac_log_entry_count ac),
                  sess_dirty := sess_dirty session \<or> \<not> ac_all_appended ac\<rparr>)"

definition compress_keeping_recent :: "Sink option \<Rightarrow> string \<Rightarrow> nat \<Rightarrow> store \<Rightarrow> store" where
  "compress_keeping_recent sink prompt keep_from st =
     (case compaction_log_append sink
             (compaction_log_plan (fst st) prompt \<lparr>prompt_idx = None, tail_from = keep_from\<rparr>) (snd st) of
        (ac, rows) \<Rightarrow> (appended_compaction_apply ac (fst st), rows))"

text \<open>
  \<open>apply_compaction_summary\<close>: plan under one guard, append, apply under another. \<open>between\<close> is what
  the active session is by then, if it is still the same one.
\<close>

definition apply_compaction_summary ::
  "Sink option \<Rightarrow> string \<Rightarrow> string \<Rightarrow> KeepPlan \<Rightarrow> Session option \<Rightarrow> (Session \<Rightarrow> Session option) \<Rightarrow> log
     \<Rightarrow> bool \<times> Session option \<times> log" where
  "apply_compaction_summary sink session_id summary keep_plan active between rows =
     (case active of
        None \<Rightarrow> (False, active, rows)
      | Some session \<Rightarrow>
          if sess_id session \<noteq> session_id then (False, active, rows)
          else (case compaction_log_append sink (compaction_log_plan session summary keep_plan) rows of
                  (ac, rows') \<Rightarrow>
                    (case between session of
                       None \<Rightarrow> (False, None, rows')
                     | Some s' \<Rightarrow>
                         if sess_id s' \<noteq> session_id then (False, Some s', rows')
                         else (True, Some (appended_compaction_apply ac s'), rows'))))"

definition compress :: "Sink option \<Rightarrow> string \<Rightarrow> store \<Rightarrow> store" where
  "compress sink prompt st =
     (let session = (fst st)\<lparr>sess_compressed_messages :=
            sess_compressed_messages (fst st) @ sess_messages (fst st),
            sess_messages := [], sess_compaction_summary := Some prompt\<rparr>
      in case append_event sink (Compress prompt) (session, snd st) of
           (appended, session', rows) \<Rightarrow>
             (if appended then session' else session'\<lparr>sess_dirty := True\<rparr>, rows))"

section \<open>The request\<close>

definition inject_fresh_system_prompt :: "Message list \<Rightarrow> Input \<Rightarrow> StoreError + Message list" where
  "inject_fresh_system_prompt messages input =
     (if \<not> in_inject_system_prompt input then Inr messages
      else (case in_system_text input of
              Inl err \<Rightarrow> Inl (AgentFailed err)
            | Inr system_text \<Rightarrow>
                (let rest = dropWhile (\<lambda>m. msg_role m = System) messages
                 in Inr (if system_text = [] then rest else Message_new System (Text system_text) # rest))))"

definition trim_trailing_non_user :: "Message list \<Rightarrow> Message list" where
  "trim_trailing_non_user messages = rev (dropWhile (\<lambda>m. \<not> is_user (msg_role m)) (rev messages))"

definition history_already_has_input_text :: "Input \<Rightarrow> bool" where
  "history_already_has_input_text input \<longleftrightarrow> is_tool_continuation input \<or> in_skip_user_log_append input"

definition build_messages_inner :: "Session \<Rightarrow> Input \<Rightarrow> StoreError + Message list" where
  "build_messages_inner session input =
     (if in_continue_output input \<noteq> None then Inr (sess_messages session)
      else if in_regenerate input then Inr (trim_trailing_non_user (sess_messages session))
      else (case (case in_session_input_start input of
                    Some history_end \<Rightarrow>
                      if history_end \<le> length (sess_messages session)
                      then Inr (take history_end (sess_messages session)) else Inl HistoryChanged
                  | None \<Rightarrow> Inr (sess_messages session)) of
              Inl err \<Rightarrow> Inl err
            | Inr messages \<Rightarrow>
                (case (if messages = [] \<and> \<not> is_tool_continuation input
                       then (case in_agent_messages input of
                               Inl err \<Rightarrow> Inl (AgentFailed err) | Inr ms \<Rightarrow> Inr (ms, False))
                       else Inr (messages, \<not> history_already_has_input_text input)) of
                   Inl err \<Rightarrow> Inl err
                 | Inr (ms, need_add_msg) \<Rightarrow>
                     (case inject_fresh_system_prompt ms input of
                        Inl err \<Rightarrow> Inl err
                      | Inr ms' \<Rightarrow>
                          Inr (if need_add_msg then ms' @ [Message_new User (in_message_content input)]
                               else ms')))))"

definition build_messages :: "Session \<Rightarrow> Input \<Rightarrow> StoreError + Message list" where
  "build_messages session input =
     (case build_messages_inner session input of
        Inl err \<Rightarrow> Inl err
      | Inr messages \<Rightarrow>
          (case sess_compaction_summary session of
             None \<Rightarrow> Inr messages
           | Some summary \<Rightarrow>
               if summary = [] then Inr messages
               else let index = length (takeWhile (\<lambda>m. msg_role m = System) messages);
                        summary_message = Message_new User (Text (RUNTIME_NOTE_PREFIX @
                          ''Earlier conversation summary:'' @ newline @ newline @ summary))
                    in Inr (take index messages @ summary_message # drop index messages)))"

section \<open>A reliable sink\<close>

definition accepts_all :: "Sink \<Rightarrow> bool" where
  "accepts_all k \<longleftrightarrow> (\<forall>rows entry. \<exists>n. sink_append k rows entry = Inr n)"

lemma append_event_seq_ok:
  assumes "accepts_all k"
  shows "\<exists>n. append_event_seq (Some k) e (session, rows) =
    (Inr (Some n), session\<lparr>sess_log_entry_count := n\<rparr>, rows @ [(n, e)])"
proof -
  obtain n where "sink_append k rows e = Inr n" using assms by (auto simp: accepts_all_def)
  then show ?thesis by (simp add: append_event_seq_def append_through_def)
qed

lemma append_event_status_ok:
  assumes "accepts_all k"
  shows "\<exists>n. append_event_status (Some k) e (session, rows) =
    (status_complete, session\<lparr>sess_log_entry_count := n\<rparr>, rows @ [(n, e)])"
  using append_event_seq_ok [OF assms, of e session rows]
  by (auto simp: append_event_status_def status_from_result_def)

lemma status_complete_and [simp]:
  "status_bitand status_complete a = a" "as_complete status_complete"
  "status_bitand a status_complete = a"
  by (cases a; simp add: status_bitand_def status_complete_def)+

lemma require_complete [simp]: "require_authoritative_appends sink status_complete op = Inr ()"
  by (simp add: require_authoritative_appends_def)

section \<open>What a replay shows\<close>

text \<open>
  A message up to its place in the log: the role, the content without the private execution
  observations, and the id, which a replayed tool message does not have.
\<close>

definition erase :: "MessageContent \<Rightarrow> MessageContent" where
  "erase c =
     (case c of
        ToolCallsContent tc \<Rightarrow>
          ToolCallsContent (tc\<lparr>mtc_tool_results :=
            map (\<lambda>r. r\<lparr>result_execution_context := None\<rparr>) (mtc_tool_results tc)\<rparr>)
      | _ \<Rightarrow> c)"

definition shown :: "Message \<Rightarrow> MessageRole \<times> MessageContent \<times> string option" where
  "shown m = (msg_role m, erase (msg_content m), if msg_role m = Tool then None else msg_id m)"

text \<open>A tool message as the operations write it: one round, its call ids distinct.\<close>

definition one_round :: "MessageContentToolCalls \<Rightarrow> bool" where
  "one_round tc \<longleftrightarrow> \<not> mtc_sequence tc \<and> mtc_rounds tc = [] \<and>
     distinct (filter_map call_id (map result_call (mtc_tool_results tc)))"

definition storable :: "Message \<Rightarrow> bool" where
  "storable m \<longleftrightarrow> msg_role m \<noteq> System \<and>
     (msg_role m = Tool \<longrightarrow> (case msg_content m of ToolCallsContent tc \<Rightarrow> one_round tc | _ \<Rightarrow> False))"

definition quiescent :: "ReplayState \<Rightarrow> bool" where
  "quiescent st \<longleftrightarrow> rs_pending st = None \<and> rs_queued st = []"

definition settings_of :: "ReplayState \<Rightarrow> (string \<rightharpoonup> string) \<times> string option" where
  "settings_of st = (sess_data_urls (rs_session st), sess_compaction_summary (rs_session st))"

definition replay_adds :: "ReplayState \<Rightarrow> ReplayState \<Rightarrow> (MessageRole \<times> MessageContent \<times> string option) list \<Rightarrow> bool" where
  "replay_adds st st' ms \<longleftrightarrow> quiescent st' \<and> settings_of st' = settings_of st \<and>
     map shown (sess_messages (rs_session st')) = map shown (sess_messages (rs_session st)) @ ms"

lemma replay_message_row:
  assumes "quiescent st" "role \<noteq> Tool" "role \<noteq> System"
  shows "\<exists>st'. replay_step fresh name allow (Inr st) (n, Message i role content ts f) = Inr st' \<and>
    replay_adds st st' [(role, erase content, i)]"
  using assms
  by (simp add: replay_step_def note_from_entry_def apply_entry_def replay_message_def quiescent_def
      finish_orphaned_tool_round_def close_pending_def drain_queue_def push_messages_def replay_adds_def
      settings_of_def shown_def)

lemma outputs_of_results:
  "map out_id (tool_outputs rs) = map call_id (map result_call rs)"
  by (simp add: tool_outputs_def)

lemma filter_map_map: "filter_map f (map g xs) = filter_map (f \<circ> g) xs"
  by (induction xs) (auto split: option.splits)

lemma assemble_own_outputs:
  assumes "distinct (filter_map call_id (map result_call rs))"
  shows "assemble_tool_message t th (map result_call rs) (tool_outputs rs) =
    Message_new Tool (ToolCallsContent (MessageContentToolCalls_new
      (map (\<lambda>r. r\<lparr>result_execution_context := None\<rparr>) rs) t th))"
proof -
  have d: "distinct (filter_map out_id (tool_outputs rs))"
    using assms filter_map_map [of id out_id "tool_outputs rs"] filter_map_map [of id call_id "map result_call rs"]
    by (simp add: outputs_of_results comp_def id_def)
  have "match_by_id (index_by_id out_id (tool_outputs rs)) (filter (\<lambda>r. out_id r = None) (tool_outputs rs))
      (map call_id (map result_call rs)) = map Some (tool_outputs rs)"
    using match_own_slots [OF d] by (simp only: outputs_of_results)
  moreover have "map2 stored_result (map result_call rs) (map Some (tool_outputs rs)) =
      map (\<lambda>r. r\<lparr>result_execution_context := None\<rparr>) rs"
    by (simp add: zip_map_map zip_same_conv_map stored_result_def tool_outputs_def comp_def)
  ultimately show ?thesis by (simp only: assemble_tool_message_def Let_def)
qed

lemma replay_round_rows:
  assumes "quiescent st" "distinct (filter_map call_id (map result_call rs))"
  shows "\<exists>st'. foldl (replay_step fresh name allow) (Inr st)
      [(n, ToolCalls t th (map result_call rs) ts f), (n', ToolResults (tool_outputs rs) ts')] = Inr st' \<and>
    replay_adds st st' [(Tool, erase (ToolCallsContent (MessageContentToolCalls_new rs t th)), None)]"
  using assms(1)
  by (cases ts)
    (simp_all add: replay_step_def note_from_entry_def apply_entry_def replay_tool_calls_def
      replay_tool_results_def quiescent_def finish_orphaned_tool_round_def close_pending_def drain_queue_def
      push_messages_def replay_adds_def settings_of_def shown_def Let_def erase_def
      assemble_own_outputs [OF assms(2)] MessageContentToolCalls_new_def Message_new_def)

lemma relog_message:
  assumes "msg_role m \<noteq> Tool"
  shows "relog_entries m = [Message (msg_id m) (msg_role m) (msg_content m) (msg_log_timestamp m) None]"
  using assms by (cases "msg_role m") (auto simp: relog_entries_def)

lemma relog_tool:
  assumes "msg_role m = Tool" "msg_content m = ToolCallsContent tc"
  shows "relog_entries m = [ToolCalls (mtc_text tc) (mtc_thought tc) (map result_call (mtc_tool_results tc))
      (msg_log_timestamp m) None, ToolResults (tool_outputs (mtc_tool_results tc)) (msg_log_timestamp m)]"
  using assms by (simp add: relog_entries_def)

lemma one_round_new:
  "one_round tc \<Longrightarrow> tc = MessageContentToolCalls_new (mtc_tool_results tc) (mtc_text tc) (mtc_thought tc)"
  by (simp add: one_round_def MessageContentToolCalls_new_def)

text \<open>Writing a message out again and reading it back gives the message.\<close>

lemma relog_replays:
  assumes "quiescent st" "storable m" "length ns = length (relog_entries m)"
  shows "\<exists>st'. foldl (replay_step fresh name allow) (Inr st) (zip ns (relog_entries m)) = Inr st' \<and>
    replay_adds st st' [shown m]"
proof (cases "msg_role m = Tool")
  case False
  then obtain n where "ns = [n]" using assms(3) by (auto simp: relog_message length_Suc_conv)
  moreover have "msg_role m \<noteq> System" using assms(2) by (simp add: storable_def)
  ultimately show ?thesis
    using replay_message_row [OF assms(1) False, of fresh name allow n "msg_id m" "msg_content m"] False
    by (simp add: relog_message shown_def)
next
  case True
  then obtain tc where tc: "msg_content m = ToolCallsContent tc" "one_round tc"
    using assms(2) by (auto simp: storable_def split: MessageContent.splits)
  then obtain n n' where "ns = [n, n']"
    using assms(3) True by (auto simp: relog_tool length_Suc_conv)
  then show ?thesis
    using replay_round_rows [OF assms(1), of "mtc_tool_results tc" fresh name allow n "mtc_text tc" "mtc_thought tc"
        "msg_log_timestamp m" None n' "msg_log_timestamp m"] one_round_new [OF tc(2)] tc True
    by (simp add: relog_tool shown_def one_round_def)
qed

lemma replay_adds_trans:
  "replay_adds a b xs \<Longrightarrow> replay_adds b c ys \<Longrightarrow> replay_adds a c (xs @ ys)"
  by (simp add: replay_adds_def)

lemma relog_all_replays:
  assumes "quiescent st" "\<forall>m \<in> set ms. storable m" "length ns = length (concat (map relog_entries ms))"
  shows "\<exists>st'. foldl (replay_step fresh name allow) (Inr st) (zip ns (concat (map relog_entries ms))) = Inr st' \<and>
    replay_adds st st' (map shown ms)"
  using assms
proof (induction ms arbitrary: st ns)
  case Nil
  then show ?case by (simp add: replay_adds_def)
next
  case (Cons m ms)
  let ?k = "length (relog_entries m)"
  have z: "zip ns (concat (map relog_entries (m # ms))) =
      zip (take ?k ns) (relog_entries m) @ zip (drop ?k ns) (concat (map relog_entries ms))"
    using Cons.prems(3) by (metis append_take_drop_id concat.simps(2) length_take list.map(2) min.absorb2
        le_add1 length_append zip_append)
  obtain st1 where st1: "foldl (replay_step fresh name allow) (Inr st) (zip (take ?k ns) (relog_entries m)) = Inr st1"
    "replay_adds st st1 [shown m]"
    using relog_replays [OF Cons.prems(1), of m "take ?k ns" fresh name allow] Cons.prems(2,3) by auto
  have "quiescent st1" using st1(2) by (simp add: replay_adds_def)
  from Cons.IH [OF this, of "drop ?k ns"] Cons.prems(2,3) obtain st2 where
    st2: "foldl (replay_step fresh name allow) (Inr st1) (zip (drop ?k ns) (concat (map relog_entries ms))) = Inr st2"
    "replay_adds st1 st2 (map shown ms)" by auto
  have "foldl (replay_step fresh name allow) (Inr st) (zip ns (concat (map relog_entries (m # ms)))) = Inr st2"
    by (simp only: z foldl_append st1(1) st2(1))
  with replay_adds_trans [OF st1(2) st2(2)] show ?case by auto
qed

section \<open>Appending a compaction\<close>

lemma append_one_ok:
  assumes "accepts_all k"
  shows "\<exists>n. append_one (Some k) e (c, rows) = (True, n, rows @ [(n, e)])"
proof -
  obtain n where "sink_append k rows e = Inr n" using assms by (auto simp: accepts_all_def)
  then show ?thesis by (simp add: append_one_def append_through_def)
qed

lemma append_all_ok:
  assumes "accepts_all k"
  shows "\<exists>ns c'. length ns = length es \<and> append_all (Some k) es (ok, c, rows) = (ok, c', rows @ zip ns es)"
proof (induction es arbitrary: c rows)
  case (Cons e es)
  obtain n where n: "append_one (Some k) e (c, rows) = (True, n, rows @ [(n, e)])"
    using append_one_ok [OF assms] by blast
  obtain ns c' where ns: "length ns = length es"
    "append_all (Some k) es (ok, n, rows @ [(n, e)]) = (ok, c', (rows @ [(n, e)]) @ zip ns es)"
    using Cons.IH by blast
  then show ?case by (intro exI [of _ "n # ns"]) (simp add: n)
qed simp

lemma append_kept_ok:
  assumes "accepts_all k"
  shows "\<exists>ns c' seqs'. length ns = length (concat ess) \<and> length seqs' = length seqs + length ess \<and>
    append_kept (Some k) ess (ok, c, rows) seqs = (seqs', ok, c', rows @ zip ns (concat ess))"
proof (induction ess arbitrary: c rows seqs)
  case (Cons es ess)
  obtain ns c1 where ns: "length ns = length es" "append_all (Some k) es (ok, c, rows) = (ok, c1, rows @ zip ns es)"
    using append_all_ok [OF assms] by blast
  obtain ns' c' seqs' where "length ns' = length (concat ess)" "length seqs' = length (seqs @ [c]) + length ess"
    "append_kept (Some k) ess (ok, c1, rows @ zip ns es) (seqs @ [c]) =
       (seqs', ok, c', (rows @ zip ns es) @ zip ns' (concat ess))"
    using Cons.IH by blast
  with ns show ?case by (intro exI [of _ "ns @ ns'"]) (auto simp: zip_append)
qed simp

lemma shown_stamped [simp]: "map shown (stamp_seqs ms seqs) = map shown ms"
  by (induction ms seqs rule: stamp_seqs.induct) (simp_all add: shown_def)

lemma storable_stamped: "\<forall>m \<in> set ms. storable m \<Longrightarrow> \<forall>m \<in> set (stamp_seqs ms seqs). storable m"
  by (induction ms seqs rule: stamp_seqs.induct) (simp_all add: storable_def)

lemma split_kept_spec:
  assumes "sorted_wrt (<) kept" "\<forall>i \<in> set kept. index \<le> i \<and> i < index + length ms"
    and "mc = index + length ms"
  shows "fst (split_kept mc kept index ms (keep, archived)) = keep @ map (\<lambda>i. ms ! (i - index)) kept"
  using assms
proof (induction ms arbitrary: kept index keep archived)
  case Nil
  then show ?case by (cases kept) auto
next
  case (Cons m ms)
  show ?case
  proof (cases "kept \<noteq> [] \<and> hd kept = index")
    case True
    then obtain rest where k: "kept = index # rest" by (cases kept) auto
    have "\<forall>i \<in> set rest. index + 1 \<le> i \<and> i < index + 1 + length ms" using Cons.prems k by fastforce
    moreover have "map (\<lambda>i. (m # ms) ! (i - index)) rest = map (\<lambda>i. ms ! (i - (index + 1))) rest"
      using Cons.prems(1) by (auto simp: k nth_Cons' intro!: map_cong)
    ultimately show ?thesis
      using Cons.IH [of rest "index + 1"] Cons.prems by (simp add: k)
  next
    case False
    then have f: "\<forall>i \<in> set kept. index + 1 \<le> i \<and> i < index + 1 + length ms"
      using Cons.prems(1,2) by (cases kept) fastforce+
    then have "map (\<lambda>i. (m # ms) ! (i - index)) kept = map (\<lambda>i. ms ! (i - (index + 1))) kept"
      by (auto simp: nth_Cons' intro!: map_cong)
    then show ?thesis using Cons.IH [of kept "index + 1"] Cons.prems(1,3) f False by auto
  qed
qed

section \<open>Memory and log in step\<close>

definition replayed ::
  "yaml_parser \<Rightarrow> (nat \<Rightarrow> string) \<Rightarrow> string \<Rightarrow> Session \<Rightarrow> log \<Rightarrow> ReplayError + ReplayState" where
  "replayed yaml fresh name base rows =
     foldl (replay_step fresh name False) (Inr (ReplayState_new base)) (apply_log_mutations yaml rows)"

lemma replayed_append:
  assumes "\<forall>row \<in> set es. \<not> control_row (snd row)"
  shows "replayed yaml fresh name base (rows @ es) =
    foldl (replay_step fresh name False) (replayed yaml fresh name base rows) es"
proof -
  have "apply_log_mutations yaml (rows @ es) = apply_log_mutations yaml rows @ es"
    using assms
  proof (induction es rule: rev_induct)
    case (snoc e es)
    then show ?case
      using apply_log_mutations_snoc [of yaml "rows @ es" e] by (simp add: apply_log_step_plain)
  qed simp
  then show ?thesis by (simp add: replayed_def)
qed

text \<open>The log replays, with no round open, to the messages and settings in memory.\<close>

definition settled :: "yaml_parser \<Rightarrow> (nat \<Rightarrow> string) \<Rightarrow> string \<Rightarrow> Session \<Rightarrow> store \<Rightarrow> bool" where
  "settled yaml fresh name base st \<longleftrightarrow>
     Unknown \<notin> snd ` set (snd st) \<and> (\<forall>m \<in> set (sess_messages (fst st)). storable m) \<and>
     (\<exists>rst. replayed yaml fresh name base (snd st) = Inr rst \<and> quiescent rst \<and>
        map shown (sess_messages (rs_session rst)) = map shown (sess_messages (fst st)) \<and>
        settings_of rst = (sess_data_urls (fst st), sess_compaction_summary (fst st)))"

lemma settled_step:
  assumes "settled yaml fresh name base (session, rows)" "\<forall>row \<in> set es. \<not> control_row (snd row)"
    and "\<And>rst. quiescent rst \<Longrightarrow>
        settings_of rst = (sess_data_urls session, sess_compaction_summary session) \<Longrightarrow>
        map shown (sess_messages (rs_session rst)) = map shown (sess_messages session) \<Longrightarrow>
        \<exists>rst'. foldl (replay_step fresh name False) (Inr rst) es = Inr rst' \<and> quiescent rst' \<and>
          map shown (sess_messages (rs_session rst')) = map shown (sess_messages session') \<and>
          settings_of rst' = (sess_data_urls session', sess_compaction_summary session')"
    and "\<forall>m \<in> set (sess_messages session'). storable m"
  shows "settled yaml fresh name base (session', rows @ es)"
proof -
  obtain rst where rst: "replayed yaml fresh name base rows = Inr rst" "quiescent rst"
    "map shown (sess_messages (rs_session rst)) = map shown (sess_messages session)"
    "settings_of rst = (sess_data_urls session, sess_compaction_summary session)"
    using assms(1) by (auto simp: settled_def)
  have "Unknown \<notin> snd ` set es" using assms(2) by (auto simp: control_row_def)
  moreover have "Unknown \<notin> snd ` set rows" using assms(1) by (simp add: settled_def)
  ultimately show ?thesis
    using assms(3) [OF rst(2,4,3)] assms(4) replayed_append [OF assms(2), of yaml fresh name base rows] rst(1)
    by (auto simp: settled_def image_Un)
qed

text \<open>Rows that only add messages.\<close>

lemma settled_adds:
  assumes "settled yaml fresh name base (session, rows)" "\<forall>row \<in> set es. \<not> control_row (snd row)"
    and "\<And>rst. quiescent rst \<Longrightarrow>
        \<exists>rst'. foldl (replay_step fresh name False) (Inr rst) es = Inr rst' \<and> replay_adds rst rst' (map shown ms)"
    and "\<forall>m \<in> set ms. storable m" "sess_messages session' = sess_messages session @ ms"
    and "sess_data_urls session' = sess_data_urls session"
      "sess_compaction_summary session' = sess_compaction_summary session"
  shows "settled yaml fresh name base (session', rows @ es)"
proof (rule settled_step [OF assms(1,2)])
  show "\<forall>m \<in> set (sess_messages session'). storable m" using assms(1,4,5) by (auto simp: settled_def)
next
  fix rst assume "quiescent rst" "settings_of rst = (sess_data_urls session, sess_compaction_summary session)"
    "map shown (sess_messages (rs_session rst)) = map shown (sess_messages session)"
  with assms(3) [of rst] assms(5-7)
  show "\<exists>rst'. foldl (replay_step fresh name False) (Inr rst) es = Inr rst' \<and> quiescent rst' \<and>
      map shown (sess_messages (rs_session rst')) = map shown (sess_messages session') \<and>
      settings_of rst' = (sess_data_urls session', sess_compaction_summary session')"
    by (auto simp: replay_adds_def)
qed

lemma settled_message:
  assumes "settled yaml fresh name base (session, rows)" "role \<noteq> Tool" "role \<noteq> System"
    and "shown m = (role, erase content, i)" "sess_messages session' = sess_messages session @ [m]"
    and "sess_data_urls session' = sess_data_urls session"
      "sess_compaction_summary session' = sess_compaction_summary session"
  shows "settled yaml fresh name base (session', rows @ [(n, Message i role content ts f)])"
proof (rule settled_adds [OF assms(1), where ms = "[m]"])
  show "\<forall>row \<in> set [(n, Message i role content ts f)]. \<not> control_row (snd row)" by (simp add: control_row_def)
  show "\<forall>m \<in> set [m]. storable m" using assms(2-4) by (simp add: storable_def shown_def)
qed (use assms replay_message_row in \<open>auto split: if_splits\<close>)

lemma settled_urls:
  assumes "settled yaml fresh name base (session, rows)"
  shows "settled yaml fresh name base
    (session\<lparr>sess_log_entry_count := c, sess_data_urls := sess_data_urls session ++ urls\<rparr>, rows @ [(n, DataUrls urls)])"
proof (rule settled_step [OF assms])
  show "\<forall>row \<in> set [(n, DataUrls urls)]. \<not> control_row (snd row)" by (simp add: control_row_def)
qed (use assms in \<open>auto simp: settled_def replay_step_def note_from_entry_def apply_entry_def quiescent_def settings_of_def\<close>)

lemma settled_counter:
  "settled yaml fresh name base (session\<lparr>sess_log_entry_count := c\<rparr>, rows) \<longleftrightarrow> settled yaml fresh name base (session, rows)"
  "settled yaml fresh name base (session\<lparr>sess_dirty := d\<rparr>, rows) \<longleftrightarrow> settled yaml fresh name base (session, rows)"
  by (simp_all add: settled_def)

section \<open>The operations keep them in step\<close>

definition plain_input :: "Input \<Rightarrow> bool" where
  "plain_input input \<longleftrightarrow>
     (in_skip_user_log_append input \<longrightarrow> in_injected_user_text input = None) \<and>
     (case in_agent_messages input of Inl _ \<Rightarrow> True | Inr ms \<Rightarrow> \<forall>m \<in> set ms. msg_role m \<noteq> Tool)"

lemma shown_pushed:
  "role \<noteq> Tool \<Longrightarrow> shown ((Message_new role content)\<lparr>msg_id := Some i, msg_log_seq := s\<rparr>) = (role, erase content, Some i)"
  "role \<noteq> Tool \<Longrightarrow> shown ((Message_new role content)\<lparr>msg_id := Some i, msg_log_seq := s, msg_log_timestamp := ts\<rparr>) =
     (role, erase content, Some i)"
  by (simp_all add: shown_def Message_new_def)

text \<open>One message written and pushed.\<close>

lemma message_appended:
  assumes "accepts_all k" "settled yaml fresh name base st" "role \<noteq> Tool" "role \<noteq> System"
    and "shown m = (role, erase content, i)"
  shows "\<exists>st'. append_event_status (Some k) (Message i role content ts f) st = (status_complete, st') \<and>
    settled yaml fresh name base (push_message m st')"
proof -
  obtain session rows where st: "st = (session, rows)" by (cases st)
  obtain n where "append_event_status (Some k) (Message i role content ts f) (session, rows) =
      (status_complete, session\<lparr>sess_log_entry_count := n\<rparr>, rows @ [(n, Message i role content ts f)])"
    using append_event_status_ok [OF assms(1)] by blast
  moreover have "settled yaml fresh name base
      (push_message m (session\<lparr>sess_log_entry_count := n\<rparr>, rows @ [(n, Message i role content ts f)]))"
    unfolding push_message_def prod.case
    by (rule settled_message [OF assms(2) [unfolded st] assms(3-5)]) simp_all
  ultimately show ?thesis using st by blast
qed

lemma record_externalized_settled:
  assumes "accepts_all k" "settled yaml fresh name base st"
  shows "\<exists>st'. record_externalized (Some k) urls st = (status_complete, st') \<and> settled yaml fresh name base st'"
proof (cases "urls = []")
  case False
  obtain session rows where st: "st = (session, rows)" by (cases st)
  obtain n where n: "append_event_status (Some k) (DataUrls (map_of urls)) (session, rows) =
      (status_complete, session\<lparr>sess_log_entry_count := n\<rparr>, rows @ [(n, DataUrls (map_of urls))])"
    using append_event_status_ok [OF assms(1)] by blast
  show ?thesis
    using settled_urls [OF assms(2) [unfolded st], where c = n and n = n and urls = "map_of urls"] n False
    by (simp add: record_externalized_def st)
qed (use assms in \<open>simp add: record_externalized_def\<close>)

lemma input_urls_settled:
  assumes "accepts_all k" "settled yaml fresh name base st"
  shows "\<exists>st'. append_input_data_urls (Some k) input st = (status_complete, st') \<and> settled yaml fresh name base st'"
proof -
  have "append_input_data_urls (Some k) input st = record_externalized (Some k) (in_data_urls input) st"
    by (cases st) (simp add: append_input_data_urls_def record_externalized_def)
  with record_externalized_settled [OF assms] show ?thesis by simp
qed

lemma user_turn_settled:
  assumes "accepts_all k" "settled yaml fresh name base st"
  shows "\<exists>st'. append_user_turn_message env (Some k) input st = (status_complete, st') \<and> settled yaml fresh name base st'"
proof -
  obtain content urls where ext: "env_externalize env (in_message_content input) = (content, urls)" by fastforce
  let ?i = "env_fresh env (length (sess_messages (fst st)))"
  let ?m = "(Message_new User content)\<lparr>msg_id := Some ?i, msg_log_seq := Some (session_next_seq (fst st))\<rparr>"
  obtain st1 where st1: "append_event_status (Some k) (Message (Some ?i) User content
      (Some (env_now env (length (sess_messages (fst st))))) None) st = (status_complete, st1)"
    "settled yaml fresh name base (push_message ?m st1)"
    using message_appended [OF assms, of User ?m content "Some ?i"] shown_pushed(1) [of User] by blast
  from record_externalized_settled [OF assms(1) st1(2), of urls] st1(1) ext show ?thesis
    by (auto simp: append_user_turn_message_def append_session_message_with_id_def Let_def)
qed

lemma agent_messages_settled:
  assumes "accepts_all k" "settled yaml fresh name base st" "\<forall>m \<in> set ms. msg_role m \<noteq> Tool"
  shows "\<exists>urls' st'. append_agent_messages env (Some k) ms status_complete urls st = (status_complete, urls', st') \<and>
    settled yaml fresh name base st'"
  using assms(2,3)
proof (induction ms arbitrary: urls st)
  case (Cons m ms)
  show ?case
  proof (cases "msg_role m = System")
    case True
    with Cons show ?thesis by simp
  next
    case False
    obtain content cids where ext: "env_externalize env (msg_content m) = (content, cids)" by fastforce
    let ?i = "env_fresh env (length (sess_messages (fst st)))"
    let ?m = "m\<lparr>msg_content := content, msg_id := Some ?i, msg_log_seq := Some (session_next_seq (fst st))\<rparr>"
    have sh: "shown ?m = (msg_role m, erase content, Some ?i)" using Cons.prems(2) by (simp add: shown_def)
    obtain st1 where "append_event_status (Some k) (Message (Some ?i) (msg_role m) content
        (Some (env_now env (length (sess_messages (fst st))))) None) st = (status_complete, st1)"
      "settled yaml fresh name base (push_message ?m st1)"
      using message_appended [OF assms(1) Cons.prems(1) _ False sh] Cons.prems(2)
      by (metis list.set_intros(1))
    with Cons.IH [OF this(2), of "cids @ urls"] Cons.prems(2) False ext show ?thesis
      by (simp add: append_session_message_with_id_def Let_def)
  qed
qed simp

lemma injected_settled:
  assumes "accepts_all k" "settled yaml fresh name base st" "plain_input input"
  shows "\<exists>st'. append_injected_user_text env (Some k) input st = (status_complete, st') \<and> settled yaml fresh name base st'"
proof (cases "in_injected_user_text input")
  case (Some t)
  let ?i = "env_fresh env (length (sess_messages (fst st)))"
  let ?m = "(Message_new User (Text t))\<lparr>msg_id := Some ?i, msg_log_seq := Some (session_next_seq (fst st))\<rparr>"
  have "\<not> in_skip_user_log_append input" using Some assms(3) by (auto simp: plain_input_def)
  moreover obtain st1 where "append_event_status (Some k) (Message (Some ?i) User (Text t)
      (Some (env_now env (length (sess_messages (fst st))))) None) st = (status_complete, st1)"
    "settled yaml fresh name base (push_message ?m st1)"
    using message_appended [OF assms(1,2), of User ?m "Text t" "Some ?i"] shown_pushed(1) [of User] by blast
  ultimately show ?thesis using Some
    by (simp add: append_injected_user_text_def append_session_message_with_id_def Let_def)
qed (use assms in \<open>simp add: append_injected_user_text_def\<close>)

lemma begin_turn_settled:
  assumes "accepts_all k" "settled yaml fresh name base st" "plain_input input"
    and "begin_turn env (Some k) input st = Inr (a, st')"
  shows "a = status_complete \<and> settled yaml fresh name base st'"
proof (cases "in_session_input_start input = None")
  case True
  let ?first = "if sess_messages (fst st) = [] \<and> \<not> is_tool_continuation input
                  then append_initial_agent_messages env (Some k) input st
                  else if \<not> is_tool_continuation input \<and> \<not> in_skip_user_log_append input
                  then Inr (append_user_turn_message env (Some k) input st)
                  else Inr (status_complete, st)"
  obtain a1 st1 where first: "?first = Inr (a1, st1)"
    using assms(4) True by (auto simp: begin_turn_def split: sum.splits)
  have "a1 = status_complete \<and> settled yaml fresh name base st1"
  proof (cases "sess_messages (fst st) = [] \<and> \<not> is_tool_continuation input")
    case True
    then obtain ms where ms: "in_agent_messages input = Inr ms" "\<forall>m \<in> set ms. msg_role m \<noteq> Tool"
      using first assms(3)
      by (auto simp: append_initial_agent_messages_def plain_input_def split: sum.splits)
    obtain urls st2 where "append_agent_messages env (Some k) ms status_complete [] st = (status_complete, urls, st2)"
      "settled yaml fresh name base st2"
      using agent_messages_settled [OF assms(1,2) ms(2)] by blast
    with record_externalized_settled [OF assms(1) this(2), of urls] ms(1) True first show ?thesis
      by (auto simp: append_initial_agent_messages_def)
  next
    case False
    then show ?thesis
      using first user_turn_settled [OF assms(1,2), of env input] assms(2) by (auto split: if_splits)
  qed
  with input_urls_settled [OF assms(1), of yaml fresh name base st1 input]
    injected_settled [OF assms(1) _ assms(3), of yaml fresh name base _ env] assms(4) True first
  show ?thesis by (fastforce simp: begin_turn_def)
qed (use assms in \<open>auto simp: begin_turn_def\<close>)

lemma assistant_settled:
  assumes "accepts_all k" "settled yaml fresh name base st" "plain_input input"
    and "in_continue_output input = None" "\<not> in_regenerate input"
    and "add_assistant_text env (Some k) input output thought st = (Inr (), st')"
  shows "settled yaml fresh name base st'"
proof -
  obtain a st1 where b: "begin_turn env (Some k) input st = Inr (a, st1)"
    using assms(4-6) by (auto simp: add_assistant_text_def split: sum.splits)
  note bt = begin_turn_settled [OF assms(1-3) b]
  let ?c = "Text (case thought of
       Some v \<Rightarrow> ''<think>'' @ newline @ v @ newline @ ''</think>'' @ newline @ output | None \<Rightarrow> output)"
  let ?i = "case in_preferred_assistant_message_id input of
      Some j \<Rightarrow> j | None \<Rightarrow> env_fresh env (length (sess_messages (fst st1)))"
  let ?ts = "Some (env_now env (length (sess_messages (fst st1))))"
  let ?m = "(Message_new Assistant ?c)\<lparr>msg_id := Some ?i, msg_log_seq := Some (session_next_seq (fst st1)),
    msg_log_timestamp := ?ts\<rparr>"
  obtain st2 where "append_event_status (Some k) (Message (Some ?i) Assistant ?c ?ts None) st1 = (status_complete, st2)"
    "settled yaml fresh name base (push_message ?m st2)"
    using message_appended [OF assms(1) conjunct2 [OF bt], of Assistant ?m ?c "Some ?i"] shown_pushed(2) [of Assistant]
    by blast
  moreover obtain session rows where "push_message ?m st2 = (session, rows)" by fastforce
  ultimately show ?thesis
    using assms(4-6) b bt by (auto simp: add_assistant_text_def Let_def settled_counter)
qed

lemma distinct_dedup: "distinct (filter_map call_id (ToolCall_dedup calls))"
proof -
  have "distinct (filter_map call_id (dedup_spec cs))" for cs
  proof (induction cs)
    case (Cons c cs)
    show ?case
    proof (cases "call_id c")
      case (Some i)
      have "i \<in> set (filter_map call_id (dedup_spec cs)) \<longleftrightarrow> Some i \<in> call_id ` set (dedup_spec cs)"
        unfolding set_filter_map image_iff by (auto simp: eq_commute)
      then have "i \<in> set (filter_map call_id (dedup_spec cs)) \<longleftrightarrow> Some i \<in> call_id ` set cs"
        by (simp only: dedup_spec_ids)
      with Cons Some show ?thesis by auto
    qed (use Cons in simp)
  qed simp
  then show ?thesis by (simp add: ToolCall_dedup_eq)
qed

lemma accept_fills:
  assumes "accept_tool_result_replacements (map pending_result calls) results = (filled, observations)"
  shows "map result_call filled = calls" "map (\<lambda>r. r\<lparr>result_execution_context := None\<rparr>) filled = filled"
proof -
  obtain slots where f: "filled = map2 fill_slot (map pending_result calls) slots" "length slots = length calls"
    using assms by (auto simp: accept_tool_result_replacements_def replacements_def Let_def)
  have "map result_call (map2 fill_slot (map pending_result calls) slots) = calls \<and>
      map (\<lambda>r. r\<lparr>result_execution_context := None\<rparr>) (map2 fill_slot (map pending_result calls) slots) =
        map2 fill_slot (map pending_result calls) slots"
    using f(2)
    by (induction calls slots rule: list_induct2')
      (auto simp: fill_slot_def pending_result_def ToolResult_new_def split: option.splits)
  with f(1) show "map result_call filled = calls" "map (\<lambda>r. r\<lparr>result_execution_context := None\<rparr>) filled = filled"
    by simp_all
qed

lemma settled_round:
  assumes "settled yaml fresh name base (session, rows)" "distinct (filter_map call_id (map result_call rs))"
    and "msg_role m = Tool" "msg_content m = ToolCallsContent (MessageContentToolCalls_new rs t th)"
    and "sess_messages session' = sess_messages session @ [m]"
      "sess_data_urls session' = sess_data_urls session"
      "sess_compaction_summary session' = sess_compaction_summary session"
  shows "settled yaml fresh name base (session',
    (rows @ [(n, ToolCalls t th (map result_call rs) ts f)]) @ [(n', ToolResults (tool_outputs rs) ts')])"
proof -
  let ?rows = "[(n, ToolCalls t th (map result_call rs) ts f), (n', ToolResults (tool_outputs rs) ts')]"
  have "settled yaml fresh name base (session', rows @ ?rows)"
  proof (rule settled_adds [OF assms(1), where ms = "[m]"])
    show "\<forall>row \<in> set ?rows. \<not> control_row (snd row)" by (simp add: control_row_def)
    show "\<forall>m \<in> set [m]. storable m"
      using assms(2-4) by (simp add: storable_def one_round_def MessageContentToolCalls_new_def)
    fix rst assume "quiescent rst"
    from replay_round_rows [OF this assms(2)] show "\<exists>rst'. foldl (replay_step fresh name False) (Inr rst) ?rows = Inr rst' \<and>
        replay_adds rst rst' (map shown [m])"
      using assms(3,4) by (simp add: shown_def)
  qed (use assms(5-7) in simp_all)
  then show ?thesis by simp
qed

lemma round_settled:
  assumes "accepts_all k" "settled yaml fresh name base st" "plain_input input"
    and calls: "add_tool_calls env (Some k) input output thought calls st = (Inr round, st1)"
    and results: "prepare_tool_results_in_place env (Some k) results st1 = (Inr x, st2)"
  shows "settled yaml fresh name base st2"
proof -
  let ?calls = "ToolCall_dedup calls"
  obtain a session rows where b: "begin_turn env (Some k) input st = Inr (a, session, rows)"
    using calls by (auto simp: add_tool_calls_def Let_def split: sum.splits)
  note bt = begin_turn_settled [OF assms(1-3) b]
  let ?n = "length (sess_messages session)"
  let ?row = "ToolCalls output thought ?calls (Some (env_now env ?n)) None"
  obtain n where n: "append_event_seq (Some k) ?row (session, rows) =
      (Inr (Some n), session\<lparr>sess_log_entry_count := n\<rparr>, rows @ [(n, ?row)])"
    using append_event_seq_ok [OF assms(1)] by blast
  let ?m = "(Message_new Tool (ToolCallsContent (MessageContentToolCalls_new (map pending_result ?calls) output thought)))
      \<lparr>msg_id := Some (env_fresh env ?n), msg_log_seq := Some (session_next_seq session)\<rparr>"
  have st1: "st1 = (session\<lparr>sess_log_entry_count := n, sess_messages := sess_messages session @ [?m], sess_dirty := False\<rparr>,
      rows @ [(n, ?row)])"
    using calls b n bt
    by (simp add: add_tool_calls_def Let_def push_message_def status_from_result_def split: if_splits)
  obtain results' urls where ext: "env_externalize_results env results = (results', urls)" by fastforce
  obtain filled obs where acc: "accept_tool_result_replacements (map pending_result ?calls) results' = (filled, obs)" by fastforce
  note f = accept_fills [OF acc]
  let ?m' = "?m\<lparr>msg_content := ToolCallsContent (MessageContentToolCalls_new filled output thought)\<rparr>"
  let ?s = "session\<lparr>sess_log_entry_count := n, sess_dirty := False, sess_messages := sess_messages session @ [?m']\<rparr>"
  let ?res = "ToolResults (tool_outputs filled) (Some (env_now env (Suc ?n)))"
  obtain n' where n': "append_event_status (Some k) ?res (?s, rows @ [(n, ?row)]) =
      (status_complete, ?s\<lparr>sess_log_entry_count := n'\<rparr>, (rows @ [(n, ?row)]) @ [(n', ?res)])"
    using append_event_status_ok [OF assms(1)] by blast
  have "settled yaml fresh name base (?s\<lparr>sess_log_entry_count := n'\<rparr>, (rows @ [(n, ?row)]) @ [(n', ?res)])"
    using settled_round [OF conjunct2 [OF bt], where rs = filled and m = ?m' and t = "output" and th = thought
        and session' = "?s\<lparr>sess_log_entry_count := n'\<rparr>" and n = n and n' = n'] f(1) distinct_dedup [of calls]
    by (simp add: Message_new_def)
  from record_externalized_settled [OF assms(1) this, of urls] obtain s3 rows3 where
    "record_externalized (Some k) urls (?s\<lparr>sess_log_entry_count := n'\<rparr>, (rows @ [(n, ?row)]) @ [(n', ?res)]) =
       (status_complete, s3, rows3)" "settled yaml fresh name base (s3, rows3)" by fastforce
  moreover have "prepare_tool_results_in_place env (Some k) results st1 =
      (case record_externalized (Some k) urls (?s\<lparr>sess_log_entry_count := n'\<rparr>, (rows @ [(n, ?row)]) @ [(n', ?res)]) of
         (b, s3, rows3) \<Rightarrow>
           (case require_authoritative_appends (Some k) (status_bitand status_complete b) ''tool results'' of
              Inl err \<Rightarrow> (Inl err, s3\<lparr>sess_dirty := sess_dirty s3 \<or> \<not> as_complete (status_bitand status_complete b)\<rparr>, rows3)
            | Inr _ \<Rightarrow> (Inr (results', obs, as_complete (status_bitand status_complete b)),
                s3\<lparr>sess_dirty := sess_dirty s3 \<or> \<not> as_complete (status_bitand status_complete b)\<rparr>, rows3)))"
    using n' acc by (simp add: prepare_tool_results_in_place_def ext st1 Message_new_def
        MessageContentToolCalls_new_def Let_def)
  ultimately show ?thesis using results by (auto simp: settled_counter)
qed

lemma filter_map_in_range:
  assumes "\<forall>i \<in> set is. i < length ms"
  shows "filter_map (\<lambda>i. if i < length ms then Some (f (ms ! i)) else None) is = map (\<lambda>i. f (ms ! i)) is"
  using assms by (induction "is") auto

lemma compaction_rows:
  assumes "accepts_all k" "compaction_log_append (Some k) cl rows = (ac, rows')"
  shows "\<exists>n ns. rows' = rows @ (n, Compress (cl_summary cl)) # zip ns (concat (cl_entries cl)) \<and>
    length ns = length (concat (cl_entries cl)) \<and> ac_summary ac = cl_summary cl \<and>
    ac_kept_indices ac = cl_kept_indices cl \<and> ac_message_count ac = cl_message_count cl \<and> ac_all_appended ac"
proof -
  obtain n where n: "append_one (Some k) (Compress (cl_summary cl)) (cl_log_entry_count cl, rows) =
      (True, n, rows @ [(n, Compress (cl_summary cl))])"
    using append_one_ok [OF assms(1)] by blast
  obtain ns c' seqs where "length ns = length (concat (cl_entries cl))"
    "append_kept (Some k) (cl_entries cl) (True, n, rows @ [(n, Compress (cl_summary cl))]) [] =
       (seqs, True, c', (rows @ [(n, Compress (cl_summary cl))]) @ zip ns (concat (cl_entries cl)))"
    using append_kept_ok [OF assms(1)] by blast
  with n assms(2) show ?thesis by (auto simp: compaction_log_append_def)
qed

lemma relogged_plain: "e \<in> set (relog_entries m) \<Longrightarrow> \<not> control_row e"
  by (cases "msg_role m"; cases "msg_content m") (auto simp: relog_entries_def control_row_def)

lemma compaction_settled:
  assumes "accepts_all k" "settled yaml fresh name base (session, rows)"
    and "\<And>i. prompt_idx plan = Some i \<Longrightarrow> i < tail_from plan"
    and "compaction_log_append (Some k) (compaction_log_plan session summary plan) rows = (ac, rows')"
  shows "settled yaml fresh name base (appended_compaction_apply ac session, rows') \<and>
    map shown (sess_messages (appended_compaction_apply ac session)) =
      map (\<lambda>i. shown (sess_messages session ! i)) (kept_indices plan (length (sess_messages session)))"
proof -
  let ?ms = "sess_messages session" and ?cl = "compaction_log_plan session summary plan"
  let ?kept = "kept_indices plan (length (sess_messages session))"
  let ?keep = "map (\<lambda>i. ?ms ! i) ?kept"
  note kept = kept_indices_spec [OF assms(3), of "length ?ms"]
  have cl: "cl_kept_indices ?cl = ?kept" "cl_message_count ?cl = length ?ms" "cl_summary ?cl = summary"
    "cl_entries ?cl = map relog_entries ?keep"
    using kept(2) by (simp_all add: compaction_log_plan_def Let_def filter_map_in_range comp_def)
  obtain n ns where rows: "rows' = rows @ ((n, Compress summary) # zip ns (concat (map relog_entries ?keep)))"
    "length ns = length (concat (map relog_entries ?keep))"
    and ac: "ac_summary ac = summary" "ac_kept_indices ac = ?kept" "ac_message_count ac = length ?ms"
    using compaction_rows [OF assms(1,4)] unfolding cl by blast
  have "fst (split_kept (length ?ms) ?kept 0 ?ms ([], sess_compressed_messages session)) = ?keep"
    using split_kept_spec [of ?kept 0 ?ms "length ?ms" "[]"] kept(1,2) by simp
  then have msgs: "sess_messages (appended_compaction_apply ac session) = stamp_seqs ?keep (ac_entry_seqs ac)"
    "sess_data_urls (appended_compaction_apply ac session) = sess_data_urls session"
    "sess_compaction_summary (appended_compaction_apply ac session) = Some summary"
    by (auto simp: appended_compaction_apply_def ac split: prod.splits)
  have st: "\<forall>m \<in> set ?keep. storable m" using assms(2) kept(2) by (auto simp: settled_def)
  have "settled yaml fresh name base
      (appended_compaction_apply ac session, rows @ ((n, Compress summary) # zip ns (concat (map relog_entries ?keep))))"
  proof (rule settled_step [OF assms(2)])
    show "\<forall>row \<in> set ((n, Compress summary) # zip ns (concat (map relog_entries ?keep))). \<not> control_row (snd row)"
      by (auto simp: control_row_def dest!: set_zip_rightD) (auto simp: control_row_def dest: relogged_plain)
    show "\<forall>m \<in> set (sess_messages (appended_compaction_apply ac session)). storable m"
      unfolding msgs(1) by (rule storable_stamped [OF st])
  next
    fix rst assume q: "quiescent rst" and s: "settings_of rst = (sess_data_urls session, sess_compaction_summary session)"
    let ?c = "replay_compress fresh summary rst"
    have c: "replay_step fresh name False (Inr rst) (n, Compress summary) = Inr ?c" "quiescent ?c"
      "sess_messages (rs_session ?c) = []" "settings_of ?c = (sess_data_urls session, Some summary)"
      using q s by (simp_all add: replay_step_def note_from_entry_def apply_entry_def replay_compress_def Let_def
          quiescent_def finish_orphaned_tool_round_def close_pending_def drain_queue_def push_messages_def settings_of_def)
    from relog_all_replays [OF c(2) st rows(2), of fresh name False] msgs c(1,3,4)
    show "\<exists>rst'. foldl (replay_step fresh name False) (Inr rst) ((n, Compress summary) # zip ns (concat (map relog_entries ?keep))) =
        Inr rst' \<and> quiescent rst' \<and>
        map shown (sess_messages (rs_session rst')) = map shown (sess_messages (appended_compaction_apply ac session)) \<and>
        settings_of rst' = (sess_data_urls (appended_compaction_apply ac session),
          sess_compaction_summary (appended_compaction_apply ac session))"
      by (auto simp: replay_adds_def)
  qed
  moreover have "map shown (sess_messages (appended_compaction_apply ac session)) = map (\<lambda>i. shown (?ms ! i)) ?kept"
    by (simp add: msgs(1))
  ultimately show ?thesis using rows(1) by simp
qed

lemma clear_settled:
  assumes "accepts_all k" "settled yaml fresh name base st" "clear_messages (Some k) st = (r, st')"
  shows "settled yaml fresh name base st'"
proof -
  obtain session rows where st: "st = (session, rows)" by (cases st)
  obtain n where n: "append_event_status (Some k) Clear (session, rows) =
      (status_complete, session\<lparr>sess_log_entry_count := n\<rparr>, rows @ [(n, Clear)])"
    using append_event_status_ok [OF assms(1)] by blast
  have "settled yaml fresh name base
      (clear_messages_in_memory (session\<lparr>sess_log_entry_count := n\<rparr>), rows @ [(n, Clear)])"
  proof (rule settled_step [OF assms(2) [unfolded st]])
    show "\<forall>row \<in> set [(n, Clear)]. \<not> control_row (snd row)" by (simp add: control_row_def)
  qed (auto simp: clear_messages_in_memory_def replay_step_def note_from_entry_def apply_entry_def
      replay_clear_def quiescent_def settings_of_def)
  then show ?thesis using assms(3) n by (auto simp: st clear_messages_def append_event_def)
qed

section \<open>Properties\<close>

text \<open>
  A session's life with one writer: answers, whole tool rounds, compactions and clears, in any
  order, each over a sink that accepts its rows.
\<close>

inductive store_step :: "Sink \<Rightarrow> store \<Rightarrow> store \<Rightarrow> bool" for k where
  answer: "plain_input input \<Longrightarrow> in_continue_output input = None \<Longrightarrow> \<not> in_regenerate input \<Longrightarrow>
    add_assistant_text env (Some k) input reply thought st = (Inr (), st') \<Longrightarrow> store_step k st st'"
| tool_round: "plain_input input \<Longrightarrow>
    add_tool_calls env (Some k) input output thought calls st = (Inr round, st1) \<Longrightarrow>
    prepare_tool_results_in_place env (Some k) results st1 = (Inr x, st') \<Longrightarrow> store_step k st st'"
| compaction: "(\<And>i. prompt_idx plan = Some i \<Longrightarrow> i < tail_from plan) \<Longrightarrow>
    compaction_log_append (Some k) (compaction_log_plan session summary plan) rows = (ac, rows') \<Longrightarrow>
    store_step k (session, rows) (appended_compaction_apply ac session, rows')"
| cleared: "clear_messages (Some k) st = (Inr (), st') \<Longrightarrow> store_step k st st'"

lemma store_step_settled:
  assumes "store_step k st st'" "accepts_all k" "settled yaml fresh name base st"
  shows "settled yaml fresh name base st'"
  using assms
  by (cases rule: store_step.cases)
    (blast intro: assistant_settled round_settled clear_settled conjunct1 [OF compaction_settled])+

lemma store_run_settled:
  assumes "(store_step k)\<^sup>*\<^sup>* st st'" "accepts_all k" "settled yaml fresh name base st"
  shows "settled yaml fresh name base st'"
  using assms by (induction rule: rtranclp_induct) (auto intro: store_step_settled)

definition unwritten :: "Session \<Rightarrow> bool" where
  "unwritten s \<longleftrightarrow> sess_messages s = [] \<and> sess_data_urls s = Map.empty \<and> sess_compaction_summary s = None"

lemma settled_new: "unwritten s \<Longrightarrow> settled yaml fresh name s (s, [])"
  by (simp add: settled_def unwritten_def replayed_def apply_log_mutations_def apply_log_mutations_with_name_def
      ReplayState_new_def quiescent_def settings_of_def)

lemma settled_replays:
  assumes "settled yaml fresh name base (session, rows)"
  shows "\<exists>s. replay_nats_entries_into_session yaml fresh rows name base preserve = Inr s \<and>
    map shown (sess_messages s) = map shown (sess_messages session) \<and>
    sess_data_urls s = sess_data_urls session \<and> sess_compaction_summary s = sess_compaction_summary session"
proof -
  have u: "\<not> list_ex (\<lambda>row. snd row = Unknown) rows" using assms by (force simp: settled_def list_ex_iff)
  obtain rst where rst: "replayed yaml fresh name base rows = Inr rst" "quiescent rst"
    "map shown (sess_messages (rs_session rst)) = map shown (sess_messages session)"
    "settings_of rst = (sess_data_urls session, sess_compaction_summary session)"
    using assms by (auto simp: settled_def)
  have "apply_log_mutations_with_name yaml rows name = apply_log_mutations yaml rows"
    by (simp add: apply_log_mutations_def apply_log_mutations_with_name_def)
  then have "replay_nats_entries_into_session yaml fresh rows name base preserve =
      Inr (replay_finish fresh (opt_trailing_tool_calls (ReplayOptions_new False preserve)) rst)"
    using u rst(1) by (simp add: replay_nats_entries_into_session_def replay_log_entries_into_session_def
        ReplayOptions_new_def replayed_def)
  then show ?thesis using rst(2-4)
    by (simp add: replay_finish_def close_pending_def drain_queue_def push_messages_def quiescent_def settings_of_def)
qed


definition demo_sink :: Sink where
  "demo_sink = \<lparr>sink_append = (\<lambda>rows _. Inr (length rows + 1)), sink_validate_output = Inr (),
     sink_failure_is_fatal = True\<rparr>"

lemma demo_accepts: "accepts_all demo_sink"
  by (simp add: accepts_all_def demo_sink_def)

definition demo_env :: Env where
  "demo_env = \<lparr>env_fresh = (\<lambda>n. show_nat n), env_now = (\<lambda>_. 0), env_externalize = (\<lambda>c. (c, [])),
     env_externalize_results = (\<lambda>rs. (rs, []))\<rparr>"

definition demo_input :: Input where
  "demo_input = \<lparr>in_session_input_start = None, in_has_tool_calls = False, in_skip_user_log_append = False,
     in_continue_output = None, in_regenerate = False, in_message_content = Text ''hello'', in_data_urls = [],
     in_injected_user_text = None, in_injected_user_messages = [], in_preferred_assistant_message_id = None,
     in_agent_messages = Inr [Message_new System (Text ''be kind''), Message_new User (Text ''hello'')],
     in_inject_system_prompt = True, in_system_text = Inr ''be kind''\<rparr>"

definition demo_answered :: store where
  "demo_answered = snd (add_assistant_text demo_env (Some demo_sink) demo_input ''hi'' None (Session_default, []))"

lemmas store_eval = add_assistant_text_def begin_turn_def append_initial_agent_messages_def
  append_session_message_with_id_def append_event_status_def append_event_seq_def append_through_def
  record_externalized_def append_input_data_urls_def append_injected_user_text_def push_message_def
  status_from_result_def session_next_seq_def is_tool_continuation_def Session_default_def Message_new_def

lemma demo_answers: "store_step demo_sink (Session_default, []) demo_answered"
  by (rule store_step.answer [where input = demo_input and env = demo_env and reply = "''hi''" and thought = None])
    (simp_all add: demo_answered_def demo_input_def plain_input_def demo_env_def demo_sink_def store_eval Let_def)


text \<open>
  C23: A compaction survives a restart. When its rows are appended, the session keeps exactly the
  planned messages, in order, and a replay of the log has the same active messages and the summary.
\<close>

theorem compaction_replays:
  assumes "accepts_all k" "unwritten session0" "(store_step k)\<^sup>*\<^sup>* (session0, []) (session, rows)"
    and "\<And>i. prompt_idx plan = Some i \<Longrightarrow> i < tail_from plan"
    and "compaction_log_append (Some k) (compaction_log_plan session summary plan) rows = (ac, rows')"
  shows "map shown (sess_messages (appended_compaction_apply ac session)) =
      map (\<lambda>i. shown (sess_messages session ! i)) (kept_indices plan (length (sess_messages session))) \<and>
    (\<exists>s. replay_nats_entries_into_session yaml fresh rows' name session0 preserve = Inr s \<and>
       map shown (sess_messages s) = map shown (sess_messages (appended_compaction_apply ac session)) \<and>
       sess_compaction_summary s = Some summary)"
proof -
  have "settled yaml fresh name session0 (session, rows)"
    by (rule store_run_settled [OF assms(3,1) settled_new [OF assms(2)]])
  note c = compaction_settled [OF assms(1) this assms(4,5)]
  have "sess_compaction_summary (appended_compaction_apply ac session) = Some summary"
    using compaction_rows [OF assms(1,5)]
    by (auto simp: appended_compaction_apply_def compaction_log_plan_def Let_def split: prod.splits)
  with c settled_replays [OF conjunct1 [OF c], of preserve] show ?thesis by auto
qed

theorem compaction_replays_witness:
  "\<exists>ac rows'. compaction_log_append (Some demo_sink)
      (compaction_log_plan (fst demo_answered) ''sum'' \<lparr>prompt_idx = None, tail_from = 0\<rparr>) (snd demo_answered) = (ac, rows') \<and>
    (\<exists>s. replay_nats_entries_into_session (\<lambda>_. None) (\<lambda>_. ''x'') rows' ''s'' Session_default True = Inr s \<and>
       sess_compaction_summary s = Some ''sum'')"
proof -
  have run: "(store_step demo_sink)\<^sup>*\<^sup>* (Session_default, []) (fst demo_answered, snd demo_answered)"
    using demo_answers by simp
  obtain ac rows' where "compaction_log_append (Some demo_sink)
      (compaction_log_plan (fst demo_answered) ''sum'' \<lparr>prompt_idx = None, tail_from = 0\<rparr>) (snd demo_answered) = (ac, rows')"
    by fastforce
  with compaction_replays [OF demo_accepts _ run _ this] show ?thesis
    by (fastforce simp: unwritten_def Session_default_def)
qed

section \<open>What the model is sent\<close>

definition summary_note :: "Session \<Rightarrow> Message list" where
  "summary_note session =
     (case sess_compaction_summary session of
        Some summary \<Rightarrow>
          if summary = [] then []
          else [Message_new User (Text (RUNTIME_NOTE_PREFIX @
            ''Earlier conversation summary:'' @ newline @ newline @ summary))]
      | None \<Rightarrow> [])"

definition history_of :: "Session \<Rightarrow> Input \<Rightarrow> Message list" where
  "history_of session input =
     (case in_session_input_start input of Some n \<Rightarrow> take n (sess_messages session) | None \<Rightarrow> sess_messages session)"

lemma takeWhile_system_prompt:
  assumes "\<forall>m \<in> set ms. msg_role m \<noteq> System"
  shows "takeWhile (\<lambda>m. msg_role m = System) ms = []" "dropWhile (\<lambda>m. msg_role m = System) ms = ms"
  using assms by (cases ms; simp)+

lemma summary_inserted:
  assumes "build_messages_inner session input = Inr (prompt # rest)" "msg_role prompt = System"
    and "takeWhile (\<lambda>m. msg_role m = System) rest = []"
  shows "build_messages session input = Inr (prompt # summary_note session @ rest)"
  using assms by (simp add: build_messages_def summary_note_def Let_def split: option.splits)

text \<open>
  A request is the system prompt, the compaction summary, the conversation and the new input,
  in this order and each once. The input is left out exactly when the history has it already: in
  the middle of a tool round, or when it was taken out of the durable log. Input persisted before
  the request is cut from the history first, so it is not sent twice either.
\<close>

theorem build_messages_order:
  assumes "in_continue_output input = None" "\<not> in_regenerate input"
    and "\<forall>n. in_session_input_start input = Some n \<longrightarrow> n \<le> length (sess_messages session)"
    and "history_of session input \<noteq> [] \<or> is_tool_continuation input"
    and "in_inject_system_prompt input" "in_system_text input = Inr system_text" "system_text \<noteq> []"
    and "\<forall>m \<in> set (sess_messages session). msg_role m \<noteq> System"
  shows "build_messages session input =
    Inr (Message_new System (Text system_text) # summary_note session @ history_of session input @
      (if is_tool_continuation input \<or> in_skip_user_log_append input then []
       else [Message_new User (in_message_content input)]))"
proof -
  have sys: "\<forall>m \<in> set (history_of session input). msg_role m \<noteq> System"
    using assms(8) by (auto simp: history_of_def split: option.splits dest: in_set_takeD)
  have "(case in_session_input_start input of
       Some n \<Rightarrow> if n \<le> length (sess_messages session) then Inr (take n (sess_messages session)) else Inl HistoryChanged
     | None \<Rightarrow> Inr (sess_messages session)) = Inr (history_of session input)"
    using assms(3) by (auto simp: history_of_def split: option.splits)
  then have "build_messages_inner session input =
      Inr (Message_new System (Text system_text) # history_of session input @
        (if is_tool_continuation input \<or> in_skip_user_log_append input then []
         else [Message_new User (in_message_content input)]))"
    using assms(1,2,4-7) takeWhile_system_prompt(2) [OF sys]
    by (auto simp: build_messages_inner_def inject_fresh_system_prompt_def history_already_has_input_text_def Let_def)
  moreover have "takeWhile (\<lambda>m. msg_role m = System) (history_of session input @
      (if is_tool_continuation input \<or> in_skip_user_log_append input then []
       else [Message_new User (in_message_content input)])) = []"
    using sys by (intro takeWhile_system_prompt(1)) (auto simp: Message_new_def)
  ultimately show ?thesis by (simp add: summary_inserted [of session input] Message_new_def)
qed

theorem build_messages_order_witness:
  "build_messages (Session_default\<lparr>sess_messages := [Message_new User (Text ''a'')], sess_compaction_summary := Some ''sum''\<rparr>)
     demo_input =
   Inr [Message_new System (Text ''be kind''),
     Message_new User (Text (RUNTIME_NOTE_PREFIX @ ''Earlier conversation summary:'' @ newline @ newline @ ''sum'')),
     Message_new User (Text ''a''), Message_new User (Text ''hello'')]"
  using build_messages_order [of demo_input
      "Session_default\<lparr>sess_messages := [Message_new User (Text ''a'')], sess_compaction_summary := Some ''sum''\<rparr>" "''be kind''"]
  by (simp add: demo_input_def history_of_def summary_note_def Message_new_def is_tool_continuation_def)

end
