(* ===== verification/Text_Format.thy ===== *)
theory Text_Format
  imports Harnx_Prelude
begin

text \<open>
  The text operations of the Rust standard library that request parsing, pagination, recovery notes
  and lease identities rely on: splitting, parsing of unsigned integers, ASCII case, and lossy
  UTF-8 decoding.
\<close>

section \<open>Splitting\<close>

text \<open>\<open>str::split\<close> on one character: \<open>n\<close> separators give \<open>n + 1\<close> parts.\<close>

fun split_on :: "'a \<Rightarrow> 'a list \<Rightarrow> 'a list list" where
  "split_on c [] = [[]]"
| "split_on c (x # xs) =
     (if x = c then [] # split_on c xs
      else (case split_on c xs of [] \<Rightarrow> [[x]] | p # ps \<Rightarrow> (x # p) # ps))"

definition rsplit_once :: "'a list \<Rightarrow> 'a list \<Rightarrow> ('a list \<times> 'a list) option" where
  "rsplit_once s n = map_option (\<lambda>i. (take i s, drop (i + length n) s)) (str_rfind s n)"

definition trim_end_matches :: "'a \<Rightarrow> 'a list \<Rightarrow> 'a list" where
  "trim_end_matches c s = rev (dropWhile (\<lambda>x. x = c) (rev s))"

definition trim_matches :: "'a \<Rightarrow> 'a list \<Rightarrow> 'a list" where
  "trim_matches c s = trim_end_matches c (dropWhile (\<lambda>x. x = c) s)"

definition is_ascii_whitespace :: "char \<Rightarrow> bool" where
  "is_ascii_whitespace c \<longleftrightarrow> (of_char c :: nat) \<in> {9, 10, 12, 13, 32}"

text \<open>\<open>str::split_ascii_whitespace\<close>: the maximal runs of other characters.\<close>

function split_ascii_whitespace :: "string \<Rightarrow> string list" where
  "split_ascii_whitespace [] = []"
| "split_ascii_whitespace (c # s) =
     (if is_ascii_whitespace c then split_ascii_whitespace s
      else (c # takeWhile (\<lambda>x. \<not> is_ascii_whitespace x) s) #
             split_ascii_whitespace (dropWhile (\<lambda>x. \<not> is_ascii_whitespace x) s))"
  by pat_completeness auto
termination
  by (relation "measure length") (auto simp: length_dropWhile_le less_Suc_eq_le)

lemma split_on_nonempty [simp]: "split_on c s \<noteq> []"
  by (induction s) (auto split: list.splits)

lemma str_join_Cons_head: "str_join sep ((x # p) # ps) = x # str_join sep (p # ps)"
  by (cases ps) simp_all

lemma join_split_on [simp]: "str_join [c] (split_on c s) = s"
proof (induction s)
  case (Cons x xs)
  obtain p ps where "split_on c xs = p # ps" by (cases "split_on c xs") auto
  with Cons show ?case by (auto simp: str_join_Cons_head)
qed simp

lemma split_on_clean: "c \<notin> set s \<Longrightarrow> split_on c s = [s]"
  by (induction s) auto

lemma split_on_parts: "p \<in> set (split_on c s) \<Longrightarrow> c \<notin> set p"
  by (induction s arbitrary: p) (auto split: list.splits if_splits)

lemma split_on_append: "c \<notin> set s \<Longrightarrow> split_on c (s @ c # t) = s # split_on c t"
  by (induction s) auto

lemma split_once_clean:
  assumes "n \<noteq> []" "hd n \<notin> set s"
  shows "split_once (s @ n @ t) n = Some (s, t)"
proof -
  have "str_find (s @ n @ t) n = Some (length s)"
    using assms(2)
  proof (induction s)
    case Nil
    then show ?case using assms(1) by (cases n) auto
  next
    case (Cons x s)
    then have "\<not> prefix n (x # s @ n @ t)" using assms(1) by (cases n) auto
    with Cons show ?case by simp
  qed
  then show ?thesis by (simp add: split_once_def)
qed

text \<open>A separator with a character that occurs nowhere else after its start is found last.\<close>

lemma rsplit_once_marked:
  assumes "c \<notin> set a" "c \<notin> set b" "c \<notin> set t"
  shows "rsplit_once (s @ (a @ c # b) @ t) (a @ c # b) = Some (s, t)"
proof -
  let ?n = "a @ c # b"
  have "\<not> prefix ?n (drop j (?n @ t))" if j: "0 < j" "j \<le> length (?n @ t)" for j
  proof
    assume "prefix ?n (drop j (?n @ t))"
    then obtain r where r: "drop j (?n @ t) = ?n @ r" by (auto simp: prefix_def)
    have "take j (?n @ t) @ drop j (?n @ t) = ?n @ t" by (rule append_take_drop_id)
    then have "a @ c # (b @ t) = (take j (?n @ t) @ a) @ c # (b @ r)" unfolding r by simp
    then have "a = take j (?n @ t) @ a" using assms by (subst (asm) append_Cons_eq_iff) auto
    then show False using j by (cases j) auto
  qed
  then have "str_rfind (s @ ?n @ t) ?n = Some (length s)" by (intro str_rfind_append_last) auto
  then show ?thesis by (simp add: rsplit_once_def)
qed

lemma rsplit_once_SomeD: "rsplit_once s n = Some (a, b) \<Longrightarrow> s = a @ n @ b"
proof -
  assume "rsplit_once s n = Some (a, b)"
  then obtain i where i: "str_rfind s n = Some i" and ab: "a = take i s" "b = drop (i + length n) s"
    by (auto simp: rsplit_once_def)
  from str_rfind_SomeD [OF i] obtain r where "drop i s = n @ r" by (auto simp: prefix_def)
  then have "drop (length n) (drop i s) = r" by simp
  then have "b = r" by (simp add: ab add.commute)
  with \<open>drop i s = n @ r\<close> ab show ?thesis by (metis append_take_drop_id)
qed

lemma split_once_SomeD: "split_once s n = Some (a, b) \<Longrightarrow> s = a @ n @ b"
proof -
  assume "split_once s n = Some (a, b)"
  then obtain i where i: "str_find s n = Some i" and ab: "a = take i s" "b = drop (i + length n) s"
    by (auto simp: split_once_def)
  from str_find_SomeD [OF i] obtain r where "drop i s = n @ r" by (auto simp: prefix_def)
  then have "drop (length n) (drop i s) = r" by simp
  then have "b = r" by (simp add: ab add.commute)
  with \<open>drop i s = n @ r\<close> ab show ?thesis by (metis append_take_drop_id)
qed

lemma strip_suffix_append [simp]: "strip_suffix_str (s @ t) t = Some s"
  by (simp add: strip_suffix_str_def ends_with_def suffix_def)

lemma strip_suffix_SomeD: "strip_suffix_str s t = Some r \<Longrightarrow> s = r @ t"
  by (auto simp: strip_suffix_str_def ends_with_def suffix_def split: if_splits)

lemma strip_prefix_SomeD: "strip_prefix_str s t = Some r \<Longrightarrow> s = t @ r"
  by (auto simp: strip_prefix_str_def starts_with_def prefix_def split: if_splits)

section \<open>Unsigned integers\<close>

definition is_digit :: "char \<Rightarrow> bool" where
  "is_digit c \<longleftrightarrow> 48 \<le> (of_char c :: nat) \<and> (of_char c :: nat) < 58"

definition digits_value :: "string \<Rightarrow> nat" where
  "digits_value s = foldl (\<lambda>n c. 10 * n + (of_char c - 48)) 0 s"

text \<open>
  \<open>str::parse\<close> at an unsigned type whose largest value is \<open>bound\<close>: an optional plus sign and at
  least one digit, and no overflow.
\<close>

definition parse_uint :: "nat \<Rightarrow> string \<Rightarrow> nat option" where
  "parse_uint bound s =
     (let digits = (case s of c # rest \<Rightarrow> if c = CHR ''+'' then rest else s | [] \<Rightarrow> s)
      in if digits \<noteq> [] \<and> list_all is_digit digits \<and> digits_value digits \<le> bound
         then Some (digits_value digits) else None)"

lemma show_nat_is_digits: "list_all is_digit (show_nat n)"
  using show_nat_digits [of n] by (auto simp: list_all_iff is_digit_def)

lemma show_nat_avoids: "\<not> is_digit c \<Longrightarrow> c \<notin> set (show_nat n)"
  using show_nat_is_digits [of n] by (auto simp: list_all_iff)

lemma show_nat_nonempty [simp]: "show_nat n \<noteq> []"
  by (subst show_nat.simps) simp

lemma show_nat_no_plus: "hd (show_nat n) \<noteq> CHR ''+''"
  using show_nat_is_digits [of n] show_nat_nonempty [of n]
  by (cases "show_nat n") (auto simp: is_digit_def)

lemma digits_value_show_nat [simp]: "digits_value (show_nat n) = n"
proof (induction n rule: show_nat.induct)
  case (1 n)
  show ?case
  proof (cases "n < 10")
    case True
    then show ?thesis by (subst show_nat.simps) (simp add: digits_value_def of_char_of)
  next
    case False
    with 1 have "digits_value (show_nat (n div 10)) = n div 10" by simp
    with False show ?thesis
      by (subst show_nat.simps) (simp add: digits_value_def of_char_of mult.commute)
  qed
qed

lemma parse_show_nat: "n \<le> bound \<Longrightarrow> parse_uint bound (show_nat n) = Some n"
  using show_nat_is_digits [of n] show_nat_no_plus [of n]
  by (cases "show_nat n") (auto simp: parse_uint_def Let_def dest: arg_cong [where f = digits_value]
      intro: digits_value_show_nat)

lemma parse_uint_bound: "parse_uint bound s = Some n \<Longrightarrow> n \<le> bound"
  by (auto simp: parse_uint_def Let_def split: if_splits)

section \<open>ASCII case\<close>

definition to_ascii_lowercase :: "char \<Rightarrow> char" where
  "to_ascii_lowercase c =
     (if 65 \<le> (of_char c :: nat) \<and> (of_char c :: nat) \<le> 90 then char_of (of_char c + 32 :: nat) else c)"

definition eq_ignore_ascii_case :: "string \<Rightarrow> string \<Rightarrow> bool" where
  "eq_ignore_ascii_case s t \<longleftrightarrow> map to_ascii_lowercase s = map to_ascii_lowercase t"

section \<open>Decoding UTF-8\<close>

text \<open>
  The standard library's decoder: the first byte fixes the width of the scalar value and the range
  of the second byte, later bytes are continuations. A chunk that breaks off is invalid as far
  as it matched.
\<close>

definition utf8_width :: "char \<Rightarrow> nat" where
  "utf8_width c =
     (let b = (of_char c :: nat)
      in if b < 0x80 then 1
         else if 0xC2 \<le> b \<and> b \<le> 0xDF then 2
         else if 0xE0 \<le> b \<and> b \<le> 0xEF then 3
         else if 0xF0 \<le> b \<and> b \<le> 0xF4 then 4
         else 0)"

definition utf8_second :: "char \<Rightarrow> char \<Rightarrow> bool" where
  "utf8_second c d =
     (let b = (of_char c :: nat); e = (of_char d :: nat)
      in (if b = 0xE0 then 0xA0 else if b = 0xF0 then 0x90 else 0x80) \<le> e \<and>
         e \<le> (if b = 0xED then 0x9F else if b = 0xF4 then 0x8F else 0xBF))"

fun continuation_len :: "nat \<Rightarrow> string \<Rightarrow> nat" where
  "continuation_len (Suc k) (c # s) = (if utf8_continuation c then Suc (continuation_len k s) else 0)"
| "continuation_len _ _ = 0"

definition utf8_tail_len :: "char \<Rightarrow> string \<Rightarrow> nat" where
  "utf8_tail_len c s =
     (case s of
        [] \<Rightarrow> 0
      | d # ds \<Rightarrow>
          if 2 \<le> utf8_width c \<and> utf8_second c d then Suc (continuation_len (utf8_width c - 2) ds) else 0)"

definition utf8_complete :: "char \<Rightarrow> string \<Rightarrow> bool" where
  "utf8_complete c s \<longleftrightarrow> utf8_width c \<noteq> 0 \<and> Suc (utf8_tail_len c s) = utf8_width c"

definition REPLACEMENT_CHARACTER :: string where
  "REPLACEMENT_CHARACTER = [CHR 0xEF, CHR 0xBF, CHR 0xBD]"

function from_utf8_lossy :: "string \<Rightarrow> string" where
  "from_utf8_lossy [] = []"
| "from_utf8_lossy (c # s) =
     (if utf8_complete c s then c # take (utf8_tail_len c s) s else REPLACEMENT_CHARACTER) @
     from_utf8_lossy (drop (utf8_tail_len c s) s)"
  by pat_completeness auto
termination
  by (relation "measure length") auto

function utf8_valid :: "string \<Rightarrow> bool" where
  "utf8_valid [] = True"
| "utf8_valid (c # s) = (utf8_complete c s \<and> utf8_valid (drop (utf8_tail_len c s) s))"
  by pat_completeness auto
termination
  by (relation "measure length") auto

definition from_utf8 :: "string \<Rightarrow> string option" where
  "from_utf8 s = (if utf8_valid s then Some s else None)"

lemma from_utf8_lossy_valid [simp]: "utf8_valid s \<Longrightarrow> from_utf8_lossy s = s"
  by (induction s rule: utf8_valid.induct) auto

definition is_ascii :: "string \<Rightarrow> bool" where
  "is_ascii s \<longleftrightarrow> (\<forall>c \<in> set s. (of_char c :: nat) < 0x80)"

lemma utf8_ascii_char:
  assumes "(of_char c :: nat) < 0x80"
  shows "utf8_tail_len c s = 0" "utf8_complete c s"
proof -
  have "utf8_width c = 1" using assms by (simp add: utf8_width_def Let_def)
  then show "utf8_tail_len c s = 0" "utf8_complete c s"
    by (simp_all add: utf8_tail_len_def utf8_complete_def split: list.splits)
qed

lemma ascii_utf8_valid: "is_ascii s \<Longrightarrow> utf8_valid s"
  by (induction s) (simp_all add: is_ascii_def utf8_ascii_char)

section \<open>Trimming and pairs\<close>

definition trim_ascii :: "string \<Rightarrow> string" where
  "trim_ascii s = rev (dropWhile is_ascii_whitespace (rev (dropWhile is_ascii_whitespace s)))"

text \<open>\<open>splitn(2, c)\<close>: the part before the first separator, and the rest when there is one.\<close>

definition splitn2 :: "'a \<Rightarrow> 'a list \<Rightarrow> 'a list \<times> 'a list option" where
  "splitn2 c s =
     (case split_once s [c] of Some (a, b) \<Rightarrow> (a, Some b) | None \<Rightarrow> (s, None))"

definition str_contains :: "'a list \<Rightarrow> 'a list \<Rightarrow> bool" where
  "str_contains s n \<longleftrightarrow> str_find s n \<noteq> None"

text \<open>
  A separator whose last character occurs in it only once cannot overlap itself, so the first match
  after text that does not contain it is the one appended.
\<close>

lemma split_once_after:
  assumes "c \<notin> set a" "\<not> str_contains s (a @ [c])"
  shows "split_once (s @ (a @ [c]) @ t) (a @ [c]) = Some (s, t)"
proof -
  let ?n = "a @ [c]"
  have "str_find (s @ ?n @ t) ?n = Some (length s)"
    using assms(2)
  proof (induction s)
    case Nil
    show ?case by (cases a) auto
  next
    case (Cons x s)
    have "\<not> prefix ?n ((x # s) @ ?n @ t)"
    proof
      assume "prefix ?n ((x # s) @ ?n @ t)"
      then obtain r where "(x # s) @ (?n @ t) = ?n @ r" unfolding prefix_def by blast
      then consider us where "x # s = ?n @ us" | us where "(x # s) @ us = ?n" "?n @ t = us @ r"
        unfolding append_eq_append_conv2 by blast
      then show False
      proof cases
        case 1
        then have "prefix ?n (x # s)" by (simp add: prefix_def)
        then have "str_find (x # s) ?n = Some 0" by simp
        with Cons.prems show ?thesis by (simp add: str_contains_def)
      next
        case 2
        show ?thesis
        proof (cases us rule: rev_cases)
          case Nil
          with 2(1) have "prefix ?n (x # s)" by (simp add: prefix_def)
          then have "str_find (x # s) ?n = Some 0" by simp
          with Cons.prems show ?thesis by (simp add: str_contains_def)
        next
          case (snoc vs d)
          with 2(1) have "d = c" "x # s @ vs = a" by (metis append_Cons append_assoc last_snoc butlast_snoc)+
          moreover from 2(2) snoc have "a @ c # t = vs @ d # r" by simp
          moreover have "length vs < length a" using \<open>x # s @ vs = a\<close> by auto
          ultimately have "a ! length vs = c" by (metis nth_append nth_append_length)
          with assms(1) \<open>length vs < length a\<close> show ?thesis by (metis nth_mem)
        qed
      qed
    qed
    moreover have "\<not> str_contains s ?n"
      using Cons.prems by (auto simp: str_contains_def split: if_splits)
    ultimately show ?case using Cons.IH by simp
  qed
  then show ?thesis by (simp add: split_once_def)
qed

lemma str_find_append: "str_find s n = Some j \<Longrightarrow> str_find (s @ t) n = Some j"
proof (induction s arbitrary: j)
  case Nil
  then show ?case by (cases t) (auto split: if_splits)
next
  case (Cons x s)
  show ?case
  proof (cases "prefix n (x # s)")
    case True
    then have "prefix n ((x # s) @ t)" by (rule prefix_prefix)
    with True Cons.prems show ?thesis by simp
  next
    case False
    with Cons.prems obtain k where k: "str_find s n = Some k" "j = Suc k" by auto
    then have "length n \<le> length s" using str_find_SomeD [OF k(1)] prefix_length_le by fastforce
    then have "\<not> prefix n ((x # s) @ t)"
      using False prefix_length_prefix [of n "(x # s) @ t" "x # s"] by auto
    with Cons.IH [OF k(1)] k(2) show ?thesis by simp
  qed
qed

lemma split_once_contains:
  assumes "str_contains s n"
  shows "\<exists>a b. split_once s n = Some (a, b) \<and> split_once (s @ t) n = Some (a, b @ t)"
proof -
  obtain j where j: "str_find s n = Some j" using assms by (auto simp: str_contains_def)
  then have "j + length n \<le> length s" using str_find_SomeD [OF j] prefix_length_le by fastforce
  with j str_find_append [OF j, of t] show ?thesis by (simp add: split_once_def)
qed

lemma parse_uint_digits: "parse_uint bound s = Some n \<Longrightarrow> \<forall>c \<in> set s. is_digit c \<or> c = CHR ''+''"
  by (cases s) (auto simp: parse_uint_def Let_def list_all_iff split: if_splits)

end
