(* ===== verification/Transcript_View.thy ===== *)
theory Transcript_View
  imports Text_Format Log_Mutations
begin

text \<open>
  Browsing a compacted session: the recovery note at the end of a compaction summary
  (\<open>harnx-core/src/compaction_summary.rs\<close>), and the compaction-aware transcript windows of
  \<open>harnx-core/src/transcript_view.rs\<close> with \<open>transcript_view/kept_count.rs\<close>. Strings are their
  UTF-8 bytes, so the en dash of a coverage range is three bytes.
\<close>

section \<open>The recovery note\<close>

definition NOTE_START :: string where
  "NOTE_START = newline @ newline @ ''[Earlier conversation: ''"

definition COUNT_END :: string where
  "COUNT_END = '' message(s)''"

definition RANGE_START :: string where
  "RANGE_START = '' (log entries ''"

definition RANGE_SEPARATOR :: string where
  "RANGE_SEPARATOR = [CHR 0xE2, CHR 0x80, CHR 0x93]"

definition RANGE_END :: string where
  "RANGE_END = '')''"

definition NOTE_END :: string where
  "NOTE_END =
     '' were summarized above. The full pre-compaction transcript '' @
     ''remains in this session'' @
     [CHR 0x27] @
     ''s log; use the '' @
     [CHR 0x60] @
     ''harnx_agent_session_history_read'' @
     [CHR 0x60] @
     '' tool to search it by entry index, type, tool name, or text.]''"

definition append_recovery_note :: "string \<Rightarrow> nat option \<times> nat option \<times> nat \<Rightarrow> string" where
  "append_recovery_note summary covered =
     (case covered of (from, to, count) \<Rightarrow>
       let rng = (case (from, to) of
                      (Some a, Some b) \<Rightarrow>
                        RANGE_START @ show_nat a @ RANGE_SEPARATOR @ show_nat b @ RANGE_END
                    | _ \<Rightarrow> [])
       in summary @ NOTE_START @ show_nat count @ COUNT_END @ rng @ NOTE_END)"

definition canonical_decimal :: "string \<Rightarrow> bool" where
  "canonical_decimal v =
     (case parse_uint u64_max v of Some number \<Rightarrow> show_nat number = v | None \<Rightarrow> False)"

definition valid_range :: "string \<Rightarrow> bool" where
  "valid_range rng =
     (case Option.bind (Option.bind (strip_prefix_str rng RANGE_START)
                          (\<lambda>v. strip_suffix_str v RANGE_END))
             (\<lambda>v. split_once v RANGE_SEPARATOR) of
        Some (from, to) \<Rightarrow> canonical_decimal from \<and> canonical_decimal to
      | None \<Rightarrow> False)"

definition valid_coverage :: "string \<Rightarrow> bool" where
  "valid_coverage coverage =
     (case split_once coverage COUNT_END of
        None \<Rightarrow> False
      | Some (count, rng) \<Rightarrow> canonical_decimal count \<and> (rng = [] \<or> valid_range rng))"

definition display_summary :: "string \<Rightarrow> string" where
  "display_summary prompt =
     (case Option.bind (strip_suffix_str prompt NOTE_END) (\<lambda>head. rsplit_once head NOTE_START) of
        Some (summary, coverage) \<Rightarrow> if valid_coverage coverage then summary else prompt
      | None \<Rightarrow> prompt)"

lemma canonical_decimal_iff: "canonical_decimal v \<longleftrightarrow> (\<exists>n \<le> u64_max. v = show_nat n)"
  by (auto simp: canonical_decimal_def parse_show_nat dest: parse_uint_bound split: option.splits)

definition coverage_text :: "nat option \<times> nat option \<times> nat \<Rightarrow> string" where
  "coverage_text covered =
     (case covered of (from, to, count) \<Rightarrow> show_nat count @ COUNT_END @
        (case (from, to) of
           (Some a, Some b) \<Rightarrow> RANGE_START @ show_nat a @ RANGE_SEPARATOR @ show_nat b @ RANGE_END
         | _ \<Rightarrow> []))"

definition coverage_fits :: "nat option \<times> nat option \<times> nat \<Rightarrow> bool" where
  "coverage_fits covered \<longleftrightarrow>
     (case covered of (from, to, count) \<Rightarrow>
        count \<le> u64_max \<and> pred_option (\<lambda>a. a \<le> u64_max) from \<and> pred_option (\<lambda>b. b \<le> u64_max) to)"

lemma append_recovery_note_coverage:
  "append_recovery_note summary covered = (summary @ NOTE_START @ coverage_text covered) @ NOTE_END"
  by (cases covered) (simp add: append_recovery_note_def coverage_text_def Let_def)

lemma valid_range_iff:
  "valid_range r \<longleftrightarrow>
     (\<exists>a \<le> u64_max. \<exists>b \<le> u64_max.
        r = RANGE_START @ show_nat a @ RANGE_SEPARATOR @ show_nat b @ RANGE_END)"
  (is "_ \<longleftrightarrow> ?rhs")
proof
  assume "valid_range r"
  then obtain u v a b where "strip_prefix_str r RANGE_START = Some u"
      "strip_suffix_str u RANGE_END = Some v" "split_once v RANGE_SEPARATOR = Some (a, b)"
      "canonical_decimal a" "canonical_decimal b"
    by (auto simp: valid_range_def bind_eq_Some_conv split: option.splits prod.splits)
  then have "r = RANGE_START @ a @ RANGE_SEPARATOR @ b @ RANGE_END"
    by (auto dest!: strip_prefix_SomeD strip_suffix_SomeD split_once_SomeD)
  with \<open>canonical_decimal a\<close> \<open>canonical_decimal b\<close> show ?rhs unfolding canonical_decimal_iff by blast
next
  assume ?rhs
  then obtain a b where ab: "a \<le> u64_max" "b \<le> u64_max"
    and r: "r = RANGE_START @ (show_nat a @ RANGE_SEPARATOR @ show_nat b) @ RANGE_END" by auto
  have "split_once (show_nat a @ RANGE_SEPARATOR @ show_nat b) RANGE_SEPARATOR =
      Some (show_nat a, show_nat b)"
    by (rule split_once_clean) (auto simp: RANGE_SEPARATOR_def is_digit_def intro!: show_nat_avoids)
  with ab show "valid_range r"
    unfolding r valid_range_def strip_prefix_append bind.bind_lunit strip_suffix_append
    by (auto simp: canonical_decimal_iff)
qed

lemma valid_coverage_iff:
  "valid_coverage c \<longleftrightarrow> (\<exists>covered. coverage_fits covered \<and> c = coverage_text covered)"
  (is "_ \<longleftrightarrow> ?rhs")
proof
  assume "valid_coverage c"
  then obtain n r where "c = show_nat n @ COUNT_END @ r" "n \<le> u64_max" "r = [] \<or> valid_range r"
    by (auto simp: valid_coverage_def canonical_decimal_iff split: option.splits prod.splits
        dest!: split_once_SomeD)
  then consider "coverage_fits (None, None, n)" "c = coverage_text (None, None, n)"
    | a b where "coverage_fits (Some a, Some b, n)" "c = coverage_text (Some a, Some b, n)"
    by (auto simp: valid_range_iff coverage_fits_def coverage_text_def)
  then show ?rhs by cases blast+
next
  assume ?rhs
  then obtain f t n where fits: "coverage_fits (f, t, n)" and c: "c = coverage_text (f, t, n)" by auto
  have split: "split_once (show_nat n @ COUNT_END @ r) COUNT_END = Some (show_nat n, r)" for r
    by (rule split_once_clean) (auto simp: COUNT_END_def is_digit_def intro!: show_nat_avoids)
  show "valid_coverage c"
    using fits unfolding c coverage_text_def valid_coverage_def
    by (cases f; cases t) (auto simp: split split [of "[]", simplified] coverage_fits_def canonical_decimal_iff valid_range_iff)
qed

lemma display_append_recovery_note:
  assumes "coverage_fits covered"
  shows "display_summary (append_recovery_note summary covered) = summary"
proof -
  have digits: "CHR ''['' \<notin> set (show_nat n)" for n
    by (rule show_nat_avoids) (simp add: is_digit_def)
  have "CHR ''['' \<notin> set (coverage_text covered)"
    using digits by (cases covered)
      (auto simp: coverage_text_def COUNT_END_def RANGE_START_def RANGE_SEPARATOR_def RANGE_END_def
        split: option.splits)
  then have "rsplit_once (summary @ (newline @ newline @ CHR ''['' # ''Earlier conversation: '')
        @ coverage_text covered) (newline @ newline @ CHR ''['' # ''Earlier conversation: '')
      = Some (summary, coverage_text covered)"
    using rsplit_once_marked [of "CHR ''[''" "newline @ newline" "''Earlier conversation: ''"
        "coverage_text covered" summary] by simp
  then have "rsplit_once (summary @ NOTE_START @ coverage_text covered) NOTE_START =
      Some (summary, coverage_text covered)"
    by (simp add: NOTE_START_def)
  moreover have "valid_coverage (coverage_text covered)" using assms unfolding valid_coverage_iff by blast
  ultimately show ?thesis
    unfolding display_summary_def append_recovery_note_coverage strip_suffix_append by simp
qed

lemma display_summary_cases:
  "display_summary prompt = prompt \<or>
     (\<exists>covered. coverage_fits covered \<and>
        prompt = append_recovery_note (display_summary prompt) covered)"
proof (cases "Option.bind (strip_suffix_str prompt NOTE_END) (\<lambda>head. rsplit_once head NOTE_START)")
  case (Some p)
  obtain s c where p: "p = (s, c)" by (cases p)
  show ?thesis
  proof (cases "valid_coverage c")
    case True
    then obtain covered where "coverage_fits covered" "c = coverage_text covered"
      by (auto simp: valid_coverage_iff)
    moreover have "prompt = (s @ NOTE_START @ c) @ NOTE_END"
      using Some p by (auto simp: bind_eq_Some_conv dest!: strip_suffix_SomeD rsplit_once_SomeD)
    moreover have "display_summary prompt = s" using Some p True by (simp add: display_summary_def)
    ultimately have "coverage_fits covered \<and> prompt = append_recovery_note (display_summary prompt) covered"
      by (simp add: append_recovery_note_coverage)
    then show ?thesis by blast
  qed (use Some p in \<open>simp add: display_summary_def\<close>)
qed (simp add: display_summary_def)

section \<open>Binary search\<close>

text \<open>
  \<open>slice::binary_search_by_key\<close>: the standard library halves the candidate range while keeping
  the last position whose key is not greater; an absent key is \<open>Err\<close>, here \<open>None\<close>.
\<close>

function binary_search_loop :: "('a \<Rightarrow> nat) \<Rightarrow> 'a list \<Rightarrow> nat \<Rightarrow> nat \<Rightarrow> nat \<Rightarrow> nat" where
  "binary_search_loop key xs k base n =
     (if n \<le> 1 then base
      else let half = n div 2; mid = base + half
           in binary_search_loop key xs k (if k < key (xs ! mid) then base else mid) (n - half))"
  by pat_completeness auto
termination
  by (relation "measure (\<lambda>(key, xs, k, base, n). n)") auto

declare binary_search_loop.simps [simp del]

definition binary_search_by_key :: "'a list \<Rightarrow> nat \<Rightarrow> ('a \<Rightarrow> nat) \<Rightarrow> nat option" where
  "binary_search_by_key xs k key =
     (if xs = [] then None
      else let base = binary_search_loop key xs k 0 (length xs)
           in if key (xs ! base) = k then Some base else None)"

lemma increasing_keys:
  assumes "sorted_wrt (<) (map key xs)" "i < length xs" "j < length xs"
  shows "key (xs ! i) < (key (xs ! j) :: nat) \<longleftrightarrow> i < j"
  using assms sorted_wrt_nth_less [of "(<)" "map key xs" i j]
    sorted_wrt_nth_less [of "(<)" "map key xs" j i]
  by (cases i j rule: linorder_cases) auto

lemma binary_search_loop_finds:
  assumes "sorted_wrt (<) (map key xs)" "base \<le> i" "i < base + n" "base + n \<le> length xs"
    "key (xs ! i) = k"
  shows "binary_search_loop key xs k base n = i"
  using assms
proof (induction key xs k base n rule: binary_search_loop.induct)
  case (1 key xs k base n)
  show ?case
  proof (cases "n \<le> 1")
    case True
    with 1 show ?thesis by (subst binary_search_loop.simps) simp
  next
    case False
    let ?mid = "base + n div 2" and ?base = "if k < key (xs ! (base + n div 2)) then base else base + n div 2"
    have mid: "?mid < length xs" "i < length xs" using False "1.prems"(3,4) by linarith+
    have "k < key (xs ! ?mid) \<longleftrightarrow> i < ?mid"
      using increasing_keys [OF "1.prems"(1) mid(2) mid(1)] "1.prems"(5) by simp
    then have base: "?base \<le> i" "i < ?base + (n - n div 2)" "?base + (n - n div 2) \<le> length xs"
      using False "1.prems"(2-4) by auto
    have "binary_search_loop key xs k ?base (n - n div 2) = i"
      by (rule "1.IH" [OF False refl refl "1.prems"(1) base "1.prems"(5)])
    with False show ?thesis by (subst binary_search_loop.simps) (simp add: Let_def)
  qed
qed

lemma binary_search_loop_bound:
  "0 < n \<Longrightarrow> base \<le> binary_search_loop key xs k base n \<and> binary_search_loop key xs k base n < base + n"
proof (induction key xs k base n rule: binary_search_loop.induct)
  case (1 key xs k base n)
  show ?case
  proof (cases "n \<le> 1")
    case True
    with 1 show ?thesis by (subst (1 2) binary_search_loop.simps) simp
  next
    case False
    with "1.IH" [OF False refl refl] show ?thesis
      by (subst (1 2) binary_search_loop.simps) (auto simp: Let_def split: if_splits)
  qed
qed

lemma binary_search_by_key_Some:
  "binary_search_by_key xs k key = Some i \<Longrightarrow> i < length xs \<and> key (xs ! i) = k"
  using binary_search_loop_bound [of "length xs" 0 key xs k]
  by (auto simp: binary_search_by_key_def Let_def split: if_splits)

lemma binary_search_by_key_finds:
  assumes "sorted_wrt (<) (map key xs)" "i < length xs"
  shows "binary_search_by_key xs (key (xs ! i)) key = Some i"
  using assms binary_search_loop_finds [of key xs 0 i "length xs" "key (xs ! i)"]
  by (auto simp: binary_search_by_key_def Let_def)

lemma binary_search_by_key_None:
  assumes "sorted_wrt (<) (map key xs)"
  shows "binary_search_by_key xs k key = None \<longleftrightarrow> k \<notin> key ` set xs"
proof
  assume "binary_search_by_key xs k key = None"
  then show "k \<notin> key ` set xs"
    using binary_search_by_key_finds [OF assms] by (auto simp: in_set_conv_nth)
next
  assume "k \<notin> key ` set xs"
  then show "binary_search_by_key xs k key = None"
    using binary_search_by_key_Some [of xs k key] by (cases "binary_search_by_key xs k key") auto
qed

section \<open>Transcript windows\<close>

record CompactionMarker =
  compaction_seq :: seq
  marker_summary :: string
  from_seq :: seq
  to_seq :: seq
  kept_count :: "nat option"
  earlier_compaction :: "seq option"

definition archive_range :: "CompactionMarker \<Rightarrow> (seq \<times> seq) option" where
  "archive_range m = (if from_seq m \<le> to_seq m then Some (from_seq m, to_seq m) else None)"

record TranscriptView =
  compaction :: "CompactionMarker option"
  view_entries :: log

datatype ViewError =
    SequencesNotIncreasing
  | UnknownCompaction seq
  | NotACompaction seq
  | RangeReversed
  | ResolveError SeqError

definition validate_log :: "log \<Rightarrow> ViewError + unit" where
  "validate_log entries =
     (if \<not> (case entries of (seq, _) # _ \<Rightarrow> seq = 0 | [] \<Rightarrow> False) \<and>
         list_all (\<lambda>(a, b). fst a < fst b) (zip entries (tl entries))
      then Inr () else Inl SequencesNotIncreasing)"

definition compaction_index :: "log \<Rightarrow> seq \<Rightarrow> ViewError + nat" where
  "compaction_index entries seq =
     (case binary_search_by_key entries seq fst of
        None \<Rightarrow> Inl (UnknownCompaction seq)
      | Some index \<Rightarrow>
          if is_context_boundary (snd (entries ! index)) then Inr index
          else Inl (NotACompaction seq))"

definition raw_compaction_seq :: "log \<Rightarrow> seq \<Rightarrow> seq option" where
  "raw_compaction_seq raw seq =
     (case binary_search_by_key raw seq fst of
        None \<Rightarrow> None
      | Some index \<Rightarrow> if is_context_boundary (snd (raw ! index)) then Some seq else None)"

definition archive_bounds :: "log \<Rightarrow> log \<Rightarrow> seq \<Rightarrow> seq \<times> seq option" where
  "archive_bounds raw archived cseq =
     (let window = active_context_window archived
      in case window_boundary_index window of
           None \<Rightarrow> (fst (raw ! 0), None)
         | Some index \<Rightarrow>
             (case raw_compaction_seq raw (fst (archived ! index)) of
                Some seq \<Rightarrow> (seq + 1, Some seq)
              | None \<Rightarrow>
                  (case map fst (window_entries window) of
                     [] \<Rightarrow> (cseq, None)
                   | s # seqs \<Rightarrow> (fold min seqs s, None))))"

definition proven_count :: "seq \<Rightarrow> log \<Rightarrow> nat option" where
  "proven_count cseq after =
     (case after of
        [] \<Rightarrow> None
      | (seq, entry) # _ \<Rightarrow>
          if (if cseq < u64_max then Some (cseq + 1) else None) \<noteq> Some seq then None
          else (case entry of
                  CompactResult _ Compacted _ \<Rightarrow> Some 0
                | TurnEnd _ _ _ _ \<Rightarrow> Some 0
                | _ \<Rightarrow> None))"

definition resolve :: "nat \<Rightarrow> yaml_parser \<Rightarrow> log \<Rightarrow> ViewError + log" where
  "resolve usize_max yaml raw =
     (case apply_log_mutations_nats usize_max yaml raw of
        Inl err \<Rightarrow> Inl (ResolveError err) | Inr effective \<Rightarrow> Inr effective)"

definition build_marker :: "nat \<Rightarrow> yaml_parser \<Rightarrow> log \<Rightarrow> seq \<Rightarrow> ViewError + CompactionMarker" where
  "build_marker usize_max yaml raw cseq =
     (case compaction_index raw cseq of
        Inl err \<Rightarrow> Inl err
      | Inr index \<Rightarrow>
          (case resolve usize_max yaml (take index raw) of
             Inl err \<Rightarrow> Inl err
           | Inr archived \<Rightarrow>
               (case archive_bounds raw archived cseq of (from, earlier) \<Rightarrow>
                 Inr \<lparr>compaction_seq = cseq,
                      marker_summary = (case snd (raw ! index) of
                                          Compress prompt \<Rightarrow> display_summary prompt | _ \<Rightarrow> []),
                      from_seq = from, to_seq = cseq - 1,
                      kept_count = proven_count cseq (drop (index + 1) raw),
                      earlier_compaction = earlier\<rparr>)))"

definition build_view :: "nat \<Rightarrow> yaml_parser \<Rightarrow> log \<Rightarrow> ViewError + TranscriptView" where
  "build_view usize_max yaml raw =
     (case resolve usize_max yaml raw of
        Inl err \<Rightarrow> Inl err
      | Inr effective \<Rightarrow>
          let boundary = window_boundary_index (active_context_window effective);
              start = (case boundary of None \<Rightarrow> 0 | Some index \<Rightarrow> index + 1)
          in case Option.bind boundary (\<lambda>index. raw_compaction_seq raw (fst (effective ! index))) of
               None \<Rightarrow> Inr \<lparr>compaction = None, view_entries = drop start effective\<rparr>
             | Some seq \<Rightarrow>
                 (case build_marker usize_max yaml raw seq of
                    Inl err \<Rightarrow> Inl err
                  | Inr marker \<Rightarrow>
                      Inr \<lparr>compaction = Some marker, view_entries = drop start effective\<rparr>))"

definition range_contains :: "seq \<times> seq \<Rightarrow> seq \<Rightarrow> bool" where
  "range_contains r s \<longleftrightarrow> fst r \<le> s \<and> s \<le> snd r"

definition page_view :: "TranscriptView \<Rightarrow> (seq \<times> seq) option \<Rightarrow> ViewError + TranscriptView" where
  "page_view view seq_range =
     (case seq_range of
        None \<Rightarrow> Inr view
      | Some r \<Rightarrow>
          if snd r < fst r then Inl RangeReversed
          else Inr \<lparr>compaction = (case compaction view of
                                   Some m \<Rightarrow> if range_contains r (compaction_seq m) then Some m else None
                                 | None \<Rightarrow> None),
                    view_entries = filter (\<lambda>e. range_contains r (fst e)) (view_entries view)\<rparr>)"

definition default_view :: "nat \<Rightarrow> yaml_parser \<Rightarrow> log \<Rightarrow> ViewError + TranscriptView" where
  "default_view usize_max yaml entries =
     (case validate_log entries of
        Inl err \<Rightarrow> Inl err
      | Inr _ \<Rightarrow> build_view usize_max yaml entries)"

definition before_compaction ::
    "nat \<Rightarrow> yaml_parser \<Rightarrow> log \<Rightarrow> seq \<Rightarrow> (seq \<times> seq) option \<Rightarrow> ViewError + TranscriptView" where
  "before_compaction usize_max yaml entries cseq seq_range =
     (case validate_log entries of
        Inl err \<Rightarrow> Inl err
      | Inr _ \<Rightarrow>
          (case compaction_index entries cseq of
             Inl err \<Rightarrow> Inl err
           | Inr index \<Rightarrow>
               (case build_view usize_max yaml (take index entries) of
                  Inl err \<Rightarrow> Inl err
                | Inr view \<Rightarrow> page_view view seq_range)))"

section \<open>Laws of the view\<close>

lemma validate_log_iff:
  "validate_log raw = Inr () \<longleftrightarrow> sorted_wrt (<) (map fst raw) \<and> (\<forall>e \<in> set raw. 0 < fst e)"
proof -
  have "list_all (\<lambda>(a, b). fst a < fst b) (zip raw (tl raw)) \<longleftrightarrow> sorted_wrt (<) (map fst raw)"
  proof (induction raw)
    case (Cons x xs)
    then show ?case by (cases xs) (auto intro: less_trans)
  qed simp
  moreover have "\<forall>e \<in> set raw. 0 < fst e"
    if "sorted_wrt (<) (map fst raw)" "\<not> (case raw of (seq, _) # _ \<Rightarrow> seq = 0 | [] \<Rightarrow> False)"
    using that by (cases raw) auto
  ultimately show ?thesis
    by (auto simp: validate_log_def split: list.splits)
qed

lemma validate_log_cases: "validate_log raw = Inr () \<or> validate_log raw = Inl SequencesNotIncreasing"
  by (simp add: validate_log_def)

text \<open>The logs a view is built from: validated, with sequence numbers the platform can hold.\<close>

definition readable_log :: "nat \<Rightarrow> log \<Rightarrow> bool" where
  "readable_log usize_max raw \<longleftrightarrow>
     usize_max \<le> u64_max \<and> sorted_wrt (<) (map fst raw) \<and>
     (\<forall>e \<in> set raw. 0 < fst e \<and> fst e \<le> usize_max)"

lemma readable_log_validate: "readable_log um raw \<Longrightarrow> validate_log raw = Inr ()"
  by (auto simp: readable_log_def validate_log_iff)

lemma readable_log_append:
  "readable_log um (xs @ ys) \<Longrightarrow> readable_log um xs"
  by (auto simp: readable_log_def sorted_wrt_append)

lemma readable_log_take: "readable_log um raw \<Longrightarrow> readable_log um (take i raw)"
  using readable_log_append [of um "take i raw" "drop i raw"] by simp

lemma resolve_readable: "readable_log um raw \<Longrightarrow> resolve um yaml raw = Inr (apply_log_mutations yaml raw)"
  by (auto simp: resolve_def readable_log_def apply_log_mutations_nats_fits)

lemma compaction_index_finds:
  assumes "sorted_wrt (<) (map fst raw)" "i < length raw" "is_context_boundary (snd (raw ! i))"
  shows "compaction_index raw (fst (raw ! i)) = Inr i"
  using assms by (simp add: compaction_index_def binary_search_by_key_finds)

lemma compaction_index_InrD:
  "compaction_index raw s = Inr i \<Longrightarrow> i < length raw \<and> fst (raw ! i) = s \<and> is_context_boundary (snd (raw ! i))"
  by (auto simp: compaction_index_def dest: binary_search_by_key_Some split: option.splits if_splits)

lemma raw_compaction_seq_SomeD:
  "raw_compaction_seq raw s = Some t \<Longrightarrow>
     t = s \<and> (\<exists>j < length raw. fst (raw ! j) = s \<and> is_context_boundary (snd (raw ! j)))"
  by (auto simp: raw_compaction_seq_def dest: binary_search_by_key_Some split: option.splits if_splits)

lemma raw_compaction_seq_finds:
  assumes "sorted_wrt (<) (map fst raw)" "i < length raw"
  shows "raw_compaction_seq raw (fst (raw ! i)) =
    (if is_context_boundary (snd (raw ! i)) then Some (fst (raw ! i)) else None)"
  using assms by (simp add: raw_compaction_seq_def binary_search_by_key_finds)

lemma raw_compaction_seq_prefix:
  assumes "sorted_wrt (<) (map fst raw)" "s \<in> fst ` set (take i raw)"
  shows "raw_compaction_seq (take i raw) s = raw_compaction_seq raw s"
proof -
  obtain j where j: "j < length (take i raw)" "s = fst (take i raw ! j)"
    using assms(2) by (auto simp: in_set_conv_nth)
  have "sorted_wrt (<) (map fst (take i raw))" using assms(1) by (metis sorted_wrt_take take_map)
  from raw_compaction_seq_finds [OF this j(1)] raw_compaction_seq_finds [OF assms(1), of j] j
  show ?thesis by simp
qed

abbreviation cut_of :: "log \<Rightarrow> nat" where
  "cut_of effective \<equiv> after_last (\<lambda>e. is_context_boundary (snd e)) effective"

lemma boundary_index_of [simp]:
  "window_boundary_index (active_context_window es) = (if cut_of es = 0 then None else Some (cut_of es - 1))"
  "window_entries (active_context_window es) = drop (cut_of es) es"
  by (simp_all add: active_context_window_def Let_def)

lemma cut_of_row:
  assumes "0 < cut_of es"
  shows "es ! (cut_of es - 1) \<in> set es" "is_context_boundary (snd (es ! (cut_of es - 1)))"
  using assms last_boundary.cut_le [where P = "\<lambda>e. is_context_boundary (snd e)" and es = es]
    last_boundary.cut_edge [where P = "\<lambda>e. is_context_boundary (snd e)" and es = es]
  by auto

text \<open>The marker a resolved log links to: the raw compaction its last boundary stands for.\<close>

definition link_of :: "log \<Rightarrow> log \<Rightarrow> seq option" where
  "link_of raw effective =
     (if cut_of effective = 0 then None
      else raw_compaction_seq raw (fst (effective ! (cut_of effective - 1))))"

lemma link_of_prefix:
  assumes "sorted_wrt (<) (map fst raw)"
  shows "link_of (take i raw) (apply_log_mutations yaml (take i raw)) =
    link_of raw (apply_log_mutations yaml (take i raw))"
proof (cases "cut_of (apply_log_mutations yaml (take i raw)) = 0")
  case False
  then have "fst (apply_log_mutations yaml (take i raw) !
      (cut_of (apply_log_mutations yaml (take i raw)) - 1)) \<in> fst ` set (take i raw)"
    using cut_of_row(1) apply_log_mutations_seqs [of yaml "take i raw"] by blast
  from raw_compaction_seq_prefix [OF assms this] show ?thesis by (simp add: link_of_def)
qed (simp add: link_of_def)

lemma fold_min_le: "fold min seqs (s :: nat) \<in> set (s # seqs)"
  by (induction seqs arbitrary: s) (auto simp: min_def)

lemma archive_bounds_spec:
  assumes "readable_log um raw" "i < length raw"
    and archived: "archived = apply_log_mutations yaml (take i raw)"
  shows "snd (archive_bounds raw archived (fst (raw ! i))) = link_of raw archived"
    and "fst (archive_bounds raw archived (fst (raw ! i))) \<le> fst (raw ! i)"
    and "link_of raw archived = Some s \<Longrightarrow>
      s < fst (raw ! i) \<and> fst (archive_bounds raw archived (fst (raw ! i))) = s + 1"
proof -
  have inc: "sorted_wrt (<) (map fst raw)" using assms(1) by (simp add: readable_log_def)
  have before: "fst e < fst (raw ! i)" if "e \<in> set archived" for e
    using that apply_log_mutations_seqs [of yaml "take i raw"] increasing_split(1) [OF inc assms(2)]
    unfolding archived by fastforce
  have first: "fst (raw ! 0) \<le> fst (raw ! i)"
    using increasing_nth_le [OF inc _ assms(2), of 0] assms(2) by (cases raw) auto
  show "snd (archive_bounds raw archived (fst (raw ! i))) = link_of raw archived"
    by (auto simp: archive_bounds_def link_of_def Let_def split: option.splits list.splits
        dest: raw_compaction_seq_SomeD)
  have row: "fst (archived ! (cut_of archived - 1)) < fst (raw ! i)" if "cut_of archived \<noteq> 0"
    using before cut_of_row(1) that by auto
  have tail: "fold min seqs t \<le> fst (raw ! i)" if "map fst (drop (cut_of archived) archived) = t # seqs" for t seqs
  proof -
    have "fold min seqs t \<in> fst ` set (drop (cut_of archived) archived)"
      using fold_min_le [of seqs t] that by (metis list.set_map)
    then show ?thesis using before by (fastforce dest: in_set_dropD)
  qed
  show "fst (archive_bounds raw archived (fst (raw ! i))) \<le> fst (raw ! i)"
    using first row tail
    by (auto simp: archive_bounds_def Let_def split: option.splits list.splits
        dest!: raw_compaction_seq_SomeD)
  show "s < fst (raw ! i) \<and> fst (archive_bounds raw archived (fst (raw ! i))) = s + 1"
    if "link_of raw archived = Some s"
    using that row
    by (auto simp: archive_bounds_def link_of_def Let_def split: if_splits option.splits
        dest: raw_compaction_seq_SomeD)
qed

lemma build_marker_readable:
  assumes "readable_log um raw" "i < length raw" "is_context_boundary (snd (raw ! i))"
  shows "\<exists>m. build_marker um yaml raw (fst (raw ! i)) = Inr m \<and> compaction_seq m = fst (raw ! i) \<and>
    to_seq m = fst (raw ! i) - 1 \<and>
    from_seq m = fst (archive_bounds raw (apply_log_mutations yaml (take i raw)) (fst (raw ! i))) \<and>
    earlier_compaction m = link_of raw (apply_log_mutations yaml (take i raw))"
proof -
  have "compaction_index raw (fst (raw ! i)) = Inr i"
    using assms by (intro compaction_index_finds) (auto simp: readable_log_def)
  moreover have "resolve um yaml (take i raw) = Inr (apply_log_mutations yaml (take i raw))"
    by (intro resolve_readable readable_log_take assms)
  moreover obtain f e where "archive_bounds raw (apply_log_mutations yaml (take i raw)) (fst (raw ! i)) = (f, e)"
    by fastforce
  ultimately show ?thesis
    using archive_bounds_spec(1) [OF assms(1,2) refl, of yaml] by (simp add: build_marker_def)
qed

definition view_of :: "yaml_parser \<Rightarrow> log \<Rightarrow> TranscriptView \<Rightarrow> bool" where
  "view_of yaml raw view \<longleftrightarrow>
     (let effective = apply_log_mutations yaml raw
      in view_entries view = drop (cut_of effective) effective \<and>
         map_option compaction_seq (compaction view) = link_of raw effective)"

lemma build_view_readable:
  assumes "readable_log um raw"
  shows "\<exists>view. build_view um yaml raw = Inr view \<and> view_of yaml raw view \<and>
    (\<forall>m. compaction view = Some m \<longrightarrow> build_marker um yaml raw (compaction_seq m) = Inr m)"
proof -
  define eff where "eff = apply_log_mutations yaml raw"
  have inc: "sorted_wrt (<) (map fst raw)" using assms by (simp add: readable_log_def)
  have start: "(case window_boundary_index (active_context_window eff) of None \<Rightarrow> 0 | Some k \<Rightarrow> k + 1) = cut_of eff"
    by simp
  have link: "Option.bind (window_boundary_index (active_context_window eff))
      (\<lambda>k. raw_compaction_seq raw (fst (eff ! k))) = link_of raw eff"
    by (simp add: link_of_def)
  show ?thesis
  proof (cases "link_of raw eff")
    case None
    then show ?thesis
      using resolve_readable [OF assms, of yaml] link start
      by (simp add: build_view_def view_of_def Let_def eff_def)
  next
    case (Some s)
    then obtain j where j: "j < length raw" "fst (raw ! j) = s" "is_context_boundary (snd (raw ! j))"
      by (auto simp: link_of_def split: if_splits dest!: raw_compaction_seq_SomeD)
    from build_marker_readable [OF assms j(1,3), of yaml] obtain m
      where m: "build_marker um yaml raw s = Inr m" "compaction_seq m = s" by (auto simp: j(2))
    have "build_view um yaml raw = Inr \<lparr>compaction = Some m, view_entries = drop (cut_of eff) eff\<rparr>"
      using resolve_readable [OF assms, of yaml] link start Some m(1)
      by (simp add: build_view_def Let_def eff_def)
    then show ?thesis using m Some by (auto simp: view_of_def Let_def eff_def)
  qed
qed

lemma before_compaction_readable:
  assumes "readable_log um raw" "i < length raw" "is_context_boundary (snd (raw ! i))"
  shows "before_compaction um yaml raw (fst (raw ! i)) r =
    (case build_view um yaml (take i raw) of Inl err \<Rightarrow> Inl err | Inr view \<Rightarrow> page_view view r)"
  using assms compaction_index_finds [of raw i] readable_log_validate [OF assms(1)]
  by (simp add: before_compaction_def readable_log_def)

section \<open>Walking back\<close>

text \<open>
  A client shows \<open>default_view\<close> and opens the archive of each marker with \<open>before_compaction\<close>
  until a view has none; \<open>None\<close> when the fuel runs out first.
\<close>

fun browse_back ::
    "nat \<Rightarrow> nat \<Rightarrow> yaml_parser \<Rightarrow> log \<Rightarrow> TranscriptView \<Rightarrow> (ViewError + TranscriptView list) option" where
  "browse_back fuel um yaml raw view =
     (case compaction view of
        None \<Rightarrow> Some (Inr [view])
      | Some m \<Rightarrow>
          (case fuel of
             0 \<Rightarrow> None
           | Suc n \<Rightarrow>
               (case before_compaction um yaml raw (compaction_seq m) None of
                  Inl err \<Rightarrow> Some (Inl err)
                | Inr earlier \<Rightarrow>
                    map_option (map_sum id (\<lambda>views. views @ [view]))
                      (browse_back n um yaml raw earlier))))"

declare browse_back.simps [simp del]

definition no_mutations :: "log \<Rightarrow> bool" where
  "no_mutations raw \<longleftrightarrow>
     (\<forall>e \<in> set raw. case snd e of Rewind _ \<Rightarrow> False | EditEntries _ _ _ \<Rightarrow> False | _ \<Rightarrow> True)"

abbreviation transcript_row :: "seq \<times> SessionLogEntry \<Rightarrow> bool" where
  "transcript_row e \<equiv> \<not> control_row (snd e)"

lemma apply_log_mutations_no_mutations:
  "no_mutations raw \<Longrightarrow> apply_log_mutations yaml raw = filter transcript_row raw"
proof (induction raw rule: rev_induct)
  case (snoc row raw)
  then show ?case
    by (cases row; cases "snd row")
      (auto simp: apply_log_mutations_snoc apply_log_step_def control_row_def no_mutations_def)
qed (simp add: apply_log_mutations_def apply_log_mutations_with_name_def)

lemma boundary_is_transcript_row: "is_context_boundary e \<Longrightarrow> \<not> control_row e"
  by (auto simp: is_context_boundary_def control_row_def split: SessionLogEntry.splits)

lemma cut_of_split:
  "is_context_boundary (snd b) \<Longrightarrow> \<forall>e \<in> set ys. \<not> is_context_boundary (snd e) \<Longrightarrow>
     cut_of (xs @ b # ys) = Suc (length xs)"
  using last_boundary.cut_append_clean [where P = "\<lambda>e. is_context_boundary (snd e)" and xs = "xs @ [b]" and ys = ys]
    last_boundary.cut_append_boundary [where P = "\<lambda>e. is_context_boundary (snd e)" and xs = xs and b = b]
  by simp

lemma link_of_plain:
  assumes "readable_log um (xs @ b # ys)" "is_context_boundary (snd b)"
    "\<forall>e \<in> set ys. \<not> is_context_boundary (snd e)"
  shows "link_of (xs @ b # ys) (filter transcript_row (xs @ b # ys)) = Some (fst b)"
    and "drop (cut_of (filter transcript_row (xs @ b # ys))) (filter transcript_row (xs @ b # ys)) =
      filter transcript_row ys"
proof -
  have cut: "cut_of (filter transcript_row (xs @ b # ys)) = Suc (length (filter transcript_row xs))"
    using cut_of_split [OF assms(2), of "filter transcript_row ys" "filter transcript_row xs"] assms(3)
      boundary_is_transcript_row [OF assms(2)] by simp
  then show "drop (cut_of (filter transcript_row (xs @ b # ys))) (filter transcript_row (xs @ b # ys)) =
      filter transcript_row ys"
    using boundary_is_transcript_row [OF assms(2)] by simp
  have "raw_compaction_seq (xs @ b # ys) (fst b) = Some (fst b)"
    using raw_compaction_seq_finds [of "xs @ b # ys" "length xs"] assms(1,2)
    by (simp add: readable_log_def)
  then show "link_of (xs @ b # ys) (filter transcript_row (xs @ b # ys)) = Some (fst b)"
    using cut boundary_is_transcript_row [OF assms(2)] by (simp add: link_of_def nth_append)
qed

lemma view_of_plain:
  assumes "readable_log um raw" "no_mutations raw" "view_of yaml raw view"
  defines "row \<equiv> \<lambda>e. transcript_row e \<and> \<not> is_context_boundary (snd e)"
  shows "compaction view = None \<and> view_entries view = filter row raw \<or>
    (\<exists>xs b ys. raw = xs @ b # ys \<and> is_context_boundary (snd b) \<and>
       map_option compaction_seq (compaction view) = Some (fst b) \<and>
       view_entries view = filter row ys)"
proof (cases "\<exists>e \<in> set raw. is_context_boundary (snd e)")
  case True
  from split_list_last_prop [OF True] obtain xs b ys
    where raw: "raw = xs @ b # ys" "is_context_boundary (snd b)"
      and ys: "\<forall>e \<in> set ys. \<not> is_context_boundary (snd e)" by blast
  have "filter transcript_row ys = filter row ys"
    using ys by (intro filter_cong) (auto simp: row_def)
  moreover have "apply_log_mutations yaml raw = filter transcript_row (xs @ b # ys)"
    using apply_log_mutations_no_mutations [OF assms(2)] raw(1) by simp
  ultimately have "map_option compaction_seq (compaction view) = Some (fst b)"
      "view_entries view = filter row ys"
    using assms(3) link_of_plain [of um xs b ys, OF _ raw(2) ys] assms(1) unfolding view_of_def Let_def raw(1)
    by simp_all
  with raw show ?thesis by blast
next
  case False
  then have "cut_of (filter transcript_row raw) = 0" by (subst after_last_0_iff) auto
  moreover have "filter transcript_row raw = filter row raw"
    using False by (intro filter_cong) (auto simp: row_def)
  ultimately show ?thesis
    using assms(3) by (simp add: view_of_def Let_def link_of_def apply_log_mutations_no_mutations [OF assms(2)])
qed

text \<open>
  The chain of archives: each view's link opens the view of a shorter prefix of the log.
\<close>

lemma browse_back_prefix:
  assumes "readable_log um raw"
  shows "i \<le> length raw \<Longrightarrow> view_of yaml (take i raw) view \<Longrightarrow> i \<le> fuel \<Longrightarrow>
    \<exists>views. browse_back fuel um yaml raw view = Some (Inr views) \<and> views \<noteq> [] \<and>
      compaction (hd views) = None \<and> last views = view \<and>
      (no_mutations raw \<longrightarrow> concat (map view_entries views) =
        filter (\<lambda>e. transcript_row e \<and> \<not> is_context_boundary (snd e)) (take i raw))"
proof (induction i arbitrary: view fuel rule: less_induct)
  case (less i)
  let ?raw = "take i raw" and ?row = "\<lambda>e. transcript_row e \<and> \<not> is_context_boundary (snd e)"
  have readable: "readable_log um ?raw" by (rule readable_log_take [OF assms])
  have nm: "no_mutations ?raw" if "no_mutations raw"
    using that by (auto simp: no_mutations_def dest: in_set_takeD)
  show ?case
  proof (cases "compaction view")
    case None
    have "view_entries view = filter ?row ?raw" if "no_mutations raw"
      using view_of_plain [OF readable nm [OF that] less.prems(2)] None by auto
    with None show ?thesis by (subst browse_back.simps) simp
  next
    case (Some m)
    from less.prems(2) Some have link: "link_of ?raw (apply_log_mutations yaml ?raw) = Some (compaction_seq m)"
      by (simp add: view_of_def Let_def)
    then obtain j where j: "j < length ?raw" "fst (?raw ! j) = compaction_seq m" "is_context_boundary (snd (?raw ! j))"
      by (auto simp: link_of_def split: if_splits dest!: raw_compaction_seq_SomeD)
    then have j': "j < i" "j < length raw" by auto
    with j have row: "fst (raw ! j) = compaction_seq m" "is_context_boundary (snd (raw ! j))" by auto
    obtain n where fuel: "fuel = Suc n" "j \<le> n" using j'(1) less.prems(3) by (cases fuel) auto
    obtain earlier where e: "build_view um yaml (take j raw) = Inr earlier" "view_of yaml (take j raw) earlier"
      using build_view_readable [OF readable_log_take [OF assms, of j], of yaml] by blast
    have step: "before_compaction um yaml raw (compaction_seq m) None = Inr earlier"
      using before_compaction_readable [OF assms j'(2) row(2), of yaml None] e(1)
      by (simp add: page_view_def row(1))
    from less.IH [OF j'(1) less_imp_le [OF j'(2)] e(2) fuel(2)] obtain views
      where v: "browse_back n um yaml raw earlier = Some (Inr views)" "views \<noteq> []" "compaction (hd views) = None"
        "no_mutations raw \<longrightarrow> concat (map view_entries views) = filter ?row (take j raw)"
      by blast
    have "browse_back fuel um yaml raw view = Some (Inr (views @ [view]))"
      using Some fuel(1) step v(1) by (subst browse_back.simps) simp
    moreover have "concat (map view_entries (views @ [view])) = filter ?row ?raw" if "no_mutations raw"
    proof -
      from view_of_plain [OF readable nm [OF that] less.prems(2)] Some obtain xs b ys
        where raw: "?raw = xs @ b # ys" "is_context_boundary (snd b)" "compaction_seq m = fst b"
          "view_entries view = filter ?row ys" by auto
      have "sorted_wrt (<) (map fst ?raw)" using readable by (simp add: readable_log_def)
      from increasing_nth_le [OF this, of j "length xs"] increasing_nth_le [OF this, of "length xs" j]
      have "j = length xs" using j(1,2) raw(1,3) by simp
      then have "take j ?raw = xs" using raw(1) by simp
      then have "take j raw = xs" using j'(1) by (simp add: min_def)
      with v(4) that raw show ?thesis by simp
    qed
    ultimately show ?thesis using v by (intro exI [of _ "views @ [view]"]) simp
  qed
qed

section \<open>Properties\<close>

text \<open>
  The recovery note is written and stripped consistently: for every coverage a 64-bit writer can
  produce, displaying a summary with the note appended gives the summary back, whatever it
  contains; and a prompt that is displayed differently from how it is stored is exactly its
  displayed text with one such note appended.
\<close>

theorem recovery_note_round_trip:
  "(\<forall>covered. coverage_fits covered \<longrightarrow>
      display_summary (append_recovery_note summary covered) = summary) \<and>
   (display_summary prompt \<noteq> prompt \<longrightarrow>
      (\<exists>covered. coverage_fits covered \<and>
         prompt = append_recovery_note (display_summary prompt) covered))"
  using display_append_recovery_note display_summary_cases by blast

theorem recovery_note_round_trip_witness:
  "display_summary (append_recovery_note (append_recovery_note ''notes'' (None, None, 7)) (Some 3, Some 12, 9)) =
     append_recovery_note ''notes'' (None, None, 7)"
  using recovery_note_round_trip
    [of "append_recovery_note ''notes'' (None, None, 7)" "[]"]
  by (simp add: coverage_fits_def u64_max_def)

text \<open>
  C32: Walking a session back through its compactions always ends: on a log with increasing nonzero
  sequence numbers the default view is built without an error, every archive a marker
  names opens, at most one step per log row is taken, and the walk stops at a view
  without a marker. In a log that was only appended to, the views so visited are
  the whole transcript, each row exactly once and in order.
\<close>

theorem browse_back_complete:
  assumes "readable_log um raw"
  shows "\<exists>view views. default_view um yaml raw = Inr view \<and>
    browse_back (length raw) um yaml raw view = Some (Inr views) \<and>
    views \<noteq> [] \<and> compaction (hd views) = None \<and> last views = view \<and>
    (no_mutations raw \<longrightarrow> concat (map view_entries views) =
      filter (\<lambda>e. \<not> control_row (snd e) \<and> \<not> is_context_boundary (snd e)) raw)"
proof -
  obtain view where view: "build_view um yaml raw = Inr view" "view_of yaml raw view"
    using build_view_readable [OF assms, of yaml] by blast
  have "default_view um yaml raw = Inr view"
    using view(1) readable_log_validate [OF assms] by (simp add: default_view_def)
  with browse_back_prefix [OF assms order_refl, of yaml view "length raw"] view(2)
  show ?thesis by auto
qed

definition compacted_log :: log where
  "compacted_log = [(1, Clear), (2, Compress ''a''), (4, Error ''e'' 1 None), (5, Compress ''b''),
     (6, TurnEnd 1 1 None None), (9, Clear)]"

lemma compacted_log_readable: "readable_log u64_max compacted_log"
  by (simp add: readable_log_def compacted_log_def u64_max_def)

theorem browse_back_complete_witness:
  "\<exists>view views. default_view u64_max (\<lambda>_. None) compacted_log = Inr view \<and>
     browse_back 6 u64_max (\<lambda>_. None) compacted_log view = Some (Inr views) \<and>
     concat (map view_entries views) = [(1, Clear), (4, Error ''e'' 1 None), (9, Clear)]"
proof -
  have "no_mutations compacted_log" by (simp add: no_mutations_def compacted_log_def)
  moreover have "filter (\<lambda>e. \<not> control_row (snd e) \<and> \<not> is_context_boundary (snd e)) compacted_log =
      [(1, Clear), (4, Error ''e'' 1 None), (9, Clear)]"
    by (simp add: compacted_log_def control_row_def is_context_boundary_def)
  moreover have "length compacted_log = 6" by (simp add: compacted_log_def)
  ultimately show ?thesis
    using browse_back_complete [OF compacted_log_readable, of "\<lambda>_. None"] by auto
qed

text \<open>
  C33: History is stable: the view before a compaction depends only on the rows before it. Whatever is
  appended to the log later, edits and rewinds of archived rows included, opening the
  archive gives the same page, and without a range it is the view a reader had just
  before the compaction was logged.
\<close>

theorem before_compaction_stable:
  assumes "readable_log um (raw @ later)" "compaction_index raw s = Inr i"
  shows "before_compaction um yaml (raw @ later) s page = before_compaction um yaml raw s page \<and>
    before_compaction um yaml (raw @ later) s None = default_view um yaml (take i raw)"
proof (intro conjI)
  have i: "i < length raw" "fst (raw ! i) = s" "is_context_boundary (snd (raw ! i))"
    using compaction_index_InrD [OF assms(2)] by auto
  have raw: "readable_log um raw" by (rule readable_log_append [OF assms(1)])
  have long: "before_compaction um yaml (raw @ later) s p =
      (case build_view um yaml (take i raw) of Inl err \<Rightarrow> Inl err | Inr view \<Rightarrow> page_view view p)" for p
    using before_compaction_readable [OF assms(1), of i yaml p] i by (simp add: nth_append)
  then show "before_compaction um yaml (raw @ later) s page = before_compaction um yaml raw s page"
    using before_compaction_readable [OF raw i(1,3), of yaml page] i(2) by simp
  from long [of None] show "before_compaction um yaml (raw @ later) s None = default_view um yaml (take i raw)"
    using readable_log_validate [OF readable_log_take [OF raw]]
    by (auto simp: default_view_def page_view_def split: sum.splits)
qed

theorem before_compaction_stable_witness:
  "before_compaction u64_max (\<lambda>_. None) ([(1, Clear), (2, Compress ''a'')] @ [(3, Rewind 1)]) 2 (Some (1, 9)) =
     before_compaction u64_max (\<lambda>_. None) [(1, Clear), (2, Compress ''a'')] 2 (Some (1, 9))"
proof -
  have "readable_log u64_max ([(1, Clear), (2, Compress ''a'')] @ [(3, Rewind 1)])"
    by (simp add: readable_log_def u64_max_def)
  moreover have "compaction_index [(1, Clear), (2, Compress ''a'')] 2 = Inr 1"
    using compaction_index_finds [of "[(1, Clear), (2, Compress ''a'')]" 1]
    by (simp add: is_context_boundary_def)
  ultimately show ?thesis by (rule before_compaction_stable [THEN conjunct1])
qed

text \<open>
  C36: A marker is well formed: it names a compaction row of the log, its archive ends just before it and
  never reaches past it, and its link to the earlier compaction is the one the archive's
  own view shows, strictly earlier and adjacent to the archive's first row.
\<close>

theorem compaction_marker_well_formed:
  assumes "readable_log um raw" "default_view um yaml raw = Inr view" "compaction view = Some m"
  shows "\<exists>i earlier. compaction_index raw (compaction_seq m) = Inr i \<and>
    to_seq m + 1 = compaction_seq m \<and> from_seq m \<le> compaction_seq m \<and>
    before_compaction um yaml raw (compaction_seq m) None = Inr earlier \<and>
    map_option compaction_seq (compaction earlier) = earlier_compaction m \<and>
    (case earlier_compaction m of None \<Rightarrow> True
     | Some s \<Rightarrow> s < compaction_seq m \<and> from_seq m = s + 1)"
proof -
  have inc: "sorted_wrt (<) (map fst raw)" using assms(1) by (simp add: readable_log_def)
  obtain v where "build_view um yaml raw = Inr v" "view_of yaml raw v"
      and marker: "\<forall>m. compaction v = Some m \<longrightarrow> build_marker um yaml raw (compaction_seq m) = Inr m"
    using build_view_readable [OF assms(1), of yaml] by blast
  with assms(2) readable_log_validate [OF assms(1)] have v: "v = view" "view_of yaml raw view"
    by (auto simp: default_view_def)
  then obtain i where i: "i < length raw" "fst (raw ! i) = compaction_seq m" "is_context_boundary (snd (raw ! i))"
    using assms(3)
    by (auto simp: view_of_def Let_def link_of_def split: if_splits dest!: raw_compaction_seq_SomeD [OF sym])
  note bounds = archive_bounds_spec [OF assms(1) i(1) refl, of yaml, unfolded i(2)]
  from build_marker_readable [OF assms(1) i(1,3), of yaml] marker v(1) assms(3)
  have m: "to_seq m = compaction_seq m - 1"
      "from_seq m = fst (archive_bounds raw (apply_log_mutations yaml (take i raw)) (compaction_seq m))"
      "earlier_compaction m = link_of raw (apply_log_mutations yaml (take i raw))"
    unfolding i(2) by auto
  have "0 < compaction_seq m" using assms(1) i(1,2) nth_mem [OF i(1)] unfolding readable_log_def by metis
  moreover obtain earlier where e: "build_view um yaml (take i raw) = Inr earlier" "view_of yaml (take i raw) earlier"
    using build_view_readable [OF readable_log_take [OF assms(1), of i], of yaml] by blast
  moreover have "before_compaction um yaml raw (compaction_seq m) None = Inr earlier"
    using before_compaction_readable [OF assms(1) i(1,3), of yaml None] i(2) e(1) by (simp add: page_view_def)
  moreover have "map_option compaction_seq (compaction earlier) = earlier_compaction m"
    using e(2) link_of_prefix [OF inc, of i yaml] m(3) by (simp add: view_of_def Let_def)
  moreover have "compaction_index raw (compaction_seq m) = Inr i"
    using compaction_index_finds [OF inc i(1,3)] i(2) by simp
  ultimately show ?thesis using m bounds(2,3) by (auto split: option.splits)
qed

theorem compaction_marker_well_formed_witness:
  "\<exists>view m earlier. default_view u64_max (\<lambda>_. None) compacted_log = Inr view \<and> compaction view = Some m \<and>
     compaction_seq m = 5 \<and> before_compaction u64_max (\<lambda>_. None) compacted_log 5 None = Inr earlier \<and>
     map_option compaction_seq (compaction earlier) = earlier_compaction m"
proof -
  obtain view where view: "build_view u64_max (\<lambda>_. None) compacted_log = Inr view" "view_of (\<lambda>_. None) compacted_log view"
    using build_view_readable [OF compacted_log_readable, of "\<lambda>_. None"] by blast
  have d: "default_view u64_max (\<lambda>_. None) compacted_log = Inr view"
    using view(1) readable_log_validate [OF compacted_log_readable] by (simp add: default_view_def)
  have "no_mutations compacted_log" by (simp add: no_mutations_def compacted_log_def)
  then have "map_option compaction_seq (compaction view) = Some 5"
    using view(2) link_of_plain(1) [of u64_max "take 3 compacted_log" "(5, Compress ''b'')" "drop 4 compacted_log"]
      compacted_log_readable
    by (simp add: view_of_def Let_def apply_log_mutations_no_mutations compacted_log_def is_context_boundary_def)
  then obtain m where m: "compaction view = Some m" "compaction_seq m = 5" by auto
  from compaction_marker_well_formed [OF compacted_log_readable d m(1)] m d show ?thesis by auto
qed

end
