(* ===== verification/Request_Identity.thy ===== *)
theory Request_Identity
  imports Text_Format Access_Rules
begin

text \<open>
  Who a request comes from: trusted headers and cookies (\<open>harnx-runtime/src/identity.rs\<close>),
  memberships (\<open>identity/membership.rs\<close>), user aliases (\<open>harnx-core/src/user_aliases.rs\<close>) and
  the gate every API request passes before dispatch (\<open>harnx-serve/src/request_identity.rs\<close>).

  A header map is the function from a field name to the values of its fields in order. The
  \<open>http\<close> crate's checks of names, values and status codes are the parameters \<open>header_name\<close>,
  \<open>value_to_str\<close> and \<open>status_from_u16\<close>.
\<close>

type_synonym HeaderMap = "string \<Rightarrow> string list"

record http_lib =
  header_name :: "string \<Rightarrow> string option"
  value_to_str :: "string \<Rightarrow> string option"
  status_from_u16 :: "nat \<Rightarrow> nat option"

definition headers_get :: "HeaderMap \<Rightarrow> string \<Rightarrow> string option" where
  "headers_get headers name = (case headers name of [] \<Rightarrow> None | v # _ \<Rightarrow> Some v)"

section \<open>Identity sources\<close>

datatype IdentityError = EmptyValue | InvalidValue

definition identity_error_text :: "IdentityError \<Rightarrow> string" where
  "identity_error_text e =
     (case e of EmptyValue \<Rightarrow> ''empty user identity source'' | InvalidValue \<Rightarrow> ''invalid user identity source'')"

datatype IdentitySource = Header string | Cookie string

definition first_value :: "http_lib \<Rightarrow> HeaderMap \<Rightarrow> string \<Rightarrow> string option" where
  "first_value http headers name =
     Option.bind (headers_get headers name) (\<lambda>field.
       Option.bind (value_to_str http field) (\<lambda>v.
         let first = str_trim (fst (splitn2 (CHR '','') v))
         in if first \<noteq> [] then Some first else None))"

definition unquote_cookie_value :: "string \<Rightarrow> string" where
  "unquote_cookie_value raw =
     (if starts_with raw [CHR 0x22] \<and> ends_with raw [CHR 0x22] \<and> 2 \<le> length raw
      then butlast (tl raw) else raw)"

definition is_valid_cookie_value :: "string \<Rightarrow> bool" where
  "is_valid_cookie_value v =
     list_all (\<lambda>c. let b = (of_char c :: nat)
                   in b = 0x21 \<or> 0x23 \<le> b \<and> b \<le> 0x2b \<or> 0x2d \<le> b \<and> b \<le> 0x3a \<or>
                      0x3c \<le> b \<and> b \<le> 0x5b \<or> 0x5d \<le> b \<and> b \<le> 0x7e) v"

definition cookie_field :: string where
  "cookie_field = ''cookie''"

fun cookie_entries :: "string list \<Rightarrow> string \<Rightarrow> IdentityError + string option" where
  "cookie_entries [] name = Inr None"
| "cookie_entries (entry # entries) name =
     (case splitn2 (CHR ''='') entry of (key, rest) \<Rightarrow>
        if trim_ascii key \<noteq> name then cookie_entries entries name
        else (case rest of
                None \<Rightarrow> Inl InvalidValue
              | Some raw \<Rightarrow>
                  let v = unquote_cookie_value (trim_ascii raw)
                  in if v = [] then Inl EmptyValue
                     else if \<not> is_valid_cookie_value v then Inl InvalidValue
                     else (case from_utf8 v of Some t \<Rightarrow> Inr (Some t) | None \<Rightarrow> Inl InvalidValue)))"

definition cookie_value :: "HeaderMap \<Rightarrow> string \<Rightarrow> IdentityError + string option" where
  "cookie_value headers name =
     cookie_entries (concat (map (split_on (CHR '';'')) (headers cookie_field))) name"

definition source_resolve ::
    "http_lib \<Rightarrow> IdentitySource \<Rightarrow> HeaderMap \<Rightarrow> IdentityError + string option" where
  "source_resolve http source headers =
     (case source of
        Header name \<Rightarrow>
          (case headers_get headers name of
             None \<Rightarrow> Inr None
           | Some field \<Rightarrow>
               (case value_to_str http field of
                  None \<Rightarrow> Inl InvalidValue
                | Some v \<Rightarrow>
                    let first = str_trim (fst (splitn2 (CHR '','') v))
                    in if first = [] then Inl EmptyValue else Inr (Some first)))
      | Cookie name \<Rightarrow> cookie_value headers name)"

datatype SourceError = UnknownPrefix string | InvalidSourceName string

definition source_from_str :: "http_lib \<Rightarrow> string \<Rightarrow> SourceError + IdentitySource" where
  "source_from_str http raw =
     (case split_once raw '':'' of
        Some (pfx, name) \<Rightarrow>
          if eq_ignore_ascii_case pfx ''header'' then
            (case header_name http name of
               None \<Rightarrow> Inl (InvalidSourceName name) | Some header \<Rightarrow> Inr (Header header))
          else if eq_ignore_ascii_case pfx ''cookie'' then
            (case header_name http name of
               None \<Rightarrow> Inl (InvalidSourceName name) | Some _ \<Rightarrow> Inr (Cookie name))
          else Inl (UnknownPrefix raw)
      | None \<Rightarrow>
          (case header_name http raw of
             None \<Rightarrow> Inl (InvalidSourceName raw) | Some header \<Rightarrow> Inr (Header header)))"

definition sources_new :: "http_lib \<Rightarrow> string list \<Rightarrow> SourceError + IdentitySource list" where
  "sources_new http sources = try_collect (source_from_str http) sources"

fun sources_resolve ::
    "http_lib \<Rightarrow> IdentitySource list \<Rightarrow> HeaderMap \<Rightarrow> IdentityError + string option" where
  "sources_resolve http [] headers = Inr None"
| "sources_resolve http (source # sources) headers =
     (case source_resolve http source headers of
        Inl err \<Rightarrow> Inl err
      | Inr (Some v) \<Rightarrow> Inr (Some v)
      | Inr None \<Rightarrow> sources_resolve http sources headers)"

section \<open>Memberships\<close>

definition normalize_membership_iter :: "string list \<Rightarrow> string list" where
  "normalize_membership_iter values =
     concat (map (\<lambda>v. filter (\<lambda>s. s \<noteq> []) (map str_trim (split_on (CHR '','') v))) values)"

definition normalize_membership_values :: "string list \<Rightarrow> string list" where
  "normalize_membership_values values = normalize_membership_iter values"

fun merge_loop :: "string list \<Rightarrow> string set \<Rightarrow> string list \<Rightarrow> string list" where
  "merge_loop result seen [] = result"
| "merge_loop result seen (v # vs) =
     (if v \<in> set result then merge_loop result seen vs
      else if v \<in> seen then merge_loop result seen vs
      else merge_loop (result @ [v]) (insert v seen) vs)"

definition merge_memberships :: "string list \<Rightarrow> string list \<Rightarrow> string list" where
  "merge_memberships header configured = merge_loop header {} (normalize_membership_iter configured)"

definition membership_new :: "http_lib \<Rightarrow> string list \<Rightarrow> string + string list" where
  "membership_new http names =
     try_collect (\<lambda>name. case header_name http name of Some h \<Rightarrow> Inr h | None \<Rightarrow> Inl name) names"

definition membership_resolve :: "http_lib \<Rightarrow> string list \<Rightarrow> HeaderMap \<Rightarrow> IdentityError + string list" where
  "membership_resolve http names headers =
     (let fields = concat (map headers names)
      in if list_ex (\<lambda>f. value_to_str http f = None) fields then Inl InvalidValue
         else Inr (normalize_membership_values (filter_map (value_to_str http) fields)))"

section \<open>User aliases\<close>

record UserAliasEntry =
  alias_name :: string
  alias_identities :: "string list"
  alias_groups :: "string list"
  alias_roles :: "string list"

record UserAliases =
  alias_entries :: "UserAliasEntry list"

datatype 'v yaml_root = YamlNull | YamlScalar | YamlMapping | YamlSequence "'v list" | YamlTagged

datatype AliasError =
    AliasYaml string
  | AliasEntry nat string
  | AliasNullRoot
  | AliasMappingRoot
  | AliasScalarRoot
  | AliasOtherRoot

text \<open>\<open>serde_yaml\<close> is the pair of a document parser and a decoder of one entry.\<close>

definition aliases_from_yaml ::
    "(string \<Rightarrow> string + 'v yaml_root) \<Rightarrow> ('v \<Rightarrow> string + UserAliasEntry) \<Rightarrow> string \<Rightarrow> AliasError + UserAliases" where
  "aliases_from_yaml parse from_value yaml =
     (case parse yaml of
        Inl err \<Rightarrow> Inl (AliasYaml err)
      | Inr (YamlSequence items) \<Rightarrow>
          (case try_collect
                  (\<lambda>(index, item). case from_value item of
                     Inl err \<Rightarrow> Inl (AliasEntry index err) | Inr entry \<Rightarrow> Inr entry)
                  (List.enumerate 0 items) of
             Inl err \<Rightarrow> Inl err
           | Inr entries \<Rightarrow> Inr \<lparr>alias_entries = entries\<rparr>)
      | Inr YamlNull \<Rightarrow> Inl AliasNullRoot
      | Inr YamlMapping \<Rightarrow> Inl AliasMappingRoot
      | Inr YamlScalar \<Rightarrow> Inl AliasScalarRoot
      | Inr YamlTagged \<Rightarrow> Inl AliasOtherRoot)"

record ExpandedIdentities =
  expanded_slice :: "string list"
  expanded_groups :: "string list"
  expanded_roles :: "string list"

definition expand_caller :: "UserAliases \<Rightarrow> string \<Rightarrow> ExpandedIdentities" where
  "expand_caller aliases caller =
     (case find (\<lambda>entry. list_ex (\<lambda>i. i = caller) (alias_identities entry)) (alias_entries aliases) of
        Some entry \<Rightarrow>
          \<lparr>expanded_slice = alias_identities entry, expanded_groups = alias_groups entry,
           expanded_roles = alias_roles entry\<rparr>
      | None \<Rightarrow> \<lparr>expanded_slice = [caller], expanded_groups = [], expanded_roles = []\<rparr>)"

section \<open>The gate before dispatch\<close>

record RequestIdentity =
  req_user_id :: "string option"
  req_groups :: "string list"
  req_roles :: "string list"
  req_expanded_users :: "string list option"

definition request_caller :: "RequestIdentity \<Rightarrow> CallerView" where
  "request_caller identity =
     \<lparr>caller_users = (case req_expanded_users identity of
                        Some users \<Rightarrow> users
                      | None \<Rightarrow> (case req_user_id identity of Some u \<Rightarrow> [u] | None \<Rightarrow> [])),
      caller_groups = req_groups identity,
      caller_roles = req_roles identity\<rparr>"

text \<open>The part of the server's state that identity and access depend on.\<close>

record 'gset server_policy =
  sv_identity_sources :: "IdentitySource list"
  sv_group_headers :: "string list"
  sv_role_headers :: "string list"
  sv_user_aliases :: "UserAliases option"
  sv_access_rules :: "'gset AccessRules option"

definition resolve_identity ::
    "http_lib \<Rightarrow> 'gset server_policy \<Rightarrow> HeaderMap \<Rightarrow> IdentityError + RequestIdentity" where
  "resolve_identity http sv headers =
     (case sources_resolve http (sv_identity_sources sv) headers of
        Inl err \<Rightarrow> Inl err
      | Inr user_id \<Rightarrow>
          (case membership_resolve http (sv_group_headers sv) headers of
             Inl err \<Rightarrow> Inl err
           | Inr groups \<Rightarrow>
               (case membership_resolve http (sv_role_headers sv) headers of
                  Inl err \<Rightarrow> Inl err
                | Inr roles \<Rightarrow>
                    (case (user_id, sv_user_aliases sv) of
                       (Some user, Some aliases) \<Rightarrow>
                         let expanded = expand_caller aliases user
                         in Inr \<lparr>req_user_id = user_id,
                                 req_groups = merge_memberships groups (expanded_groups expanded),
                                 req_roles = merge_memberships roles (expanded_roles expanded),
                                 req_expanded_users = Some (expanded_slice expanded)\<rparr>
                     | _ \<Rightarrow>
                         Inr \<lparr>req_user_id = user_id, req_groups = groups, req_roles = roles,
                              req_expanded_users = None\<rparr>))))"

definition requires_user_identity :: "'gset server_policy \<Rightarrow> string \<Rightarrow> bool" where
  "requires_user_identity sv path \<longleftrightarrow>
     sv_access_rules sv \<noteq> None \<and>
     (path = ''/v1/agents'' \<or> starts_with path ''/v1/agents/'' \<or> starts_with path ''/v1/cid/'')"

datatype Method = GET | POST | PUT | PATCH | DELETE | HEAD | OPTIONS | OtherMethod string

text \<open>
  \<open>prepare_request\<close>: an early response (its status and error text), or the request continues with
  the identity it stored in the request's extensions, if any.
\<close>

definition prepare_request ::
    "http_lib \<Rightarrow> 'gset server_policy \<Rightarrow> Method \<Rightarrow> string \<Rightarrow> HeaderMap
       \<Rightarrow> (nat \<times> string option) + RequestIdentity option" where
  "prepare_request http sv m path headers =
     (if m = OPTIONS then Inl (204, None)
      else if \<not> starts_with path ''/v1/'' then Inr None
      else (case resolve_identity http sv headers of
              Inl err \<Rightarrow> Inl (401, Some (identity_error_text err))
            | Inr identity \<Rightarrow>
                if requires_user_identity sv path \<and> req_user_id identity = None
                then Inl (401, Some ''missing user identity'')
                else Inr (Some identity)))"

text \<open>\<open>RequestIdentity::of\<close>: what the access checks read back, with the empty identity as default.\<close>

definition identity_of :: "RequestIdentity option \<Rightarrow> RequestIdentity" where
  "identity_of ext =
     (case ext of
        Some identity \<Rightarrow> identity
      | None \<Rightarrow> \<lparr>req_user_id = None, req_groups = [], req_roles = [], req_expanded_users = None\<rparr>)"

section \<open>Laws\<close>

lemma str_trim_nonempty_source:
  "source_resolve http source headers = Inr (Some v) \<Longrightarrow> v \<noteq> []"
proof (cases source)
  case (Cookie name)
  have "cookie_entries es name = Inr (Some v) \<Longrightarrow> v \<noteq> []" for es
    by (induction es) (auto simp: from_utf8_def Let_def split: prod.splits if_splits option.splits)
  with Cookie show "source_resolve http source headers = Inr (Some v) \<Longrightarrow> v \<noteq> []"
    by (auto simp: source_resolve_def cookie_value_def)
qed (auto simp: source_resolve_def Let_def split: option.splits if_splits)

lemma sources_resolve_first:
  "sources_resolve http sources headers =
     (case find (\<lambda>s. source_resolve http s headers \<noteq> Inr None) sources of
        None \<Rightarrow> Inr None
      | Some s \<Rightarrow> source_resolve http s headers)"
  by (induction sources) (auto split: sum.splits option.splits)

lemma sources_resolve_nonempty:
  "sources_resolve http sources headers = Inr (Some v) \<Longrightarrow> v \<noteq> []"
  by (auto simp: sources_resolve_first str_trim_nonempty_source split: option.splits)

lemma merge_loop_spec:
  assumes "set added = seen" "distinct added" "result = header @ added" "set header \<inter> set added = {}"
  shows "\<exists>more_added. merge_loop result seen vs = header @ added @ more_added \<and>
    distinct (added @ more_added) \<and> set header \<inter> set (added @ more_added) = {} \<and>
    set (header @ added @ more_added) = set (header @ added @ vs)"
  using assms
proof (induction vs arbitrary: result seen added)
  case (Cons v vs)
  show ?case
  proof (cases "v \<in> set result")
    case True
    with Cons.IH [OF Cons.prems] Cons.prems(3) show ?thesis by fastforce
  next
    case False
    then have "v \<notin> seen" "v \<notin> set header" "v \<notin> set added" using Cons.prems by auto
    with Cons.IH [of "added @ [v]" "insert v seen" "result @ [v]"] Cons.prems False
    obtain m where "merge_loop (result @ [v]) (insert v seen) vs = header @ (added @ [v]) @ m"
        "distinct ((added @ [v]) @ m)" "set header \<inter> set ((added @ [v]) @ m) = {}"
        "set (header @ (added @ [v]) @ m) = set (header @ (added @ [v]) @ vs)"
      by auto
    with False \<open>v \<notin> seen\<close> show ?thesis by (intro exI [of _ "v # m"]) auto
  qed
qed auto

lemma expand_caller_contains: "caller \<in> set (expanded_slice (expand_caller aliases caller))"
  by (auto simp: expand_caller_def list_ex_iff split: option.splits dest!: find_SomeD)

lemma resolve_identity_user:
  assumes "resolve_identity http sv headers = Inr identity" "req_user_id identity = Some u"
  shows "sources_resolve http (sv_identity_sources sv) headers = Inr (Some u) \<and>
    u \<in> set (caller_users (request_caller identity))"
  using assms
  by (auto simp: resolve_identity_def request_caller_def Let_def expand_caller_contains
      split: sum.splits option.splits)

lemma admitted_identity:
  assumes "prepare_request http sv m path headers = Inr ext"
    and "requires_user_identity sv path" and "m \<noteq> OPTIONS"
  shows "\<exists>source u. find (\<lambda>s. source_resolve http s headers \<noteq> Inr None) (sv_identity_sources sv) = Some source \<and>
    source_resolve http source headers = Inr (Some u) \<and> u \<noteq> [] \<and>
    req_user_id (identity_of ext) = Some u \<and>
    u \<in> set (caller_users (request_caller (identity_of ext)))"
proof -
  have v1: "starts_with path ''/v1/''"
    using assms(2) by (auto simp: requires_user_identity_def starts_with_def prefix_def)
  from assms v1 obtain identity u where ext: "ext = Some identity"
      and r: "resolve_identity http sv headers = Inr identity" "req_user_id identity = Some u"
    by (auto simp: prepare_request_def split: sum.splits if_splits)
  from resolve_identity_user [OF r] have s: "sources_resolve http (sv_identity_sources sv) headers = Inr (Some u)"
    and u: "u \<in> set (caller_users (request_caller identity))" by auto
  from s u sources_resolve_nonempty [OF s] r(2) show ?thesis
    by (auto simp: sources_resolve_first ext identity_of_def split: option.splits)
qed

section \<open>Properties\<close>

text \<open>
  Identity fails closed. The first configured source that is present decides alone: an empty or
  malformed value is an error and no later source is consulted. With access rules
  configured, a request for agents, sessions or content that passes the gate carries a
  nonempty user taken from that source, and that user is among those the access rules see.
\<close>

theorem identity_fails_closed:
  assumes "prepare_request http sv m path headers = Inr ext"
    and "requires_user_identity sv path" and "m \<noteq> OPTIONS"
  shows "\<exists>source u. find (\<lambda>s. source_resolve http s headers \<noteq> Inr None) (sv_identity_sources sv) = Some source \<and>
    source_resolve http source headers = Inr (Some u) \<and> u \<noteq> [] \<and>
    req_user_id (identity_of ext) = Some u \<and>
    u \<in> set (caller_users (request_caller (identity_of ext)))"
  using admitted_identity [OF assms] .

definition plain_http :: http_lib where
  "plain_http = \<lparr>header_name = Some, value_to_str = Some, status_from_u16 = Some\<rparr>"

definition demo_policy :: "unit server_policy" where
  "demo_policy =
     \<lparr>sv_identity_sources = [Header ''x-user'', Cookie ''user''], sv_group_headers = [],
      sv_role_headers = [], sv_user_aliases = None, sv_access_rules = Some \<lparr>ar_rules = []\<rparr>\<rparr>"

definition cookie_headers :: HeaderMap where
  "cookie_headers = (\<lambda>_. [])(cookie_field := [''a=b; user=eve''])"

lemma demo_prepare:
  "prepare_request plain_http demo_policy GET ''/v1/agents'' cookie_headers =
     Inr (Some \<lparr>req_user_id = Some ''eve'', req_groups = [], req_roles = [], req_expanded_users = None\<rparr>)"
  by code_simp

theorem identity_fails_closed_witness:
  "\<exists>source. find (\<lambda>s. source_resolve plain_http s cookie_headers \<noteq> Inr None) (sv_identity_sources demo_policy) = Some source \<and>
     source_resolve plain_http source cookie_headers = Inr (Some ''eve'')"
proof -
  have "requires_user_identity demo_policy ''/v1/agents''"
    by (simp add: requires_user_identity_def demo_policy_def)
  from identity_fails_closed [OF demo_prepare this] show ?thesis by (auto simp: identity_of_def)
qed

text \<open>
  Configured memberships only add to those of the request: the header's list is kept as it is, in front,
  and what is appended are exactly the configured entries it lacks, trimmed, each once.
\<close>

theorem merge_memberships_adds:
  "\<exists>added. merge_memberships header configured = header @ added \<and> distinct added \<and>
     set added = set (normalize_membership_iter configured) - set header \<and>
     [] \<notin> set added"
proof -
  from merge_loop_spec [of "[]" "{}" header header "normalize_membership_iter configured"]
  obtain m where m: "merge_memberships header configured = header @ m" "distinct m"
      "set header \<inter> set m = {}" "set (header @ m) = set (header @ normalize_membership_iter configured)"
    by (auto simp: merge_memberships_def)
  moreover from m have "set m = set (normalize_membership_iter configured) - set header" by auto
  moreover have "[] \<notin> set (normalize_membership_iter configured)"
    by (auto simp: normalize_membership_iter_def)
  ultimately show ?thesis by auto
qed

end
