(* ===== verification/Http_Routes.thy ===== *)
theory Http_Routes
  imports Request_Identity
begin

text \<open>
  The HTTP surface of \<open>harnx-serve\<close>: percent decoding, routes, content negotiation, error statuses
  and static assets (\<open>lib.rs\<close>), the route parsers of \<open>attachments.rs\<close>, \<open>session_routes.rs\<close>
  and \<open>cid.rs\<close>, agent references (\<open>agent_resolve.rs\<close>, \<open>harnx-core/src/agent_ref.rs\<close>)
  and the access guards that run before dispatch (\<open>agent_access.rs\<close>, \<open>session_access.rs\<close>).
  An \<open>anyhow\<close> error is its message, from which the status is read back.
\<close>

section \<open>Errors\<close>

definition ERROR_STATUS_MARKER :: string where
  "ERROR_STATUS_MARKER = ''::__status=''"

definition public_error_message :: "string \<Rightarrow> string" where
  "public_error_message message =
     (case split_once message ERROR_STATUS_MARKER of Some (public, _) \<Rightarrow> public | None \<Rightarrow> message)"

definition status_from_error :: "http_lib \<Rightarrow> string \<Rightarrow> nat option" where
  "status_from_error http message =
     (if message = ''Not Found'' then Some 404
      else if message = ''Method Not Allowed'' then Some 405
      else if message = ''Not Acceptable'' then Some 406
      else Option.bind (split_once message ERROR_STATUS_MARKER) (\<lambda>(_, status).
             Option.bind (parse_uint 65535 status) (status_from_u16 http)))"

definition finalize_err_status :: "http_lib \<Rightarrow> nat \<Rightarrow> string \<Rightarrow> nat" where
  "finalize_err_status http dispatch_status err =
     (if dispatch_status = 200
      then (case status_from_error http err of Some s \<Rightarrow> s | None \<Rightarrow> 400)
      else dispatch_status)"

datatype AgUiError = BadRequest string | NotFoundError string | Conflict string | Internal string

definition ag_ui_status_code :: "AgUiError \<Rightarrow> nat" where
  "ag_ui_status_code e =
     (case e of BadRequest _ \<Rightarrow> 400 | NotFoundError _ \<Rightarrow> 404 | Conflict _ \<Rightarrow> 409 | Internal _ \<Rightarrow> 500)"

definition ag_ui_error_text :: "AgUiError \<Rightarrow> string" where
  "ag_ui_error_text e =
     (case e of BadRequest msg \<Rightarrow> msg | NotFoundError msg \<Rightarrow> msg | Conflict msg \<Rightarrow> msg | Internal msg \<Rightarrow> msg)"

definition ag_ui_error_to_anyhow :: "AgUiError \<Rightarrow> string" where
  "ag_ui_error_to_anyhow e =
     ag_ui_error_text e @ ERROR_STATUS_MARKER @ show_nat (ag_ui_status_code e)"

section \<open>Percent decoding\<close>

definition hex_val :: "char \<Rightarrow> nat option" where
  "hex_val c =
     (let b = (of_char c :: nat)
      in if 48 \<le> b \<and> b \<le> 57 then Some (b - 48)
         else if 97 \<le> b \<and> b \<le> 102 then Some (b - 97 + 10)
         else if 65 \<le> b \<and> b \<le> 70 then Some (b - 65 + 10)
         else None)"

fun percent_bytes :: "string \<Rightarrow> string" where
  "percent_bytes [] = []"
| "percent_bytes [c] = [c]"
| "percent_bytes [c, d] = (if c = CHR ''%'' then ''%'' else c # percent_bytes [d])"
| "percent_bytes (c # h # l # s) =
     (if c = CHR ''%'' then
        (case (hex_val h, hex_val l) of
           (Some a, Some b) \<Rightarrow> char_of (16 * a + b) # percent_bytes s
         | _ \<Rightarrow> CHR ''%'' # percent_bytes s)
      else c # percent_bytes (h # l # s))"

definition percent_decode :: "string \<Rightarrow> string" where
  "percent_decode input = from_utf8_lossy (percent_bytes input)"

section \<open>Paths of the file system\<close>

text \<open>\<open>Path::components\<close> on Unix, and \<open>Path::extension\<close> of the last component.\<close>

datatype Component = RootDir | CurDir | ParentDir | Normal string

definition path_components :: "string \<Rightarrow> Component list" where
  "path_components path =
     (let parts = filter (\<lambda>p. p \<noteq> []) (split_on (CHR ''/'') path);
          rooted = starts_with path ''/'';
          comps = filter_map (\<lambda>p. if p = ''.'' then None else if p = ''..'' then Some ParentDir
                                  else Some (Normal p)) parts
      in if rooted then RootDir # comps
         else (case parts of
                 p # _ \<Rightarrow> if p = ''.'' then CurDir # comps else comps
               | [] \<Rightarrow> comps))"

definition file_extension :: "string \<Rightarrow> string option" where
  "file_extension name =
     (if name = ''..'' then None
      else (case rsplit_once name ''.'' of
              None \<Rightarrow> None
            | Some (before, after) \<Rightarrow> if before = [] then None else Some after))"

definition path_extension :: "string list \<Rightarrow> string option" where
  "path_extension path = (case rev path of [] \<Rightarrow> None | name # _ \<Rightarrow> file_extension name)"

definition is_safe_path_segment :: "string \<Rightarrow> bool" where
  "is_safe_path_segment v \<longleftrightarrow>
     v \<noteq> [] \<and>
     list_all (\<lambda>c. case c of Normal _ \<Rightarrow> True | _ \<Rightarrow> False) (path_components v) \<and>
     CHR ''/'' \<notin> set v \<and> CHR 0x5C \<notin> set v"

definition is_safe_agent_path :: "string \<Rightarrow> bool" where
  "is_safe_agent_path v \<longleftrightarrow>
     v \<noteq> [] \<and> \<not> starts_with v ''/'' \<and> list_all is_safe_path_segment (split_on (CHR ''/'') v)"

section \<open>Routes\<close>

datatype AgentsRoute = AgentRoute | SessionsRoute | SessionRoute | SessionEvents | SessionHistory

definition AGENTS_PREFIX :: string where
  "AGENTS_PREFIX = ''/v1/agents/''"

definition path_segments :: "string \<Rightarrow> string list" where
  "path_segments rest = filter (\<lambda>s. s \<noteq> []) (split_on (CHR ''/'') rest)"

definition agents_segments :: "string \<Rightarrow> string list option" where
  "agents_segments path = map_option path_segments (strip_prefix_str path AGENTS_PREFIX)"

fun match_agents_route :: "string list \<Rightarrow> (string \<times> string option \<times> AgentsRoute) option" where
  "match_agents_route [agent] = Some (percent_decode agent, None, AgentRoute)"
| "match_agents_route [agent, s] =
     (if s = ''sessions'' then Some (percent_decode agent, None, SessionsRoute) else None)"
| "match_agents_route [agent, s, session] =
     (if s = ''sessions'' then Some (percent_decode agent, Some (percent_decode session), SessionRoute)
      else None)"
| "match_agents_route [agent, s, session, leaf] =
     (if s = ''sessions'' \<and> leaf = ''history''
      then Some (percent_decode agent, Some (percent_decode session), SessionHistory)
      else if s = ''sessions'' \<and> leaf = ''events''
      then Some (percent_decode agent, Some (percent_decode session), SessionEvents)
      else None)"
| "match_agents_route _ = None"

definition parse_agents_route :: "string \<Rightarrow> (string \<times> string option \<times> AgentsRoute) option" where
  "parse_agents_route path = Option.bind (agents_segments path) match_agents_route"

datatype SessionMetadataRoute = Metadata | Extension string

fun match_metadata_route :: "string list \<Rightarrow> (string \<times> string \<times> SessionMetadataRoute) option" where
  "match_metadata_route [agent, s, session, leaf] =
     (if s = ''sessions'' \<and> leaf = ''metadata''
      then Some (percent_decode agent, percent_decode session, Metadata) else None)"
| "match_metadata_route [agent, s, session, leaf, ext, namespace] =
     (if s = ''sessions'' \<and> leaf = ''metadata'' \<and> ext = ''extensions''
      then Some (percent_decode agent, percent_decode session, Extension (percent_decode namespace))
      else None)"
| "match_metadata_route _ = None"

definition parse_session_metadata_route :: "string \<Rightarrow> (string \<times> string \<times> SessionMetadataRoute) option" where
  "parse_session_metadata_route path = Option.bind (agents_segments path) match_metadata_route"

fun is_attachments_segments :: "string list \<Rightarrow> bool" where
  "is_attachments_segments [agent, s, session, leaf] = (s = ''sessions'' \<and> leaf = ''attachments'')"
| "is_attachments_segments _ = False"

definition is_session_attachments_path :: "string \<Rightarrow> bool" where
  "is_session_attachments_path path =
     (case agents_segments path of None \<Rightarrow> False | Some segments \<Rightarrow> is_attachments_segments segments)"

fun is_attachment_blob_segments :: "string list \<Rightarrow> bool" where
  "is_attachment_blob_segments [agent, s, session, leaf, cid] = (s = ''sessions'' \<and> leaf = ''attachments'')"
| "is_attachment_blob_segments _ = False"

definition is_session_attachment_blob_path :: "string \<Rightarrow> bool" where
  "is_session_attachment_blob_path path =
     (case agents_segments path of None \<Rightarrow> False | Some segments \<Rightarrow> is_attachment_blob_segments segments)"

fun match_session_segments :: "string list \<Rightarrow> (string \<times> string \<times> string list) option" where
  "match_session_segments (agent # s # session # remaining) =
     (if s \<noteq> ''sessions'' then None
      else let a = percent_decode agent; t = percent_decode session
           in if \<not> is_safe_agent_path a \<or> \<not> is_safe_path_segment t then None
              else Some (a, t, remaining))"
| "match_session_segments _ = None"

definition parse_agent_session_segments :: "string \<Rightarrow> (string \<times> string \<times> string list) option" where
  "parse_agent_session_segments path = Option.bind (agents_segments path) match_session_segments"

definition parse_session_attachments_path :: "string \<Rightarrow> (string \<times> string) option" where
  "parse_session_attachments_path path =
     Option.bind (parse_agent_session_segments path) (\<lambda>(agent, session, remaining).
       if remaining = [''attachments''] then Some (agent, session) else None)"

definition parse_session_attachment_blob_path :: "string \<Rightarrow> (string \<times> string \<times> string) option" where
  "parse_session_attachment_blob_path path =
     Option.bind (parse_agent_session_segments path) (\<lambda>(agent, session, remaining).
       case remaining of
         [leaf, cid] \<Rightarrow> if leaf = ''attachments'' then Some (agent, session, percent_decode cid) else None
       | _ \<Rightarrow> None)"

datatype ResourceRoute = CidRoute | AgentTree

definition resource_route :: "string \<Rightarrow> ResourceRoute option" where
  "resource_route path =
     (if starts_with path ''/v1/cid/'' then Some CidRoute
      else if starts_with path AGENTS_PREFIX then Some AgentTree
      else None)"

definition query_requests_assistant_role :: "string option \<Rightarrow> bool" where
  "query_requests_assistant_role query =
     (case query of
        None \<Rightarrow> False
      | Some q \<Rightarrow> list_ex (\<lambda>pair. splitn2 (CHR ''='') pair = (''role'', Some ''assistant'')) (split_on (CHR ''&'') q))"

text \<open>The handler \<open>dispatch_request\<close> selects once the guard has passed.\<close>

datatype Handler =
    Embeddings | Rerank | ListModels | ListAgents | GetAttachment | UploadAttachments
  | Resource ResourceRoute | ListRags | SearchRag | WebAsset | NoRoute

definition select_handler :: "Method \<Rightarrow> string \<Rightarrow> Handler" where
  "select_handler m path =
     (if path = ''/v1/embeddings'' then Embeddings
      else if path = ''/v1/rerank'' then Rerank
      else if path = ''/v1/models'' then ListModels
      else if path = ''/v1/agents'' then ListAgents
      else if is_session_attachment_blob_path path then GetAttachment
      else if is_session_attachments_path path then UploadAttachments
      else (case resource_route path of
              Some route \<Rightarrow> Resource route
            | None \<Rightarrow>
                if path = ''/v1/rags'' then ListRags
                else if path = ''/v1/rags/search'' then SearchRag
                else if m = GET \<or> m = HEAD then WebAsset
                else NoRoute))"

section \<open>Content negotiation\<close>

datatype AgentsRepresentation = Html | Json | AgUiSse | AgUiRpc

definition accept_fields :: "http_lib \<Rightarrow> HeaderMap \<Rightarrow> string list" where
  "accept_fields http headers = filter_map (value_to_str http) (headers ''accept'')"

definition accepts_html :: "http_lib \<Rightarrow> HeaderMap \<Rightarrow> bool" where
  "accepts_html http headers = list_ex (\<lambda>v. str_contains v ''text/html'') (accept_fields http headers)"

definition wants_html :: "http_lib \<Rightarrow> HeaderMap \<Rightarrow> bool" where
  "wants_html http headers =
     list_ex (\<lambda>v. list_ex (\<lambda>item. starts_with (str_trim item) ''text/html'') (split_on (CHR '','') v))
       (accept_fields http headers)"

text \<open>
  \<open>str::parse::<f32>\<close>, as far as the quality parameter needs it: \<open>None\<close> for text that is no number,
  otherwise whether the value is at most zero. A finite decimal rounds to zero when it is at most
  half the smallest subnormal, \<open>2 ^ -150\<close>.
\<close>

definition decimal_digits :: "string \<Rightarrow> bool" where
  "decimal_digits s = list_all is_digit s"

definition parse_exponent :: "string \<Rightarrow> int option" where
  "parse_exponent s =
     (case s of
        [] \<Rightarrow> None
      | c # rest \<Rightarrow>
          let neg = (c = CHR ''-''); digits = (if neg \<or> c = CHR ''+'' then rest else s)
          in if digits \<noteq> [] \<and> decimal_digits digits
             then Some (if neg then - int (digits_value digits) else int (digits_value digits))
             else None)"

definition split_exponent :: "string \<Rightarrow> string \<times> string option" where
  "split_exponent s = splitn2 (CHR ''e'') (map to_ascii_lowercase s)"

text \<open>The magnitude of a number without its sign: whether it is zero once rounded.\<close>

definition magnitude_is_zero :: "string \<Rightarrow> bool option" where
  "magnitude_is_zero s =
     (case split_exponent s of (mantissa, expo) \<Rightarrow>
       case splitn2 (CHR ''.'') mantissa of (whole, fraction) \<Rightarrow>
         let frac = (case fraction of Some f \<Rightarrow> f | None \<Rightarrow> []);
             digits = whole @ frac;
             e = (case expo of None \<Rightarrow> Some 0 | Some x \<Rightarrow> parse_exponent x)
         in case e of
              None \<Rightarrow> None
            | Some ex \<Rightarrow>
                if digits = [] \<or> \<not> decimal_digits digits then None
                else let d = digits_value digits; k = ex - int (length frac)
                     in Some (d = 0 \<or> k < 0 \<and> d * 2 ^ 150 \<le> 10 ^ nat (- k)))"

definition f32_le_zero :: "string \<Rightarrow> bool option" where
  "f32_le_zero s =
     (case s of
        [] \<Rightarrow> None
      | c # rest \<Rightarrow>
          let neg = (c = CHR ''-''); body = (if neg \<or> c = CHR ''+'' then rest else s)
          in if eq_ignore_ascii_case body ''nan'' then Some False
             else if eq_ignore_ascii_case body ''inf'' \<or> eq_ignore_ascii_case body ''infinity'' then Some neg
             else map_option (\<lambda>zero. neg \<or> zero) (magnitude_is_zero body))"

text \<open>\<open>split\<close> never yields an empty iterator, so \<open>next\<close> is the head.\<close>

fun quality_allows :: "string list \<Rightarrow> bool" where
  "quality_allows [] = True"
| "quality_allows (param # params) =
     (case splitn2 (CHR ''='') param of (name, rest) \<Rightarrow>
        let v = trim_matches (CHR 0x22) (str_trim (case rest of Some r \<Rightarrow> r | None \<Rightarrow> []))
        in if eq_ignore_ascii_case (str_trim name) ''q'' then
             (case f32_le_zero v of
                Some True \<Rightarrow> False
              | Some False \<Rightarrow> quality_allows params
              | None \<Rightarrow> False)
           else quality_allows params)"

definition accept_header_allows_event_stream :: "string \<Rightarrow> bool" where
  "accept_header_allows_event_stream v =
     list_ex (\<lambda>item. let parts = split_on (CHR '';'') item
                     in eq_ignore_ascii_case (str_trim (hd parts)) ''text/event-stream'' \<and>
                        quality_allows (tl parts))
       (split_on (CHR '','') v)"

definition accepts_event_stream :: "http_lib \<Rightarrow> HeaderMap \<Rightarrow> bool" where
  "accepts_event_stream http headers =
     list_ex accept_header_allows_event_stream (accept_fields http headers)"

definition content_type_is_json :: "http_lib \<Rightarrow> HeaderMap \<Rightarrow> bool" where
  "content_type_is_json http headers =
     (case Option.bind (headers_get headers ''content-type'') (value_to_str http) of
        None \<Rightarrow> False
      | Some v \<Rightarrow> eq_ignore_ascii_case (str_trim (hd (split_on (CHR '';'') v))) ''application/json'')"

definition negotiate_agents_route ::
    "http_lib \<Rightarrow> Method \<Rightarrow> HeaderMap \<Rightarrow> AgentsRoute \<Rightarrow> string + AgentsRepresentation" where
  "negotiate_agents_route http m headers route =
     (if m = GET \<and> (route = AgentRoute \<or> route = SessionRoute) then
        if accepts_html http headers then Inr Html else Inr Json
      else if m = GET \<and> route = SessionHistory then Inr Json
      else if (m = GET \<or> m = POST) \<and> route = SessionsRoute then Inr Json
      else if m = GET \<and> route = SessionEvents \<and> accepts_event_stream http headers then Inr AgUiSse
      else if m = POST \<and> route = SessionRoute then
        if accepts_event_stream http headers then Inr AgUiSse
        else if content_type_is_json http headers then Inr AgUiRpc
        else Inl ''Not Acceptable''
      else Inl ''Method Not Allowed'')"

section \<open>Agent references\<close>

datatype AgentRef = LocalAgent string | RemoteAgent string string

definition parse_agent_ref :: "string \<Rightarrow> AgentRef" where
  "parse_agent_ref raw =
     (case rsplit_once raw ''@'' of
        Some (agent, cluster) \<Rightarrow> RemoteAgent agent cluster
      | None \<Rightarrow> LocalAgent raw)"

datatype NatsRouting = DefaultRouting | FrontendLocal | ClusterRouting string

definition LOCAL_CLUSTER_KEY :: string where
  "LOCAL_CLUSTER_KEY = ''__local__''"

record ResolvedAgentTarget =
  target_agent :: string
  target_cluster :: string

definition agent_display_ref :: "string \<Rightarrow> string \<Rightarrow> string option \<Rightarrow> string" where
  "agent_display_ref name cluster default_cluster =
     (if cluster = LOCAL_CLUSTER_KEY \<or> Some cluster = default_cluster then name
      else name @ ''@'' @ cluster)"

definition default_cluster_for_display :: "NatsRouting \<Rightarrow> string option" where
  "default_cluster_for_display routing = (case routing of ClusterRouting cluster \<Rightarrow> Some cluster | _ \<Rightarrow> None)"

definition display_ref_with_default_cluster :: "ResolvedAgentTarget \<Rightarrow> string option \<Rightarrow> string" where
  "display_ref_with_default_cluster target default_cluster =
     agent_display_ref (target_agent target) (target_cluster target) default_cluster"

definition agent_not_found :: "string \<Rightarrow> AgUiError" where
  "agent_not_found agent_ref =
     NotFoundError (''agent '' @ [CHR 0x27] @ agent_ref @ [CHR 0x27] @ '' not found'')"

text \<open>
  What the guards read outside the request: the routing configuration, the agents that exist, the
  configured clusters, the agent activation (\<open>Config::use_agent\<close>, which leaves the remote or
  the local agent it selected), the SHA-256 of the JSON pair that keys a session, and the session
  metadata store. In \<open>env_owner\<close> the outer \<open>None\<close> means missing metadata, the inner
  one a session without an owner.
\<close>

record agent_env =
  env_routing :: NatsRouting
  env_agent_exists :: "string \<Rightarrow> bool"
  env_nats_server :: "string \<Rightarrow> string + unit"
  env_use_agent :: "string \<Rightarrow> string + (string \<times> string) option \<times> string option"
  env_sha256 :: "string \<Rightarrow> string"
  env_identity_json :: "string option \<times> string \<Rightarrow> string"
  env_owner :: "string \<Rightarrow> string \<Rightarrow> string + string option option"

definition session_key :: "agent_env \<Rightarrow> string option \<Rightarrow> string \<Rightarrow> string" where
  "session_key env agent session_id = env_sha256 env (env_identity_json env (agent, session_id))"

definition normalize_agent_reference :: "agent_env \<Rightarrow> string \<Rightarrow> string" where
  "normalize_agent_reference env agent_ref =
     (case (parse_agent_ref agent_ref, env_routing env) of
        (LocalAgent _, ClusterRouting cluster) \<Rightarrow> agent_ref @ ''@'' @ cluster
      | _ \<Rightarrow> agent_ref)"

definition validate_agent_reference :: "agent_env \<Rightarrow> string \<Rightarrow> AgUiError + unit" where
  "validate_agent_reference env agent_ref =
     (case parse_agent_ref agent_ref of
        LocalAgent agent \<Rightarrow>
          if \<not> is_safe_agent_path agent then Inl (agent_not_found agent_ref)
          else if env_agent_exists env agent then Inr ()
          else Inl (agent_not_found agent_ref)
      | RemoteAgent agent cluster \<Rightarrow>
          if \<not> is_safe_agent_path agent then Inl (agent_not_found agent_ref)
          else (case env_nats_server env cluster of Inl err \<Rightarrow> Inl (BadRequest err) | Inr _ \<Rightarrow> Inr ()))"

definition resolved_target ::
    "(string \<times> string) option \<Rightarrow> string option \<Rightarrow> string \<Rightarrow> AgUiError + ResolvedAgentTarget" where
  "resolved_target remote_agent agent agent_ref =
     (case remote_agent of
        Some (name, cluster) \<Rightarrow> Inr \<lparr>target_agent = name, target_cluster = cluster\<rparr>
      | None \<Rightarrow>
          (case agent of
             Some name \<Rightarrow> Inr \<lparr>target_agent = name, target_cluster = LOCAL_CLUSTER_KEY\<rparr>
           | None \<Rightarrow> Inl (Internal (''agent resolver did not activate '' @ [CHR 0x27] @ agent_ref @ [CHR 0x27]))))"

definition resolve_agent_target :: "agent_env \<Rightarrow> string \<Rightarrow> AgUiError + ResolvedAgentTarget" where
  "resolve_agent_target env agent_ref =
     (let normalized = normalize_agent_reference env agent_ref
      in case validate_agent_reference env normalized of
           Inl err \<Rightarrow> Inl err
         | Inr _ \<Rightarrow>
             (case env_use_agent env normalized of
                Inl err \<Rightarrow>
                  Inl (Internal (''failed to resolve agent '' @ [CHR 0x27] @ normalized @ [CHR 0x27] @ '': '' @ err))
              | Inr (remote_agent, agent) \<Rightarrow> resolved_target remote_agent agent normalized))"

section \<open>Access guards\<close>

function trim_start_matches_str :: "string \<Rightarrow> string \<Rightarrow> string" where
  "trim_start_matches_str s p =
     (if p \<noteq> [] \<and> prefix p s then trim_start_matches_str (drop (length p) s) p else s)"
  by pat_completeness auto
termination
  by (relation "measure (\<lambda>(s, p). length s)") (auto simp: prefix_def)

declare trim_start_matches_str.simps [simp del]

definition guard_session_request ::
    "('glob, 'gset, 'err) globset \<Rightarrow> agent_env \<Rightarrow> Method \<Rightarrow> string \<Rightarrow> ResolvedAgentTarget
       \<Rightarrow> 'gset AccessRules \<Rightarrow> CallerView \<Rightarrow> string + unit" where
  "guard_session_request lib env m path target rules caller =
     (case tl (path_segments (trim_start_matches_str path AGENTS_PREFIX)) of
        [] \<Rightarrow> Inr ()
      | s # rest \<Rightarrow>
          if s \<noteq> ''sessions'' then Inr ()
          else let agent_ref = display_ref_with_default_cluster target (default_cluster_for_display (env_routing env))
               in case rest of
                    [] \<Rightarrow>
                      if m = POST \<and> \<not> can_create_session lib rules agent_ref caller
                      then Inl (''session creation requires prompt scope'' @ ERROR_STATUS_MARKER @ ''403'')
                      else Inr ()
                  | encoded # _ \<Rightarrow>
                      let session = percent_decode encoded
                      in if \<not> is_safe_path_segment session then Inl ''Not Found''
                         else (case env_owner env (target_cluster target)
                                      (session_key env (Some (target_agent target)) session) of
                                 Inl err \<Rightarrow> Inl err
                               | Inr None \<Rightarrow> Inl ''Not Found''
                               | Inr (Some owner) \<Rightarrow>
                                   if can_access_session lib rules agent_ref caller owner then Inr ()
                                   else Inl ''Not Found''))"

definition guard_agent_request ::
    "('glob, 'gset, 'err) globset \<Rightarrow> agent_env \<Rightarrow> 'gset server_policy \<Rightarrow> RequestIdentity option
       \<Rightarrow> Method \<Rightarrow> string \<Rightarrow> string + (string \<times> ResolvedAgentTarget) option" where
  "guard_agent_request lib env sv ext m path =
     (case sv_access_rules sv of
        None \<Rightarrow> Inr None
      | Some rules \<Rightarrow>
          (case strip_prefix_str path AGENTS_PREFIX of
             None \<Rightarrow> Inr None
           | Some rest \<Rightarrow>
               (case find (\<lambda>segment. segment \<noteq> []) (split_on (CHR ''/'') rest) of
                  None \<Rightarrow> Inr None
                | Some agent \<Rightarrow>
                    let agent_ref = percent_decode agent
                    in case resolve_agent_target env agent_ref of
                         Inl err \<Rightarrow> Inl (ag_ui_error_to_anyhow err)
                       | Inr target \<Rightarrow>
                           let caller = request_caller (identity_of ext);
                               display = display_ref_with_default_cluster target
                                 (default_cluster_for_display (env_routing env))
                           in if \<not> can_see_agent lib rules display caller
                              then Inl (ag_ui_error_to_anyhow (agent_not_found
                                     (display_ref_with_default_cluster target None)))
                              else (case guard_session_request lib env m path target rules caller of
                                      Inl err \<Rightarrow> Inl err
                                    | Inr _ \<Rightarrow> Inr (Some (agent_ref, target))))))"

definition resolve_request_agent ::
    "agent_env \<Rightarrow> (string \<times> ResolvedAgentTarget) option \<Rightarrow> string \<Rightarrow> string + ResolvedAgentTarget" where
  "resolve_request_agent env resolved agent_ref =
     (let fresh = (case resolve_agent_target env agent_ref of
                     Inl err \<Rightarrow> Inl (ag_ui_error_to_anyhow err)
                   | Inr target \<Rightarrow> Inr target)
      in case resolved of
           Some (r, target) \<Rightarrow> if r = agent_ref then Inr target else fresh
         | None \<Rightarrow> fresh)"

section \<open>Dispatch\<close>

text \<open>
  What the agent routes do once the agent is resolved, with the session they act on. The handlers'
  own work (NATS reads, streams, uploads) is not part of the model.
\<close>

datatype AgentAction =
    AgentPage | AgentJson | CreateSession | ListSessions
  | SessionPage string | SessionHistoryJson string | AgUiRun string | AgUiCall string
  | HistoryPage string | EventStream string | SessionMetadata string SessionMetadataRoute
  | ServeAttachment string string | StoreAttachments string

definition action_session :: "AgentAction \<Rightarrow> string option" where
  "action_session action =
     (case action of
        SessionPage s \<Rightarrow> Some s | SessionHistoryJson s \<Rightarrow> Some s | AgUiRun s \<Rightarrow> Some s
      | AgUiCall s \<Rightarrow> Some s | HistoryPage s \<Rightarrow> Some s | EventStream s \<Rightarrow> Some s
      | SessionMetadata s _ \<Rightarrow> Some s | ServeAttachment s _ \<Rightarrow> Some s | StoreAttachments s \<Rightarrow> Some s
      | _ \<Rightarrow> None)"

text \<open>
  What dispatch comes to: an action on a resolved agent, a response with its status and error text,
  or a handler outside the agent routes.
\<close>

datatype Outcome = Act ResolvedAgentTarget AgentAction | Respond nat string | Run Handler

definition handle_sessions_route ::
    "http_lib \<Rightarrow> Method \<Rightarrow> HeaderMap \<Rightarrow> string + AgentAction" where
  "handle_sessions_route http m headers =
     (case negotiate_agents_route http m headers SessionsRoute of
        Inl err \<Rightarrow> Inl err
      | Inr Json \<Rightarrow> Inr (if m = POST then CreateSession else ListSessions)
      | Inr _ \<Rightarrow> Inl ''Not Acceptable'')"

definition handle_session_events_route ::
    "http_lib \<Rightarrow> Method \<Rightarrow> HeaderMap \<Rightarrow> string \<Rightarrow> string + AgentAction" where
  "handle_session_events_route http m headers session =
     (case negotiate_agents_route http m headers SessionEvents of
        Inl err \<Rightarrow> Inl err
      | Inr AgUiSse \<Rightarrow> Inr (EventStream session)
      | Inr _ \<Rightarrow> Inl ''Not Acceptable'')"

definition handle_agent_session ::
    "http_lib \<Rightarrow> Method \<Rightarrow> HeaderMap \<Rightarrow> string \<Rightarrow> string + AgentAction" where
  "handle_agent_session http m headers session =
     (case negotiate_agents_route http m headers SessionRoute of
        Inl err \<Rightarrow> Inl err
      | Inr Html \<Rightarrow> Inr (SessionPage session)
      | Inr Json \<Rightarrow> Inr (SessionHistoryJson session)
      | Inr AgUiSse \<Rightarrow> Inr (AgUiRun session)
      | Inr AgUiRpc \<Rightarrow> Inr (AgUiCall session))"

definition session_history_page ::
    "http_lib \<Rightarrow> Method \<Rightarrow> HeaderMap \<Rightarrow> string \<Rightarrow> string + AgentAction" where
  "session_history_page http m headers session =
     (case negotiate_agents_route http m headers SessionHistory of
        Inl err \<Rightarrow> Inl err
      | Inr _ \<Rightarrow> Inr (HistoryPage session))"

definition handle_agent_page :: "http_lib \<Rightarrow> Method \<Rightarrow> HeaderMap \<Rightarrow> string + AgentAction" where
  "handle_agent_page http m headers =
     (case negotiate_agents_route http m headers AgentRoute of
        Inl err \<Rightarrow> Inl err
      | Inr Html \<Rightarrow> Inr AgentPage
      | Inr Json \<Rightarrow> Inr AgentJson
      | Inr _ \<Rightarrow> Inl ''Not Acceptable'')"

text \<open>A route with a session name carries it; the \<open>expect\<close>s of the code are error values.\<close>

definition handle_agent_tree ::
    "http_lib \<Rightarrow> agent_env \<Rightarrow> (string \<times> ResolvedAgentTarget) option \<Rightarrow> Method \<Rightarrow> HeaderMap \<Rightarrow> string
       \<Rightarrow> string + Outcome" where
  "handle_agent_tree http env resolved m headers path =
     (case parse_session_metadata_route path of
        Some (agent_ref, session, route) \<Rightarrow>
          (case resolve_request_agent env resolved agent_ref of
             Inl err \<Rightarrow> Inl err
           | Inr target \<Rightarrow> Inr (Act target (SessionMetadata session route)))
      | None \<Rightarrow>
          (case parse_agents_route path of
             None \<Rightarrow> Inl ''Not Found''
           | Some (agent_ref, session_name, route) \<Rightarrow>
               (case resolve_request_agent env resolved agent_ref of
                  Inl err \<Rightarrow> Inl err
                | Inr target \<Rightarrow>
                    map_sum id (Act target)
                      (case (route, session_name) of
                         (AgentRoute, _) \<Rightarrow> handle_agent_page http m headers
                       | (SessionsRoute, _) \<Rightarrow> handle_sessions_route http m headers
                       | (SessionRoute, Some session) \<Rightarrow> handle_agent_session http m headers session
                       | (SessionHistory, Some session) \<Rightarrow> session_history_page http m headers session
                       | (SessionEvents, Some session) \<Rightarrow> handle_session_events_route http m headers session
                       | (_, None) \<Rightarrow> Inl ''route has no session name''))))"

definition get_session_attachment ::
    "agent_env \<Rightarrow> (string \<Rightarrow> bool) \<Rightarrow> (string \<times> ResolvedAgentTarget) option \<Rightarrow> Method \<Rightarrow> string
       \<Rightarrow> string + Outcome" where
  "get_session_attachment env canonical_cid resolved m path =
     (if m \<noteq> GET then Inl ''Method Not Allowed''
      else (case parse_session_attachment_blob_path path of
              None \<Rightarrow> Inl ''Not Found''
            | Some (agent_ref, session, cid) \<Rightarrow>
                if \<not> canonical_cid cid then Inr (Respond 400 ''malformed attachment cid'')
                else (case resolve_request_agent env resolved agent_ref of
                        Inl err \<Rightarrow> Inl err
                      | Inr target \<Rightarrow> Inr (Act target (ServeAttachment session cid)))))"

definition MAX_UPLOAD_BYTES :: nat where
  "MAX_UPLOAD_BYTES = 20 * 1024 * 1024"

definition request_is_oversized :: "http_lib \<Rightarrow> nat \<Rightarrow> HeaderMap \<Rightarrow> bool" where
  "request_is_oversized http usize_max headers =
     (case Option.bind (Option.bind (headers_get headers ''content-length'') (value_to_str http))
             (parse_uint usize_max) of
        Some n \<Rightarrow> MAX_UPLOAD_BYTES < n
      | None \<Rightarrow> False)"

text \<open>\<open>parse_boundary\<close> is \<open>multer\<close>'s.\<close>

definition upload_session_attachments ::
    "http_lib \<Rightarrow> nat \<Rightarrow> (string \<Rightarrow> string option) \<Rightarrow> agent_env \<Rightarrow> (string \<times> ResolvedAgentTarget) option
       \<Rightarrow> Method \<Rightarrow> HeaderMap \<Rightarrow> string \<Rightarrow> string + Outcome" where
  "upload_session_attachments http usize_max parse_boundary env resolved m headers path =
     (if m \<noteq> POST then Inl ''Method Not Allowed''
      else (case parse_session_attachments_path path of
              None \<Rightarrow> Inl ''Not Found''
            | Some (agent_ref, session) \<Rightarrow>
                if request_is_oversized http usize_max headers then Inr (Respond 413 ''payload too large'')
                else (case Option.bind (Option.bind (headers_get headers ''content-type'') (value_to_str http))
                             parse_boundary of
                        None \<Rightarrow> Inl ''Bad Request''
                      | Some _ \<Rightarrow>
                          (case resolve_request_agent env resolved agent_ref of
                             Inl err \<Rightarrow> Inl err
                           | Inr target \<Rightarrow> Inr (Act target (StoreAttachments session))))))"

record http_env =
  he_http :: http_lib
  he_usize_max :: nat
  he_parse_boundary :: "string \<Rightarrow> string option"
  he_canonical_cid :: "string \<Rightarrow> bool"
  he_agents :: agent_env

definition dispatch_request ::
    "('glob, 'gset, 'err) globset \<Rightarrow> http_env \<Rightarrow> 'gset server_policy \<Rightarrow> RequestIdentity option
       \<Rightarrow> Method \<Rightarrow> HeaderMap \<Rightarrow> string \<Rightarrow> string + Outcome" where
  "dispatch_request lib he sv ext m headers path =
     (case guard_agent_request lib (he_agents he) sv ext m path of
        Inl err \<Rightarrow> Inl err
      | Inr resolved \<Rightarrow>
          (case select_handler m path of
             GetAttachment \<Rightarrow> get_session_attachment (he_agents he) (he_canonical_cid he) resolved m path
           | UploadAttachments \<Rightarrow>
               upload_session_attachments (he_http he) (he_usize_max he) (he_parse_boundary he)
                 (he_agents he) resolved m headers path
           | Resource AgentTree \<Rightarrow> handle_agent_tree (he_http he) (he_agents he) resolved m headers path
           | NoRoute \<Rightarrow> Inl ''Not Found''
           | h \<Rightarrow> Inr (Run h)))"

text \<open>The status and public text \<open>handle\<close> answers with when no handler produced a response.\<close>

definition error_response :: "http_lib \<Rightarrow> string \<Rightarrow> nat \<times> string" where
  "error_response http err = (finalize_err_status http 200 err, public_error_message err)"

definition handle ::
    "('glob, 'gset, 'err) globset \<Rightarrow> http_env \<Rightarrow> 'gset server_policy \<Rightarrow> Method \<Rightarrow> HeaderMap \<Rightarrow> string
       \<Rightarrow> (nat \<times> string option) + Outcome" where
  "handle lib he sv m headers path =
     (case prepare_request (he_http he) sv m path headers of
        Inl early \<Rightarrow> Inl early
      | Inr ext \<Rightarrow>
          (case dispatch_request lib he sv ext m headers path of
             Inl err \<Rightarrow> (case error_response (he_http he) err of (status, message) \<Rightarrow> Inl (status, Some message))
           | Inr outcome \<Rightarrow> Inr outcome))"

section \<open>Laws of the routes\<close>

lemma find_filter_head: "find P xs = (case filter P xs of [] \<Rightarrow> None | x # _ \<Rightarrow> Some x)"
  by (induction xs) auto

lemma segments_agents_prefix:
  "path_segments (AGENTS_PREFIX @ rest) = ''v1'' # ''agents'' # path_segments rest"
  by (simp add: path_segments_def AGENTS_PREFIX_def split: list.splits)

text \<open>
  The session guard strips the prefix repeatedly where the routes strip it once; on a path with a
  session route both see the same segments.
\<close>

lemma session_guard_segments:
  assumes "agents_segments path = Some (a # ''sessions'' # rest)"
  shows "path_segments (trim_start_matches_str path AGENTS_PREFIX) = a # ''sessions'' # rest"
proof -
  obtain r where r: "path = AGENTS_PREFIX @ r" "path_segments r = a # ''sessions'' # rest"
    using assms by (auto simp: agents_segments_def dest!: strip_prefix_SomeD)
  have "\<not> prefix AGENTS_PREFIX r"
  proof
    assume "prefix AGENTS_PREFIX r"
    then obtain t where "r = AGENTS_PREFIX @ t" by (auto simp: prefix_def)
    with r(2) show False by (simp add: segments_agents_prefix)
  qed
  then have "trim_start_matches_str r AGENTS_PREFIX = r"
    by (subst trim_start_matches_str.simps) simp
  then have "trim_start_matches_str path AGENTS_PREFIX = r"
    unfolding r(1) by (subst trim_start_matches_str.simps) (simp add: AGENTS_PREFIX_def)
  with r(2) show ?thesis by simp
qed

definition session_checked ::
    "('glob, 'gset, 'err) globset \<Rightarrow> agent_env \<Rightarrow> 'gset AccessRules \<Rightarrow> CallerView \<Rightarrow> ResolvedAgentTarget \<Rightarrow> string \<Rightarrow> bool" where
  "session_checked lib env rules caller target session \<longleftrightarrow>
     is_safe_path_segment session \<and>
     (\<exists>owner. env_owner env (target_cluster target)
                (session_key env (Some (target_agent target)) session) = Inr (Some owner) \<and>
              can_access_session lib rules
                (display_ref_with_default_cluster target (default_cluster_for_display (env_routing env)))
                caller owner)"

lemma guard_session_request_InrD:
  assumes "guard_session_request lib env m path target rules caller = Inr ()"
    and "agents_segments path = Some (a # ''sessions'' # rest)"
  shows "rest = e # es \<Longrightarrow> session_checked lib env rules caller target (percent_decode e)"
    and "rest = [] \<Longrightarrow> m = POST \<Longrightarrow> can_create_session lib rules
      (display_ref_with_default_cluster target (default_cluster_for_display (env_routing env))) caller"
  using assms(1) session_guard_segments [OF assms(2)]
  by (auto simp: guard_session_request_def session_checked_def Let_def split: if_splits sum.splits option.splits)

lemma guard_agent_request_InrD:
  assumes "guard_agent_request lib env sv ext m path = Inr resolved"
    and "sv_access_rules sv = Some rules" and "agents_segments path = Some (a # segs)"
  shows "\<exists>target. resolved = Some (percent_decode a, target) \<and>
    resolve_agent_target env (percent_decode a) = Inr target \<and>
    can_see_agent lib rules
      (display_ref_with_default_cluster target (default_cluster_for_display (env_routing env)))
      (request_caller (identity_of ext)) \<and>
    guard_session_request lib env m path target rules (request_caller (identity_of ext)) = Inr ()"
proof -
  obtain r where r: "strip_prefix_str path AGENTS_PREFIX = Some r" "path_segments r = a # segs"
    using assms(3) by (auto simp: agents_segments_def)
  then have "find (\<lambda>s. s \<noteq> []) (split_on (CHR ''/'') r) = Some a"
    by (simp add: find_filter_head path_segments_def)
  with assms(1,2) r(1) show ?thesis
    by (auto simp: guard_agent_request_def Let_def split: sum.splits if_splits)
qed

lemma match_agents_route_SomeD:
  assumes "match_agents_route segs = Some (agent_ref, session, route)"
  shows "\<exists>a rest. segs = a # rest \<and> agent_ref = percent_decode a \<and>
    (route = SessionsRoute \<longrightarrow> rest = [''sessions'']) \<and>
    (\<forall>s. session = Some s \<longrightarrow> (\<exists>e es. rest = ''sessions'' # e # es \<and> s = percent_decode e))"
  using assms by (cases segs rule: match_agents_route.cases) (auto split: if_splits)

lemma match_metadata_route_SomeD:
  assumes "match_metadata_route segs = Some (agent_ref, session, route)"
  shows "\<exists>a e es. segs = a # ''sessions'' # e # es \<and> agent_ref = percent_decode a \<and> session = percent_decode e"
  using assms by (cases segs rule: match_metadata_route.cases) (auto split: if_splits)

lemma match_session_segments_SomeD:
  assumes "match_session_segments segs = Some (agent_ref, session, remaining)"
  shows "\<exists>a e. segs = a # ''sessions'' # e # remaining \<and> agent_ref = percent_decode a \<and> session = percent_decode e"
  using assms by (cases segs rule: match_session_segments.cases) (auto simp: Let_def split: if_splits)

text \<open>Every action on an agent stems from the segments the guard saw.\<close>

definition action_of_segments ::
    "agent_env \<Rightarrow> (string \<times> ResolvedAgentTarget) option \<Rightarrow> Method \<Rightarrow> string \<Rightarrow> ResolvedAgentTarget \<Rightarrow> AgentAction \<Rightarrow> bool" where
  "action_of_segments env resolved m path target action \<longleftrightarrow>
     (\<exists>a rest. agents_segments path = Some (a # rest) \<and>
        resolve_request_agent env resolved (percent_decode a) = Inr target \<and>
        (\<forall>s. action_session action = Some s \<longrightarrow> (\<exists>e es. rest = ''sessions'' # e # es \<and> s = percent_decode e)) \<and>
        (action = CreateSession \<longrightarrow> m = POST \<and> rest = [''sessions'']))"

lemma agent_actions_session:
  "handle_agent_page http m headers = Inr action \<Longrightarrow> action_session action = None \<and> action \<noteq> CreateSession"
  "handle_sessions_route http m headers = Inr action \<Longrightarrow>
     action_session action = None \<and> (action = CreateSession \<longrightarrow> m = POST)"
  "handle_agent_session http m headers s = Inr action \<Longrightarrow> action_session action = Some s"
  "session_history_page http m headers s = Inr action \<Longrightarrow> action_session action = Some s"
  "handle_session_events_route http m headers s = Inr action \<Longrightarrow> action_session action = Some s"
  by (auto simp: handle_agent_page_def handle_sessions_route_def handle_agent_session_def
      session_history_page_def handle_session_events_route_def action_session_def
      split: sum.splits AgentsRepresentation.splits if_splits)

lemma map_sum_Inr_iff: "map_sum f g r = Inr y \<longleftrightarrow> (\<exists>x. r = Inr x \<and> y = g x)"
  by (cases r) auto

lemma handle_agent_tree_action:
  assumes "handle_agent_tree http env resolved m headers path = Inr (Act target action)"
  shows "action_of_segments env resolved m path target action"
proof (cases "parse_session_metadata_route path")
  case (Some r)
  then obtain agent_ref session route where p: "parse_session_metadata_route path = Some (agent_ref, session, route)"
    by (cases r) auto
  then obtain segs where "agents_segments path = Some segs" "match_metadata_route segs = Some (agent_ref, session, route)"
    by (auto simp: parse_session_metadata_route_def bind_eq_Some_conv)
  with assms p show ?thesis
    by (fastforce simp: handle_agent_tree_def action_of_segments_def action_session_def
        split: sum.splits dest!: match_metadata_route_SomeD)
next
  case None
  with assms obtain agent_ref session route where p: "parse_agents_route path = Some (agent_ref, session, route)"
    by (auto simp: handle_agent_tree_def split: option.splits)
  then obtain segs where segs: "agents_segments path = Some segs" "match_agents_route segs = Some (agent_ref, session, route)"
    by (auto simp: parse_agents_route_def bind_eq_Some_conv)
  from match_agents_route_SomeD [OF segs(2)] obtain a rest where
    a: "segs = a # rest" "agent_ref = percent_decode a" "route = SessionsRoute \<longrightarrow> rest = [''sessions'']"
      "\<forall>s. session = Some s \<longrightarrow> (\<exists>e es. rest = ''sessions'' # e # es \<and> s = percent_decode e)" by blast
  from assms None p have t: "resolve_request_agent env resolved agent_ref = Inr target"
    by (auto simp: handle_agent_tree_def map_sum_Inr_iff split: sum.splits)
  have "(\<forall>s. action_session action = Some s \<longrightarrow> session = Some s) \<and>
      (action = CreateSession \<longrightarrow> m = POST \<and> route = SessionsRoute)"
    using assms None p t
    by (cases route; cases session)
      (auto simp: handle_agent_tree_def map_sum_Inr_iff action_session_def [of CreateSession]
        dest!: agent_actions_session)
  with a t segs(1) show ?thesis by (auto simp: action_of_segments_def)
qed

lemma attachment_action:
  assumes "parse_agent_session_segments path = Some (agent_ref, session, remaining)"
    and "resolve_request_agent env resolved agent_ref = Inr target"
    and "action_session action = Some session" "action \<noteq> CreateSession"
  shows "action_of_segments env resolved m path target action"
  using assms
  by (fastforce simp: parse_agent_session_segments_def bind_eq_Some_conv action_of_segments_def
      dest!: match_session_segments_SomeD)

lemma parse_session_attachment_blob_path_SomeD:
  "parse_session_attachment_blob_path path = Some (agent_ref, session, cid) \<Longrightarrow>
     \<exists>remaining. parse_agent_session_segments path = Some (agent_ref, session, remaining)"
  unfolding parse_session_attachment_blob_path_def bind_eq_Some_conv
  by (elim exE conjE) (auto split: list.split_asm if_split_asm)

lemma dispatch_action:
  assumes "dispatch_request lib he sv ext m headers path = Inr (Act target action)"
  shows "\<exists>resolved. guard_agent_request lib (he_agents he) sv ext m path = Inr resolved \<and>
    action_of_segments (he_agents he) resolved m path target action"
proof -
  obtain resolved where g: "guard_agent_request lib (he_agents he) sv ext m path = Inr resolved"
    using assms by (auto simp: dispatch_request_def split: sum.splits)
  have "action_of_segments (he_agents he) resolved m path target action"
  proof (cases "select_handler m path")
    case GetAttachment
    with assms g obtain agent_ref session cid
      where "parse_session_attachment_blob_path path = Some (agent_ref, session, cid)"
        "resolve_request_agent (he_agents he) resolved agent_ref = Inr target" "action = ServeAttachment session cid"
      by (auto simp: dispatch_request_def get_session_attachment_def split: if_splits option.splits sum.splits)
    moreover from this obtain remaining where "parse_agent_session_segments path = Some (agent_ref, session, remaining)"
      using parse_session_attachment_blob_path_SomeD by blast
    ultimately show ?thesis by (auto simp: action_session_def intro: attachment_action)
  next
    case UploadAttachments
    with assms g obtain agent_ref session
      where "parse_session_attachments_path path = Some (agent_ref, session)"
        "resolve_request_agent (he_agents he) resolved agent_ref = Inr target" "action = StoreAttachments session"
      by (auto simp: dispatch_request_def upload_session_attachments_def split: if_splits option.splits sum.splits)
    then show ?thesis
      by (auto simp: parse_session_attachments_path_def bind_eq_Some_conv action_session_def
          split: if_splits intro: attachment_action)
  next
    case (Resource r)
    with assms g show ?thesis
      by (cases r) (auto simp: dispatch_request_def intro: handle_agent_tree_action)
  qed (use assms g in \<open>auto simp: dispatch_request_def\<close>)
  with g show ?thesis by blast
qed

section \<open>Properties\<close>

text \<open>
  C29: With access rules configured, nothing under the agent routes is reached without a check. When a
  request comes to an action on an agent, the caller has a user identity and may see that
  agent; when the action is on a session, that very session's metadata exists and the
  rules let the caller access it under its recorded owner, whatever escapes and repeated slashes
  the path was written with; and a session is created only with the prompt scope.
\<close>

theorem agent_actions_authorized:
  assumes "handle lib he sv m headers path = Inr (Act target action)"
    and "sv_access_rules sv = Some rules"
  shows "\<exists>ext u. prepare_request (he_http he) sv m path headers = Inr ext \<and>
    req_user_id (identity_of ext) = Some u \<and> u \<noteq> [] \<and>
    (let caller = request_caller (identity_of ext);
         display = display_ref_with_default_cluster target
           (default_cluster_for_display (env_routing (he_agents he)))
     in can_see_agent lib rules display caller \<and>
        (\<forall>s. action_session action = Some s \<longrightarrow> session_checked lib (he_agents he) rules caller target s) \<and>
        (action = CreateSession \<longrightarrow> can_create_session lib rules display caller))"
proof -
  from assms(1) obtain ext where ext: "prepare_request (he_http he) sv m path headers = Inr ext"
    and d: "dispatch_request lib he sv ext m headers path = Inr (Act target action)"
    by (auto simp: handle_def split: sum.splits prod.splits)
  from dispatch_action [OF d] obtain resolved
    where g: "guard_agent_request lib (he_agents he) sv ext m path = Inr resolved"
      and act: "action_of_segments (he_agents he) resolved m path target action" by blast
  from act obtain a rest
    where seg: "agents_segments path = Some (a # rest)"
      and t: "resolve_request_agent (he_agents he) resolved (percent_decode a) = Inr target"
      and s: "\<forall>s. action_session action = Some s \<longrightarrow> (\<exists>e es. rest = ''sessions'' # e # es \<and> s = percent_decode e)"
      and c: "action = CreateSession \<longrightarrow> m = POST \<and> rest = [''sessions'']"
    unfolding action_of_segments_def by (elim exE conjE) (rule that)
  from guard_agent_request_InrD [OF g assms(2) seg] t
  have see: "can_see_agent lib rules (display_ref_with_default_cluster target
        (default_cluster_for_display (env_routing (he_agents he)))) (request_caller (identity_of ext))"
    and guard: "guard_session_request lib (he_agents he) m path target rules (request_caller (identity_of ext)) = Inr ()"
    by (auto simp: resolve_request_agent_def Let_def)
  have "requires_user_identity sv path"
    using seg assms(2) strip_prefix_SomeD
    by (fastforce simp: requires_user_identity_def agents_segments_def AGENTS_PREFIX_def starts_with_def)
  moreover have "m \<noteq> OPTIONS" using ext by (auto simp: prepare_request_def)
  ultimately obtain u where u: "req_user_id (identity_of ext) = Some u" "u \<noteq> []"
    using admitted_identity [OF ext] by blast
  have checked: "session_checked lib (he_agents he) rules (request_caller (identity_of ext)) target x"
    if x: "action_session action = Some x" for x
  proof -
    from s x obtain e es where e: "rest = ''sessions'' # e # es" "x = percent_decode e" by blast
    from guard_session_request_InrD(1) [OF guard seg [unfolded e(1)] refl] e(2) show ?thesis by simp
  qed
  have create: "can_create_session lib rules (display_ref_with_default_cluster target
      (default_cluster_for_display (env_routing (he_agents he)))) (request_caller (identity_of ext))"
    if "action = CreateSession"
  proof -
    from c that have "m = POST" "rest = [''sessions'']" by auto
    from guard_session_request_InrD(2) [OF guard seg [unfolded this(2)] refl this(1)] show ?thesis .
  qed
  show ?thesis
    unfolding Let_def using ext u see checked create by (intro exI [of _ ext] exI [of _ u]) simp
qed

definition demo_agents :: agent_env where
  "demo_agents =
     \<lparr>env_routing = DefaultRouting, env_agent_exists = (\<lambda>a. a = ''coder''), env_nats_server = (\<lambda>c. Inl c),
      env_use_agent = (\<lambda>a. Inr (None, Some a)), env_sha256 = id,
      env_identity_json = (\<lambda>(a, s). (case a of Some x \<Rightarrow> x | None \<Rightarrow> []) @ ''/'' @ s),
      env_owner = (\<lambda>_ key. if key = ''coder/s1'' then Inr (Some (Some ''ann'')) else Inr None)\<rparr>"

definition demo_http :: http_env where
  "demo_http =
     \<lparr>he_http = plain_http, he_usize_max = 100, he_parse_boundary = (\<lambda>_. None),
      he_canonical_cid = (\<lambda>_. True), he_agents = demo_agents\<rparr>"

definition demo_server :: "string list server_policy" where
  "demo_server =
     \<lparr>sv_identity_sources = [Header ''x-user''], sv_group_headers = [], sv_role_headers = [],
      sv_user_aliases = None, sv_access_rules = Some demo_compiled\<rparr>"

definition ann_headers :: HeaderMap where
  "ann_headers = (\<lambda>_. [])(''x-user'' := [''ann''])"

definition coder_target :: ResolvedAgentTarget where
  "coder_target = \<lparr>target_agent = ''coder'', target_cluster = LOCAL_CLUSTER_KEY\<rparr>"

lemma demo_handle:
  "handle exact_globs demo_http demo_server GET ann_headers ''/v1/agents//coder/sessions/s%31/history'' =
     Inr (Act coder_target (HistoryPage ''s1''))"
  by code_simp

theorem agent_actions_authorized_witness:
  "session_checked exact_globs demo_agents demo_compiled
     \<lparr>caller_users = [''ann''], caller_groups = [], caller_roles = []\<rparr> coder_target ''s1''"
proof -
  have "prepare_request (he_http demo_http) demo_server GET ''/v1/agents//coder/sessions/s%31/history'' ann_headers =
      Inr (Some \<lparr>req_user_id = Some ''ann'', req_groups = [], req_roles = [], req_expanded_users = None\<rparr>)"
    by code_simp
  moreover have "sv_access_rules demo_server = Some demo_compiled" by (simp add: demo_server_def)
  ultimately show ?thesis
    using agent_actions_authorized [OF demo_handle, of demo_compiled]
    by (auto simp: Let_def identity_of_def request_caller_def action_session_def demo_http_def)
qed

text \<open>
  C37: A handler's error keeps its status and hides the marker: as long as the public text does not
  itself contain the marker, the client gets exactly that text with the status of the
  error. Text that does contain it (an agent reference copied from the path can) loses
  the status, and the answer degrades to a bad request.
\<close>

theorem error_status_read_back:
  assumes "\<forall>c \<in> {400, 404, 409, 500}. status_from_u16 http c = Some c"
  shows "error_response http (ag_ui_error_to_anyhow e) =
    (if str_contains (ag_ui_error_text e) ERROR_STATUS_MARKER
     then (400, public_error_message (ag_ui_error_text e))
     else (ag_ui_status_code e, ag_ui_error_text e))"
proof -
  let ?text = "ag_ui_error_text e" and ?status = "show_nat (ag_ui_status_code e)"
  have marker: "ERROR_STATUS_MARKER = ''::__status'' @ [CHR ''='']" by (simp add: ERROR_STATUS_MARKER_def)
  have colon: "CHR '':'' \<in> set (ag_ui_error_to_anyhow e)"
    by (simp add: ag_ui_error_to_anyhow_def ERROR_STATUS_MARKER_def)
  then have named: "ag_ui_error_to_anyhow e \<notin> {''Not Found'', ''Method Not Allowed'', ''Not Acceptable''}"
    by auto
  show ?thesis
  proof (cases "str_contains ?text ERROR_STATUS_MARKER")
    case True
    from split_once_contains [OF this, of "ERROR_STATUS_MARKER @ ?status"] obtain a b
      where s: "split_once (ag_ui_error_to_anyhow e) ERROR_STATUS_MARKER = Some (a, b @ ERROR_STATUS_MARKER @ ?status)"
        and t: "split_once ?text ERROR_STATUS_MARKER = Some (a, b)"
      by (auto simp: ag_ui_error_to_anyhow_def)
    have "parse_uint 65535 (b @ ERROR_STATUS_MARKER @ ?status) = None"
      by (rule ccontr) (auto dest!: parse_uint_digits simp: ERROR_STATUS_MARKER_def is_digit_def)
    with s t named True show ?thesis
      by (simp add: error_response_def finalize_err_status_def status_from_error_def public_error_message_def)
  next
    case False
    from split_once_after [of "CHR ''=''" "''::__status''" ?text ?status] False
    have s: "split_once (ag_ui_error_to_anyhow e) ERROR_STATUS_MARKER = Some (?text, ?status)"
      by (simp add: ag_ui_error_to_anyhow_def marker)
    have "ag_ui_status_code e \<in> {400, 404, 409, 500}" by (cases e) (auto simp: ag_ui_status_code_def)
    moreover from this have "parse_uint 65535 ?status = Some (ag_ui_status_code e)" by (auto intro: parse_show_nat)
    ultimately show ?thesis
      using s named False assms
      by (auto simp: error_response_def finalize_err_status_def status_from_error_def public_error_message_def)
  qed
qed

theorem error_status_read_back_witness:
  "error_response plain_http (ag_ui_error_to_anyhow (agent_not_found ''x'')) =
     (404, ag_ui_error_text (agent_not_found ''x'')) \<and>
   fst (error_response plain_http (ag_ui_error_to_anyhow (agent_not_found ''x::__status=2''))) = 400"
proof -
  have "\<forall>c \<in> {400, 404, 409, 500}. status_from_u16 plain_http c = Some c" by (simp add: plain_http_def)
  note law = error_status_read_back [OF this]
  have "\<not> str_contains (ag_ui_error_text (agent_not_found ''x'')) ERROR_STATUS_MARKER" by code_simp
  moreover have "str_contains (ag_ui_error_text (agent_not_found ''x::__status=2'')) ERROR_STATUS_MARKER" by code_simp
  moreover have "ag_ui_status_code (agent_not_found ''x'') = 404"
    by (simp add: ag_ui_status_code_def agent_not_found_def)
  ultimately show ?thesis by (simp add: law)
qed

end
