(* ===== verification/Web_Assets.thy ===== *)
theory Web_Assets
  imports Http_Routes
begin

text \<open>
  Static files of the web interface (\<open>serve_web_asset\<close> and its helpers in \<open>harnx-serve/src/lib.rs\<close>).
  A file-system path is the list of its components; the file system itself is a parameter.
\<close>

section \<open>Asset paths\<close>

fun sanitize_components :: "Component list \<Rightarrow> string list \<Rightarrow> string list option" where
  "sanitize_components [] sanitized = Some sanitized"
| "sanitize_components (Normal segment # cs) sanitized = sanitize_components cs (sanitized @ [segment])"
| "sanitize_components (CurDir # cs) sanitized = sanitize_components cs sanitized"
| "sanitize_components (RootDir # cs) sanitized = sanitize_components cs sanitized"
| "sanitize_components (ParentDir # cs) sanitized = None"

definition sanitize_asset_path :: "string \<Rightarrow> string list option" where
  "sanitize_asset_path path =
     (let decoded = str_join ''/'' (map percent_decode (split_on (CHR ''/'') path))
      in sanitize_components (path_components decoded) [])"

definition has_file_extension :: "string list \<Rightarrow> bool" where
  "has_file_extension path \<longleftrightarrow> path_extension path \<noteq> None"

definition content_type_for_path :: "string list \<Rightarrow> string" where
  "content_type_for_path path =
     (case path_extension path of
        None \<Rightarrow> ''application/octet-stream''
      | Some ext \<Rightarrow>
          if ext = ''html'' \<or> ext = ''htm'' then ''text/html; charset=utf-8''
          else if ext = ''js'' \<or> ext = ''mjs'' then ''application/javascript; charset=utf-8''
          else if ext = ''css'' then ''text/css; charset=utf-8''
          else if ext = ''json'' then ''application/json; charset=utf-8''
          else if ext = ''svg'' then ''image/svg+xml''
          else if ext = ''png'' then ''image/png''
          else if ext = ''jpg'' \<or> ext = ''jpeg'' then ''image/jpeg''
          else if ext = ''gif'' then ''image/gif''
          else if ext = ''webp'' then ''image/webp''
          else if ext = ''ico'' then ''image/x-icon''
          else if ext = ''wasm'' then ''application/wasm''
          else if ext = ''map'' then ''application/json; charset=utf-8''
          else if ext = ''txt'' then ''text/plain; charset=utf-8''
          else if ext = ''woff'' then ''font/woff''
          else if ext = ''woff2'' then ''font/woff2''
          else ''application/octet-stream'')"

section \<open>Serving\<close>

datatype IoError = IoNotFound | IoOther string

type_synonym fs_path = "string list"

record file_system =
  fs_canonicalize :: "fs_path \<Rightarrow> IoError + fs_path"
  fs_metadata :: "fs_path \<Rightarrow> IoError + bool \<times> nat"
  fs_read :: "fs_path \<Rightarrow> IoError + string"

record asset_response =
  asset_content_type :: string
  asset_content_length :: nat
  asset_body :: string

definition io_error :: "IoError \<Rightarrow> string" where
  "io_error e = (case e of IoNotFound \<Rightarrow> ''entity not found'' | IoOther msg \<Rightarrow> msg)"

definition serve_asset_candidate ::
    "file_system \<Rightarrow> Method \<Rightarrow> fs_path \<Rightarrow> fs_path \<Rightarrow> bool \<Rightarrow> string + asset_response option" where
  "serve_asset_candidate fs m root candidate force_html =
     (case fs_metadata fs candidate of
        Inl IoNotFound \<Rightarrow> Inr None
      | Inl err \<Rightarrow> Inl (io_error err)
      | Inr (is_file, len) \<Rightarrow>
          if \<not> is_file then Inr None
          else (case fs_canonicalize fs candidate of
                  Inl IoNotFound \<Rightarrow> Inr None
                | Inl err \<Rightarrow> Inl (io_error err)
                | Inr canonical \<Rightarrow>
                    if \<not> prefix root canonical then Inl ''Not Found''
                    else let content_type = (if force_html then ''text/html; charset=utf-8''
                                             else content_type_for_path candidate)
                         in (case (if m = HEAD then Inr [] else fs_read fs canonical) of
                               Inl err \<Rightarrow> Inl (io_error err)
                             | Inr body \<Rightarrow>
                                 Inr (Some \<lparr>asset_content_type = content_type, asset_content_length = len,
                                            asset_body = body\<rparr>))))"

definition serve_web_asset ::
    "http_lib \<Rightarrow> file_system \<Rightarrow> fs_path \<Rightarrow> Method \<Rightarrow> string \<Rightarrow> HeaderMap \<Rightarrow> string + asset_response" where
  "serve_web_asset http fs web_assets m path headers =
     (case fs_canonicalize fs web_assets of
        Inl IoNotFound \<Rightarrow> Inl ''Not Found''
      | Inl err \<Rightarrow> Inl (io_error err)
      | Inr root \<Rightarrow>
          let request_path = dropWhile (\<lambda>c. c = CHR ''/'') path
          in case sanitize_asset_path request_path of
               None \<Rightarrow> Inl ''Not Found''
             | Some requested \<Rightarrow>
                 let candidate = (if requested = [] then root @ [''index.html''] else root @ requested)
                 in case serve_asset_candidate fs m root candidate (requested = []) of
                      Inl err \<Rightarrow> Inl err
                    | Inr (Some response) \<Rightarrow> Inr response
                    | Inr None \<Rightarrow>
                        if wants_html http headers \<and> \<not> has_file_extension requested then
                          (case serve_asset_candidate fs m root (root @ [''index.html'']) True of
                             Inl err \<Rightarrow> Inl err
                           | Inr (Some response) \<Rightarrow> Inr response
                           | Inr None \<Rightarrow> Inl ''Not Found'')
                        else Inl ''Not Found'')"

section \<open>Containment\<close>

definition plain_name :: "string \<Rightarrow> bool" where
  "plain_name s \<longleftrightarrow> s \<noteq> [] \<and> s \<noteq> ''.'' \<and> s \<noteq> ''..'' \<and> CHR ''/'' \<notin> set s"

lemma path_components_normal:
  assumes "Normal s \<in> set (path_components path)"
  shows "plain_name s"
proof -
  let ?parts = "filter (\<lambda>p. p \<noteq> []) (split_on (CHR ''/'') path)"
  let ?comps = "filter_map (\<lambda>p. if p = ''.'' then None else if p = ''..'' then Some ParentDir
    else Some (Normal p)) ?parts"
  have "set (if rooted then RootDir # cs else (case ps of
      p # _ \<Rightarrow> if p = ''.'' then CurDir # cs else cs | [] \<Rightarrow> cs)) \<subseteq> set cs \<union> {RootDir, CurDir}"
    for rooted cs and ps :: "string list"
    by (cases ps) auto
  then have "set (path_components path) \<subseteq> set ?comps \<union> {RootDir, CurDir}"
    unfolding path_components_def Let_def .
  from subsetD [OF this assms] have "Normal s \<in> set ?comps"
    by (simp only: Un_iff insert_iff empty_iff Component.distinct simp_thms)
  then show ?thesis by (auto simp: plain_name_def dest: split_on_parts split: if_splits)
qed

lemma sanitize_components_names:
  "sanitize_components cs acc = Some names \<Longrightarrow>
     \<exists>rest. names = acc @ rest \<and> set rest \<subseteq> {s. Normal s \<in> set cs} \<and> ParentDir \<notin> set cs"
proof (induction cs acc rule: sanitize_components.induct)
  case (2 segment cs acc)
  then obtain rest where "names = (acc @ [segment]) @ rest" "set rest \<subseteq> {s. Normal s \<in> set cs}" "ParentDir \<notin> set cs"
    by auto
  then show ?case by (intro exI [of _ "segment # rest"]) auto
qed auto

lemma sanitize_asset_path_plain:
  "sanitize_asset_path path = Some names \<Longrightarrow> list_all plain_name names"
  by (auto simp: sanitize_asset_path_def Let_def list_all_iff
      dest!: sanitize_components_names path_components_normal)

lemma serve_asset_candidate_SomeD:
  assumes "serve_asset_candidate fs m root candidate force = Inr (Some response)"
  shows "\<exists>canonical len. fs_canonicalize fs candidate = Inr canonical \<and> prefix root canonical \<and>
    fs_metadata fs candidate = Inr (True, len) \<and> asset_content_length response = len \<and>
    (if m = HEAD then asset_body response = [] else fs_read fs canonical = Inr (asset_body response))"
  using assms
  by (auto simp: serve_asset_candidate_def Let_def split: sum.splits IoError.splits if_splits prod.splits)

section \<open>Properties\<close>

text \<open>
  An asset request never leaves the assets directory. The requested path becomes the root followed by
  plain names only, so no \<open>..\<close> or absolute prefix survives decoding; whatever symbolic links
  the file system has, the bytes of a response are those of a regular file whose canonical path lies under
  the canonical root; and a \<open>HEAD\<close> request reads nothing.
\<close>

theorem served_asset_inside_root:
  assumes "serve_web_asset http fs web_assets m path headers = Inr response"
  shows "\<exists>root names canonical len. fs_canonicalize fs web_assets = Inr root \<and>
    list_all plain_name names \<and> fs_canonicalize fs (root @ names) = Inr canonical \<and>
    prefix root canonical \<and> fs_metadata fs (root @ names) = Inr (True, len) \<and>
    asset_content_length response = len \<and>
    (if m = HEAD then asset_body response = [] else fs_read fs canonical = Inr (asset_body response))"
proof -
  obtain root where root: "fs_canonicalize fs web_assets = Inr root"
    using assms by (auto simp: serve_web_asset_def split: sum.splits IoError.splits)
  have index: "list_all plain_name [''index.html'']" by (simp add: plain_name_def)
  have "\<exists>names force. list_all plain_name names \<and>
      serve_asset_candidate fs m root (root @ names) force = Inr (Some response)"
  proof (cases "sanitize_asset_path (dropWhile (\<lambda>c. c = CHR ''/'') path)")
    case (Some requested)
    with assms root consider "serve_asset_candidate fs m root (root @ [''index.html'']) True = Inr (Some response)"
      | "serve_asset_candidate fs m root (root @ requested) False = Inr (Some response)"
      by (cases "requested = []") (auto simp: serve_web_asset_def Let_def split: option.splits sum.splits if_splits)
    then show ?thesis using index sanitize_asset_path_plain [OF Some] by cases blast+
  qed (use assms root in \<open>simp add: serve_web_asset_def Let_def\<close>)
  then obtain names force where n: "list_all plain_name names"
    and s: "serve_asset_candidate fs m root (root @ names) force = Inr (Some response)" by blast
  from serve_asset_candidate_SomeD [OF s] root n show ?thesis by blast
qed
definition demo_files :: file_system where
  "demo_files =
     \<lparr>fs_canonicalize = Inr,
      fs_metadata = (\<lambda>p. if p = [''srv'', ''app.js''] then Inr (True, 3) else Inl IoNotFound),
      fs_read = (\<lambda>_. Inr ''abc'')\<rparr>"

lemma demo_asset:
  "serve_web_asset plain_http demo_files [''srv''] GET ''//./app%2ejs'' (\<lambda>_. []) =
     Inr \<lparr>asset_content_type = ''application/javascript; charset=utf-8'', asset_content_length = 3,
          asset_body = ''abc''\<rparr>"
  by code_simp

theorem served_asset_inside_root_witness:
  "\<exists>names canonical. list_all plain_name names \<and>
     fs_canonicalize demo_files ([''srv''] @ names) = Inr canonical \<and> prefix [''srv''] canonical \<and>
     fs_read demo_files canonical = Inr ''abc''"
proof -
  have "fs_canonicalize demo_files [''srv''] = Inr [''srv'']" by (simp add: demo_files_def)
  then show ?thesis using served_asset_inside_root [OF demo_asset] by auto
qed

text \<open>
  Segments are decoded one by one, but joined and split again afterwards: an encoded separator does
  become a path boundary. It cannot become a parent reference.
\<close>

lemma encoded_separator_is_boundary:
  "sanitize_asset_path ''a%2Fb'' = Some [''a'', ''b'']" "sanitize_asset_path ''a%2F..'' = None"
  by code_simp+

end
