(* ===== verification/Session_Pagination.thy ===== *)
theory Session_Pagination
  imports Http_Routes Session_Types "HOL-Library.List_Lexorder" "HOL-Library.Char_ord" "HOL-Library.Option_ord" "HOL-Library.Multiset"
begin

text \<open>
  The session list of \<open>harnx-serve\<close>: cursors and pages (\<open>session_pagination.rs\<close>), the ordering and
  summaries of \<open>lib.rs\<close> and the filter of \<open>session_access.rs\<close>. A \<open>SystemTime\<close> is the number of
  nanoseconds since the epoch, on the platforms that keep it as 64-bit seconds and
  nanoseconds; strings compare by their bytes and \<open>None\<close> is less than every \<open>Some\<close>, as the
  library orders of lists, characters and options do. \<open>base64\<close> and \<open>serde_json\<close> of a
  cursor are parameters.
\<close>

section \<open>Timestamps\<close>

type_synonym system_time = int

abbreviation nanos_per_sec :: int where
  "nanos_per_sec \<equiv> 1000000000"

definition to_i64 :: "int \<Rightarrow> int" where
  "to_i64 x = signed_take_bit 63 x"

definition representable_time :: "system_time \<Rightarrow> bool" where
  "representable_time t \<longleftrightarrow> - (2 ^ 63) \<le> t div nanos_per_sec \<and> t div nanos_per_sec < 2 ^ 63"

definition checked_time :: "int \<Rightarrow> system_time option" where
  "checked_time t = (if representable_time t then Some t else None)"

record CursorTimestamp =
  ts_secs :: int
  ts_nanos :: nat

definition timestamp_from :: "system_time \<Rightarrow> CursorTimestamp" where
  "timestamp_from t =
     (if 0 \<le> t then
        \<lparr>ts_secs = to_i64 (t div nanos_per_sec), ts_nanos = nat (t mod nanos_per_sec)\<rparr>
      else
        let d = - t; secs = to_i64 (- to_i64 (d div nanos_per_sec)); nanos = nat (d mod nanos_per_sec)
        in if nanos = 0 then \<lparr>ts_secs = secs, ts_nanos = 0\<rparr>
           else \<lparr>ts_secs = to_i64 (secs - 1), ts_nanos = 1000000000 - nanos\<rparr>)"

definition timestamp_try_into :: "CursorTimestamp \<Rightarrow> string + system_time" where
  "timestamp_try_into ts =
     (if 1000000000 \<le> ts_nanos ts then Inl ''cursor timestamp nanoseconds out of range''
      else if 0 \<le> ts_secs ts then
        (case checked_time (ts_secs ts * nanos_per_sec + int (ts_nanos ts)) of
           Some t \<Rightarrow> Inr t
         | None \<Rightarrow> Inl ''cursor timestamp overflow'')
      else
        (case checked_time (- (\<bar>ts_secs ts\<bar> * nanos_per_sec)) of
           None \<Rightarrow> Inl ''cursor timestamp underflow''
         | Some base \<Rightarrow>
             (case checked_time (base + int (ts_nanos ts)) of
                Some t \<Rightarrow> Inr t
              | None \<Rightarrow> Inl ''cursor timestamp overflow'')))"




section \<open>Sessions and their order\<close>

record SessionMeta =
  meta_id :: string
  meta_session_id :: "string option"
  meta_agent_name :: "string option"
  meta_title :: "string option"
  meta_user_id :: "string option"
  meta_modified :: "system_time option"
  meta_contexts :: "ExecutionContextObservation list"
  meta_unread :: bool

datatype Ordering = Less | Equal | Greater

definition cmp :: "'a :: linorder \<Rightarrow> 'a \<Rightarrow> Ordering" where
  "cmp a b = (if a < b then Less else if a = b then Equal else Greater)"

definition then_with :: "Ordering \<Rightarrow> Ordering \<Rightarrow> Ordering" where
  "then_with o1 o2 = (case o1 of Equal \<Rightarrow> o2 | _ \<Rightarrow> o1)"

definition session_recency_ordering :: "SessionMeta \<Rightarrow> SessionMeta \<Rightarrow> Ordering" where
  "session_recency_ordering l r =
     then_with (cmp (meta_modified r) (meta_modified l)) (cmp (meta_id r) (meta_id l))"

text \<open>\<open>slice::sort_by\<close> is stable: an element stays before the equal ones that follow it.\<close>

fun insert_by :: "('a \<Rightarrow> 'a \<Rightarrow> Ordering) \<Rightarrow> 'a \<Rightarrow> 'a list \<Rightarrow> 'a list" where
  "insert_by ord x [] = [x]"
| "insert_by ord x (y # ys) = (if ord y x = Less then y # insert_by ord x ys else x # y # ys)"

definition sort_by :: "('a \<Rightarrow> 'a \<Rightarrow> Ordering) \<Rightarrow> 'a list \<Rightarrow> 'a list" where
  "sort_by ord xs = foldr (insert_by ord) xs []"

definition context_repository :: "ExecutionContextObservation \<Rightarrow> string option" where
  "context_repository ctx = Option.bind (obs_repository ctx) primary_repository"

definition context_branch :: "ExecutionContextObservation \<Rightarrow> string option" where
  "context_branch ctx = Option.bind (obs_repository ctx) repo_branch"

definition session_repository_and_branch ::
    "ExecutionContextObservation list \<Rightarrow> string option \<times> string option" where
  "session_repository_and_branch contexts =
     (let matched = find (\<lambda>ctx. context_repository ctx \<noteq> None \<or> context_branch ctx \<noteq> None) contexts
      in (Option.bind matched context_repository, Option.bind matched context_branch))"

definition json_opt :: "string option \<Rightarrow> json" where
  "json_opt s = (case s of Some t \<Rightarrow> JString t | None \<Rightarrow> JNull)"

text \<open>\<open>format_time\<close> is \<open>chrono\<close>'s RFC 3339 rendering with milliseconds.\<close>

definition format_session_summary :: "(system_time \<Rightarrow> string) \<Rightarrow> SessionMeta \<Rightarrow> json" where
  "format_session_summary format_time session =
     (let session_id = (case meta_session_id session of Some s \<Rightarrow> s | None \<Rightarrow> meta_id session);
          v0 = [(''session_id'', JString session_id)];
          v1 = map_insert v0 ''title'' (json_opt (meta_title session));
          v2 = (case meta_modified session of
                  Some t \<Rightarrow> map_insert v1 ''updated_at'' (JString (format_time t)) | None \<Rightarrow> v1);
          v3 = map_insert v2 ''unread'' (JBool (meta_unread session));
          v4 = map_insert v3 ''user_id'' (json_opt (meta_user_id session));
          (repository, branch) = session_repository_and_branch (meta_contexts session);
          v5 = map_insert v4 ''repository'' (json_opt repository)
      in JObject (map_insert v5 ''branch'' (json_opt branch)))"

definition list_target_sessions ::
    "('glob, 'gset, 'err) globset \<Rightarrow> agent_env \<Rightarrow> (string \<Rightarrow> string + SessionMeta list) \<Rightarrow> ResolvedAgentTarget
       \<Rightarrow> ('gset AccessRules \<times> CallerView) option \<Rightarrow> string + SessionMeta list" where
  "list_target_sessions lib env list_remote target access =
     (case list_remote (target_cluster target) of
        Inl err \<Rightarrow> Inl err
      | Inr all_sessions \<Rightarrow>
          let sessions = filter (\<lambda>s. meta_agent_name s = Some (target_agent target)) all_sessions;
              visible = (case access of
                 None \<Rightarrow> sessions
               | Some (rules, caller) \<Rightarrow>
                   let agent_ref = display_ref_with_default_cluster target
                         (default_cluster_for_display (env_routing env))
                   in filter (\<lambda>s. can_access_session lib rules agent_ref caller (meta_user_id s)) sessions)
          in Inr (sort_by session_recency_ordering visible))"

section \<open>Cursors\<close>

definition CURSOR_VERSION :: nat where
  "CURSOR_VERSION = 1"

definition MAX_CURSOR_LEN :: nat where
  "MAX_CURSOR_LEN = 1024"

definition DEFAULT_CURSOR_LIMIT :: nat where
  "DEFAULT_CURSOR_LIMIT = 50"

definition MAX_LIMIT :: nat where
  "MAX_LIMIT = 200"

record SessionCursor =
  cursor_v :: nat
  cursor_id :: string
  cursor_ts :: "CursorTimestamp option"

record cursor_codec =
  to_vec :: "SessionCursor \<Rightarrow> string + string"
  from_slice :: "string \<Rightarrow> SessionCursor option"
  base64_encode :: "string \<Rightarrow> string"
  base64_decode :: "string \<Rightarrow> string option"

definition bad_request :: "string \<Rightarrow> string" where
  "bad_request message = message @ ERROR_STATUS_MARKER @ ''400''"

definition cursor_of :: "SessionMeta \<Rightarrow> SessionCursor" where
  "cursor_of session =
     \<lparr>cursor_v = CURSOR_VERSION, cursor_id = meta_id session,
      cursor_ts = map_option timestamp_from (meta_modified session)\<rparr>"

definition encode_cursor :: "cursor_codec \<Rightarrow> SessionMeta \<Rightarrow> string + string" where
  "encode_cursor codec session =
     (case to_vec codec (cursor_of session) of
        Inl err \<Rightarrow> Inl err
      | Inr json_bytes \<Rightarrow> Inr (base64_encode codec json_bytes))"

definition decode_cursor ::
    "cursor_codec \<Rightarrow> string \<Rightarrow> string + SessionCursor \<times> system_time option" where
  "decode_cursor codec raw =
     (if raw = [] then Inl (bad_request ''cursor parameter must not be empty'')
      else if MAX_CURSOR_LEN < length raw
      then Inl (bad_request ''cursor parameter exceeds maximum allowed length'')
      else (case base64_decode codec (trim_end_matches (CHR ''='') raw) of
              None \<Rightarrow> Inl (bad_request ''invalid cursor encoding'')
            | Some json_bytes \<Rightarrow>
                (case from_slice codec json_bytes of
                   None \<Rightarrow> Inl (bad_request ''invalid cursor payload'')
                 | Some cursor \<Rightarrow>
                     if cursor_v cursor \<noteq> CURSOR_VERSION
                     then Inl (bad_request (''unsupported cursor version: '' @ show_nat (cursor_v cursor)))
                     else if cursor_id cursor = []
                     then Inl (bad_request ''invalid cursor: id must not be empty'')
                     else (case cursor_ts cursor of
                             None \<Rightarrow> Inr (cursor, None)
                           | Some ts \<Rightarrow>
                               (case timestamp_try_into ts of
                                  Inl msg \<Rightarrow> Inl (bad_request msg)
                                | Inr t \<Rightarrow> Inr (cursor, Some t))))))"

section \<open>Queries\<close>

record SessionPaginationQuery =
  q_limit :: nat
  q_cursor :: "SessionCursor option"
  q_cursor_modified :: "system_time option"

record SessionPaginationParams =
  p_limit :: "nat option"
  p_cursor :: "(SessionCursor \<times> system_time option) option"

definition params_default :: SessionPaginationParams where
  "params_default = \<lparr>p_limit = None, p_cursor = None\<rparr>"

definition parse_unique_parameter ::
    "'a option \<Rightarrow> string \<Rightarrow> string \<Rightarrow> (string \<Rightarrow> string + 'a) \<Rightarrow> string + 'a option" where
  "parse_unique_parameter slot key v parse =
     (if slot \<noteq> None
      then Inl (bad_request (''duplicate query parameter '' @ [CHR 0x27] @ key @ [CHR 0x27]))
      else (case parse v of Inl err \<Rightarrow> Inl err | Inr parsed \<Rightarrow> Inr (Some parsed)))"

definition parse_session_limit :: "string \<Rightarrow> string + nat" where
  "parse_session_limit v =
     (case parse_uint (2 ^ 64 - 1) v of
        None \<Rightarrow> Inl (bad_request ''limit must be a positive integer'')
      | Some parsed \<Rightarrow>
          if parsed = 0 then Inl (bad_request ''limit must be a positive integer'')
          else Inr (min parsed MAX_LIMIT))"

definition parse_parameter ::
    "cursor_codec \<Rightarrow> SessionPaginationParams \<Rightarrow> string \<Rightarrow> string + SessionPaginationParams" where
  "parse_parameter codec params part =
     (case splitn2 (CHR ''='') part of (raw_key, raw_val) \<Rightarrow>
        let key = percent_decode raw_key;
            v = percent_decode (case raw_val of Some r \<Rightarrow> r | None \<Rightarrow> [])
        in if key = ''limit'' then
             (case parse_unique_parameter (p_limit params) key v parse_session_limit of
                Inl err \<Rightarrow> Inl err | Inr slot \<Rightarrow> Inr (params\<lparr>p_limit := slot\<rparr>))
           else if key = ''cursor'' then
             (case parse_unique_parameter (p_cursor params) key v (decode_cursor codec) of
                Inl err \<Rightarrow> Inl err | Inr slot \<Rightarrow> Inr (params\<lparr>p_cursor := slot\<rparr>))
           else Inr params)"

definition into_query :: "SessionPaginationParams \<Rightarrow> SessionPaginationQuery option" where
  "into_query params =
     (if p_limit params = None \<and> p_cursor params = None then None
      else Some \<lparr>q_limit = (case p_limit params of Some l \<Rightarrow> l | None \<Rightarrow> DEFAULT_CURSOR_LIMIT),
                 q_cursor = map_option fst (p_cursor params),
                 q_cursor_modified = Option.bind (p_cursor params) snd\<rparr>)"

fun parse_parts ::
    "cursor_codec \<Rightarrow> SessionPaginationParams \<Rightarrow> string list \<Rightarrow> string + SessionPaginationParams" where
  "parse_parts codec params [] = Inr params"
| "parse_parts codec params (part # parts) =
     (case parse_parameter codec params part of
        Inl err \<Rightarrow> Inl err
      | Inr params' \<Rightarrow> parse_parts codec params' parts)"

definition parse_session_list_query ::
    "cursor_codec \<Rightarrow> string option \<Rightarrow> string + SessionPaginationQuery option" where
  "parse_session_list_query codec query =
     (let q = (case query of Some s \<Rightarrow> s | None \<Rightarrow> [])
      in map_sum id into_query
           (parse_parts codec params_default (filter (\<lambda>p. p \<noteq> []) (split_on (CHR ''&'') q))))"

section \<open>Pages\<close>

definition session_meta_comes_after :: "string \<Rightarrow> system_time option \<Rightarrow> SessionMeta \<Rightarrow> bool" where
  "session_meta_comes_after cid cursor_modified session \<longleftrightarrow>
     then_with (cmp (meta_modified session) cursor_modified) (cmp (meta_id session) cid) = Less"

definition page_of ::
    "cursor_codec \<Rightarrow> SessionMeta list \<Rightarrow> SessionPaginationQuery \<Rightarrow> string + SessionMeta list \<times> string option" where
  "page_of codec sessions query =
     (let filtered = filter (\<lambda>s. case q_cursor query of
                         Some cursor \<Rightarrow> session_meta_comes_after (cursor_id cursor) (q_cursor_modified query) s
                       | None \<Rightarrow> True) sessions;
          page = take (q_limit query + 1) filtered
      in if q_limit query < length page then
           let page = take (q_limit query) page
           in (case encode_cursor codec (last page) of
                 Inl err \<Rightarrow> Inl err
               | Inr next_cursor \<Rightarrow> Inr (page, Some next_cursor))
         else Inr (page, None))"

definition paginate_sessions ::
    "cursor_codec \<Rightarrow> (system_time \<Rightarrow> string) \<Rightarrow> SessionMeta list \<Rightarrow> SessionPaginationQuery \<Rightarrow> string + json" where
  "paginate_sessions codec format_time sessions query =
     map_sum id (\<lambda>(page, next_cursor).
         JObject [(''sessions'', JArray (map (format_session_summary format_time) page)),
                  (''next_cursor'', json_opt next_cursor)])
       (page_of codec sessions query)"

section \<open>The order of sessions\<close>







lemma mset_insert_by: "mset (insert_by ord x ys) = add_mset x (mset ys)"
  by (induction ys) auto

lemma mset_sort_by [simp]: "mset (sort_by ord xs) = mset xs"
  unfolding sort_by_def by (induction xs) (auto simp: mset_insert_by)

lemma set_sort_by [simp]: "set (sort_by ord xs) = set xs"
  by (metis mset_sort_by set_mset_mset)

lemma sort_by_simps [simp]: "sort_by ord [] = []" "sort_by ord (x # xs) = insert_by ord x (sort_by ord xs)"
  by (simp_all add: sort_by_def)





section \<open>Following the cursors\<close>







section \<open>Checked queries\<close>

definition client_error :: "string \<Rightarrow> bool" where
  "client_error err \<longleftrightarrow> (\<exists>msg. err = bad_request msg \<and> CHR ''_'' \<notin> set msg)"

lemma str_contains_set: "str_contains s n \<Longrightarrow> set n \<subseteq> set s"
  by (auto simp: str_contains_def prefix_def dest!: str_find_SomeD)
    (metis Un_iff append_take_drop_id set_append)

lemma client_error_response:
  assumes "CHR ''_'' \<notin> set msg" "status_from_u16 http 400 = Some 400"
  shows "error_response http (bad_request msg) = (400, msg)"
proof -
  have "\<not> str_contains msg ERROR_STATUS_MARKER"
    using assms(1) str_contains_set [of msg ERROR_STATUS_MARKER] by (auto simp: ERROR_STATUS_MARKER_def)
  then have "split_once (bad_request msg) ERROR_STATUS_MARKER = Some (msg, ''400'')"
    using split_once_after [of "CHR ''=''" "''::__status''" msg "''400''"]
    by (simp add: bad_request_def ERROR_STATUS_MARKER_def)
  moreover have "parse_uint 65535 ''400'' = Some 400"
    by (simp add: parse_uint_def digits_value_def is_digit_def)
  moreover have "CHR '':'' \<in> set (bad_request msg)" by (simp add: bad_request_def ERROR_STATUS_MARKER_def)
  then have "bad_request msg \<notin> {''Not Found'', ''Method Not Allowed'', ''Not Acceptable''}" by auto
  ultimately show ?thesis
    using assms(2)
    by (simp add: error_response_def finalize_err_status_def status_from_error_def public_error_message_def)
qed

lemma client_error_text: "CHR ''_'' \<notin> set msg \<Longrightarrow> client_error (bad_request msg)"
  by (auto simp: client_error_def)

lemma timestamp_error_text: "timestamp_try_into ts = Inl msg \<Longrightarrow> CHR ''_'' \<notin> set msg"
  by (auto simp: timestamp_try_into_def split: if_splits option.splits)

lemma decode_cursor_errors: "decode_cursor codec raw = Inl err \<Longrightarrow> client_error err"
  using show_nat_avoids [of "CHR ''_''"]
  by (auto simp: decode_cursor_def is_digit_def dest: timestamp_error_text
      split: if_splits option.splits sum.splits intro!: client_error_text)

lemma parse_session_limit_range:
  "(case parse_session_limit v of Inl err \<Rightarrow> client_error err | Inr n \<Rightarrow> 1 \<le> n \<and> n \<le> MAX_LIMIT)"
  by (auto simp: parse_session_limit_def MAX_LIMIT_def split: option.splits intro!: client_error_text)

definition params_ok :: "SessionPaginationParams \<Rightarrow> bool" where
  "params_ok params \<longleftrightarrow> pred_option (\<lambda>n. 1 \<le> n \<and> n \<le> MAX_LIMIT) (p_limit params)"

lemma parse_parameter_checked:
  assumes "params_ok params"
  shows "(case parse_parameter codec params part of Inl err \<Rightarrow> client_error err | Inr params' \<Rightarrow> params_ok params')"
proof -
  obtain k r where s: "splitn2 (CHR ''='') part = (k, r)" by fastforce
  define v where "v = percent_decode (case r of Some r \<Rightarrow> r | None \<Rightarrow> [])"
  consider "percent_decode k = ''limit''" | "percent_decode k = ''cursor''"
    | "percent_decode k \<noteq> ''limit''" "percent_decode k \<noteq> ''cursor''" by blast
  then show ?thesis
  proof cases
    case 1
    then show ?thesis
      using assms parse_session_limit_range [of v] s
      by (auto simp: parse_parameter_def parse_unique_parameter_def params_ok_def v_def [symmetric] Let_def
          intro!: client_error_text split: sum.splits)
  next
    case 2
    then show ?thesis
      using assms decode_cursor_errors [of codec v] s
      by (auto simp: parse_parameter_def parse_unique_parameter_def params_ok_def v_def [symmetric] Let_def
          intro!: client_error_text split: sum.splits)
  next
    case 3
    with assms s show ?thesis by (simp add: parse_parameter_def Let_def)
  qed
qed

lemma parse_parts_checked:
  "params_ok params \<Longrightarrow>
     (case parse_parts codec params parts of Inl err \<Rightarrow> client_error err | Inr params' \<Rightarrow> params_ok params')"
proof (induction parts arbitrary: params)
  case (Cons part parts)
  show ?case
  proof (cases "parse_parameter codec params part")
    case (Inr params')
    with parse_parameter_checked [OF Cons.prems, of codec part] have "params_ok params'" by simp
    from Cons.IH [OF this] Inr show ?thesis by simp
  qed (use parse_parameter_checked [OF Cons.prems, of codec part] in simp)
qed simp

section \<open>Properties\<close>


definition demo_meta :: "string \<Rightarrow> system_time option \<Rightarrow> SessionMeta" where
  "demo_meta i t =
     \<lparr>meta_id = i, meta_session_id = None, meta_agent_name = Some ''coder'', meta_title = None,
      meta_user_id = None, meta_modified = t, meta_contexts = [], meta_unread = False\<rparr>"

definition demo_codec :: cursor_codec where
  "demo_codec =
     \<lparr>to_vec = (\<lambda>c. Inr (cursor_id c)),
      from_slice = (\<lambda>b. Some (cursor_of (demo_meta b (if b = ''a'' then Some (- 5) else None)))),
      base64_encode = id, base64_decode = Some\<rparr>"


text \<open>
  A session-list query is either refused as a bad request, with a text that shows no internal marker, or
  gives a limit between 1 and 200: overflowing, zero, malformed and repeated parameters never reach the
  list.
\<close>

theorem session_query_checked:
  assumes "status_from_u16 http 400 = Some 400"
  shows "case parse_session_list_query codec query of
      Inl err \<Rightarrow> fst (error_response http err) = 400 \<and>
        \<not> str_contains (snd (error_response http err)) ERROR_STATUS_MARKER
    | Inr None \<Rightarrow> True
    | Inr (Some q) \<Rightarrow> 1 \<le> q_limit q \<and> q_limit q \<le> MAX_LIMIT \<and>
        (q_cursor q = None \<longrightarrow> q_cursor_modified q = None)"
proof -
  define parts where "parts = filter (\<lambda>p. p \<noteq> []) (split_on (CHR ''&'') (case query of Some s \<Rightarrow> s | None \<Rightarrow> []))"
  have "params_ok params_default" by (simp add: params_ok_def params_default_def)
  note checked = parse_parts_checked [OF this, of codec parts]
  have q: "parse_session_list_query codec query = map_sum id into_query (parse_parts codec params_default parts)"
    by (simp add: parse_session_list_query_def parts_def)
  show ?thesis
  proof (cases "parse_parts codec params_default parts")
    case (Inl err)
    with checked obtain msg where "err = bad_request msg" "CHR ''_'' \<notin> set msg" by (auto simp: client_error_def)
    with Inl q client_error_response [OF this(2) assms] show ?thesis
      using str_contains_set [of msg ERROR_STATUS_MARKER] by (auto simp: ERROR_STATUS_MARKER_def)
  next
    case (Inr params)
    with checked have "params_ok params" by simp
    then show ?thesis
      unfolding q Inr
      by (auto simp: into_query_def params_ok_def MAX_LIMIT_def DEFAULT_CURSOR_LIMIT_def split: option.splits)
  qed
qed

theorem session_query_checked_witness:
  "1 \<le> DEFAULT_CURSOR_LIMIT \<and>
   (case parse_session_list_query demo_codec (Some ''limit=7&%6cimit=8'') of
      Inl err \<Rightarrow> fst (error_response plain_http err) = 400 | Inr _ \<Rightarrow> True)"
proof -
  have "status_from_u16 plain_http 400 = Some 400" by (simp add: plain_http_def)
  from session_query_checked [OF this, of demo_codec "Some ''limit=7&%6cimit=8''"]
  show ?thesis by (auto simp: DEFAULT_CURSOR_LIMIT_def split: sum.splits option.splits)
qed

text \<open>
  The session list shows no session of another agent and none the caller may not access, and
  misses none of the others.
\<close>

theorem listed_sessions_visible:
  assumes "list_target_sessions lib env list_remote target access = Inr listed"
  shows "\<exists>found. list_remote (target_cluster target) = Inr found \<and>
    (\<forall>s. s \<in> set listed \<longleftrightarrow> s \<in> set found \<and> meta_agent_name s = Some (target_agent target) \<and>
       (case access of None \<Rightarrow> True
        | Some (rules, caller) \<Rightarrow> can_access_session lib rules (display_ref_with_default_cluster target
            (default_cluster_for_display (env_routing env))) caller (meta_user_id s)))"
  using assms
  by (cases access) (auto simp: list_target_sessions_def Let_def split: sum.splits)

theorem listed_sessions_visible_witness:
  "\<exists>listed. list_target_sessions exact_globs demo_agents (\<lambda>_. Inr [demo_meta ''a'' None]) coder_target
     (Some (demo_compiled, from_users [''ann''])) = Inr listed \<and> demo_meta ''a'' None \<notin> set listed"
proof -
  obtain listed where l: "list_target_sessions exact_globs demo_agents (\<lambda>_. Inr [demo_meta ''a'' None]) coder_target
     (Some (demo_compiled, from_users [''ann''])) = Inr listed"
    by (simp add: list_target_sessions_def)
  have "\<not> can_access_session exact_globs demo_compiled (display_ref_with_default_cluster coder_target
      (default_cluster_for_display (env_routing demo_agents))) (from_users [''ann'']) None"
    by code_simp
  with l listed_sessions_visible [OF l] show ?thesis by (auto simp: demo_meta_def)
qed

section \<open>The list endpoint\<close>

definition agent_sessions_json ::
    "(system_time \<Rightarrow> string) \<Rightarrow> SessionMeta list \<Rightarrow> json list" where
  "agent_sessions_json format_time sessions = map (format_session_summary format_time) sessions"

definition sessions_json ::
    "cursor_codec \<Rightarrow> (system_time \<Rightarrow> string) \<Rightarrow> SessionMeta list \<Rightarrow> SessionPaginationQuery option \<Rightarrow> string + json" where
  "sessions_json codec format_time sessions params =
     (case params of
        None \<Rightarrow> Inr (JArray (agent_sessions_json format_time sessions))
      | Some query \<Rightarrow> paginate_sessions codec format_time sessions query)"

text \<open>Without parameters the endpoint answers with the bare array of all sessions, as older clients expect.\<close>

lemma unpaged_sessions:
  "map_sum id (\<lambda>q. sessions_json codec format_time sessions q) (parse_session_list_query codec None) =
     Inr (Inr (JArray (map (format_session_summary format_time) sessions)))"
  by (simp add: parse_session_list_query_def params_default_def into_query_def sessions_json_def agent_sessions_json_def)

end
