(* ===== verification/Cid_Url.thy ===== *)
theory Cid_Url
  imports Http_Routes
begin

text \<open>
  Content addresses \<open>cid:media:...\<close> and \<open>cid:plan:...\<close> (\<open>harnx-core/src/cid_url.rs\<close>) and the route
  that serves them (\<open>harnx-serve/src/cid.rs\<close>). The crates \<open>urlencoding\<close> and \<open>percent_encoding\<close>
  and the blob store are parameters.
\<close>

section \<open>Addresses\<close>

record SessionRef =
  ref_agent :: "string option"
  ref_session_id :: string

datatype PlanItem = PlanIndex | PlanTask string | PlanNote string

datatype CidUrl = Media SessionRef string | Plan SessionRef string PlanItem

datatype CidError =
    NotACid | MissingType | UnknownType string | MissingAgent | MissingSession
  | SessionIdTooShort string | SessionIdInvalid string | HashLength nat | HashInvalid
  | SlugEmpty | SlugInvalid string | InvalidPlanItem string
  | AgentEncoding string | AgentEmpty | AgentReserved | AgentForbidden string

record url_lib =
  url_encode :: "string \<Rightarrow> string"
  url_decode :: "string \<Rightarrow> string + string"
  decode_path :: "string \<Rightarrow> string option"

definition CID_PREFIX :: string where
  "CID_PREFIX = ''cid:''"

definition TEMP_AGENT_URL_SEGMENT :: string where
  "TEMP_AGENT_URL_SEGMENT = ''_temp''"

definition TEMP_AGENT_NAME :: string where
  "TEMP_AGENT_NAME = ''%%''"

definition between :: "nat \<Rightarrow> nat \<Rightarrow> char \<Rightarrow> bool" where
  "between lo hi c \<longleftrightarrow> lo \<le> of_char c \<and> of_char c \<le> hi"

definition is_session_id_byte :: "char \<Rightarrow> bool" where
  "is_session_id_byte c \<longleftrightarrow>
     between 97 122 c \<or> between 65 90 c \<or> between 48 57 c \<or> c = CHR ''-'' \<or> c = CHR ''_''"

definition is_slug_byte :: "char \<Rightarrow> bool" where
  "is_slug_byte c \<longleftrightarrow> between 97 122 c \<or> between 48 57 c \<or> c = CHR ''-''"

definition is_agent_byte :: "char \<Rightarrow> bool" where
  "is_agent_byte c \<longleftrightarrow>
     between 97 122 c \<or> between 65 90 c \<or> between 48 57 c \<or> c = CHR ''-'' \<or> c = CHR ''_'' \<or> c = CHR ''/''"

definition validate_session_id :: "string \<Rightarrow> CidError + unit" where
  "validate_session_id i =
     (if length i < 6 then Inl (SessionIdTooShort (from_utf8_lossy i))
      else if \<not> list_all is_session_id_byte i then Inl (SessionIdInvalid (from_utf8_lossy i))
      else Inr ())"

definition validate_hash :: "string \<Rightarrow> CidError + unit" where
  "validate_hash hash =
     (if length hash \<noteq> 64 then Inl (HashLength (length hash))
      else if \<not> list_all (\<lambda>c. between 48 57 c \<or> between 97 102 c) hash then Inl HashInvalid
      else Inr ())"

definition validate_slug :: "string \<Rightarrow> CidError + unit" where
  "validate_slug slug =
     (if slug = [] then Inl SlugEmpty
      else if \<not> list_all is_slug_byte slug then Inl (SlugInvalid (from_utf8_lossy slug))
      else Inr ())"

definition validate_agent_name :: "string \<Rightarrow> CidError + unit" where
  "validate_agent_name name =
     (if name = [] then Inl AgentEmpty
      else if name = TEMP_AGENT_NAME then Inl AgentReserved
      else if list_ex (\<lambda>c. \<not> is_agent_byte c) name then Inl (AgentForbidden (from_utf8_lossy name))
      else Inr ())"

definition session_ref_new :: "string option \<Rightarrow> string \<Rightarrow> CidError + SessionRef" where
  "session_ref_new agent session_id =
     (case validate_session_id session_id of
        Inl err \<Rightarrow> Inl err
      | Inr _ \<Rightarrow>
          (case (case agent of None \<Rightarrow> Inr () | Some a \<Rightarrow> validate_agent_name a) of
             Inl err \<Rightarrow> Inl err
           | Inr _ \<Rightarrow> Inr \<lparr>ref_agent = agent, ref_session_id = session_id\<rparr>))"

definition encode_agent_segment :: "url_lib \<Rightarrow> string option \<Rightarrow> string" where
  "encode_agent_segment url agent =
     (case agent of None \<Rightarrow> TEMP_AGENT_URL_SEGMENT | Some name \<Rightarrow> url_encode url name)"

definition decode_agent_segment :: "url_lib \<Rightarrow> string \<Rightarrow> CidError + string option" where
  "decode_agent_segment url segment =
     (if segment = TEMP_AGENT_URL_SEGMENT then Inr None
      else (case url_decode url segment of
              Inl err \<Rightarrow> Inl (AgentEncoding err)
            | Inr decoded \<Rightarrow>
                (case validate_agent_name decoded of Inl err \<Rightarrow> Inl err | Inr _ \<Rightarrow> Inr (Some decoded))))"

fun plan_item_from_segments :: "string list \<Rightarrow> CidError + PlanItem" where
  "plan_item_from_segments [] = Inr PlanIndex"
| "plan_item_from_segments [kind, i] =
     (if kind = ''tasks'' then map_sum id (\<lambda>_. PlanTask i) (validate_slug i)
      else if kind = ''notes'' then map_sum id (\<lambda>_. PlanNote i) (validate_slug i)
      else Inl (InvalidPlanItem (str_join ''/'' [kind, i])))"
| "plan_item_from_segments segments = Inl (InvalidPlanItem (str_join ''/'' segments))"

definition parse_media :: "url_lib \<Rightarrow> string \<Rightarrow> CidError + CidUrl" where
  "parse_media url rest =
     (case split_once rest ''/'' of
        None \<Rightarrow> Inl MissingAgent
      | Some (agent_encoded, session_and_hash) \<Rightarrow>
          (case split_once session_and_hash ''/'' of
             None \<Rightarrow> Inl MissingSession
           | Some (session_id, hash) \<Rightarrow>
               (case validate_session_id session_id of
                  Inl err \<Rightarrow> Inl err
                | Inr _ \<Rightarrow>
                    (case validate_hash hash of
                       Inl err \<Rightarrow> Inl err
                     | Inr _ \<Rightarrow>
                         (case decode_agent_segment url agent_encoded of
                            Inl err \<Rightarrow> Inl err
                          | Inr agent \<Rightarrow> Inr (Media \<lparr>ref_agent = agent, ref_session_id = session_id\<rparr> hash))))))"

definition parse_plan :: "url_lib \<Rightarrow> string \<Rightarrow> CidError + CidUrl" where
  "parse_plan url rest =
     (case split_once rest ''/'' of
        None \<Rightarrow> Inl MissingAgent
      | Some (agent_encoded, session_and_slug) \<Rightarrow>
          (case split_once session_and_slug ''/'' of
             None \<Rightarrow> Inl MissingSession
           | Some (session_id, slug_and_item) \<Rightarrow>
               (case validate_session_id session_id of
                  Inl err \<Rightarrow> Inl err
                | Inr _ \<Rightarrow>
                    (case (case split_once slug_and_item ''/'' of
                             Some (slug, item_path) \<Rightarrow>
                               map_sum id (Pair slug) (plan_item_from_segments (split_on (CHR ''/'') item_path))
                           | None \<Rightarrow> Inr (slug_and_item, PlanIndex)) of
                       Inl err \<Rightarrow> Inl err
                     | Inr (slug, item) \<Rightarrow>
                         (case validate_slug slug of
                            Inl err \<Rightarrow> Inl err
                          | Inr _ \<Rightarrow>
                              (case decode_agent_segment url agent_encoded of
                                 Inl err \<Rightarrow> Inl err
                               | Inr agent \<Rightarrow>
                                   Inr (Plan \<lparr>ref_agent = agent, ref_session_id = session_id\<rparr> slug item)))))))"

definition parse_cid :: "url_lib \<Rightarrow> string \<Rightarrow> CidError + CidUrl" where
  "parse_cid url s =
     (case strip_prefix_str s CID_PREFIX of
        None \<Rightarrow> Inl NotACid
      | Some rest \<Rightarrow>
          (case split_once rest '':'' of
             None \<Rightarrow> Inl MissingType
           | Some (kind, rest) \<Rightarrow>
               if kind = ''media'' then parse_media url rest
               else if kind = ''plan'' then parse_plan url rest
               else Inl (UnknownType kind)))"

definition show_plan_item :: "PlanItem \<Rightarrow> string" where
  "show_plan_item item =
     (case item of PlanIndex \<Rightarrow> [] | PlanTask i \<Rightarrow> ''/tasks/'' @ i | PlanNote i \<Rightarrow> ''/notes/'' @ i)"

definition show_cid :: "url_lib \<Rightarrow> CidUrl \<Rightarrow> string" where
  "show_cid url c =
     (case c of
        Media session hash \<Rightarrow>
          ''cid:media:'' @ encode_agent_segment url (ref_agent session) @ ''/'' @ ref_session_id session @
          ''/'' @ hash
      | Plan session slug item \<Rightarrow>
          ''cid:plan:'' @ encode_agent_segment url (ref_agent session) @ ''/'' @ ref_session_id session @
          ''/'' @ slug @ show_plan_item item)"

definition cid_session :: "CidUrl \<Rightarrow> SessionRef" where
  "cid_session c = (case c of Media session _ \<Rightarrow> session | Plan session _ _ \<Rightarrow> session)"

definition ref_owner :: "agent_env \<Rightarrow> SessionRef \<Rightarrow> string" where
  "ref_owner env r = session_key env (ref_agent r) (ref_session_id r)"

definition cid_is_immutable :: "CidUrl \<Rightarrow> bool" where
  "cid_is_immutable c \<longleftrightarrow> (case c of Media _ _ \<Rightarrow> True | Plan _ _ _ \<Rightarrow> False)"

definition kv_key :: "agent_env \<Rightarrow> CidUrl \<Rightarrow> string" where
  "kv_key env c =
     (case c of
        Media session hash \<Rightarrow> ''media/'' @ ref_owner env session @ ''/'' @ hash
      | Plan session slug item \<Rightarrow>
          let base = ''plan/'' @ ref_owner env session @ ''/'' @ slug
          in (case item of
                PlanIndex \<Rightarrow> base @ ''/plan''
              | PlanTask i \<Rightarrow> base @ ''/tasks/'' @ i
              | PlanNote i \<Rightarrow> base @ ''/notes/'' @ i))"

section \<open>The content route\<close>











section \<open>Printing and parsing\<close>

text \<open>
  The documented behaviour of \<open>urlencoding\<close>: unreserved characters stay, everything else is escaped
  (so no separator remains), and decoding undoes encoding.
\<close>

definition url_unreserved :: "char \<Rightarrow> bool" where
  "url_unreserved c \<longleftrightarrow>
     between 97 122 c \<or> between 65 90 c \<or> between 48 57 c \<or> c \<in> {CHR ''-'', CHR ''_'', CHR ''.'', CHR ''~''}"

definition urlencoding_laws :: "url_lib \<Rightarrow> bool" where
  "urlencoding_laws url \<longleftrightarrow>
     (\<forall>s. utf8_valid s \<longrightarrow> url_decode url (url_encode url s) = Inr s) \<and>
     (\<forall>s. CHR ''/'' \<notin> set (url_encode url s)) \<and>
     (\<forall>s. list_all url_unreserved s \<longrightarrow> url_encode url s = s)"

definition wf_ref :: "SessionRef \<Rightarrow> bool" where
  "wf_ref r \<longleftrightarrow> session_ref_new (ref_agent r) (ref_session_id r) = Inr r"

definition wf_item :: "PlanItem \<Rightarrow> bool" where
  "wf_item item \<longleftrightarrow>
     (case item of PlanIndex \<Rightarrow> True | PlanTask i \<Rightarrow> validate_slug i = Inr () | PlanNote i \<Rightarrow> validate_slug i = Inr ())"

definition wf_cid :: "CidUrl \<Rightarrow> bool" where
  "wf_cid c \<longleftrightarrow>
     (case c of
        Media r hash \<Rightarrow> wf_ref r \<and> validate_hash hash = Inr ()
      | Plan r slug item \<Rightarrow> wf_ref r \<and> validate_slug slug = Inr () \<and> wf_item item)"

text \<open>What an address whose agent is called like the segment of agentless sessions turns into.\<close>

definition collapse_temp :: "SessionRef \<Rightarrow> SessionRef" where
  "collapse_temp r = (if ref_agent r = Some TEMP_AGENT_URL_SEGMENT then r\<lparr>ref_agent := None\<rparr> else r)"

definition collapse_cid :: "CidUrl \<Rightarrow> CidUrl" where
  "collapse_cid c =
     (case c of Media r hash \<Rightarrow> Media (collapse_temp r) hash | Plan r slug item \<Rightarrow> Plan (collapse_temp r) slug item)"

lemma split_once_absent: "c \<notin> set s \<Longrightarrow> split_once s [c] = None"
  by (auto simp: split_once_def str_find_None_iff prefix_def)
    (metis in_set_dropD list.set_intros(1))

lemma wf_ref_iff:
  "wf_ref r \<longleftrightarrow> validate_session_id (ref_session_id r) = Inr () \<and>
     (\<forall>a. ref_agent r = Some a \<longrightarrow> validate_agent_name a = Inr ())"
  by (cases "ref_agent r") (auto simp: wf_ref_def session_ref_new_def split: sum.splits)

lemma no_slash:
  "validate_session_id i = Inr () \<Longrightarrow> CHR ''/'' \<notin> set i"
  "validate_slug i = Inr () \<Longrightarrow> CHR ''/'' \<notin> set i"
  by (auto simp: validate_session_id_def validate_slug_def list_all_iff is_session_id_byte_def is_slug_byte_def
      between_def split: if_splits)

lemma encode_no_slash: "urlencoding_laws url \<Longrightarrow> CHR ''/'' \<notin> set (encode_agent_segment url agent)"
  by (auto simp: encode_agent_segment_def urlencoding_laws_def TEMP_AGENT_URL_SEGMENT_def split: option.splits)

lemma agent_name_utf8: "validate_agent_name a = Inr () \<Longrightarrow> utf8_valid a"
  by (rule ascii_utf8_valid)
    (auto simp: validate_agent_name_def list_ex_iff is_ascii_def is_agent_byte_def between_def split: if_splits)

lemma TEMP_AGENT_URL_SEGMENT_ascii: "is_ascii TEMP_AGENT_URL_SEGMENT"
  by (simp add: is_ascii_def TEMP_AGENT_URL_SEGMENT_def)

lemma decode_encode_agent:
  assumes "urlencoding_laws url" "\<forall>a. agent = Some a \<longrightarrow> validate_agent_name a = Inr ()"
  shows "decode_agent_segment url (encode_agent_segment url agent) =
    Inr (if agent = Some TEMP_AGENT_URL_SEGMENT then None else agent)"
proof (cases agent)
  case (Some a)
  have temp: "url_encode url TEMP_AGENT_URL_SEGMENT = TEMP_AGENT_URL_SEGMENT"
    using assms(1) by (simp add: urlencoding_laws_def TEMP_AGENT_URL_SEGMENT_def url_unreserved_def between_def)
  have "url_encode url a = TEMP_AGENT_URL_SEGMENT \<longleftrightarrow> a = TEMP_AGENT_URL_SEGMENT"
    using assms Some temp agent_name_utf8 ascii_utf8_valid [of TEMP_AGENT_URL_SEGMENT]
    unfolding urlencoding_laws_def
    by (metis TEMP_AGENT_URL_SEGMENT_ascii sum.inject(2))
  with Some assms agent_name_utf8 show ?thesis
    by (simp add: decode_agent_segment_def encode_agent_segment_def urlencoding_laws_def)
qed (simp add: decode_agent_segment_def encode_agent_segment_def)

lemma slash_split: "CHR ''/'' \<notin> set s \<Longrightarrow> split_once (s @ CHR ''/'' # t) ''/'' = Some (s, t)"
  using split_once_clean [of "''/''" s t] by simp

lemma collapse_temp_fields:
  "\<lparr>ref_agent = (if ref_agent r = Some TEMP_AGENT_URL_SEGMENT then None else ref_agent r),
    ref_session_id = ref_session_id r\<rparr> = collapse_temp r"
  by (simp add: collapse_temp_def)

lemma parse_media_show:
  assumes "urlencoding_laws url" "wf_ref r" "validate_hash hash = Inr ()"
  shows "parse_media url (encode_agent_segment url (ref_agent r) @ CHR ''/'' # ref_session_id r @ CHR ''/'' # hash) =
    Inr (Media (collapse_temp r) hash)"
  using assms encode_no_slash [OF assms(1), of "ref_agent r"]
    decode_encode_agent [OF assms(1), of "ref_agent r"] no_slash(1) [of "ref_session_id r"]
  by (simp add: parse_media_def wf_ref_iff slash_split collapse_temp_fields)

lemma plan_item_show:
  assumes "wf_item item" "validate_slug slug = Inr ()"
  shows "(case split_once (slug @ show_plan_item item) ''/'' of
      Some (slug, item_path) \<Rightarrow> map_sum id (Pair slug) (plan_item_from_segments (split_on (CHR ''/'') item_path))
    | None \<Rightarrow> Inr (slug @ show_plan_item item, PlanIndex)) = Inr (slug, item)"
proof (cases item)
  case PlanIndex
  with no_slash(2) [OF assms(2)] show ?thesis by (simp add: show_plan_item_def split_once_absent)
next
  case (PlanTask i)
  with assms no_slash(2) have "split_on (CHR ''/'') (''tasks'' @ CHR ''/'' # i) = [''tasks'', i]"
    by (subst split_on_append) (auto simp: wf_item_def split_on_clean)
  with PlanTask assms no_slash(2) [OF assms(2)] show ?thesis
    by (simp add: show_plan_item_def slash_split wf_item_def)
next
  case (PlanNote i)
  with assms no_slash(2) have "split_on (CHR ''/'') (''notes'' @ CHR ''/'' # i) = [''notes'', i]"
    by (subst split_on_append) (auto simp: wf_item_def split_on_clean)
  with PlanNote assms no_slash(2) [OF assms(2)] show ?thesis
    by (simp add: show_plan_item_def slash_split wf_item_def)
qed

lemma parse_plan_show:
  assumes "urlencoding_laws url" "wf_ref r" "validate_slug slug = Inr ()" "wf_item item"
  shows "parse_plan url (encode_agent_segment url (ref_agent r) @ CHR ''/'' # ref_session_id r @
      CHR ''/'' # slug @ show_plan_item item) = Inr (Plan (collapse_temp r) slug item)"
  using assms encode_no_slash [OF assms(1), of "ref_agent r"]
    decode_encode_agent [OF assms(1), of "ref_agent r"] no_slash(1) [of "ref_session_id r"]
  unfolding parse_plan_def
  by (simp add: wf_ref_iff slash_split plan_item_show collapse_temp_fields)

lemma parse_show_cid:
  assumes "urlencoding_laws url" "wf_cid c"
  shows "parse_cid url (show_cid url c) = Inr (collapse_cid c)"
proof -
  have cid: "strip_prefix_str (''cid:'' @ t) CID_PREFIX = Some t" for t
    unfolding CID_PREFIX_def by (rule strip_prefix_append)
  have kind: "split_once (''media'' @ '':'' @ t) '':'' = Some (''media'', t)"
      "split_once (''plan'' @ '':'' @ t) '':'' = Some (''plan'', t)" for t
    by (rule split_once_clean; simp)+
  show ?thesis
  proof (cases c)
    case (Media r hash)
    with assms parse_media_show [of url r hash] cid [of "''media'' @ '':'' @ t" for t] kind(1)
    show ?thesis by (simp add: parse_cid_def show_cid_def wf_cid_def collapse_cid_def)
  next
    case (Plan r slug item)
    with assms parse_plan_show [of url r slug item] cid [of "''plan'' @ '':'' @ t" for t] kind(2)
    show ?thesis by (simp add: parse_cid_def show_cid_def wf_cid_def collapse_cid_def)
  qed
qed

lemma decode_agent_valid:
  "decode_agent_segment url seg = Inr agent \<Longrightarrow> \<forall>a. agent = Some a \<longrightarrow> validate_agent_name a = Inr ()"
  by (auto simp: decode_agent_segment_def split: if_splits sum.splits)

lemma plan_item_valid: "plan_item_from_segments segs = Inr item \<Longrightarrow> wf_item item"
  by (cases segs rule: plan_item_from_segments.cases)
    (auto simp: wf_item_def map_sum_Inr_iff split: if_splits)

lemma parse_cid_wf: "parse_cid url s = Inr c \<Longrightarrow> wf_cid c"
proof -
  have media: "wf_cid c" if "parse_media url rest = Inr c" for rest
    using that
    by (auto simp: parse_media_def wf_cid_def wf_ref_iff split: option.splits sum.splits prod.splits
        dest: decode_agent_valid)
  have plan: "wf_cid c" if "parse_plan url rest = Inr c" for rest
    using that
    by (auto simp: parse_plan_def wf_cid_def wf_ref_iff wf_item_def [of PlanIndex] map_sum_Inr_iff
        split: option.splits sum.splits prod.splits)
      (blast dest: decode_agent_valid plan_item_valid)+
  assume "parse_cid url s = Inr c"
  then show ?thesis by (auto simp: parse_cid_def split: option.splits if_splits prod.splits intro: media plan)
qed

section \<open>Escaping\<close>

text \<open>\<open>encodeURIComponent\<close> on UTF-8 bytes, the encoding clients use for a path segment.\<close>

definition nibble :: "nat \<Rightarrow> char" where
  "nibble n = char_of (if n < 10 then 48 + n else 55 + n)"

definition escape_byte :: "char \<Rightarrow> string" where
  "escape_byte c =
     (if url_unreserved c then [c]
      else [CHR ''%'', nibble (of_char c div 16), nibble (of_char c mod 16)])"

definition escape_component :: "string \<Rightarrow> string" where
  "escape_component s = concat (map escape_byte s)"

lemma hex_val_nibble: "n < 16 \<Longrightarrow> hex_val (nibble n) = Some n"
  by (auto simp: hex_val_def nibble_def of_char_of Let_def)

lemma percent_bytes_plain: "c \<noteq> CHR ''%'' \<Longrightarrow> percent_bytes (c # s) = c # percent_bytes s"
  by (cases s rule: percent_bytes.cases) auto

lemma percent_bytes_escape: "percent_bytes (escape_component s) = s"
proof (induction s)
  case (Cons c s)
  have "char_of (16 * (of_char c div 16) + of_char c mod 16 :: nat) = c" by simp
  moreover have "(of_char c :: nat) div 16 < 16" by (simp add: of_char_def less_mult_imp_div_less)
  moreover have "c \<noteq> CHR ''%''" if "url_unreserved c" using that by (auto simp: url_unreserved_def between_def)
  ultimately show ?case
    using Cons by (auto simp: escape_component_def escape_byte_def percent_bytes_plain hex_val_nibble)
qed (simp add: escape_component_def)

lemma slash_not_escaped: "CHR ''/'' \<notin> set (escape_component s)"
proof -
  have "CHR ''/'' \<noteq> nibble n" if "n < 16" for n
  proof
    assume "CHR ''/'' = nibble n"
    then have "hex_val (CHR ''/'') = Some n" using hex_val_nibble [OF that] by simp
    then show False by (simp add: hex_val_def)
  qed
  moreover have "(of_char c :: nat) div 16 < 16" for c by (simp add: of_char_def less_mult_imp_div_less)
  ultimately show ?thesis
    by (auto simp: escape_component_def escape_byte_def url_unreserved_def between_def split: if_splits)
qed

definition demo_url :: url_lib where
  "demo_url = \<lparr>url_encode = escape_component, url_decode = (\<lambda>s. Inr (percent_bytes s)), decode_path = Some\<rparr>"

lemma demo_url_laws: "urlencoding_laws demo_url"
proof -
  have "escape_component s = s" if "list_all url_unreserved s" for s
    using that by (induction s) (auto simp: escape_component_def escape_byte_def)
  then show ?thesis
    by (simp add: urlencoding_laws_def demo_url_def percent_bytes_escape slash_not_escaped)
qed

section \<open>Properties\<close>

text \<open>
  C35: A content address survives printing and parsing: what parses is well formed, and parsing what is printed
  gives the address back, with one exception. An agent called \<open>_temp\<close> is accepted as a
  name but prints as the segment of agentless sessions, so its addresses come back without their agent.
\<close>

theorem cid_url_round_trip:
  assumes "urlencoding_laws url"
  shows "(wf_cid c \<longrightarrow> parse_cid url (show_cid url c) =
      Inr (if ref_agent (cid_session c) = Some ''_temp'' then collapse_cid c else c)) \<and>
    (parse_cid url s = Inr d \<longrightarrow> wf_cid d)"
proof -
  have "collapse_cid c = c" if "ref_agent (cid_session c) \<noteq> Some ''_temp''"
    using that by (cases c) (auto simp: collapse_cid_def collapse_temp_def cid_session_def TEMP_AGENT_URL_SEGMENT_def)
  with parse_show_cid [OF assms, of c] parse_cid_wf [of url s d] show ?thesis by auto
qed

theorem cid_url_round_trip_witness:
  "parse_cid demo_url (show_cid demo_url (Plan \<lparr>ref_agent = Some ''pkg/coder'', ref_session_id = ''abc-_9''\<rparr> ''p'' (PlanTask ''t1''))) =
     Inr (Plan \<lparr>ref_agent = Some ''pkg/coder'', ref_session_id = ''abc-_9''\<rparr> ''p'' (PlanTask ''t1'')) \<and>
   parse_cid demo_url (show_cid demo_url (Plan \<lparr>ref_agent = Some ''_temp'', ref_session_id = ''abc-_9''\<rparr> ''p'' PlanIndex)) =
     Inr (Plan \<lparr>ref_agent = None, ref_session_id = ''abc-_9''\<rparr> ''p'' PlanIndex)"
proof -
  have "wf_cid (Plan \<lparr>ref_agent = Some ''pkg/coder'', ref_session_id = ''abc-_9''\<rparr> ''p'' (PlanTask ''t1''))"
      "wf_cid (Plan \<lparr>ref_agent = Some ''_temp'', ref_session_id = ''abc-_9''\<rparr> ''p'' PlanIndex)"
    by (simp_all add: wf_cid_def wf_ref_iff wf_item_def validate_slug_def validate_session_id_def validate_agent_name_def
        is_slug_byte_def is_session_id_byte_def is_agent_byte_def between_def TEMP_AGENT_NAME_def)
  with cid_url_round_trip [OF demo_url_laws, of _ "[]" "undefined"]
  show ?thesis
    by (simp add: cid_session_def collapse_cid_def collapse_temp_def TEMP_AGENT_URL_SEGMENT_def)
qed







end
