(* ===== verification/Nats_Io.thy ===== *)
theory Nats_Io
  imports Text_Format Log_Mutations
begin

text \<open>
  Asynchronous code over NATS. An \<open>async fn\<close> is a tree of requests: each await on the broker, and
  each read of an atomic another task may write, is a node whose continuation takes the answer.
  Between two nodes anything may happen to the world, the work of other processes included, so the
  await points are the interleaving points. The broker is a parameter, the record \<open>nats\<close> of its
  answers on an unspecified world. Also here: \<open>harnx-nats-common/src/recovery.rs\<close>.
\<close>

section \<open>Requests and answers\<close>

datatype CreateErrorKind = AlreadyExists | CreateOther string
datatype UpdateErrorKind = WrongLastRevision | UpdateTimedOut | UpdateOther | UpdateInvalidKey
datatype PublishErrorKind = WrongLastSequence | TimedOut | BrokenPipe | PublishOther string

datatype kv_operation = OpPut | OpDelete | OpPurge

record kv_entry =
  entry_operation :: kv_operation
  entry_revision :: nat
  entry_value :: string

datatype request =
    CreateReq string string "duration option"
  | EntryReq string
  | UpdateReq string string nat
  | DeleteReq string nat
  | RenewReq string string nat int string
  | AppendReq SessionLogEntry "seq option" string
  | LoadReq seq
  | LastReq
  | LocalReq

datatype 'a io =
    Ret 'a
  | OpenStore "string + unit \<Rightarrow> 'a io"
  | Create string string "duration option" "CreateErrorKind + nat \<Rightarrow> 'a io"
  | GetEntry string "string + kv_entry option \<Rightarrow> 'a io"
  | LeaderEntry string "string + kv_entry option \<Rightarrow> 'a io"
  | Update string string nat "UpdateErrorKind + nat \<Rightarrow> 'a io"
  | DeleteExpect string nat "UpdateErrorKind + unit \<Rightarrow> 'a io"
  | Renew string string nat int string "PublishErrorKind + nat \<Rightarrow> 'a io"
  | Append SessionLogEntry "seq option" string "PublishErrorKind + seq \<Rightarrow> 'a io"
  | LoadAfter seq "string + log \<Rightarrow> 'a io"
  | LastEntry "string + (seq \<times> SessionLogEntry) option \<Rightarrow> 'a io"
  | IsHeld "bool \<Rightarrow> 'a io"
  | FenceToken "fence \<Rightarrow> 'a io"
  | Observed "seq option \<Rightarrow> 'a io"
  | Observe seq "'a io"

text \<open>
  \<open>Renew key value expected ttl id\<close> is a publish on the key's subject under an expected last sequence of that
  subject and with a time to live in seconds; \<open>Append entry expected id\<close> a publish on the session's stream; \<open>LoadAfter\<close> and
  \<open>LastEntry\<close> read that stream. The last four are the worker's own atomics: whether its lease is
  held, the lease's fence token, and the highest sequence number it has appended.
\<close>

record 'w nats =
  nats_open :: "'w \<Rightarrow> 'w \<times> (string + unit)"
  nats_create :: "string \<Rightarrow> string \<Rightarrow> duration option \<Rightarrow> 'w \<Rightarrow> 'w \<times> (CreateErrorKind + nat)"
  nats_entry :: "string \<Rightarrow> 'w \<Rightarrow> 'w \<times> (string + kv_entry option)"
  nats_leader_entry :: "string \<Rightarrow> 'w \<Rightarrow> 'w \<times> (string + kv_entry option)"
  nats_update :: "string \<Rightarrow> string \<Rightarrow> nat \<Rightarrow> 'w \<Rightarrow> 'w \<times> (UpdateErrorKind + nat)"
  nats_delete :: "string \<Rightarrow> nat \<Rightarrow> 'w \<Rightarrow> 'w \<times> (UpdateErrorKind + unit)"
  nats_renew :: "string \<Rightarrow> string \<Rightarrow> nat \<Rightarrow> int \<Rightarrow> string \<Rightarrow> 'w \<Rightarrow> 'w \<times> (PublishErrorKind + nat)"
  nats_append :: "SessionLogEntry \<Rightarrow> seq option \<Rightarrow> string \<Rightarrow> 'w \<Rightarrow> 'w \<times> (PublishErrorKind + seq)"
  nats_load :: "seq \<Rightarrow> 'w \<Rightarrow> 'w \<times> (string + log)"
  nats_last :: "'w \<Rightarrow> 'w \<times> (string + (seq \<times> SessionLogEntry) option)"
  local_held :: "'w \<Rightarrow> bool"
  local_token :: "'w \<Rightarrow> fence"
  local_observed :: "'w \<Rightarrow> seq option"
  local_observe :: "seq \<Rightarrow> 'w \<Rightarrow> 'w"

primrec bind :: "'a io \<Rightarrow> ('a \<Rightarrow> 'b io) \<Rightarrow> 'b io" where
  "bind (Ret a) f = f a"
| "bind (OpenStore c) f = OpenStore (\<lambda>r. bind (c r) f)"
| "bind (Create k v t c) f = Create k v t (\<lambda>r. bind (c r) f)"
| "bind (GetEntry k c) f = GetEntry k (\<lambda>r. bind (c r) f)"
| "bind (LeaderEntry k c) f = LeaderEntry k (\<lambda>r. bind (c r) f)"
| "bind (Update k v e c) f = Update k v e (\<lambda>r. bind (c r) f)"
| "bind (DeleteExpect k e c) f = DeleteExpect k e (\<lambda>r. bind (c r) f)"
| "bind (Renew k v e t i c) f = Renew k v e t i (\<lambda>r. bind (c r) f)"
| "bind (Append x e i c) f = Append x e i (\<lambda>r. bind (c r) f)"
| "bind (LoadAfter s c) f = LoadAfter s (\<lambda>r. bind (c r) f)"
| "bind (LastEntry c) f = LastEntry (\<lambda>r. bind (c r) f)"
| "bind (IsHeld c) f = IsHeld (\<lambda>r. bind (c r) f)"
| "bind (FenceToken c) f = FenceToken (\<lambda>r. bind (c r) f)"
| "bind (Observed c) f = Observed (\<lambda>r. bind (c r) f)"
| "bind (Observe s p) f = Observe s (bind p f)"

lemma bind_Ret [simp]: "bind p Ret = p"
  by (induction p) auto

lemma bind_assoc: "bind (bind p f) g = bind p (\<lambda>a. bind (f a) g)"
  by (induction p) auto

section \<open>Running under interference\<close>

text \<open>One step: the request, the world after it, and what remains. A \<open>Ret\<close> takes no step.\<close>

fun perform :: "'w nats \<Rightarrow> 'a io \<Rightarrow> 'w \<Rightarrow> (request \<times> 'w \<times> 'a io) option" where
  "perform n (Ret a) w = None"
| "perform n (OpenStore c) w = (case nats_open n w of (w', r) \<Rightarrow> Some (LocalReq, w', c r))"
| "perform n (Create k v t c) w = (case nats_create n k v t w of (w', r) \<Rightarrow> Some (CreateReq k v t, w', c r))"
| "perform n (GetEntry k c) w = (case nats_entry n k w of (w', r) \<Rightarrow> Some (EntryReq k, w', c r))"
| "perform n (LeaderEntry k c) w = (case nats_leader_entry n k w of (w', r) \<Rightarrow> Some (EntryReq k, w', c r))"
| "perform n (Update k v e c) w = (case nats_update n k v e w of (w', r) \<Rightarrow> Some (UpdateReq k v e, w', c r))"
| "perform n (DeleteExpect k e c) w = (case nats_delete n k e w of (w', r) \<Rightarrow> Some (DeleteReq k e, w', c r))"
| "perform n (Renew k v e t i c) w = (case nats_renew n k v e t i w of (w', r) \<Rightarrow> Some (RenewReq k v e t i, w', c r))"
| "perform n (Append x e i c) w = (case nats_append n x e i w of (w', r) \<Rightarrow> Some (AppendReq x e i, w', c r))"
| "perform n (LoadAfter s c) w = (case nats_load n s w of (w', r) \<Rightarrow> Some (LoadReq s, w', c r))"
| "perform n (LastEntry c) w = (case nats_last n w of (w', r) \<Rightarrow> Some (LastReq, w', c r))"
| "perform n (IsHeld c) w = Some (LocalReq, w, c (local_held n w))"
| "perform n (FenceToken c) w = Some (LocalReq, w, c (local_token n w))"
| "perform n (Observed c) w = Some (LocalReq, w, c (local_observed n w))"
| "perform n (Observe s p) w = Some (LocalReq, local_observe n s w, p)"

text \<open>
  A run takes, for each step, what happened to the world before it. It ends with the program's
  result, or with none when the list ends first: the process crashed or is still waiting. The trace has
  every request with the world it met and the world it left.
\<close>

definition returned :: "'a io \<Rightarrow> 'a option" where
  "returned p = (case p of Ret a \<Rightarrow> Some a | _ \<Rightarrow> None)"

fun run :: "'w nats \<Rightarrow> 'a io \<Rightarrow> ('w \<Rightarrow> 'w) list \<Rightarrow> 'w \<Rightarrow> 'w \<times> (request \<times> 'w \<times> 'w) list \<times> 'a option" where
  "run n p [] w = (w, [], returned p)"
| "run n p (e # es) w =
     (case perform n p (e w) of
        None \<Rightarrow> (w, [], returned p)
      | Some (q, w1, p1) \<Rightarrow>
          (case run n p1 es w1 of (w2, tr, res) \<Rightarrow> (w2, (q, e w, w1) # tr, res)))"

lemma returned_simps [simp]: "returned (Ret a) = Some a"
  by (simp add: returned_def)

lemma run_Ret [simp]: "run n (Ret a) es w = (w, [], Some a)"
  by (cases es) simp_all

lemma returned_SomeD: "returned p = Some a \<Longrightarrow> p = Ret a"
  by (cases p) (auto simp: returned_def)

section \<open>Rely and guarantee\<close>

text \<open>
  \<open>sat R n G Q p w\<close>: started in \<open>w\<close>, with interference inside \<open>R\<close>, every step of \<open>p\<close> moves the world within \<open>G\<close>
  (which sees the request, the world it met and the world it left), and a result \<open>a\<close> in world \<open>w'\<close> satisfies \<open>Q a w'\<close>.
\<close>

primrec sat :: "('w \<Rightarrow> 'w \<Rightarrow> bool) \<Rightarrow> 'w nats \<Rightarrow> (request \<Rightarrow> 'w \<Rightarrow> 'w \<Rightarrow> bool) \<Rightarrow> ('a \<Rightarrow> 'w \<Rightarrow> bool)
      \<Rightarrow> 'a io \<Rightarrow> 'w \<Rightarrow> bool" where
  "sat R n G Q (Ret a) = Q a"
| "sat R n G Q (OpenStore c) =
     (\<lambda>w. \<forall>w1 w2 r. R w w1 \<longrightarrow> nats_open n w1 = (w2, r) \<longrightarrow> G LocalReq w1 w2 \<and> sat R n G Q (c r) w2)"
| "sat R n G Q (Create k v t c) =
     (\<lambda>w. \<forall>w1 w2 r. R w w1 \<longrightarrow> nats_create n k v t w1 = (w2, r) \<longrightarrow> G (CreateReq k v t) w1 w2 \<and> sat R n G Q (c r) w2)"
| "sat R n G Q (GetEntry k c) =
     (\<lambda>w. \<forall>w1 w2 r. R w w1 \<longrightarrow> nats_entry n k w1 = (w2, r) \<longrightarrow> G (EntryReq k) w1 w2 \<and> sat R n G Q (c r) w2)"
| "sat R n G Q (LeaderEntry k c) =
     (\<lambda>w. \<forall>w1 w2 r. R w w1 \<longrightarrow> nats_leader_entry n k w1 = (w2, r) \<longrightarrow> G (EntryReq k) w1 w2 \<and> sat R n G Q (c r) w2)"
| "sat R n G Q (Update k v e c) =
     (\<lambda>w. \<forall>w1 w2 r. R w w1 \<longrightarrow> nats_update n k v e w1 = (w2, r) \<longrightarrow> G (UpdateReq k v e) w1 w2 \<and> sat R n G Q (c r) w2)"
| "sat R n G Q (DeleteExpect k e c) =
     (\<lambda>w. \<forall>w1 w2 r. R w w1 \<longrightarrow> nats_delete n k e w1 = (w2, r) \<longrightarrow> G (DeleteReq k e) w1 w2 \<and> sat R n G Q (c r) w2)"
| "sat R n G Q (Renew k v e t i c) =
     (\<lambda>w. \<forall>w1 w2 r. R w w1 \<longrightarrow> nats_renew n k v e t i w1 = (w2, r) \<longrightarrow> G (RenewReq k v e t i) w1 w2 \<and> sat R n G Q (c r) w2)"
| "sat R n G Q (Append x e i c) =
     (\<lambda>w. \<forall>w1 w2 r. R w w1 \<longrightarrow> nats_append n x e i w1 = (w2, r) \<longrightarrow> G (AppendReq x e i) w1 w2 \<and> sat R n G Q (c r) w2)"
| "sat R n G Q (LoadAfter s c) =
     (\<lambda>w. \<forall>w1 w2 r. R w w1 \<longrightarrow> nats_load n s w1 = (w2, r) \<longrightarrow> G (LoadReq s) w1 w2 \<and> sat R n G Q (c r) w2)"
| "sat R n G Q (LastEntry c) =
     (\<lambda>w. \<forall>w1 w2 r. R w w1 \<longrightarrow> nats_last n w1 = (w2, r) \<longrightarrow> G LastReq w1 w2 \<and> sat R n G Q (c r) w2)"
| "sat R n G Q (IsHeld c) = (\<lambda>w. \<forall>w1. R w w1 \<longrightarrow> G LocalReq w1 w1 \<and> sat R n G Q (c (local_held n w1)) w1)"
| "sat R n G Q (FenceToken c) = (\<lambda>w. \<forall>w1. R w w1 \<longrightarrow> G LocalReq w1 w1 \<and> sat R n G Q (c (local_token n w1)) w1)"
| "sat R n G Q (Observed c) = (\<lambda>w. \<forall>w1. R w w1 \<longrightarrow> G LocalReq w1 w1 \<and> sat R n G Q (c (local_observed n w1)) w1)"
| "sat R n G Q (Observe s p) =
     (\<lambda>w. \<forall>w1. R w w1 \<longrightarrow> G LocalReq w1 (local_observe n s w1) \<and> sat R n G Q p (local_observe n s w1))"

lemma sat_bind: "sat R n G (\<lambda>a. sat R n G Q (f a)) p w \<Longrightarrow> sat R n G Q (bind p f) w"
  by (induction p arbitrary: w) auto

lemma sat_mono:
  assumes "sat R n G Q p w" "\<And>a w. Q a w \<Longrightarrow> Q' a w" "\<And>q w w'. G q w w' \<Longrightarrow> G' q w w'"
  shows "sat R n G' Q' p w"
  using assms(1) by (induction p arbitrary: w) (auto intro: assms(2,3))

lemma sat_perform:
  assumes "sat R n G Q p w" "R w w1" "perform n p w1 = Some (q, w2, p2)"
  shows "G q w1 w2 \<and> sat R n G Q p2 w2"
  using assms by (cases p) (auto split: prod.splits)

text \<open>What the environment may do is a preorder; every interference of a run stays within it.\<close>

definition within :: "('w \<Rightarrow> 'w \<Rightarrow> bool) \<Rightarrow> ('w \<Rightarrow> 'w) list \<Rightarrow> bool" where
  "within R es \<longleftrightarrow> (\<forall>e \<in> set es. \<forall>w. R w (e w))"

lemma within_simps [simp]:
  "within R []"
  "within R (e # es) \<longleftrightarrow> (\<forall>w. R w (e w)) \<and> within R es"
  by (auto simp: within_def)

locale interference =
  fixes rely :: "'w \<Rightarrow> 'w \<Rightarrow> bool"
  assumes rely_refl: "rely w w"
    and rely_trans: "rely u v \<Longrightarrow> rely v w \<Longrightarrow> rely u w"
begin

lemma run_sat:
  assumes "sat rely n G Q p w" "within rely es" "run n p es w = (w', tr, res)"
  shows "\<forall>a. res = Some a \<longrightarrow> Q a w'" "\<forall>(q, u, v) \<in> set tr. G q u v"
    "(\<forall>q u v. G q u v \<longrightarrow> rely u v) \<longrightarrow> rely w w'"
proof -
  have "(\<forall>a. res = Some a \<longrightarrow> Q a w') \<and> (\<forall>(q, u, v) \<in> set tr. G q u v) \<and>
      ((\<forall>q u v. G q u v \<longrightarrow> rely u v) \<longrightarrow> rely w w')"
    using assms
  proof (induction es arbitrary: p w w' tr res)
    case (Cons e es)
    show ?case
    proof (cases "perform n p (e w)")
      case None
      with Cons.prems show ?thesis by (auto simp: rely_refl dest: returned_SomeD)
    next
      case (Some s)
      then obtain q w1 p1 where s: "perform n p (e w) = Some (q, w1, p1)" by (cases s) auto
      obtain tr' where rest: "run n p1 es w1 = (w', tr', res)" and tr: "tr = (q, e w, w1) # tr'"
        using Cons.prems(3) s by (auto split: prod.splits)
      have env: "rely w (e w)" "within rely es" using Cons.prems(2) by auto
      have step: "G q (e w) w1 \<and> sat rely n G Q p1 w1" by (rule sat_perform [OF Cons.prems(1) env(1) s])
      have "rely (e w) w1 \<Longrightarrow> rely w1 w' \<Longrightarrow> rely w w'" by (blast intro: rely_trans env(1))
      then show ?thesis using Cons.IH [OF _ env(2) rest] step tr by auto
    qed
  qed (auto simp: rely_refl dest: returned_SomeD)
  then show "\<forall>a. res = Some a \<longrightarrow> Q a w'" "\<forall>(q, u, v) \<in> set tr. G q u v"
    "(\<forall>q u v. G q u v \<longrightarrow> rely u v) \<longrightarrow> rely w w'" by blast+
qed

lemmas run_result = run_sat(1) [rule_format]
lemmas run_world = run_sat(3) [rule_format]

end

section \<open>Retrying until a deadline\<close>

text \<open>
  \<open>retry_until\<close>: the comparisons of the clock with the deadline come as one record per try. A try
  that times out may have reached the broker. The list's end is the deadline. The error is \<open>None\<close> when the
  deadline passed and the operation's own otherwise.
\<close>

record try_timing =
  in_time :: bool
  answered :: bool
  may_wait :: bool

fun retry_until :: "('e \<Rightarrow> bool) \<Rightarrow> ('e + 'a) io \<Rightarrow> try_timing list \<Rightarrow> ('e option + 'a) io" where
  "retry_until retryable operation [] = Ret (Inl None)"
| "retry_until retryable operation (t # ts) =
     (if \<not> in_time t then Ret (Inl None)
      else bind operation (\<lambda>result.
             if \<not> answered t then Ret (Inl None)
             else case result of
                    Inr v \<Rightarrow> Ret (Inr v)
                  | Inl e \<Rightarrow>
                      if retryable e \<and> may_wait t then retry_until retryable operation ts
                      else Ret (Inl (Some e))))"

definition transient_publish :: "PublishErrorKind \<Rightarrow> bool" where
  "transient_publish e \<longleftrightarrow> e = TimedOut \<or> e = BrokenPipe"

lemma sat_retry_until:
  assumes op: "\<And>w. J w \<Longrightarrow> sat R n G (\<lambda>res w'. Q (Inl None) w' \<and>
        (case res of Inr v \<Rightarrow> Q (Inr v) w' | Inl e \<Rightarrow> Q (Inl (Some e)) w' \<and> (retryable e \<longrightarrow> J w'))) operation w"
    and none: "\<And>w. J w \<Longrightarrow> Q (Inl None) w"
    and "J w"
  shows "sat R n G Q (retry_until retryable operation ts) w"
  using \<open>J w\<close>
proof (induction ts arbitrary: w)
  case (Cons t ts)
  have "sat R n G Q (bind operation (\<lambda>result.
             if \<not> answered t then Ret (Inl None)
             else case result of
                    Inr v \<Rightarrow> Ret (Inr v)
                  | Inl e \<Rightarrow>
                      if retryable e \<and> may_wait t then retry_until retryable operation ts
                      else Ret (Inl (Some e)))) w"
    by (intro sat_bind sat_mono [OF op [OF Cons.prems]])
       (auto split: sum.splits intro: Cons.IH)
  with Cons.prems show ?case by (simp add: none)
qed (simp add: none)

text \<open>Introduction rules, one goal for each kind of request.\<close>

lemma sat_askI:
  "(\<And>w1 w2 r. R w w1 \<Longrightarrow> nats_open n w1 = (w2, r) \<Longrightarrow> G LocalReq w1 w2 \<and> sat R n G Q (c1 r) w2) \<Longrightarrow> sat R n G Q (OpenStore c1) w"
  "(\<And>w1 w2 r. R w w1 \<Longrightarrow> nats_create n k v t w1 = (w2, r) \<Longrightarrow> G (CreateReq k v t) w1 w2 \<and> sat R n G Q (c2 r) w2) \<Longrightarrow>
     sat R n G Q (Create k v t c2) w"
  "(\<And>w1 w2 r. R w w1 \<Longrightarrow> nats_entry n k w1 = (w2, r) \<Longrightarrow> G (EntryReq k) w1 w2 \<and> sat R n G Q (c3 r) w2) \<Longrightarrow>
     sat R n G Q (GetEntry k c3) w"
  "(\<And>w1 w2 r. R w w1 \<Longrightarrow> nats_leader_entry n k w1 = (w2, r) \<Longrightarrow> G (EntryReq k) w1 w2 \<and> sat R n G Q (c4 r) w2) \<Longrightarrow>
     sat R n G Q (LeaderEntry k c4) w"
  "(\<And>w1 w2 r. R w w1 \<Longrightarrow> nats_update n k v e w1 = (w2, r) \<Longrightarrow> G (UpdateReq k v e) w1 w2 \<and> sat R n G Q (c5 r) w2) \<Longrightarrow>
     sat R n G Q (Update k v e c5) w"
  "(\<And>w1 w2 r. R w w1 \<Longrightarrow> nats_delete n k e w1 = (w2, r) \<Longrightarrow> G (DeleteReq k e) w1 w2 \<and> sat R n G Q (c6 r) w2) \<Longrightarrow>
     sat R n G Q (DeleteExpect k e c6) w"
  "(\<And>w1 w2 r. R w w1 \<Longrightarrow> nats_renew n k v e s i w1 = (w2, r) \<Longrightarrow> G (RenewReq k v e s i) w1 w2 \<and> sat R n G Q (c7 r) w2) \<Longrightarrow>
     sat R n G Q (Renew k v e s i c7) w"
  "(\<And>w1 w2 r. R w w1 \<Longrightarrow> nats_append n x p i w1 = (w2, r) \<Longrightarrow> G (AppendReq x p i) w1 w2 \<and> sat R n G Q (c8 r) w2) \<Longrightarrow>
     sat R n G Q (Append x p i c8) w"
  "(\<And>w1 w2 r. R w w1 \<Longrightarrow> nats_load n q w1 = (w2, r) \<Longrightarrow> G (LoadReq q) w1 w2 \<and> sat R n G Q (c9 r) w2) \<Longrightarrow>
     sat R n G Q (LoadAfter q c9) w"
  "(\<And>w1 w2 r. R w w1 \<Longrightarrow> nats_last n w1 = (w2, r) \<Longrightarrow> G LastReq w1 w2 \<and> sat R n G Q (c10 r) w2) \<Longrightarrow>
     sat R n G Q (LastEntry c10) w"
  by simp_all

end
