(* ===== verification/Kv_Key.thy ===== *)
theory Kv_Key
  imports Nats_Io
begin

text \<open>
  One key of a JetStream key-value bucket, seen by all the clients that write it: the entry that is
  live, the last sequence number of the bucket, and what was ever stored. Revisions are sequence
  numbers of the bucket's stream, so a write always gets a larger one than all before. The
  laws at the end say which change each answer of the broker goes with.
\<close>

section \<open>History of a key\<close>

record key_view =
  kv_live :: "(nat \<times> string) option"
  kv_last :: nat
  kv_created :: "nat set"
  kv_stored :: "nat \<rightharpoonup> string"
  kv_renewed :: "(string \<times> nat \<times> nat) set"

text \<open>
  \<open>kv_created\<close> are the revisions at which the key came to life, \<open>kv_stored\<close> every value written, \<open>kv_renewed\<close>
  the accepted publishes with a message id: id, expected revision, new revision.
\<close>

definition put_value :: "nat \<Rightarrow> string \<Rightarrow> key_view \<Rightarrow> key_view" where
  "put_value r x v = v\<lparr>kv_live := Some (r, x), kv_last := r, kv_stored := (kv_stored v)(r \<mapsto> x)\<rparr>"

definition created_at :: "nat \<Rightarrow> string \<Rightarrow> key_view \<Rightarrow> key_view \<Rightarrow> bool" where
  "created_at r x v v' \<longleftrightarrow>
     kv_live v = None \<and> kv_last v < r \<and> v' = (put_value r x v)\<lparr>kv_created := insert r (kv_created v)\<rparr>"

definition updated_at :: "nat \<Rightarrow> nat \<Rightarrow> string \<Rightarrow> key_view \<Rightarrow> key_view \<Rightarrow> bool" where
  "updated_at e r x v v' \<longleftrightarrow> map_option fst (kv_live v) = Some e \<and> kv_last v < r \<and> v' = put_value r x v"

definition renewed_at :: "string \<Rightarrow> nat \<Rightarrow> nat \<Rightarrow> string \<Rightarrow> key_view \<Rightarrow> key_view \<Rightarrow> bool" where
  "renewed_at i e r x v v' \<longleftrightarrow>
     map_option fst (kv_live v) = Some e \<and> kv_last v < r \<and>
     v' = (put_value r x v)\<lparr>kv_renewed := insert (i, e, r) (kv_renewed v)\<rparr>"

definition removed_at :: "nat \<Rightarrow> key_view \<Rightarrow> key_view \<Rightarrow> bool" where
  "removed_at e v v' \<longleftrightarrow>
     map_option fst (kv_live v) = Some e \<and> (\<exists>r > kv_last v. v' = v\<lparr>kv_live := None, kv_last := r\<rparr>)"

text \<open>
  A removal is a client's delete or the end of the entry's time to live; other keys share the stream.
  A publish with a message id names the revision it expects at the end of the id, as every client
  of this program does.
\<close>

definition names_revision :: "string \<Rightarrow> nat \<Rightarrow> bool" where
  "names_revision i e \<longleftrightarrow> (\<exists>p. i = p @ '':'' @ show_nat e)"

lemma names_revision_unique:
  assumes "names_revision i e" "names_revision i e'"
  shows "e = e'"
proof -
  have "\<exists>p. rsplit_once i '':'' = Some (p, show_nat d)" if d: "names_revision i d" for d
  proof -
    obtain p where i: "i = p @ '':'' @ show_nat d" using d by (auto simp: names_revision_def)
    have "CHR '':'' \<notin> set (show_nat d)" by (rule show_nat_avoids) (simp add: is_digit_def)
    from rsplit_once_marked [of "CHR '':''" "[]" "[]" "show_nat d" p] this show ?thesis by (simp add: i)
  qed
  from this [OF assms(1)] this [OF assms(2)] have "show_nat e = show_nat e'" by auto
  then show ?thesis by (metis digits_value_show_nat)
qed

inductive key_step :: "key_view \<Rightarrow> key_view \<Rightarrow> bool" where
  step_created: "created_at r x v v' \<Longrightarrow> key_step v v'"
| step_updated: "updated_at e r x v v' \<Longrightarrow> key_step v v'"
| step_renewed: "renewed_at i e r x v v' \<Longrightarrow> names_revision i e \<Longrightarrow> key_step v v'"
| step_removed: "removed_at e v v' \<Longrightarrow> key_step v v'"
| step_elsewhere: "kv_last v \<le> r \<Longrightarrow> v' = v\<lparr>kv_last := r\<rparr> \<Longrightarrow> key_step v v'"

abbreviation key_later :: "key_view \<Rightarrow> key_view \<Rightarrow> bool" where
  "key_later \<equiv> key_step\<^sup>*\<^sup>*"

lemmas key_step_defs = created_at_def updated_at_def renewed_at_def removed_at_def put_value_def

interpretation key_rely: interference "\<lambda>w w'. key_later (view w) (view w')" for view
  by unfold_locales auto

section \<open>Invariant\<close>

text \<open>
  The live entry is the newest thing that happened to the key: no creation is newer. An accepted
  publish moves from its expected revision to its new one with no creation in between.
\<close>

definition key_ok :: "key_view \<Rightarrow> bool" where
  "key_ok v \<longleftrightarrow>
     (\<forall>a \<in> kv_created v. a \<le> kv_last v) \<and>
     (\<forall>r x. kv_live v = Some (r, x) \<longrightarrow> r \<le> kv_last v \<and> kv_stored v r = Some x \<and> (\<forall>a \<in> kv_created v. a \<le> r)) \<and>
     (\<forall>r \<in> dom (kv_stored v). 0 < r \<and> r \<le> kv_last v) \<and>
     (\<forall>i e r. (i, e, r) \<in> kv_renewed v \<longrightarrow>
        names_revision i e \<and> e < r \<and> r \<le> kv_last v \<and> (\<forall>a \<in> kv_created v. a \<le> e \<or> r < a))"

lemma key_okD:
  assumes "key_ok v"
  shows "a \<in> kv_created v \<Longrightarrow> a \<le> kv_last v"
    "kv_live v = Some (r, x) \<Longrightarrow> r \<le> kv_last v \<and> kv_stored v r = Some x"
    "kv_live v = Some (r, x) \<Longrightarrow> a \<in> kv_created v \<Longrightarrow> a \<le> r"
    "kv_stored v r = Some x \<Longrightarrow> r \<le> kv_last v"
    "(i, e, r) \<in> kv_renewed v \<Longrightarrow> names_revision i e \<and> e < r \<and> r \<le> kv_last v"
    "(i, e, r) \<in> kv_renewed v \<Longrightarrow> a \<in> kv_created v \<Longrightarrow> a \<le> e \<or> r < a"
    "kv_stored v r = Some x \<Longrightarrow> 0 < r"
  using assms by (auto simp: key_ok_def)

lemma key_ok_put:
  assumes "key_ok v" "kv_last v < r" "E \<subseteq> {r}" "I \<subseteq> {(i, e, r)}"
    "I = {} \<or> (\<exists>x. kv_live v = Some (e, x)) \<and> E = {} \<and> names_revision i e"
  shows "key_ok ((put_value r x v)\<lparr>kv_created := E \<union> kv_created v, kv_renewed := I \<union> kv_renewed v\<rparr>)"
proof -
  note k = key_okD [OF assms(1)]
  have "b \<le> r" if "b \<in> kv_created v" for b using k(1) [OF that] assms(2) by simp
  moreover have "0 < b \<and> b \<le> r" if "kv_stored v b = Some y" for b y using k(4,7) [OF that] assms(2) by simp
  moreover have "0 < r" using assms(2) by simp
  moreover have "b \<noteq> r" if "kv_stored v b = Some y" for b y using k(4) [OF that] assms(2) by auto
  moreover have "names_revision i' e' \<and> e' < r' \<and> r' < r" if "(i', e', r') \<in> kv_renewed v" for i' e' r'
    using k(5) [OF that] assms(2) by simp
  moreover have "e < r \<and> (\<forall>a \<in> kv_created v. a \<le> e)" if "kv_live v = Some (e, y)" for y
    using k(2) [OF that] k(3) [OF that] assms(2) by auto
  ultimately show ?thesis
    unfolding key_ok_def put_value_def using assms(3-5) by (auto simp: less_imp_le dest: k(6))
qed

lemma key_ok_last:
  assumes "key_ok v" "kv_last v \<le> r"
  shows "key_ok (v\<lparr>kv_last := r\<rparr>)"
proof -
  have le: "b \<le> r" if "b \<le> kv_last v" for b using that assms(2) by simp
  show ?thesis using assms(1) unfolding key_ok_def by (simp add: le)
qed

lemma key_ok_gone: "key_ok v \<Longrightarrow> key_ok (v\<lparr>kv_live := None\<rparr>)"
  by (simp add: key_ok_def)

lemma key_step_ok:
  assumes "key_step v v'" "key_ok v"
  shows "key_ok v'"
  using assms(1)
proof cases
  case (step_created r x)
  with key_ok_put [OF assms(2), of r "{r}" "{}"] show ?thesis by (simp add: key_step_defs)
next
  case (step_updated e r x)
  with key_ok_put [OF assms(2), of r "{}" "{}"] show ?thesis by (simp add: key_step_defs)
next
  case (step_renewed i e r x)
  with key_ok_put [OF assms(2), of r "{}" "{(i, e, r)}" i e] show ?thesis by (auto simp: key_step_defs)
next
  case (step_removed e)
  then obtain r where "kv_last v < r" "v' = v\<lparr>kv_live := None, kv_last := r\<rparr>" by (auto simp: removed_at_def)
  with key_ok_last [OF key_ok_gone [OF assms(2)], of r] show ?thesis by simp
next
  case (step_elsewhere r)
  with key_ok_last [OF assms(2)] show ?thesis by simp
qed

lemma key_later_ok: "key_later v v' \<Longrightarrow> key_ok v \<Longrightarrow> key_ok v'"
  by (induction rule: rtranclp_induct) (auto intro: key_step_ok)

lemma key_step_grows:
  assumes "key_step v v'"
  shows "kv_last v \<le> kv_last v' \<and> kv_created v \<subseteq> kv_created v' \<and> kv_renewed v \<subseteq> kv_renewed v'"
  using assms by cases (auto simp: key_step_defs)

lemma key_later_grows:
  assumes "key_later v v'"
  shows "kv_last v \<le> kv_last v'" "kv_created v \<subseteq> kv_created v'" "kv_renewed v \<subseteq> kv_renewed v'"
proof -
  have "kv_last v \<le> kv_last v' \<and> kv_created v \<subseteq> kv_created v' \<and> kv_renewed v \<subseteq> kv_renewed v'"
    using assms
  proof (induction rule: rtranclp_induct)
    case (step y z)
    with key_step_grows [OF step(2)] show ?case by auto
  qed simp
  then show "kv_last v \<le> kv_last v'" "kv_created v \<subseteq> kv_created v'" "kv_renewed v \<subseteq> kv_renewed v'" by auto
qed

lemma key_later_created:
  assumes "key_later v v'" "a \<in> kv_created v'"
  shows "a \<in> kv_created v \<or> kv_last v < a"
  using assms
proof (induction rule: rtranclp_induct)
  case (step y z)
  have "a \<in> kv_created y \<or> kv_last y < a"
    using step(2,4) by (cases rule: key_step.cases) (auto simp: key_step_defs)
  with step(3) key_later_grows(1) [OF step(1)] show ?case by auto
qed simp

text \<open>A revision that is not live any more, and is not newer than the last one, never lives again.\<close>

lemma key_later_passed:
  assumes "key_later v v'" "map_option fst (kv_live v) \<noteq> Some e" "e \<le> kv_last v"
  shows "map_option fst (kv_live v') \<noteq> Some e"
proof -
  have "map_option fst (kv_live v') \<noteq> Some e \<and> e \<le> kv_last v'"
    using assms(1)
  proof (induction rule: rtranclp_induct)
    case base
    with assms(2,3) show ?case by simp
  next
    case (step y z)
    from step(2,3) show ?case by (cases rule: key_step.cases) (auto simp: key_step_defs)
  qed
  then show ?thesis ..
qed

lemma key_later_stored:
  assumes "key_later v v'" "key_ok v" "kv_stored v r = Some x"
  shows "kv_stored v' r = Some x"
proof -
  have "kv_stored v' r = Some x \<and> r \<le> kv_last v'"
    using assms(1)
  proof (induction rule: rtranclp_induct)
    case base
    from assms(2,3) show ?case by (auto simp: key_ok_def)
  next
    case (step y z)
    from step(2,3) show ?case by (cases rule: key_step.cases) (auto simp: key_step_defs)
  qed
  then show ?thesis ..
qed

section \<open>What the broker's answers mean\<close>

text \<open>
  The documented behaviour of \<open>create\<close>, \<open>update\<close>, \<open>delete_expect_revision\<close>, of a publish with an
  expected last subject sequence and a message id, and of reading an entry. A lost answer leaves open whether
  the write was applied, but not when: it was by then or never is. A read may be answered by a follower with an older entry; the leader's
  read is current.
\<close>

definition create_law :: "'w nats \<Rightarrow> ('w \<Rightarrow> key_view) \<Rightarrow> string \<Rightarrow> bool" where
  "create_law n view k \<longleftrightarrow>
     (\<forall>x t w w' res. nats_create n k x t w = (w', res) \<longrightarrow>
        (case res of
           Inr r \<Rightarrow> created_at r x (view w) (view w')
         | Inl AlreadyExists \<Rightarrow> view w' = view w \<and> kv_live (view w) \<noteq> None
         | Inl (CreateOther _) \<Rightarrow> view w' = view w \<or> (\<exists>r. created_at r x (view w) (view w'))))"

definition update_law :: "'w nats \<Rightarrow> ('w \<Rightarrow> key_view) \<Rightarrow> string \<Rightarrow> bool" where
  "update_law n view k \<longleftrightarrow>
     (\<forall>x e w w' res. nats_update n k x e w = (w', res) \<longrightarrow>
        (case res of
           Inr r \<Rightarrow> updated_at e r x (view w) (view w')
         | Inl err \<Rightarrow> view w' = view w \<or>
             err \<in> {UpdateTimedOut, UpdateOther} \<and> (\<exists>r. updated_at e r x (view w) (view w'))))"

definition delete_law :: "'w nats \<Rightarrow> ('w \<Rightarrow> key_view) \<Rightarrow> string \<Rightarrow> bool" where
  "delete_law n view k \<longleftrightarrow>
     (\<forall>e w w' res. nats_delete n k e w = (w', res) \<longrightarrow>
        (case res of
           Inr _ \<Rightarrow> removed_at e (view w) (view w')
         | Inl err \<Rightarrow> view w' = view w \<and> (err = WrongLastRevision \<longrightarrow> map_option fst (kv_live (view w)) \<noteq> Some e) \<or>
             err \<in> {UpdateTimedOut, UpdateOther} \<and> removed_at e (view w) (view w')))"

definition renew_law :: "'w nats \<Rightarrow> ('w \<Rightarrow> key_view) \<Rightarrow> string \<Rightarrow> bool" where
  "renew_law n view k \<longleftrightarrow>
     (\<forall>x e t i w w' res. nats_renew n k x e t i w = (w', res) \<longrightarrow>
        (case res of
           Inr r \<Rightarrow> renewed_at i e r x (view w) (view w') \<or>
                    view w' = view w \<and> (\<exists>e'. (i, e', r) \<in> kv_renewed (view w))
         | Inl err \<Rightarrow> view w' = view w \<or>
             err \<noteq> WrongLastSequence \<and> (\<exists>r. renewed_at i e r x (view w) (view w'))))"

definition read_law :: "'w nats \<Rightarrow> ('w \<Rightarrow> key_view) \<Rightarrow> string \<Rightarrow> bool" where
  "read_law n view k \<longleftrightarrow>
     (\<forall>w w' res. nats_open n w = (w', res) \<longrightarrow> view w' = view w) \<and>
     (\<forall>w w' res. nats_entry n k w = (w', res) \<longrightarrow> view w' = view w \<and>
        (\<forall>en. res = Inr (Some en) \<longrightarrow> entry_operation en = OpPut \<longrightarrow>
           kv_stored (view w) (entry_revision en) = Some (entry_value en))) \<and>
     (\<forall>w w' res. nats_leader_entry n k w = (w', res) \<longrightarrow> view w' = view w \<and>
        (\<forall>en. res = Inr (Some en) \<longrightarrow> entry_operation en = OpPut \<longrightarrow>
           kv_live (view w) = Some (entry_revision en, entry_value en)) \<and>
        (\<forall>en. res = Inr en \<longrightarrow> (en = None \<or> entry_operation (the en) \<noteq> OpPut) \<longrightarrow> kv_live (view w) = None))"

definition kv_laws :: "'w nats \<Rightarrow> ('w \<Rightarrow> key_view) \<Rightarrow> string \<Rightarrow> bool" where
  "kv_laws n view k \<longleftrightarrow>
     create_law n view k \<and> update_law n view k \<and> delete_law n view k \<and> renew_law n view k \<and> read_law n view k"

text \<open>Every answer goes with at most one step of the key's history.\<close>

lemma at_later:
  "created_at r x v v' \<Longrightarrow> key_later v v'"
  "updated_at e r x v v' \<Longrightarrow> key_later v v'"
  "renewed_at i e r x v v' \<Longrightarrow> names_revision i e \<Longrightarrow> key_later v v'"
  "removed_at e v v' \<Longrightarrow> key_later v v'"
  by (blast intro: r_into_rtranclp key_step.intros)+

lemma create_later:
  assumes "kv_laws n view k" "nats_create n k x t w = (w', res)"
  shows "key_later (view w) (view w')"
proof -
  from assms have "create_law n view k" by (simp add: kv_laws_def)
  from this [unfolded create_law_def, rule_format, OF assms(2)] show ?thesis
    by (cases res) (auto intro: at_later split: CreateErrorKind.splits)
qed

lemma create_done:
  assumes "kv_laws n view k" "nats_create n k x t w = (w', Inr r)"
  shows "created_at r x (view w) (view w')"
proof -
  from assms have "create_law n view k" by (simp add: kv_laws_def)
  from this [unfolded create_law_def, rule_format, OF assms(2)] show ?thesis by simp
qed

lemma update_later:
  assumes "kv_laws n view k" "nats_update n k x e w = (w', res)"
  shows "key_later (view w) (view w')"
proof -
  from assms have "update_law n view k" by (simp add: kv_laws_def)
  from this [unfolded update_law_def, rule_format, OF assms(2)] show ?thesis
    by (cases res) (auto intro: at_later)
qed

lemma delete_later:
  assumes "kv_laws n view k" "nats_delete n k e w = (w', res)"
  shows "key_later (view w) (view w')"
proof -
  from assms have "delete_law n view k" by (simp add: kv_laws_def)
  from this [unfolded delete_law_def, rule_format, OF assms(2)] show ?thesis
    by (cases res) (auto intro: at_later)
qed

lemma renew_later:
  assumes "kv_laws n view k" "nats_renew n k x e t i w = (w', res)" "names_revision i e"
  shows "key_later (view w) (view w')"
proof -
  from assms have "renew_law n view k" by (simp add: kv_laws_def)
  from this [unfolded renew_law_def, rule_format, OF assms(2)] show ?thesis
    by (cases res) (auto intro: at_later assms(3))
qed

lemma read_same:
  "kv_laws n view k \<Longrightarrow> nats_open n w = (w', opened) \<Longrightarrow> view w' = view w"
  "kv_laws n view k \<Longrightarrow> nats_entry n k w = (w', res) \<Longrightarrow> view w' = view w"
  "kv_laws n view k \<Longrightarrow> nats_leader_entry n k w = (w', res) \<Longrightarrow> view w' = view w"
  by (auto simp: kv_laws_def read_law_def)

lemma entry_stored:
  "kv_laws n view k \<Longrightarrow> nats_entry n k w = (w', Inr (Some en)) \<Longrightarrow> entry_operation en = OpPut \<Longrightarrow>
     kv_stored (view w) (entry_revision en) = Some (entry_value en)"
  "kv_laws n view k \<Longrightarrow> nats_leader_entry n k w = (w', Inr (Some en)) \<Longrightarrow> entry_operation en = OpPut \<Longrightarrow>
     kv_live (view w) = Some (entry_revision en, entry_value en)"
  "kv_laws n view k \<Longrightarrow> nats_leader_entry n k w = (w', Inr found) \<Longrightarrow>
     found = None \<or> entry_operation (the found) \<noteq> OpPut \<Longrightarrow> kv_live (view w) = None"
  by (auto simp: kv_laws_def read_law_def)

section \<open>A broker with one key\<close>

text \<open>A concrete broker that follows the laws: its world is the key's history.\<close>

definition key_nats :: "key_view nats" where
  "key_nats =
     \<lparr>nats_open = (\<lambda>w. (w, Inr ())),
      nats_create = (\<lambda>k x t w. let r = Suc (kv_last w)
         in if kv_live w = None then ((put_value r x w)\<lparr>kv_created := insert r (kv_created w)\<rparr>, Inr r)
            else (w, Inl AlreadyExists)),
      nats_entry = (\<lambda>k w. (w, Inr (map_option (\<lambda>(r, x).
         \<lparr>entry_operation = OpPut, entry_revision = r, entry_value = x\<rparr>)
         (case kv_live w of None \<Rightarrow> None | Some (r, x) \<Rightarrow> if kv_stored w r = Some x then Some (r, x) else None)))),
      nats_leader_entry = (\<lambda>k w. (w, Inr (map_option (\<lambda>(r, x).
         \<lparr>entry_operation = OpPut, entry_revision = r, entry_value = x\<rparr>) (kv_live w)))),
      nats_update = (\<lambda>k x e w. let r = Suc (kv_last w)
         in if map_option fst (kv_live w) = Some e then (put_value r x w, Inr r) else (w, Inl WrongLastRevision)),
      nats_delete = (\<lambda>k e w.
         if map_option fst (kv_live w) = Some e then (w\<lparr>kv_live := None, kv_last := Suc (kv_last w)\<rparr>, Inr ())
         else (w, Inl WrongLastRevision)),
      nats_renew = (\<lambda>k x e t i w. let r = Suc (kv_last w)
         in if map_option fst (kv_live w) = Some e
            then ((put_value r x w)\<lparr>kv_renewed := insert (i, e, r) (kv_renewed w)\<rparr>, Inr r)
            else (w, Inl WrongLastSequence)),
      nats_append = (\<lambda>x e i w. (w, Inl TimedOut)),
      nats_load = (\<lambda>s w. (w, Inr [])),
      nats_last = (\<lambda>w. (w, Inr None)),
      local_held = (\<lambda>w. True),
      local_token = kv_last,
      local_observed = (\<lambda>w. None),
      local_observe = (\<lambda>s w. w)\<rparr>"

definition empty_key :: key_view where
  "empty_key = \<lparr>kv_live = None, kv_last = 0, kv_created = {}, kv_stored = Map.empty, kv_renewed = {}\<rparr>"

lemma key_nats_laws: "kv_laws key_nats (\<lambda>w. w) k"
  by (auto simp: kv_laws_def create_law_def update_law_def delete_law_def renew_law_def read_law_def key_nats_def
      created_at_def updated_at_def renewed_at_def removed_at_def Let_def map_option_case split: if_splits option.splits)

lemma empty_key_ok: "key_ok empty_key"
  by (simp add: key_ok_def empty_key_def)

end
