(* ===== verification/Holder_Liveness.thy ===== *)
theory Holder_Liveness
  imports Text_Format
begin

text \<open>
  When a lease's holder counts as dead (\<open>harnx-runtime/src/nats_lease/holder_liveness.rs\<close>, on Linux):
  the identity recorded with a lease, the host identity that makes process numbers
  comparable, and the reading of \<open>/proc/<pid>/stat\<close>. SHA-256 and the kernel are parameters.
\<close>

section \<open>Identities\<close>

datatype HolderLiveness = Alive | Dead | LivenessUnknown

record HolderIdentity =
  holder_pid :: nat
  holder_host :: "string option"
  holder_start_ticks :: "nat option"

record HostIdentity =
  host_value :: "string option"
  host_strong :: bool

datatype errno = ESRCH | OtherErrno nat

text \<open>What the process can ask the kernel: a signal-0 probe (\<open>None\<close> when it succeeds), files and links.\<close>

record kernel =
  os_kill :: "nat \<Rightarrow> errno option"
  os_read :: "string \<Rightarrow> string option"
  os_read_link :: "string \<Rightarrow> string option"
  os_sha256 :: "string \<Rightarrow> string"

definition hex_digit :: "nat \<Rightarrow> char" where
  "hex_digit n = char_of (if n < 10 then 48 + n else 87 + n)"

definition hash_host_identity :: "kernel \<Rightarrow> string list \<Rightarrow> string" where
  "hash_host_identity os parts =
     (let digest = os_sha256 os (''harnx-lease-host-v1'' @ concat (map (\<lambda>part. CHR 0x00 # part) parts))
      in concat (map (\<lambda>c. [hex_digit (of_char c div 16), hex_digit (of_char c mod 16)]) (take 16 digest)))"

definition read_trimmed :: "kernel \<Rightarrow> string \<Rightarrow> string option" where
  "read_trimmed os path =
     Option.bind (os_read os path) (\<lambda>content.
       let trimmed = str_trim content in if trimmed \<noteq> [] then Some trimmed else None)"

definition machine_id :: "kernel \<Rightarrow> string option" where
  "machine_id os = find_map (read_trimmed os) [''/etc/machine-id'', ''/var/lib/dbus/machine-id'']"

definition compose_linux_host_identity ::
    "kernel \<Rightarrow> string option \<Rightarrow> string option \<Rightarrow> string option \<Rightarrow> HostIdentity" where
  "compose_linux_host_identity os machine boot pid_namespace =
     (let raw = filter_map id [machine, boot, pid_namespace]
      in \<lparr>host_value = (if raw \<noteq> [] then Some (hash_host_identity os raw) else None),
          host_strong = (boot \<noteq> None \<and> pid_namespace \<noteq> None)\<rparr>)"

definition host_identity :: "kernel \<Rightarrow> HostIdentity" where
  "host_identity os =
     compose_linux_host_identity os (machine_id os) (read_trimmed os ''/proc/sys/kernel/random/boot_id'')
       (map_option from_utf8_lossy (os_read_link os ''/proc/self/ns/pid''))"

section \<open>Process state\<close>

definition parse_proc_stat :: "string \<Rightarrow> (char \<times> nat) option" where
  "parse_proc_stat stat =
     Option.bind (rsplit_once stat '')'') (\<lambda>(_, rest).
       case split_ascii_whitespace rest of
         [] \<Rightarrow> None
       | state_field # toks \<Rightarrow>
           (case state_field of
              [] \<Rightarrow> None
            | state # _ \<Rightarrow>
                if length toks \<le> 18 then None
                else map_option (Pair state) (parse_uint (2 ^ 64 - 1) (toks ! 18))))"

definition stat_path :: "nat \<Rightarrow> string" where
  "stat_path pid = ''/proc/'' @ show_nat pid @ ''/stat''"

definition proc_stat :: "kernel \<Rightarrow> nat \<Rightarrow> (char \<times> nat) option" where
  "proc_stat os pid = Option.bind (os_read os (stat_path pid)) parse_proc_stat"

definition existence_probe :: "kernel \<Rightarrow> nat \<Rightarrow> HolderLiveness option" where
  "existence_probe os pid =
     (case os_kill os pid of
        Some ESRCH \<Rightarrow> Some Dead
      | Some _ \<Rightarrow> Some LivenessUnknown
      | None \<Rightarrow> None)"

definition same_process_liveness :: "kernel \<Rightarrow> nat \<Rightarrow> nat option \<Rightarrow> HolderLiveness" where
  "same_process_liveness os pid recorded_start_ticks =
     (case proc_stat os pid of
        None \<Rightarrow> LivenessUnknown
      | Some (state, start_ticks) \<Rightarrow>
          if state = CHR ''Z'' then Dead
          else (case recorded_start_ticks of
                  Some recorded \<Rightarrow> if start_ticks \<noteq> recorded then Dead else Alive
                | None \<Rightarrow> Alive))"

definition process_liveness :: "kernel \<Rightarrow> nat \<Rightarrow> nat option \<Rightarrow> HolderLiveness" where
  "process_liveness os pid recorded_start_ticks =
     (if pid = 0 \<or> 2 ^ 31 - 1 < pid then LivenessUnknown
      else (case existence_probe os pid of
              Some conclusion \<Rightarrow> conclusion
            | None \<Rightarrow> same_process_liveness os pid recorded_start_ticks))"

definition holder_liveness_on :: "kernel \<Rightarrow> HolderIdentity \<Rightarrow> HostIdentity \<Rightarrow> HolderLiveness" where
  "holder_liveness_on os holder host =
     (if \<not> host_strong host then LivenessUnknown
      else (case holder_host holder of
              Some recorded \<Rightarrow>
                if host_value host = Some recorded
                then process_liveness os (holder_pid holder) (holder_start_ticks holder)
                else LivenessUnknown
            | None \<Rightarrow> LivenessUnknown))"

definition current_identity :: "kernel \<Rightarrow> nat \<Rightarrow> HolderIdentity" where
  "current_identity os pid =
     \<lparr>holder_pid = pid, holder_host = host_value (host_identity os),
      holder_start_ticks = map_option snd (proc_stat os pid)\<rparr>"

definition holder_liveness :: "kernel \<Rightarrow> HolderIdentity \<Rightarrow> HolderLiveness" where
  "holder_liveness os holder = holder_liveness_on os holder (host_identity os)"

section \<open>The kernel's format\<close>

text \<open>
  \<open>proc(5)\<close>: the command name stands in parentheses and may contain anything; the fields after it
  are separated by spaces, the state first and the start time twentieth.
\<close>

definition plain_token :: "string \<Rightarrow> bool" where
  "plain_token t \<longleftrightarrow> t \<noteq> [] \<and> list_all (\<lambda>c. \<not> is_ascii_whitespace c \<and> c \<noteq> CHR '')'') t"

definition stat_line :: "nat \<Rightarrow> string \<Rightarrow> string list \<Rightarrow> string" where
  "stat_line pid comm toks =
     show_nat pid @ '' ('' @ comm @ '')'' @ concat (map (Cons (CHR '' '')) toks) @ newline"

definition stat_fields :: "char \<Rightarrow> nat \<Rightarrow> string list \<Rightarrow> bool" where
  "stat_fields state start toks \<longleftrightarrow>
     20 \<le> length toks \<and> list_all plain_token toks \<and> hd (toks ! 0) = state \<and> toks ! 19 = show_nat start"

lemma split_ascii_whitespace_token:
  assumes "plain_token t" "rest = [] \<or> is_ascii_whitespace (hd rest)"
  shows "split_ascii_whitespace (t @ rest) = t # split_ascii_whitespace rest"
proof -
  obtain c s where t: "t = c # s" using assms(1) by (cases t) (auto simp: plain_token_def)
  have all: "\<forall>x \<in> set s. \<not> is_ascii_whitespace x" and c: "\<not> is_ascii_whitespace c"
    using assms(1) by (auto simp: t plain_token_def list_all_iff)
  have "takeWhile (\<lambda>x. \<not> is_ascii_whitespace x) (s @ rest) = s"
      "dropWhile (\<lambda>x. \<not> is_ascii_whitespace x) (s @ rest) = rest"
    using all assms(2) by (cases rest; auto simp: takeWhile_append dropWhile_append)+
  with c show ?thesis by (simp add: t)
qed

lemma split_ascii_whitespace_fields:
  "list_all plain_token toks \<Longrightarrow>
     split_ascii_whitespace (concat (map (Cons (CHR '' '')) toks) @ newline) = toks"
proof (induction toks)
  case (Cons t toks)
  let ?rest = "concat (map (Cons (CHR '' '')) toks) @ newline"
  have space: "is_ascii_whitespace (CHR '' '')" "is_ascii_whitespace (hd ?rest)"
    by (cases toks; simp add: is_ascii_whitespace_def)+
  then have "split_ascii_whitespace (t @ ?rest) = t # split_ascii_whitespace ?rest"
    using Cons.prems by (intro split_ascii_whitespace_token) auto
  with space(1) Cons show ?case by simp
qed (simp add: is_ascii_whitespace_def)

lemma parse_stat_line:
  assumes "stat_fields state start toks" "start < 2 ^ 64"
  shows "parse_proc_stat (stat_line pid comm toks) = Some (state, start)"
proof -
  let ?rest = "concat (map (Cons (CHR '' '')) toks) @ newline"
  have tokens: "list_all plain_token toks" and len: "20 \<le> length toks"
    using assms(1) by (auto simp: stat_fields_def)
  have "CHR '')'' \<notin> set ?rest" using tokens by (auto simp: list_all_iff plain_token_def)
  then have split: "rsplit_once (stat_line pid comm toks) '')'' = Some (show_nat pid @ '' ('' @ comm, ?rest)"
    using rsplit_once_marked [of "CHR '')''" "[]" "[]" ?rest "show_nat pid @ '' ('' @ comm"]
    by (simp add: stat_line_def)
  obtain f fs where toks: "toks = f # fs" using len by (cases toks) auto
  obtain c g where f: "f = c # g" using tokens toks by (cases f) (auto simp: plain_token_def)
  have "parse_uint (2 ^ 64 - 1) (show_nat start) = Some start" using assms(2) by (intro parse_show_nat) simp
  moreover have "c = state" "fs ! 18 = show_nat start" "\<not> length fs \<le> 18"
    using assms(1) by (auto simp: stat_fields_def toks f)
  moreover have "split_ascii_whitespace ?rest = (c # g) # fs"
    using split_ascii_whitespace_fields [OF tokens] toks f by metis
  ultimately show ?thesis
    unfolding parse_proc_stat_def split by (simp del: split_ascii_whitespace.simps)
qed

section \<open>Proof of death\<close>

text \<open>
  The process table of the namespace: a process is its command name, its start time, whether it is a
  zombie, and the fields its \<open>stat\<close> line shows. \<open>kernel_shows\<close> states the documented behaviour
  of the kernel interfaces: the probe reports a missing process only when there is none, and a
  \<open>stat\<close> file that can be read is the line of the process with that number.
\<close>

record proc =
  proc_comm :: string
  proc_start :: nat
  proc_zombie :: bool
  proc_fields :: "string list"

definition proc_wf :: "proc \<Rightarrow> bool" where
  "proc_wf p \<longleftrightarrow> proc_start p < 2 ^ 64 \<and>
     (\<exists>state. stat_fields state (proc_start p) (proc_fields p) \<and> (state = CHR ''Z'' \<longleftrightarrow> proc_zombie p))"

definition kernel_shows :: "kernel \<Rightarrow> (nat \<rightharpoonup> proc) \<Rightarrow> bool" where
  "kernel_shows os procs \<longleftrightarrow>
     (\<forall>pid. os_kill os pid = Some ESRCH \<longrightarrow> procs pid = None) \<and>
     (\<forall>pid stat. os_read os (stat_path pid) = Some stat \<longrightarrow>
        (\<exists>p. procs pid = Some p \<and> proc_wf p \<and> stat = stat_line pid (proc_comm p) (proc_fields p)))"

lemma proc_stat_shows:
  assumes "kernel_shows os procs" "proc_stat os pid = Some (state, start)"
  shows "\<exists>p. procs pid = Some p \<and> start = proc_start p \<and> (state = CHR ''Z'' \<longleftrightarrow> proc_zombie p)"
proof -
  obtain stat where "os_read os (stat_path pid) = Some stat" "parse_proc_stat stat = Some (state, start)"
    using assms(2) by (auto simp: proc_stat_def bind_eq_Some_conv)
  moreover from this assms(1) obtain p where "procs pid = Some p" "proc_wf p"
      "stat = stat_line pid (proc_comm p) (proc_fields p)"
    unfolding kernel_shows_def by blast
  ultimately show ?thesis using parse_stat_line by (fastforce simp: proc_wf_def)
qed

lemma dead_is_proven:
  assumes "kernel_shows os procs" "holder_liveness_on os holder host = Dead"
  shows "host_strong host \<and> holder_host holder = host_value host \<and> holder_host holder \<noteq> None \<and>
    (case procs (holder_pid holder) of
       None \<Rightarrow> True
     | Some p \<Rightarrow> proc_zombie p \<or> (\<exists>t. holder_start_ticks holder = Some t \<and> t \<noteq> proc_start p))"
proof -
  have host: "host_strong host" "holder_host holder = host_value host" "holder_host holder \<noteq> None"
    and dead: "process_liveness os (holder_pid holder) (holder_start_ticks holder) = Dead"
    using assms(2) by (auto simp: holder_liveness_on_def split: if_splits option.splits)
  from dead consider "os_kill os (holder_pid holder) = Some ESRCH"
    | "same_process_liveness os (holder_pid holder) (holder_start_ticks holder) = Dead"
    by (auto simp: process_liveness_def existence_probe_def split: if_splits option.splits errno.splits)
  then show ?thesis
  proof cases
    case 1
    with assms(1) host show ?thesis by (simp add: kernel_shows_def)
  next
    case 2
    then obtain state start where s: "proc_stat os (holder_pid holder) = Some (state, start)"
      by (cases "proc_stat os (holder_pid holder)") (auto simp: same_process_liveness_def)
    from proc_stat_shows [OF assms(1) this] 2 s host show ?thesis
      by (auto simp: same_process_liveness_def split: if_splits option.splits)
  qed
qed

lemma running_not_dead:
  assumes "kernel_shows os procs" "procs pid = Some p"
    and "kernel_shows os' procs'" "procs' pid = Some p'" "proc_start p' = proc_start p" "\<not> proc_zombie p'"
  shows "holder_liveness os' (current_identity os pid) \<noteq> Dead"
proof -
  have start: "holder_start_ticks (current_identity os pid) = Some t \<Longrightarrow> t = proc_start p" for t
    using proc_stat_shows [OF assms(1)] assms(2) by (fastforce simp: current_identity_def)
  have "holder_pid (current_identity os pid) = pid" by (simp add: current_identity_def)
  with start show ?thesis
    using dead_is_proven [OF assms(3), of "current_identity os pid" "host_identity os'"] assms(4-6)
    unfolding holder_liveness_def by auto
qed

section \<open>Properties\<close>

text \<open>
  A live holder is never declared dead. If the process that recorded its identity in a lease is
  still running, any other process of the host, whatever it may or may not read, answers alive or unknown
  for it; and death is declared only on a host with a boot and namespace identity equal
  to the recorded one, of a process that is gone, a zombie, or another one that reused the number.
\<close>

theorem live_holder_never_dead:
  assumes "kernel_shows os procs" and "kernel_shows os' procs"
    and "procs pid = Some p" "\<not> proc_zombie p"
  shows "holder_liveness os' (current_identity os pid) \<noteq> Dead \<and>
    (holder_liveness os' holder = Dead \<longrightarrow>
       host_strong (host_identity os') \<and> holder_host holder = host_value (host_identity os') \<and>
       (case procs (holder_pid holder) of
          None \<Rightarrow> True
        | Some q \<Rightarrow> proc_zombie q \<or> (\<exists>t. holder_start_ticks holder = Some t \<and> t \<noteq> proc_start q)))"
proof
  show "holder_liveness os' (current_identity os pid) \<noteq> Dead"
    by (rule running_not_dead [OF assms(1,3,2,3) refl assms(4)])
  show "holder_liveness os' holder = Dead \<longrightarrow>
       host_strong (host_identity os') \<and> holder_host holder = host_value (host_identity os') \<and>
       (case procs (holder_pid holder) of
          None \<Rightarrow> True
        | Some q \<Rightarrow> proc_zombie q \<or> (\<exists>t. holder_start_ticks holder = Some t \<and> t \<noteq> proc_start q))"
    using dead_is_proven [OF assms(2), of holder "host_identity os'"] by (simp add: holder_liveness_def)
qed

definition demo_proc :: proc where
  "demo_proc = \<lparr>proc_comm = ''a) Z ('', proc_start = 77, proc_zombie = False,
     proc_fields = ''S'' # replicate 18 ''0'' @ [''77'']\<rparr>"

definition demo_kernel :: kernel where
  "demo_kernel =
     \<lparr>os_kill = (\<lambda>pid. if pid = 7 then None else Some ESRCH),
      os_read = (\<lambda>path. if path = stat_path 7 then Some (stat_line 7 (proc_comm demo_proc) (proc_fields demo_proc))
                        else if path = ''/proc/sys/kernel/random/boot_id'' then Some ''b'' else None),
      os_read_link = (\<lambda>_. Some ''pid:[1]''), os_sha256 = id\<rparr>"

lemma show_nat_inject: "show_nat m = show_nat n \<longleftrightarrow> m = n"
  by (metis digits_value_show_nat)

lemma demo_kernel_shows: "kernel_shows demo_kernel [7 \<mapsto> demo_proc]"
proof -
  have "show_nat 77 = ''77''" by code_simp
  then have "proc_wf demo_proc"
    by (auto simp: proc_wf_def demo_proc_def stat_fields_def plain_token_def is_ascii_whitespace_def nth_append
        list_all_iff intro!: exI [of _ "CHR ''S''"])
  moreover have "stat_path pid = stat_path 7 \<longleftrightarrow> pid = 7" for pid by (simp add: stat_path_def show_nat_inject)
  moreover have "stat_path pid \<noteq> ''/proc/sys/kernel/random/boot_id''" for pid
    using show_nat_nonempty [of pid] show_nat_avoids [of "CHR ''s''" pid]
    by (cases "show_nat pid") (auto simp: stat_path_def is_digit_def)
  ultimately show ?thesis by (auto simp: kernel_shows_def demo_kernel_def split: if_splits)
qed

theorem live_holder_never_dead_witness:
  "holder_liveness demo_kernel (current_identity demo_kernel 7) \<noteq> Dead"
proof -
  have "[7 \<mapsto> demo_proc] (7 :: nat) = Some demo_proc" "\<not> proc_zombie demo_proc" by (simp_all add: demo_proc_def)
  from live_holder_never_dead [OF demo_kernel_shows demo_kernel_shows this] show ?thesis by blast
qed

text \<open>
  The state and the start time of a process are read correctly whatever its command name contains,
  parentheses, spaces and digits included.
\<close>

theorem proc_stat_robust:
  assumes "stat_fields state start toks" "start < 2 ^ 64"
  shows "parse_proc_stat (stat_line pid comm toks) = Some (state, start)"
  using parse_stat_line [OF assms] .

theorem proc_stat_robust_witness:
  "parse_proc_stat (stat_line 372 ''a) R 1 ('' (''Z'' # replicate 18 ''0'' @ [''77''])) = Some (CHR ''Z'', 77)"
proof -
  have "show_nat 77 = ''77''" by code_simp
  then have "stat_fields (CHR ''Z'') 77 (''Z'' # replicate 18 ''0'' @ [''77''])"
    by (simp add: stat_fields_def plain_token_def is_ascii_whitespace_def nth_append list_all_iff)
  then show ?thesis by (rule proc_stat_robust) simp
qed

end
