(* ===== verification/Session_Lease.thy ===== *)
theory Session_Lease
  imports Kv_Key Holder_Liveness
begin

text \<open>
  The lease that makes one worker the writer of a session (\<open>harnx-runtime/src/nats_lease.rs\<close>,
  \<open>nats_lease/scope.rs\<close>): taking it, reclaiming it from a dead holder, renewing, checking and
  releasing it, as programs whose await points interleave with everyone else's. Serialisation of
  the record (\<open>serde_json\<close>) and the clock are parameters; logging and metrics are left out.
\<close>

section \<open>Configuration and keys\<close>

record LeaseRecord =
  lr_execution_id :: "string option"
  lr_worker_id :: string
  lr_generation :: nat
  lr_acquired_at :: string
  lr_holder :: "HolderIdentity option"

definition holder_is_stale :: "kernel \<Rightarrow> LeaseRecord \<Rightarrow> bool" where
  "holder_is_stale os rec \<longleftrightarrow>
     (case lr_holder rec of Some holder \<Rightarrow> holder_liveness os holder = Dead | None \<Rightarrow> False)"

record NatsLeaseConfig =
  lc_bucket :: string
  lc_ttl :: duration
  lc_renew_interval :: duration
  lc_replicas :: nat
  lc_tombstone_ttl :: duration

definition secs :: "int \<Rightarrow> duration" where
  "secs n = n * 1000000000"

definition lease_config_default :: "nat \<Rightarrow> NatsLeaseConfig" where
  "lease_config_default default_bucket_replicas =
     \<lparr>lc_bucket = ''harnx_leases'', lc_ttl = secs 30, lc_renew_interval = secs 10,
      lc_replicas = default_bucket_replicas, lc_tombstone_ttl = secs 3600\<rparr>"

definition key_for_session :: "string \<Rightarrow> string" where
  "key_for_session session_id = ''sessions/'' @ session_id @ ''/lock''"

definition scope_char :: "char \<Rightarrow> bool" where
  "scope_char c \<longleftrightarrow>
     (CHR ''0'' \<le> c \<and> c \<le> CHR ''9'') \<or> (CHR ''a'' \<le> c \<and> c \<le> CHR ''z'') \<or> (CHR ''A'' \<le> c \<and> c \<le> CHR ''Z'') \<or>
     c = CHR ''_'' \<or> c = CHR ''-''"

definition key_for_scope :: "string \<Rightarrow> string \<Rightarrow> string + string" where
  "key_for_scope session_id scope =
     (if scope \<noteq> [] \<and> list_all scope_char scope
      then Inr (''sessions/'' @ session_id @ ''/'' @ scope @ ''/lock'')
      else Inl ''lease scope must be one nonempty alphanumeric, underscore or hyphen segment'')"

definition lease_config_validate :: "NatsLeaseConfig \<Rightarrow> string + unit" where
  "lease_config_validate cfg =
     (if lc_ttl cfg = 0 then Inl ''NATS lease TTL must be > 0''
      else if lc_renew_interval cfg = 0 then Inl ''NATS lease renew interval must be > 0''
      else if lc_ttl cfg \<le> lc_renew_interval cfg then Inl ''NATS lease renew interval must be smaller than TTL''
      else if lc_replicas cfg = 0 then Inl ''NATS lease replica count must be >= 1''
      else if lc_tombstone_ttl cfg = 0 then Inl ''NATS lease tombstone TTL must be > 0''
      else Inr ())"

section \<open>The lease\<close>

record lease_codec =
  to_vec :: "LeaseRecord \<Rightarrow> string option"
  from_slice :: "string \<Rightarrow> LeaseRecord option"

record LeaseState =
  ls_execution_id :: "string option"
  ls_worker_id :: string
  ls_generation :: nat
  ls_ttl :: duration
  ls_held :: bool
  ls_fence_token :: fence

record NatsSessionLease =
  lease_key :: string
  lease_acquisition_revision :: nat
  lease_state :: LeaseState

text \<open>What the process adds to every record it writes: the time as text, and its own identity.\<close>

definition LeaseRecord_new :: "kernel \<Rightarrow> nat \<Rightarrow> string \<Rightarrow> string \<Rightarrow> nat \<Rightarrow> LeaseRecord" where
  "LeaseRecord_new os pid now worker_id generation =
     \<lparr>lr_execution_id = None, lr_worker_id = worker_id, lr_generation = generation,
      lr_acquired_at = now, lr_holder = Some (current_identity os pid)\<rparr>"

definition is_create_conflict :: "CreateErrorKind \<Rightarrow> bool" where
  "is_create_conflict e \<longleftrightarrow> e = AlreadyExists"

definition create_lease :: "lease_codec \<Rightarrow> string \<Rightarrow> LeaseRecord \<Rightarrow> duration \<Rightarrow> (string + nat option) io" where
  "create_lease codec key rec ttl =
     (case to_vec codec rec of
        None \<Rightarrow> Ret (Inl ''Failed to serialize lease record'')
      | Some payload \<Rightarrow>
          Create key payload (Some ttl) (\<lambda>res.
            case res of
              Inr revision \<Rightarrow> Ret (Inr (Some revision))
            | Inl e \<Rightarrow> if is_create_conflict e then Ret (Inr None)
                       else Ret (Inl ''Failed to acquire NATS lease'')))"

definition delete_stale_lease_at_revision :: "string \<Rightarrow> nat \<Rightarrow> (string + bool) io" where
  "delete_stale_lease_at_revision key revision =
     DeleteExpect key revision (\<lambda>res.
       case res of
         Inr _ \<Rightarrow> Ret (Inr True)
       | Inl e \<Rightarrow> if e = WrongLastRevision then Ret (Inr False)
                  else Ret (Inl (''Failed to reclaim stale NATS lease key '' @ key)))"

definition try_reclaim_stale_lease :: "lease_codec \<Rightarrow> kernel \<Rightarrow> string \<Rightarrow> (string + bool) io" where
  "try_reclaim_stale_lease codec os key =
     GetEntry key (\<lambda>res.
       case res of
         Inl e \<Rightarrow> Ret (Inl ''Failed to read NATS lease'')
       | Inr None \<Rightarrow> Ret (Inr False)
       | Inr (Some entry) \<Rightarrow>
           if entry_operation entry \<noteq> OpPut then Ret (Inr False)
           else (case from_slice codec (entry_value entry) of
                   None \<Rightarrow> Ret (Inr False)
                 | Some rec \<Rightarrow>
                     (case lr_holder rec of
                        None \<Rightarrow> Ret (Inr False)
                      | Some holder \<Rightarrow>
                          if holder_liveness os holder \<noteq> Dead then Ret (Inr False)
                          else delete_stale_lease_at_revision key (entry_revision entry))))"

definition lease_taken :: "string option \<Rightarrow> string \<Rightarrow> nat \<Rightarrow> duration \<Rightarrow> string \<Rightarrow> nat \<Rightarrow> NatsSessionLease" where
  "lease_taken execution_id worker_id generation ttl key revision =
     \<lparr>lease_key = key, lease_acquisition_revision = revision,
      lease_state = \<lparr>ls_execution_id = execution_id, ls_worker_id = worker_id, ls_generation = generation,
                     ls_ttl = ttl, ls_held = True, ls_fence_token = revision\<rparr>\<rparr>"

definition acquire_key ::
    "lease_codec \<Rightarrow> kernel \<Rightarrow> nat \<Rightarrow> string \<Rightarrow> NatsLeaseConfig \<Rightarrow> string \<Rightarrow> nat \<Rightarrow> string option \<Rightarrow> string
       \<Rightarrow> (string + NatsSessionLease option) io" where
  "acquire_key codec os pid now cfg worker_id generation execution_id key =
     (case lease_config_validate cfg of
        Inl e \<Rightarrow> Ret (Inl e)
      | Inr _ \<Rightarrow>
          OpenStore (\<lambda>opened. case opened of
            Inl e \<Rightarrow> Ret (Inl e)
          | Inr _ \<Rightarrow>
              let rec = (LeaseRecord_new os pid now worker_id generation)\<lparr>lr_execution_id := execution_id\<rparr>
              in bind (create_lease codec key rec (lc_ttl cfg)) (\<lambda>res. case res of
                   Inl e \<Rightarrow> Ret (Inl e)
                 | Inr (Some revision) \<Rightarrow>
                     Ret (Inr (Some (lease_taken execution_id worker_id generation (lc_ttl cfg) key revision)))
                 | Inr None \<Rightarrow>
                     bind (try_reclaim_stale_lease codec os key) (\<lambda>reclaimed. case reclaimed of
                       Inl e \<Rightarrow> Ret (Inl e)
                     | Inr False \<Rightarrow> Ret (Inr None)
                     | Inr True \<Rightarrow>
                         bind (create_lease codec key rec (lc_ttl cfg)) (\<lambda>res. case res of
                           Inl e \<Rightarrow> Ret (Inl e)
                         | Inr None \<Rightarrow> Ret (Inr None)
                         | Inr (Some revision) \<Rightarrow>
                             Ret (Inr (Some (lease_taken execution_id worker_id generation (lc_ttl cfg) key revision))))))))"

definition acquire_for_execution where
  "acquire_for_execution codec os pid now cfg worker_id generation execution_id session_id =
     acquire_key codec os pid now cfg worker_id generation execution_id (key_for_session session_id)"

definition acquire_scoped where
  "acquire_scoped codec os pid now cfg worker_id generation session_id scope =
     (case key_for_scope session_id scope of
        Inl e \<Rightarrow> Ret (Inl e)
      | Inr key \<Rightarrow> acquire_key codec os pid now cfg worker_id generation None key)"

section \<open>Renewal and release\<close>

definition mark_lost :: "LeaseState \<Rightarrow> LeaseState \<times> bool" where
  "mark_lost st = (st\<lparr>ls_held := False\<rparr>, ls_held st)"

definition renewal_message_id :: "string \<Rightarrow> LeaseState \<Rightarrow> string" where
  "renewal_message_id key st =
     ''lease:'' @ key @ '':'' @ ls_worker_id st @ '':'' @ show_nat (ls_generation st) @ '':'' @
     show_nat (ls_fence_token st)"

definition renew_once ::
    "lease_codec \<Rightarrow> kernel \<Rightarrow> nat \<Rightarrow> string \<Rightarrow> try_timing list \<Rightarrow> string \<Rightarrow> LeaseState
       \<Rightarrow> (LeaseState \<times> (string + nat)) io" where
  "renew_once codec os pid now ts key st =
     (let expected_revision = ls_fence_token st;
          rec = (LeaseRecord_new os pid now (ls_worker_id st) (ls_generation st))
                  \<lparr>lr_execution_id := ls_execution_id st\<rparr>
      in case to_vec codec rec of
           None \<Rightarrow> Ret (st, Inl ''Failed to serialize renewed lease record'')
         | Some payload \<Rightarrow>
             bind (retry_until transient_publish
                     (Renew key payload expected_revision (ls_ttl st div secs 1) (renewal_message_id key st) Ret) ts) (\<lambda>ack.
               case ack of
                 Inr sequence \<Rightarrow> Ret (st\<lparr>ls_fence_token := sequence\<rparr>, Inr sequence)
               | Inl (Some WrongLastSequence) \<Rightarrow> Ret (st, Inl (''Lost lease CAS for key '' @ key))
               | Inl _ \<Rightarrow> Ret (st, Inl (''CAS renewal failed for lease key '' @ key))))"

text \<open>
  The operations on a lease that is held. All of them run under the lease's \<open>renew_lock\<close>, so of one
  lease only one runs at a time. \<open>renew_tick\<close> is one round of the renewal task, and tells whether the task goes on.
\<close>

definition renew_or_lose ::
    "lease_codec \<Rightarrow> kernel \<Rightarrow> nat \<Rightarrow> string \<Rightarrow> try_timing list \<Rightarrow> NatsSessionLease \<Rightarrow> (NatsSessionLease \<times> bool) io" where
  "renew_or_lose codec os pid now ts lease =
     bind (renew_once codec os pid now ts (lease_key lease) (lease_state lease)) (\<lambda>(st, res).
       case res of
         Inr _ \<Rightarrow> Ret (lease\<lparr>lease_state := st\<rparr>, True)
       | Inl _ \<Rightarrow> Ret (lease\<lparr>lease_state := fst (mark_lost st)\<rparr>, False))"

definition revalidate_ownership ::
    "lease_codec \<Rightarrow> kernel \<Rightarrow> nat \<Rightarrow> string \<Rightarrow> try_timing list \<Rightarrow> NatsSessionLease \<Rightarrow> (NatsSessionLease \<times> bool) io" where
  "revalidate_ownership codec os pid now ts lease =
     (if \<not> ls_held (lease_state lease) then Ret (lease, False) else renew_or_lose codec os pid now ts lease)"

definition renew_tick ::
    "lease_codec \<Rightarrow> kernel \<Rightarrow> nat \<Rightarrow> string \<Rightarrow> try_timing list \<Rightarrow> NatsSessionLease \<Rightarrow> (NatsSessionLease \<times> bool) io" where
  "renew_tick codec os pid now ts lease =
     (if \<not> ls_held (lease_state lease) then Ret (lease, False) else renew_or_lose codec os pid now ts lease)"

definition release :: "NatsSessionLease \<Rightarrow> (NatsSessionLease \<times> (string + unit)) io" where
  "release lease =
     (let (st, held) = mark_lost (lease_state lease);
          lease' = lease\<lparr>lease_state := st\<rparr>
      in if \<not> held then Ret (lease', Inr ())
         else DeleteExpect (lease_key lease) (ls_fence_token st) (\<lambda>res.
                case res of
                  Inr _ \<Rightarrow> Ret (lease', Inr ())
                | Inl e \<Rightarrow> if e = WrongLastRevision then Ret (lease', Inr ())
                           else Ret (lease', Inl (''Failed to release NATS lease key '' @ lease_key lease))))"

definition drop_lease :: "bool \<Rightarrow> NatsSessionLease \<Rightarrow> NatsSessionLease io" where
  "drop_lease in_runtime lease =
     (let (st, held) = mark_lost (lease_state lease);
          lease' = lease\<lparr>lease_state := st\<rparr>
      in if in_runtime \<and> held then DeleteExpect (lease_key lease) (ls_fence_token st) (\<lambda>_. Ret lease') else Ret lease')"

text \<open>Reading who holds a session, as clients do.\<close>

definition lease_holder_in :: "lease_codec \<Rightarrow> string \<Rightarrow> (string + LeaseRecord option) io" where
  "lease_holder_in codec session_id =
     GetEntry (key_for_session session_id) (\<lambda>res. case res of
       Inl _ \<Rightarrow> Ret (Inl ''Failed to read NATS lease'')
     | Inr None \<Rightarrow> Ret (Inr None)
     | Inr (Some entry) \<Rightarrow>
         if entry_operation entry \<noteq> OpPut then Ret (Inr None)
         else (case from_slice codec (entry_value entry) of
                 Some rec \<Rightarrow> Ret (Inr (Some rec))
               | None \<Rightarrow> Ret (Inl ''Failed to decode NATS lease record'')))"

section \<open>A lease and the history of its key\<close>

text \<open>
  The fence token moves from the revision at which the lease was taken through its renewals, and no
  other claim of the key falls between the two.
\<close>

definition lease_ok :: "key_view \<Rightarrow> NatsSessionLease \<Rightarrow> bool" where
  "lease_ok v lease \<longleftrightarrow>
     lease_acquisition_revision lease \<in> kv_created v \<and>
     lease_acquisition_revision lease \<le> ls_fence_token (lease_state lease) \<and>
     ls_fence_token (lease_state lease) \<le> kv_last v \<and>
     (\<forall>a \<in> kv_created v. a \<le> lease_acquisition_revision lease \<or> ls_fence_token (lease_state lease) < a)"

lemma lease_ok_later:
  assumes "lease_ok v lease" "key_later v v'"
  shows "lease_ok v' lease"
  using assms key_later_grows [OF assms(2)] key_later_created [OF assms(2)]
  by (fastforce simp: lease_ok_def)

lemma lease_ok_cong:
  "lease_acquisition_revision l = lease_acquisition_revision l' \<Longrightarrow>
   ls_fence_token (lease_state l) = ls_fence_token (lease_state l') \<Longrightarrow> lease_ok v l = lease_ok v l'"
  by (simp add: lease_ok_def)

text \<open>What acquiring guarantees to others: only deletes of a record whose holder is dead.\<close>

definition acquire_guar ::
    "lease_codec \<Rightarrow> kernel \<Rightarrow> ('w \<Rightarrow> key_view) \<Rightarrow> string \<Rightarrow> request \<Rightarrow> 'w \<Rightarrow> 'w \<Rightarrow> bool" where
  "acquire_guar codec os view key q u v \<longleftrightarrow>
     key_later (view u) (view v) \<and>
     (\<forall>r. q = DeleteReq key r \<longrightarrow>
        (\<exists>x rec. kv_stored (view u) r = Some x \<and> from_slice codec x = Some rec \<and> holder_is_stale os rec))"

definition claimed :: "('w \<Rightarrow> key_view) \<Rightarrow> string + nat option \<Rightarrow> 'w \<Rightarrow> bool" where
  "claimed view res w \<longleftrightarrow>
     key_ok (view w) \<and> (\<forall>r. res = Inr (Some r) \<longrightarrow> r \<in> kv_created (view w) \<and> kv_last (view w) = r)"

lemma claimed_key_ok: "claimed view res w \<Longrightarrow> key_ok (view w)"
  by (simp add: claimed_def)

lemma sat_create_lease:
  assumes laws: "kv_laws n view key" and ok: "key_ok (view w)"
  shows "sat (\<lambda>w w'. key_later (view w) (view w')) n (acquire_guar codec os view key) (claimed view)
           (create_lease codec key rec ttl) w"
proof (cases "to_vec codec rec")
  case (Some payload)
  show ?thesis
    unfolding create_lease_def Some option.case
  proof (rule sat_askI, intro conjI)
    fix w1 w2 res
    assume later: "key_later (view w) (view w1)" and call: "nats_create n key payload (Some ttl) w1 = (w2, res)"
    have later2: "key_later (view w1) (view w2)" by (rule create_later [OF laws call])
    then show "acquire_guar codec os view key (CreateReq key payload (Some ttl)) w1 w2" by (simp add: acquire_guar_def)
    have ok2: "key_ok (view w2)" by (rule key_later_ok [OF later2 key_later_ok [OF later ok]])
    have "r \<in> kv_created (view w2) \<and> kv_last (view w2) = r" if "res = Inr r" for r
      using create_done [OF laws call [unfolded that]] by (simp add: created_at_def put_value_def)
    with ok2 show "sat (\<lambda>w w'. key_later (view w) (view w')) n (acquire_guar codec os view key) (claimed view)
        (case res of Inl e \<Rightarrow> if is_create_conflict e then Ret (Inr None) else Ret (Inl ''Failed to acquire NATS lease'')
         | Inr revision \<Rightarrow> Ret (Inr (Some revision))) w2"
      by (simp add: claimed_def split: sum.splits)
  qed
qed (simp add: create_lease_def claimed_def ok)

lemma sat_delete_stale:
  assumes laws: "kv_laws n view key" and ok: "key_ok (view w)"
    and stored: "kv_stored (view w) r = Some x" "from_slice codec x = Some rec" "holder_is_stale os rec"
  shows "sat (\<lambda>w w'. key_later (view w) (view w')) n (acquire_guar codec os view key) (\<lambda>_ w. key_ok (view w))
           (delete_stale_lease_at_revision key r) w"
proof -
  have "acquire_guar codec os view key (DeleteReq key r) w1 w2 \<and> key_ok (view w2)"
    if "key_later (view w) (view w1)" "nats_delete n key r w1 = (w2, res)" for w1 w2 res
    using delete_later [OF laws that(2)] key_later_stored [OF that(1) ok stored(1)] stored(2,3)
      key_later_ok [OF delete_later [OF laws that(2)] key_later_ok [OF that(1) ok]]
    by (auto simp: acquire_guar_def)
  then show ?thesis by (auto simp: delete_stale_lease_at_revision_def split: sum.splits)
qed

lemma sat_try_reclaim:
  assumes laws: "kv_laws n view key" and ok: "key_ok (view w)"
  shows "sat (\<lambda>w w'. key_later (view w) (view w')) n (acquire_guar codec os view key) (\<lambda>_ w. key_ok (view w))
           (try_reclaim_stale_lease codec os key) w"
  unfolding try_reclaim_stale_lease_def sat.simps
proof (intro allI impI conjI)
  fix w1 w2 res
  assume later: "key_later (view w) (view w1)" and read: "nats_entry n key w1 = (w2, res)"
  have same: "view w2 = view w1" by (rule read_same(2) [OF laws read])
  then show "acquire_guar codec os view key (EntryReq key) w1 w2" by (simp add: acquire_guar_def)
  have ok2: "key_ok (view w2)" using key_later_ok [OF later ok] same by simp
  have "sat (\<lambda>w w'. key_later (view w) (view w')) n (acquire_guar codec os view key) (\<lambda>_ w. key_ok (view w))
          (delete_stale_lease_at_revision key (entry_revision en)) w2"
    if "res = Inr (Some en)" "entry_operation en = OpPut" "from_slice codec (entry_value en) = Some rec"
      "lr_holder rec = Some h" "holder_liveness os h = Dead" for en rec h
    by (rule sat_delete_stale [OF laws ok2 _ that(3)])
       (use entry_stored(1) [OF laws, of w1 w2 en] read that same in \<open>auto simp: holder_is_stale_def\<close>)
  then show "sat (\<lambda>w w'. key_later (view w) (view w')) n (acquire_guar codec os view key) (\<lambda>_ w. key_ok (view w))
      (case res of Inl e \<Rightarrow> Ret (Inl ''Failed to read NATS lease'') | Inr None \<Rightarrow> Ret (Inr False)
       | Inr (Some entry) \<Rightarrow>
           if entry_operation entry \<noteq> OpPut then Ret (Inr False)
           else (case from_slice codec (entry_value entry) of
                   None \<Rightarrow> Ret (Inr False)
                 | Some rec \<Rightarrow>
                     (case lr_holder rec of
                        None \<Rightarrow> Ret (Inr False)
                      | Some holder \<Rightarrow>
                          if holder_liveness os holder \<noteq> Dead then Ret (Inr False)
                          else delete_stale_lease_at_revision key (entry_revision entry)))) w2"
    using ok2 by (simp split: sum.splits option.splits)
qed

definition acquired_ok :: "('w \<Rightarrow> key_view) \<Rightarrow> string \<Rightarrow> string + NatsSessionLease option \<Rightarrow> 'w \<Rightarrow> bool" where
  "acquired_ok view key res w \<longleftrightarrow>
     key_ok (view w) \<and>
     (\<forall>l. res = Inr (Some l) \<longrightarrow> lease_ok (view w) l \<and> lease_key l = key \<and> ls_held (lease_state l))"

lemma acquired_ok_simps [simp]:
  "acquired_ok view key (Inl e) w \<longleftrightarrow> key_ok (view w)"
  "acquired_ok view key (Inr None) w \<longleftrightarrow> key_ok (view w)"
  by (simp_all add: acquired_ok_def)

lemma claimed_lease:
  "claimed view (Inr (Some r)) w \<Longrightarrow> acquired_ok view key (Inr (Some (lease_taken ex wid g ttl key r))) w"
  by (auto simp: claimed_def acquired_ok_def lease_ok_def lease_taken_def dest: key_okD(1))

lemma sat_acquire_key:
  assumes laws: "kv_laws n view key" and ok: "key_ok (view w)"
  shows "sat (\<lambda>w w'. key_later (view w) (view w')) n (acquire_guar codec os view key) (acquired_ok view key)
           (acquire_key codec os pid now cfg wid g ex key) w"
proof -
  let ?R = "\<lambda>w w'. key_later (view w) (view w')" and ?G = "acquire_guar codec os view key"
  have create: "sat ?R n ?G (\<lambda>res. sat ?R n ?G (acquired_ok view key) (f res)) (create_lease codec key rec ttl) u"
    if "key_ok (view u)"
      "\<And>res v. claimed view res v \<Longrightarrow> sat ?R n ?G (acquired_ok view key) (f res) v" for f rec ttl u
    by (rule sat_mono [OF sat_create_lease [OF laws that(1)]]) (auto intro: that(2))
  have last: "sat ?R n ?G (acquired_ok view key) (bind (create_lease codec key rec ttl) (\<lambda>res. case res of
                           Inl e \<Rightarrow> Ret (Inl e)
                         | Inr None \<Rightarrow> Ret (Inr None)
                         | Inr (Some revision) \<Rightarrow> Ret (Inr (Some (lease_taken ex wid g ttl key revision))))) u"
    if "key_ok (view u)" for rec ttl u
    by (intro sat_bind create that)
       (auto split: sum.splits option.splits intro: claimed_lease dest: claimed_key_ok)
  have reclaim: "sat ?R n ?G (acquired_ok view key) (bind (try_reclaim_stale_lease codec os key) f) u"
    if "key_ok (view u)" "\<And>b v. key_ok (view v) \<Longrightarrow> sat ?R n ?G (acquired_ok view key) (f b) v" for f u
    by (intro sat_bind sat_mono [OF sat_try_reclaim [OF laws that(1)]]) (auto intro: that(2))
  have second: "sat ?R n ?G (acquired_ok view key) (case b of
         Inl e \<Rightarrow> Ret (Inl e)
       | Inr False \<Rightarrow> Ret (Inr None)
       | Inr True \<Rightarrow>
           bind (create_lease codec key rec ttl) (\<lambda>res. case res of
             Inl e \<Rightarrow> Ret (Inl e)
           | Inr None \<Rightarrow> Ret (Inr None)
           | Inr (Some revision) \<Rightarrow> Ret (Inr (Some (lease_taken ex wid g ttl key revision))))) u"
    if "key_ok (view u)" for b rec ttl u
    using last [OF that] that by (simp split: sum.splits bool.splits)
  show ?thesis
    unfolding acquire_key_def Let_def
    apply (cases "lease_config_validate cfg")
     apply (simp add: ok)
    apply (simp only: sum.case sat.simps)
    apply (intro allI impI conjI)
     apply (simp add: acquire_guar_def read_same(1) [OF laws])
    subgoal premises prems for u w1 w2 opened
    proof -
      have ok2: "key_ok (view w2)"
        using key_later_ok [OF prems(2) ok] read_same(1) [OF laws prems(3)] by simp
      show ?thesis
        by (cases opened)
           (auto simp: ok2 split: sum.splits option.splits intro!: sat_bind [OF create] second reclaim
             intro: claimed_lease dest: claimed_key_ok)
    qed
    done
qed

section \<open>Renewal keeps the claim\<close>

lemma renewal_names_revision: "names_revision (renewal_message_id key st) (ls_fence_token st)"
  unfolding names_revision_def renewal_message_id_def
  by (rule exI [of _ "''lease:'' @ key @ '':'' @ ls_worker_id st @ '':'' @ show_nat (ls_generation st)"]) simp

definition with_token :: "NatsSessionLease \<Rightarrow> fence \<Rightarrow> NatsSessionLease" where
  "with_token lease r = lease\<lparr>lease_state := (lease_state lease)\<lparr>ls_fence_token := r\<rparr>\<rparr>"

lemma renewal_answer_ok:
  assumes laws: "kv_laws n view key" and ok: "key_ok (view w)" and lease: "lease_ok (view w) lease"
    and call: "nats_renew n key x (ls_fence_token (lease_state lease)) t
                 (renewal_message_id key (lease_state lease)) w = (w', Inr r)"
  shows "lease_ok (view w') (with_token lease r)"
proof -
  let ?e = "ls_fence_token (lease_state lease)" and ?i = "renewal_message_id key (lease_state lease)"
  have "renew_law n view key" using laws by (simp add: kv_laws_def)
  from this [unfolded renew_law_def, rule_format, OF call]
  have "renewed_at ?i ?e r x (view w) (view w') \<or>
      view w' = view w \<and> (\<exists>e'. (?i, e', r) \<in> kv_renewed (view w))" by simp
  then show ?thesis
  proof
    assume fresh: "renewed_at ?i ?e r x (view w) (view w')"
    then obtain y where live: "kv_live (view w) = Some (?e, y)" by (auto simp: renewed_at_def)
    from key_okD(3) [OF ok live] have "\<forall>a \<in> kv_created (view w). a \<le> ?e" by blast
    with fresh lease show ?thesis
      by (fastforce simp: lease_ok_def renewed_at_def put_value_def with_token_def)
  next
    assume "view w' = view w \<and> (\<exists>e'. (?i, e', r) \<in> kv_renewed (view w))"
    then obtain e' where same: "view w' = view w" and stored: "(?i, e', r) \<in> kv_renewed (view w)" by blast
    have "e' = ?e" using names_revision_unique [OF _ renewal_names_revision] key_okD(5) [OF ok stored] by blast
    with key_okD(5,6) [OF ok stored] lease show ?thesis
      by (fastforce simp: lease_ok_def with_token_def same)
  qed
qed

definition renewed_ok :: "('w \<Rightarrow> key_view) \<Rightarrow> NatsSessionLease \<Rightarrow> NatsSessionLease \<times> bool \<Rightarrow> 'w \<Rightarrow> bool" where
  "renewed_ok view lease res w \<longleftrightarrow>
     key_ok (view w) \<and> lease_ok (view w) (fst res) \<and> lease_key (fst res) = lease_key lease \<and>
     lease_acquisition_revision (fst res) = lease_acquisition_revision lease \<and>
     (ls_held (lease_state (fst res)) \<longrightarrow> ls_held (lease_state lease))"

abbreviation later_guar :: "('w \<Rightarrow> key_view) \<Rightarrow> request \<Rightarrow> 'w \<Rightarrow> 'w \<Rightarrow> bool" where
  "later_guar view q u v \<equiv> key_later (view u) (view v)"

lemma sat_renew_or_lose:
  assumes laws: "kv_laws n view (lease_key lease)" and ok: "key_ok (view w)" "lease_ok (view w) lease"
  shows "sat (\<lambda>w w'. key_later (view w) (view w')) n (later_guar view) (renewed_ok view lease)
           (renew_or_lose codec os pid now ts lease) w"
proof -
  let ?R = "\<lambda>w w'. key_later (view w) (view w')" and ?st = "lease_state lease"
  let ?rec = "(LeaseRecord_new os pid now (ls_worker_id ?st) (ls_generation ?st))\<lparr>lr_execution_id := ls_execution_id ?st\<rparr>"
  let ?J = "\<lambda>w. key_ok (view w) \<and> lease_ok (view w) lease"
  let ?Q' = "\<lambda>ack w. (case ack of Inl _ \<Rightarrow> ?J w | Inr r \<Rightarrow> key_ok (view w) \<and> lease_ok (view w) (with_token lease r))"
  have tries: "sat ?R n (later_guar view) ?Q' (retry_until transient_publish
      (Renew (lease_key lease) payload (ls_fence_token ?st) secs' (renewal_message_id (lease_key lease) ?st) Ret) ts) w"
    for payload secs'
  proof (rule sat_retry_until [where J = ?J])
    fix u assume J: "?J u"
    show "sat ?R n (later_guar view)
        (\<lambda>res w'. ?Q' (Inl None) w' \<and>
          (case res of Inl e \<Rightarrow> ?Q' (Inl (Some e)) w' \<and> (transient_publish e \<longrightarrow> ?J w') | Inr v \<Rightarrow> ?Q' (Inr v) w'))
        (Renew (lease_key lease) payload (ls_fence_token ?st) secs' (renewal_message_id (lease_key lease) ?st) Ret) u"
    proof (rule sat_askI, intro conjI)
      fix w1 w2 res
      assume later: "key_later (view u) (view w1)"
        and call: "nats_renew n (lease_key lease) payload (ls_fence_token ?st) secs'
                     (renewal_message_id (lease_key lease) ?st) w1 = (w2, res)"
      have J1: "?J w1" using J key_later_ok [OF later] lease_ok_later [OF _ later] by blast
      show later2: "key_later (view w1) (view w2)"
        by (rule renew_later [OF laws call renewal_names_revision])
      have J2: "?J w2" using J1 key_later_ok [OF later2] lease_ok_later [OF _ later2] by blast
      have "lease_ok (view w2) (with_token lease r)" if "res = Inr r" for r
        using renewal_answer_ok [OF laws _ _ call [unfolded that]] J1 by blast
      with J2 show "sat ?R n (later_guar view)
        (\<lambda>res w'. ?Q' (Inl None) w' \<and>
          (case res of Inl e \<Rightarrow> ?Q' (Inl (Some e)) w' \<and> (transient_publish e \<longrightarrow> ?J w') | Inr v \<Rightarrow> ?Q' (Inr v) w'))
        (Ret res) w2" by (simp split: sum.splits)
    qed
  qed (use ok in auto)
  have lost: "renewed_ok view lease (lease\<lparr>lease_state := fst (mark_lost ?st)\<rparr>, False) u" if "?J u" for u
    using that by (simp add: renewed_ok_def mark_lost_def lease_ok_def)
  have kept: "renewed_ok view lease (lease\<lparr>lease_state := ?st\<lparr>ls_fence_token := r\<rparr>\<rparr>, True) u"
    if "key_ok (view u)" "lease_ok (view u) (with_token lease r)" for r u
    using that by (simp add: renewed_ok_def with_token_def)
  show ?thesis
  proof (cases "to_vec codec ?rec")
    case None
    then show ?thesis using lost ok by (simp add: renew_or_lose_def renew_once_def)
  next
    case (Some payload)
    show ?thesis
      unfolding renew_or_lose_def renew_once_def Let_def Some option.case bind_assoc
      by (rule sat_bind, rule sat_mono [OF tries])
         (auto simp: lost kept split: sum.splits option.splits PublishErrorKind.splits)
  qed
qed

lemma sat_release:
  assumes laws: "kv_laws n view (lease_key lease)" and ok: "key_ok (view w)" "lease_ok (view w) lease"
  shows "sat (\<lambda>w w'. key_later (view w) (view w')) n (later_guar view)
      (\<lambda>(l, res). renewed_ok view lease (l, False)) (release lease) w"
    and "sat (\<lambda>w w'. key_later (view w) (view w')) n (later_guar view)
      (\<lambda>l. renewed_ok view lease (l, False)) (drop_lease in_runtime lease) w"
proof -
  let ?st = "lease_state lease"
  let ?rel = "lease\<lparr>lease_state := ?st\<lparr>ls_held := False\<rparr>\<rparr>"
  have rel: "renewed_ok view lease (?rel, False) u" if "key_later (view w) (view u)" for u
    using key_later_ok [OF that ok(1)] lease_ok_later [OF ok(2) that] by (simp add: renewed_ok_def lease_ok_def)
  have deleted: "key_later (view w1) (view w2) \<and> renewed_ok view lease (?rel, False) w2"
    if "key_later (view w) (view w1)" "nats_delete n (lease_key lease) (ls_fence_token ?st) w1 = (w2, res)" for w1 w2 res
    using that delete_later [OF laws that(2)] by (auto intro!: rel)
  show "sat (\<lambda>w w'. key_later (view w) (view w')) n (later_guar view)
      (\<lambda>(l, res). renewed_ok view lease (l, False)) (release lease) w"
    unfolding release_def mark_lost_def Let_def
    using rel [of w] deleted by (auto split: sum.splits)
  show "sat (\<lambda>w w'. key_later (view w) (view w')) n (later_guar view)
      (\<lambda>l. renewed_ok view lease (l, False)) (drop_lease in_runtime lease) w"
    unfolding drop_lease_def mark_lost_def Let_def
    using rel [of w] deleted by auto
qed

section \<open>The life of a lease\<close>

text \<open>
  How a worker comes to hold a lease and what it does with it, among others who use the same key:
  the pairs of a world and a lease that can be reached. What happens between the operations, and between
  their requests, is any work of others on the key, the expiry of entries included.
\<close>

inductive lease_reach :: "'w nats \<Rightarrow> ('w \<Rightarrow> key_view) \<Rightarrow> lease_codec \<Rightarrow> string \<Rightarrow> 'w \<Rightarrow> NatsSessionLease \<Rightarrow> bool"
  for n view codec key where
  taken: "\<lbrakk>key_ok (view w); within (\<lambda>w w'. key_later (view w) (view w')) es;
     run n (acquire_key codec os pid now cfg wid g ex key) es w = (w', tr, Some (Inr (Some l)))\<rbrakk>
   \<Longrightarrow> lease_reach n view codec key w' l"
| ticked: "\<lbrakk>lease_reach n view codec key w l; within (\<lambda>w w'. key_later (view w) (view w')) es;
     run n (renew_tick codec os pid now ts l) es w = (w', tr, Some (l', b))\<rbrakk>
   \<Longrightarrow> lease_reach n view codec key w' l'"
| revalidated: "\<lbrakk>lease_reach n view codec key w l; within (\<lambda>w w'. key_later (view w) (view w')) es;
     run n (revalidate_ownership codec os pid now ts l) es w = (w', tr, Some (l', b))\<rbrakk>
   \<Longrightarrow> lease_reach n view codec key w' l'"
| released: "\<lbrakk>lease_reach n view codec key w l; within (\<lambda>w w'. key_later (view w) (view w')) es;
     run n (release l) es w = (w', tr, Some (l', res))\<rbrakk>
   \<Longrightarrow> lease_reach n view codec key w' l'"
| dropped: "\<lbrakk>lease_reach n view codec key w l; within (\<lambda>w w'. key_later (view w) (view w')) es;
     run n (drop_lease in_runtime l) es w = (w', tr, Some l')\<rbrakk>
   \<Longrightarrow> lease_reach n view codec key w' l'"
| others: "\<lbrakk>lease_reach n view codec key w l; key_later (view w) (view w')\<rbrakk>
   \<Longrightarrow> lease_reach n view codec key w' l"

lemma renewal_op_ok:
  assumes laws: "kv_laws n view key" and inv: "key_ok (view w)" "lease_ok (view w) l" "lease_key l = key"
    and env: "within (\<lambda>w w'. key_later (view w) (view w')) es"
    and op: "p = renew_tick codec os pid now ts l \<or> p = revalidate_ownership codec os pid now ts l"
    and run: "run n p es w = (w', tr, Some (l', b))"
  shows "renewed_ok view l (l', b) w'"
proof -
  have "sat (\<lambda>w w'. key_later (view w) (view w')) n (later_guar view) (renewed_ok view l) p w"
    using op sat_renew_or_lose [OF laws [folded inv(3)] inv(1,2)] inv
    by (auto simp: renew_tick_def revalidate_ownership_def renewed_ok_def)
  from key_rely.run_result [OF this env run] show ?thesis by simp
qed

lemma lease_reach_ok:
  assumes "lease_reach n view codec key w l" "kv_laws n view key"
  shows "key_ok (view w) \<and> lease_ok (view w) l \<and> lease_key l = key"
  using assms(1)
proof induction
  case (taken w es os pid now cfg wid g ex w' tr l)
  from key_rely.run_result [OF sat_acquire_key [OF assms(2) taken(1)] taken(2,3)]
  show ?case by (simp add: acquired_ok_def)
next
  case (ticked w l es os pid now ts w' tr l' b)
  then have inv: "key_ok (view w)" "lease_ok (view w) l" "lease_key l = key" by auto
  from renewal_op_ok [OF assms(2) inv ticked(2) disjI1 [OF refl] ticked(3)] inv(3)
  show ?case by (simp add: renewed_ok_def)
next
  case (revalidated w l es os pid now ts w' tr l' b)
  then have inv: "key_ok (view w)" "lease_ok (view w) l" "lease_key l = key" by auto
  from renewal_op_ok [OF assms(2) inv revalidated(2) disjI2 [OF refl] revalidated(3)] inv(3)
  show ?case by (simp add: renewed_ok_def)
next
  case (released w l es w' tr l' res)
  then have inv: "key_ok (view w)" "lease_ok (view w) l" "lease_key l = key" by auto
  from key_rely.run_result [OF sat_release(1) [OF assms(2) [folded inv(3)] inv(1,2)] released(2,3)] inv(3)
  show ?case by (simp add: renewed_ok_def)
next
  case (dropped w l es in_runtime w' tr l')
  then have inv: "key_ok (view w)" "lease_ok (view w) l" "lease_key l = key" by auto
  from key_rely.run_result [OF sat_release(2) [OF assms(2) [folded inv(3)] inv(1,2)] dropped(2,3)] inv(3)
  show ?case by (simp add: renewed_ok_def)
next
  case (others w l w')
  then show ?case using key_later_ok lease_ok_later by blast
qed

text \<open>A lease whose revision has been passed, with no renewal of it under way, stays so.\<close>

definition superseded :: "key_view \<Rightarrow> string \<Rightarrow> LeaseState \<Rightarrow> bool" where
  "superseded v key st \<longleftrightarrow>
     map_option fst (kv_live v) \<noteq> Some (ls_fence_token st) \<and> ls_fence_token st \<le> kv_last v \<and>
     (\<forall>e r. (renewal_message_id key st, e, r) \<notin> kv_renewed v)"

lemma superseded_step:
  assumes "key_step v v'" "superseded v key st"
  shows "superseded v' key st"
proof -
  have "map_option fst (kv_live v') \<noteq> Some (ls_fence_token st)"
    using key_later_passed [OF r_into_rtranclp [of key_step, OF assms(1)]] assms(2)
    by (simp add: superseded_def)
  moreover have "ls_fence_token st \<le> kv_last v'"
    using key_step_grows [OF assms(1)] assms(2) by (auto simp: superseded_def)
  moreover have "(renewal_message_id key st, e, r) \<notin> kv_renewed v'" for e r
    using assms(1)
  proof cases
    case (step_renewed i e' r' x)
    have "i \<noteq> renewal_message_id key st"
    proof
      assume "i = renewal_message_id key st"
      then have "e' = ls_fence_token st"
        using names_revision_unique [OF step_renewed(2)] renewal_names_revision by metis
      with step_renewed(1) assms(2) show False by (simp add: renewed_at_def superseded_def)
    qed
    with step_renewed(1) assms(2) show ?thesis by (auto simp: renewed_at_def superseded_def put_value_def)
  qed (use assms(2) in \<open>auto simp: superseded_def key_step_defs\<close>)
  ultimately show ?thesis by (simp add: superseded_def)
qed

lemma superseded_later: "key_later v v' \<Longrightarrow> superseded v key st \<Longrightarrow> superseded v' key st"
  by (induction rule: rtranclp_induct) (auto intro: superseded_step)

lemma superseded_answer:
  assumes laws: "kv_laws n view key" and "superseded (view w) key st"
    and call: "nats_renew n key x (ls_fence_token st) t (renewal_message_id key st) w = (w', res)"
  shows "view w' = view w \<and> (\<exists>e. res = Inl e)"
proof -
  have "renew_law n view key" using laws by (simp add: kv_laws_def)
  from this [unfolded renew_law_def, rule_format, OF call] assms(2) show ?thesis
    by (cases res) (auto simp: superseded_def renewed_at_def)
qed

lemma sat_superseded:
  assumes laws: "kv_laws n view (lease_key l)" and sup: "superseded (view w) (lease_key l) (lease_state l)"
  shows "sat (\<lambda>w w'. key_later (view w) (view w')) n (\<lambda>q u v. view v = view u)
      (\<lambda>(l', b) w. \<not> b \<and> \<not> ls_held (lease_state l')) (renew_or_lose codec os pid now ts l) w"
proof -
  let ?R = "\<lambda>w w'. key_later (view w) (view w')" and ?st = "lease_state l"
  let ?J = "\<lambda>w. superseded (view w) (lease_key l) ?st"
  let ?rec = "(LeaseRecord_new os pid now (ls_worker_id ?st) (ls_generation ?st))\<lparr>lr_execution_id := ls_execution_id ?st\<rparr>"
  let ?Q = "\<lambda>(ack :: PublishErrorKind option + nat) (w :: 'a). \<exists>e. ack = Inl e"
  have tries: "sat ?R n (\<lambda>q u v. view v = view u) ?Q (retry_until transient_publish
      (Renew (lease_key l) payload (ls_fence_token ?st) secs' (renewal_message_id (lease_key l) ?st) Ret) ts) w"
    for payload secs'
  proof (rule sat_retry_until [where J = ?J])
    fix u assume J: "?J u"
    show "sat ?R n (\<lambda>q u v. view v = view u)
        (\<lambda>res w'. ?Q (Inl None) w' \<and>
          (case res of Inl e \<Rightarrow> ?Q (Inl (Some e)) w' \<and> (transient_publish e \<longrightarrow> ?J w') | Inr v \<Rightarrow> ?Q (Inr v) w'))
        (Renew (lease_key l) payload (ls_fence_token ?st) secs' (renewal_message_id (lease_key l) ?st) Ret) u"
    proof (rule sat_askI)
      fix w1 w2 r
      assume later: "key_later (view u) (view w1)"
        and call: "nats_renew n (lease_key l) payload (ls_fence_token ?st) secs'
                     (renewal_message_id (lease_key l) ?st) w1 = (w2, r)"
      have J1: "?J w1" by (rule superseded_later [OF later J])
      from superseded_answer [OF laws J1 call] obtain e where "view w2 = view w1" "r = Inl e" by blast
      with J1 show "view w2 = view w1 \<and> sat ?R n (\<lambda>q u v. view v = view u)
        (\<lambda>res w'. ?Q (Inl None) w' \<and>
          (case res of Inl e \<Rightarrow> ?Q (Inl (Some e)) w' \<and> (transient_publish e \<longrightarrow> ?J w') | Inr v \<Rightarrow> ?Q (Inr v) w'))
        (Ret r) w2" by simp
    qed
  qed (simp_all add: sup)
  show ?thesis
  proof (cases "to_vec codec ?rec")
    case None
    then show ?thesis by (simp add: renew_or_lose_def renew_once_def mark_lost_def)
  next
    case (Some payload)
    show ?thesis
      unfolding renew_or_lose_def renew_once_def Let_def Some option.case bind_assoc
      by (rule sat_bind, rule sat_mono [OF tries])
         (auto simp: mark_lost_def split: sum.splits option.splits PublishErrorKind.splits)
  qed
qed

lemma sat_release_settles:
  assumes laws: "kv_laws n view (lease_key l)"
  shows "sat (\<lambda>w w'. key_later (view w) (view w')) n (\<lambda>_ _ _. True)
      (\<lambda>(l', res) w. \<not> ls_held (lease_state l') \<and>
         (ls_held (lease_state l) \<longrightarrow> res = Inr () \<longrightarrow>
            map_option fst (kv_live (view w)) \<noteq> Some (ls_fence_token (lease_state l)))) (release l) w"
proof -
  have "map_option fst (kv_live (view w2)) \<noteq> Some (ls_fence_token (lease_state l))"
    if "nats_delete n (lease_key l) (ls_fence_token (lease_state l)) w1 = (w2, res)"
      "case res of Inl e \<Rightarrow> e = WrongLastRevision | Inr _ \<Rightarrow> True" for w1 w2 res
  proof -
    have "delete_law n view (lease_key l)" using laws by (simp add: kv_laws_def)
    from this [unfolded delete_law_def, rule_format, OF that(1)] that(2) show ?thesis
      by (cases res) (auto simp: removed_at_def)
  qed
  then show ?thesis
    unfolding release_def mark_lost_def Let_def by (auto split: sum.splits)
qed

section \<open>Properties\<close>

lemma lease_tokens_apart:
  assumes "kv_laws n view key"
    and "lease_reach n view codec key w l1" "lease_reach n view codec key w l2"
    and "lease_acquisition_revision l1 < lease_acquisition_revision l2"
  shows "ls_fence_token (lease_state l1) < lease_acquisition_revision l2"
    "lease_acquisition_revision l2 \<le> ls_fence_token (lease_state l2)"
proof -
  have "lease_ok (view w) l1" "lease_ok (view w) l2"
    using lease_reach_ok [OF assms(2,1)] lease_reach_ok [OF assms(3,1)] by auto
  with assms(4) show "ls_fence_token (lease_state l1) < lease_acquisition_revision l2"
    "lease_acquisition_revision l2 \<le> ls_fence_token (lease_state l2)" by (fastforce simp: lease_ok_def)+
qed

text \<open>
  C2: Fencing. Whatever the interleaving of workers, lost answers and expiries, of two leases on a session
  the one taken later has the larger fence tokens, from its first on: every token the earlier lease ever
  has is smaller than the revision at which the later one was taken. The earlier lease's entry is
  not the live one any more, so the broker accepts no renewal of it.
\<close>

theorem lease_fencing:
  assumes "kv_laws n view key"
    and "lease_reach n view codec key w l1" "lease_reach n view codec key w l2"
    and "lease_acquisition_revision l1 < lease_acquisition_revision l2"
  shows "ls_fence_token (lease_state l1) < lease_acquisition_revision l2 \<and>
    lease_acquisition_revision l2 \<le> ls_fence_token (lease_state l2) \<and>
    map_option fst (kv_live (view w)) \<noteq> Some (ls_fence_token (lease_state l1))"
proof -
  have ok: "key_ok (view w)" "lease_ok (view w) l1" "lease_ok (view w) l2"
    using lease_reach_ok [OF assms(2,1)] lease_reach_ok [OF assms(3,1)] by auto
  have less: "ls_fence_token (lease_state l1) < lease_acquisition_revision l2"
    by (rule lease_tokens_apart(1) [OF assms])
  moreover have "map_option fst (kv_live (view w)) \<noteq> Some (ls_fence_token (lease_state l1))"
    using less key_okD(3) [OF ok(1)] ok(3) by (fastforce simp: lease_ok_def)
  ultimately show ?thesis using ok(3) by (simp add: lease_ok_def)
qed

definition demo_codec :: lease_codec where
  "demo_codec = \<lparr>to_vec = (\<lambda>rec. Some (lr_worker_id rec)),
     from_slice = (\<lambda>x. Some \<lparr>lr_execution_id = None, lr_worker_id = x, lr_generation = 1, lr_acquired_at = [],
                             lr_holder = Some (current_identity demo_kernel 7)\<rparr>)\<rparr>"

abbreviation demo_take :: "string \<Rightarrow> (string + NatsSessionLease option) io" where
  "demo_take worker \<equiv> acquire_key demo_codec demo_kernel 7 [] (lease_config_default 1) worker 1 None ''k''"

definition first_lease :: key_view where
  "first_lease = \<lparr>kv_live = Some (1, ''a''), kv_last = 1, kv_created = {1}, kv_stored = [1 \<mapsto> ''a''], kv_renewed = {}\<rparr>"

definition expired_lease :: key_view where
  "expired_lease = first_lease\<lparr>kv_live := None, kv_last := 2\<rparr>"

definition second_lease :: key_view where
  "second_lease = \<lparr>kv_live = Some (3, ''b''), kv_last = 3, kv_created = {3, 1},
     kv_stored = [1 \<mapsto> ''a'', 3 \<mapsto> ''b''], kv_renewed = {}\<rparr>"

lemmas demo_lease_simps =
  acquire_key_def lease_config_validate_def lease_config_default_def secs_def create_lease_def demo_codec_def
  LeaseRecord_new_def key_nats_def put_value_def

text \<open>The same key with any log beside it.\<close>

abbreviation key_log :: "(seq \<Rightarrow> key_view \<Rightarrow> key_view \<times> (string + log)) \<Rightarrow> (key_view \<Rightarrow> fence) \<Rightarrow> key_view nats" where
  "key_log f g \<equiv> key_nats\<lparr>nats_load := f, local_token := g\<rparr>"

lemma key_log_laws: "kv_laws (key_log f g) view k = kv_laws key_nats view k"
  by (simp add: kv_laws_def create_law_def update_law_def delete_law_def renew_law_def read_law_def)

lemma demo_first:
  "run (key_log f g) (demo_take ''a'') [\<lambda>w. w, \<lambda>w. w] empty_key =
     (first_lease, [(LocalReq, empty_key, empty_key), (CreateReq ''k'' ''a'' (Some (secs 30)), empty_key, first_lease)],
      Some (Inr (Some (lease_taken None ''a'' 1 (secs 30) ''k'' 1))))"
  by (simp add: demo_lease_simps empty_key_def first_lease_def)

lemma demo_second:
  "run (key_log f g) (demo_take ''b'') [\<lambda>w. w, \<lambda>w. w] expired_lease =
     (second_lease, [(LocalReq, expired_lease, expired_lease), (CreateReq ''k'' ''b'' (Some (secs 30)), expired_lease, second_lease)],
      Some (Inr (Some (lease_taken None ''b'' 1 (secs 30) ''k'' 3))))"
  by (simp add: demo_lease_simps expired_lease_def first_lease_def second_lease_def fun_upd_twist)

lemma demo_expires: "key_later first_lease expired_lease"
  by (rule at_later(4) [of 1]) (auto simp: removed_at_def first_lease_def expired_lease_def)

lemma key_log_reach:
  "lease_reach (key_log f g) (\<lambda>w. w) demo_codec ''k'' first_lease (lease_taken None ''a'' 1 (secs 30) ''k'' 1)"
  "lease_reach (key_log f g) (\<lambda>w. w) demo_codec ''k'' second_lease (lease_taken None ''a'' 1 (secs 30) ''k'' 1)"
  "lease_reach (key_log f g) (\<lambda>w. w) demo_codec ''k'' second_lease (lease_taken None ''b'' 1 (secs 30) ''k'' 3)"
proof -
  show first: "lease_reach (key_log f g) (\<lambda>w. w) demo_codec ''k'' first_lease (lease_taken None ''a'' 1 (secs 30) ''k'' 1)"
    by (rule lease_reach.taken [where view = "\<lambda>w. w", OF _ _ demo_first]) (simp_all add: empty_key_ok)
  have "key_later expired_lease second_lease"
    using create_later [OF key_nats_laws, of "''k''" "''b''" None expired_lease]
    by (simp add: key_nats_def expired_lease_def first_lease_def second_lease_def put_value_def fun_upd_twist)
  with demo_expires have "key_later first_lease second_lease" by simp
  then show "lease_reach (key_log f g) (\<lambda>w. w) demo_codec ''k'' second_lease (lease_taken None ''a'' 1 (secs 30) ''k'' 1)"
    by (rule lease_reach.others [where view = "\<lambda>w. w", OF first])
  have "key_ok expired_lease" by (simp add: key_ok_def expired_lease_def first_lease_def)
  then show "lease_reach (key_log f g) (\<lambda>w. w) demo_codec ''k'' second_lease (lease_taken None ''b'' 1 (secs 30) ''k'' 3)"
    by (intro lease_reach.taken [where view = "\<lambda>w. w", OF _ _ demo_second]) simp_all
qed

lemma key_log_self: "key_log (nats_load key_nats) (local_token key_nats) = key_nats"
  by (simp add: key_nats_def)

lemmas demo_reach = key_log_reach [where f = "nats_load key_nats" and g = "local_token key_nats", unfolded key_log_self]

theorem lease_fencing_witness:
  "ls_fence_token (lease_state (lease_taken None ''a'' 1 (secs 30) ''k'' 1)) <
     lease_acquisition_revision (lease_taken None ''b'' 1 (secs 30) ''k'' 3) \<and>
   kv_live second_lease = Some (3, ''b'')"
  using lease_fencing [OF key_nats_laws demo_reach(2,3)] by (simp add: lease_taken_def second_lease_def)

text \<open>
  C16: A worker that lost its lease finds out. Once the broker's entry is no longer the lease's own (it
  expired, was released or another worker took over) and no earlier publish of the pending renewal is
  stored, a check of ownership answers no, marks the lease lost and changes nothing at the broker, whatever others do meanwhile and
  however often the publish is retried.
\<close>

theorem superseded_lease_found_out:
  assumes "kv_laws n view key" and "lease_reach n view codec key w l"
    and "map_option fst (kv_live (view w)) \<noteq> Some (ls_fence_token (lease_state l))"
    and "\<forall>e r. (renewal_message_id key (lease_state l), e, r) \<notin> kv_renewed (view w)"
    and "within (\<lambda>w w'. key_later (view w) (view w')) es"
    and "run n (revalidate_ownership codec os pid now ts l) es w = (w', tr, Some (l', owned))"
  shows "\<not> owned \<and> \<not> ls_held (lease_state l') \<and> (\<forall>(q, u, v) \<in> set tr. view v = view u)"
proof -
  from lease_reach_ok [OF assms(2,1)] have l: "lease_ok (view w) l" "lease_key l = key" by auto
  then have "superseded (view w) (lease_key l) (lease_state l)"
    using assms(3,4) by (simp add: superseded_def lease_ok_def)
  from sat_superseded [OF assms(1) [folded l(2)] this, of codec os pid now ts]
  have "sat (\<lambda>w w'. key_later (view w) (view w')) n (\<lambda>q u v. view v = view u)
      (\<lambda>(l', b) w. \<not> b \<and> \<not> ls_held (lease_state l')) (revalidate_ownership codec os pid now ts l) w"
    by (simp add: revalidate_ownership_def)
  from key_rely.run_sat(1,2) [OF this assms(5,6)] show ?thesis by simp
qed

theorem superseded_lease_found_out_witness:
  "\<exists>w' tr l'. run key_nats (revalidate_ownership demo_codec demo_kernel 7 []
       [\<lparr>in_time = True, answered = True, may_wait = True\<rparr>] (lease_taken None ''a'' 1 (secs 30) ''k'' 1))
       [\<lambda>w. w] second_lease = (w', tr, Some (l', False)) \<and> \<not> ls_held (lease_state l') \<and> w' = second_lease"
proof -
  let ?st = "lease_state (lease_taken None ''a'' 1 (secs 30) ''k'' 1)"
  let ?l = "(lease_taken None ''a'' 1 (secs 30) ''k'' 1)\<lparr>lease_state := fst (mark_lost ?st)\<rparr>"
  have run: "run key_nats (revalidate_ownership demo_codec demo_kernel 7 []
       [\<lparr>in_time = True, answered = True, may_wait = True\<rparr>] (lease_taken None ''a'' 1 (secs 30) ''k'' 1))
       [\<lambda>w. w] second_lease =
       (second_lease, [(RenewReq ''k'' ''a'' 1 30 (renewal_message_id ''k'' ?st), second_lease, second_lease)], Some (?l, False))"
    by (simp add: revalidate_ownership_def renew_or_lose_def renew_once_def lease_taken_def demo_lease_simps
        second_lease_def transient_publish_def)
  from superseded_lease_found_out [where view = "\<lambda>w. w", OF key_nats_laws demo_reach(2) _ _ _ run] run show ?thesis
    by (simp add: lease_taken_def second_lease_def)
qed






text \<open>
  Releasing settles the claim. After a release the lease is not held, and when it was held before and the
  release reports no error, the entry of its last revision is gone from the broker, for good.
\<close>

theorem release_settles:
  assumes "kv_laws n view key" and "lease_reach n view codec key w l"
    and "within (\<lambda>w w'. key_later (view w) (view w')) es"
    and "run n (release l) es w = (w', tr, Some (l', res))"
  shows "\<not> ls_held (lease_state l') \<and>
    (ls_held (lease_state l) \<longrightarrow> res = Inr () \<longrightarrow> key_later (view w') v \<longrightarrow>
       map_option fst (kv_live v) \<noteq> Some (ls_fence_token (lease_state l)))"
proof -
  from lease_reach_ok [OF assms(2,1)] have l: "key_ok (view w)" "lease_ok (view w) l" "lease_key l = key" by auto
  note laws = assms(1) [folded l(3)]
  from key_rely.run_result [OF sat_release_settles [OF laws] assms(3,4)]
  have res: "\<not> ls_held (lease_state l')" "ls_held (lease_state l) \<Longrightarrow> res = Inr () \<Longrightarrow>
      map_option fst (kv_live (view w')) \<noteq> Some (ls_fence_token (lease_state l))" by simp_all
  have "key_later (view w) (view w')"
    by (rule key_rely.run_world [OF sat_release(1) [OF laws l(1,2)] assms(3,4)])
  from lease_ok_later [OF l(2) this] have "ls_fence_token (lease_state l) \<le> kv_last (view w')" by (simp add: lease_ok_def)
  with res key_later_passed show ?thesis by blast
qed

theorem release_settles_witness:
  "\<exists>w' tr l'. run key_nats (release (lease_taken None ''b'' 1 (secs 30) ''k'' 3)) [\<lambda>w. w] second_lease =
     (w', tr, Some (l', Inr ())) \<and> \<not> ls_held (lease_state l') \<and> map_option fst (kv_live w') \<noteq> Some 3"
proof -
  let ?l = "lease_taken None ''b'' 1 (secs 30) ''k'' 3"
  have run: "run key_nats (release ?l) [\<lambda>w. w] second_lease =
      (second_lease\<lparr>kv_live := None, kv_last := 4\<rparr>, [(DeleteReq ''k'' 3, second_lease, second_lease\<lparr>kv_live := None, kv_last := 4\<rparr>)],
       Some (?l\<lparr>lease_state := fst (mark_lost (lease_state ?l))\<rparr>, Inr ()))"
    by (simp add: release_def mark_lost_def lease_taken_def key_nats_def second_lease_def Let_def)
  from release_settles [where view = "\<lambda>w. w", OF key_nats_laws demo_reach(3) _ run, of "second_lease\<lparr>kv_live := None, kv_last := 4\<rparr>"] run
  show ?thesis by (simp add: lease_taken_def mark_lost_def)
qed

text \<open>
  Keys keep coordination apart from execution: over session ids without a slash, no scope's lease key is a
  session's own, different sessions and scopes have different keys, and a scope that could change the
  key's shape is refused.
\<close>

theorem lease_keys_apart:
  assumes "CHR ''/'' \<notin> set s" "CHR ''/'' \<notin> set s'"
  shows "(key_for_session s = key_for_session s' \<longleftrightarrow> s = s') \<and>
    key_for_scope s scope \<noteq> Inr (key_for_session s') \<and>
    (\<forall>k. key_for_scope s scope = Inr k \<longrightarrow> key_for_scope s' scope' = Inr k \<longrightarrow> s = s' \<and> scope = scope') \<and>
    (CHR ''/'' \<in> set scope \<or> scope = [] \<longrightarrow> (\<exists>e. key_for_scope s scope = Inl e))"
proof -
  have own: "split_on (CHR ''/'') (key_for_session t) = [''sessions'', t, ''lock'']" if "CHR ''/'' \<notin> set t" for t
    using split_on_append [of "CHR ''/''" "''sessions''" "t @ ''/lock''"]
      split_on_append [OF that, of "''lock''"] by (simp add: key_for_session_def split_on_clean)
  have slash: "CHR ''/'' \<notin> set c" if "list_all scope_char c" for c
    using that by (auto simp: list_all_iff scope_char_def)
  have scoped: "split_on (CHR ''/'') k = [''sessions'', t, c, ''lock'']"
    if "CHR ''/'' \<notin> set t" "key_for_scope t c = Inr k" for t c k
  proof -
    have c: "CHR ''/'' \<notin> set c" and k: "k = ''sessions/'' @ t @ ''/'' @ c @ ''/lock''"
      using that(2) slash [of c] by (simp_all add: key_for_scope_def split: if_splits)
    show ?thesis
      unfolding k
      using split_on_append [of "CHR ''/''" "''sessions''" "t @ ''/'' @ c @ ''/lock''"]
        split_on_append [OF that(1), of "c @ ''/lock''"] split_on_append [OF c, of "''lock''"]
      by (simp add: split_on_clean)
  qed
  show ?thesis
  proof (intro conjI allI impI)
    show "key_for_session s = key_for_session s' \<longleftrightarrow> s = s'" by (metis own [OF assms(1)] own [OF assms(2)] list.inject)
    show "key_for_scope s scope \<noteq> Inr (key_for_session s')" 
    proof
      assume "key_for_scope s scope = Inr (key_for_session s')"
      from scoped [OF assms(1) this] show False unfolding own [OF assms(2)] by simp
    qed
    show "s = s'" "scope = scope'" if "key_for_scope s scope = Inr k" "key_for_scope s' scope' = Inr k" for k
      using scoped [OF assms(1) that(1)] scoped [OF assms(2) that(2)] by simp_all
    show "\<exists>e. key_for_scope s scope = Inl e" if "CHR ''/'' \<in> set scope \<or> scope = []"
      using that slash [of scope] by (auto simp: key_for_scope_def)
  qed
qed

theorem lease_keys_apart_witness:
  "key_for_session ''s1'' \<noteq> key_for_session ''s2'' \<and> key_for_scope ''s1'' ''wake'' \<noteq> Inr (key_for_session ''s2'')"
  using lease_keys_apart [of "''s1''" "''s2''" "''wake''"] by simp

end
