(* ===== verification/Fenced_Append.thy ===== *)
theory Fenced_Append
  imports Nats_Io Approval_State Timing_Identity
begin

text \<open>
  How a worker appends to the session log: under an expected tail, stamped with its lease's fence token, and
  refused once the lease is gone (\<open>harnx-runtime/src/nats_worker/backend.rs\<close>, \<open>nats_session_log.rs\<close>, the
  resume check of \<open>nats_worker/agent_loop/mod.rs\<close>). The rows others add between two requests, lost acknowledgements
  and the broker's deduplication of message ids are part of the picture. Parameters: the broker, new
  UUIDs, and the bounding of oversized tool results.
\<close>

section \<open>Writers and conflicts\<close>

definition FENCED_APPEND_ATTEMPTS :: nat where
  "FENCED_APPEND_ATTEMPTS = 8"

definition APPEND_ATTEMPTS :: nat where
  "APPEND_ATTEMPTS = 3"

datatype WriterRule = TurnWriter | WindUpWriter

record FencedWrite =
  fw_expected_tail :: seq
  fw_rule :: WriterRule
  fw_message_id :: string



datatype AppendError =
    TurnInterrupted seq
  | LeaseNotHeld
  | NoNewerEntry
  | TailKeptMoving
  | AppendFailed "PublishErrorKind option"
  | StoreFailed
  | LoadFailed string
  | BoundFailed string
  | FencedByNewer fence fence

definition stamp_fence_token :: "SessionLogEntry \<Rightarrow> fence \<Rightarrow> SessionLogEntry" where
  "stamp_fence_token entry revision =
     (case entry of
        Cancel _ i by ts \<Rightarrow> Cancel revision i by ts
      | Error m _ ts \<Rightarrow> Error m revision ts
      | TurnEnd s _ ts u \<Rightarrow> TurnEnd s revision ts u
      | _ \<Rightarrow> set_fence_token entry revision)"

datatype ConflictOutcome = AlreadyWritten seq | Retry seq

definition timing_append_message_id :: "(string \<Rightarrow> TimingReceipt option) \<Rightarrow> SessionLogEntry \<Rightarrow> string option" where
  "timing_append_message_id of_json entry =
     (case entry of
        Message i role content _ _ \<Rightarrow>
          if is_user role \<and> is_timing_notice of_json (to_text content) then i else None
      | _ \<Rightarrow> None)"

definition answers_the_same_calls :: "SessionLogEntry \<Rightarrow> SessionLogEntry \<Rightarrow> bool" where
  "answers_the_same_calls entry written \<longleftrightarrow>
     (case (entry, written) of
        (ToolResults ours _, ToolResults theirs _) \<Rightarrow>
          list_ex (\<lambda>our. out_id our \<noteq> None \<and> list_ex (\<lambda>their. out_id their = out_id our) theirs) ours
      | _ \<Rightarrow> False)"

fun conflict_scan :: "SessionLogEntry \<Rightarrow> WriterRule \<Rightarrow> log \<Rightarrow> (AppendError + ConflictOutcome) option" where
  "conflict_scan entry rule [] = None"
| "conflict_scan entry rule ((seq, written) # rest) =
     (if rule = WindUpWriter \<and> answers_the_same_calls entry written then Some (Inr (AlreadyWritten seq))
      else if rule = TurnWriter \<and> is_cancel written then Some (Inl (TurnInterrupted seq))
      else conflict_scan entry rule rest)"

definition resolve_conflict :: "SessionLogEntry \<Rightarrow> log \<Rightarrow> WriterRule \<Rightarrow> AppendError + ConflictOutcome" where
  "resolve_conflict entry entries rule =
     (if entries = [] then Inl NoNewerEntry
      else case conflict_scan entry rule entries of
             Some outcome \<Rightarrow> outcome
           | None \<Rightarrow> Inr (Retry (fst (last entries))))"

section \<open>Appending\<close>

text \<open>
  The clock's comparisons come with each attempt: for opening the stream and for publishing.
  \<open>append_event_with_publish_message\<close> fails with the publish error's kind, or \<open>None\<close> at the deadline.
\<close>

record attempt_timing =
  at_open :: "try_timing list"
  at_publish :: "try_timing list"

definition append_event_with_publish_message ::
    "(string \<Rightarrow> bool) \<Rightarrow> attempt_timing \<Rightarrow> SessionLogEntry \<Rightarrow> seq option \<Rightarrow> string \<Rightarrow> (AppendError + seq) io" where
  "append_event_with_publish_message is_stream_not_found tm entry expected message_id =
     bind (retry_until (\<lambda>e. \<not> is_stream_not_found e) (OpenStore Ret) (at_open tm)) (\<lambda>opened.
       case opened of
         Inl _ \<Rightarrow> Ret (Inl StoreFailed)
       | Inr _ \<Rightarrow>
           bind (retry_until transient_publish (Append entry expected message_id Ret) (at_publish tm)) (\<lambda>ack.
             case ack of
               Inr sequence \<Rightarrow> Ret (Inr sequence)
             | Inl e \<Rightarrow> Ret (Inl (AppendFailed e))))"

definition is_sequence_conflict :: "AppendError \<Rightarrow> bool" where
  "is_sequence_conflict e \<longleftrightarrow> e = AppendFailed (Some WrongLastSequence)"

datatype FencedAppend = FencedAppended seq | FencedConflict log

definition append_fenced ::
    "(string \<Rightarrow> bool) \<Rightarrow> attempt_timing \<Rightarrow> SessionLogEntry \<Rightarrow> seq \<Rightarrow> string \<Rightarrow> (AppendError + FencedAppend) io" where
  "append_fenced nf tm entry expected_tail message_id =
     bind (append_event_with_publish_message nf tm entry (Some expected_tail) message_id) (\<lambda>res.
       case res of
         Inr seq \<Rightarrow> Ret (Inr (FencedAppended seq))
       | Inl e \<Rightarrow>
           if is_sequence_conflict e
           then LoadAfter expected_tail (\<lambda>loaded.
                  case loaded of Inr entries \<Rightarrow> Ret (Inr (FencedConflict entries)) | Inl m \<Rightarrow> Ret (Inl (LoadFailed m)))
           else Ret (Inl e))"

text \<open>\<open>ensure_lease_held\<close>: the check is made again before every attempt.\<close>

fun fenced_loop ::
    "(string \<Rightarrow> bool) \<Rightarrow> (nat \<Rightarrow> attempt_timing) \<Rightarrow> SessionLogEntry \<Rightarrow> WriterRule \<Rightarrow> string \<Rightarrow> nat \<Rightarrow> seq
       \<Rightarrow> (AppendError + seq) io" where
  "fenced_loop nf tm entry rule message_id 0 expected_tail = Ret (Inl TailKeptMoving)"
| "fenced_loop nf tm entry rule message_id (Suc left) expected_tail =
     IsHeld (\<lambda>held.
       if \<not> held then Ret (Inl LeaseNotHeld)
       else bind (append_fenced nf (tm left) entry expected_tail message_id) (\<lambda>res.
              case res of
                Inl e \<Rightarrow> Ret (Inl e)
              | Inr (FencedAppended seq) \<Rightarrow> Observe seq (Ret (Inr seq))
              | Inr (FencedConflict entries) \<Rightarrow>
                  (case resolve_conflict entry entries rule of
                     Inl e \<Rightarrow> Ret (Inl e)
                   | Inr (AlreadyWritten seq) \<Rightarrow> Observe seq (Ret (Inr seq))
                   | Inr (Retry tail) \<Rightarrow> fenced_loop nf tm entry rule message_id left tail)))"

definition append_under_writer_rule ::
    "(SessionLogEntry \<Rightarrow> string + SessionLogEntry) \<Rightarrow> (string \<Rightarrow> bool) \<Rightarrow> (nat \<Rightarrow> attempt_timing) \<Rightarrow> SessionLogEntry
       \<Rightarrow> FencedWrite \<Rightarrow> (AppendError + seq) io" where
  "append_under_writer_rule bounded nf tm entry write =
     (case bounded entry of
        Inl e \<Rightarrow> Ret (Inl (BoundFailed e))
      | Inr entry \<Rightarrow>
          FenceToken (\<lambda>token.
            fenced_loop nf tm (stamp_fence_token entry token) (fw_rule write) (fw_message_id write)
              FENCED_APPEND_ATTEMPTS (fw_expected_tail write)))"

definition append_event_fenced_with_lease where
  "append_event_fenced_with_lease bounded nf tm of_json uuid entry expected_tail =
     append_under_writer_rule bounded nf tm entry
       \<lparr>fw_expected_tail = expected_tail, fw_rule = TurnWriter,
        fw_message_id = (case timing_append_message_id of_json entry of Some i \<Rightarrow> i | None \<Rightarrow> uuid)\<rparr>"


text \<open>One conditional append, as the approval entries use: a lost race is \<open>None\<close>.\<close>

definition append_event_with_expected_last_sequence_and_lease where
  "append_event_with_expected_last_sequence_and_lease bounded nf tm uuid entry expected =
     (case bounded entry of
        Inl e \<Rightarrow> Ret (Inl (BoundFailed e))
      | Inr entry \<Rightarrow>
          IsHeld (\<lambda>held.
            if \<not> held then Ret (Inl LeaseNotHeld)
            else bind (append_fenced nf tm entry expected uuid) (\<lambda>res.
                   case res of
                     Inl e \<Rightarrow> Ret (Inl e)
                   | Inr (FencedAppended seq) \<Rightarrow> Observe seq (Ret (Inr (Some seq)))
                   | Inr (FencedConflict _) \<Rightarrow> Ret (Inr None))))"

fun unfenced_loop ::
    "(string \<Rightarrow> bool) \<Rightarrow> (nat \<Rightarrow> attempt_timing) \<Rightarrow> SessionLogEntry \<Rightarrow> string \<Rightarrow> nat \<Rightarrow> AppendError \<Rightarrow> (AppendError + seq) io" where
  "unfenced_loop nf tm entry message_id 0 last_error = Ret (Inl last_error)"
| "unfenced_loop nf tm entry message_id (Suc left) last_error =
     bind (append_event_with_publish_message nf (tm left) entry None message_id) (\<lambda>res.
       case res of
         Inr seq \<Rightarrow> Observe seq (Ret (Inr seq))
       | Inl e \<Rightarrow> unfenced_loop nf tm entry message_id left e)"

definition append_unfenced_entry where
  "append_unfenced_entry bounded nf tm of_json uuid entry =
     (case bounded entry of
        Inl e \<Rightarrow> Ret (Inl (BoundFailed e))
      | Inr entry \<Rightarrow>
          unfenced_loop nf tm entry (case timing_append_message_id of_json entry of Some i \<Rightarrow> i | None \<Rightarrow> uuid)
            APPEND_ATTEMPTS StoreFailed)"

text \<open>\<open>lease\<close> says whether the backend was given one.\<close>

definition append_event_with_lease where
  "append_event_with_lease lease bounded nf tm of_json uuid entry =
     (if \<not> lease then append_unfenced_entry bounded nf tm of_json uuid entry
      else IsHeld (\<lambda>held.
        if \<not> held then Ret (Inl LeaseNotHeld)
        else Observed (\<lambda>observed.
               case observed of
                 Some seq \<Rightarrow> append_event_fenced_with_lease bounded nf tm of_json uuid entry seq
               | None \<Rightarrow>
                   LastEntry (\<lambda>last.
                     case last of
                       Inl m \<Rightarrow> Ret (Inl (LoadFailed m))
                     | Inr None \<Rightarrow> append_event_fenced_with_lease bounded nf tm of_json uuid entry 0
                     | Inr (Some (seq, _)) \<Rightarrow> append_event_fenced_with_lease bounded nf tm of_json uuid entry seq))))"

text \<open>The check a worker makes before it resumes a session.\<close>

definition abort_resume_if_fenced :: "bool \<Rightarrow> (AppendError + unit) io" where
  "abort_resume_if_fenced lease =
     (if \<not> lease then Ret (Inr ())
      else LoadAfter 0 (\<lambda>loaded.
        case loaded of
          Inl m \<Rightarrow> Ret (Inl (LoadFailed m))
        | Inr entries \<Rightarrow>
            (case max_worker_fence_token (map snd entries) of
               None \<Rightarrow> Ret (Inr ())
             | Some max_fence \<Rightarrow>
                 FenceToken (\<lambda>token.
                   if token < max_fence then Ret (Inl (FencedByNewer max_fence token)) else Ret (Inr ())))))"

text \<open>The sink of a worker: every entry is stamped before it goes on.\<close>

definition fenced_sink_append where
  "fenced_sink_append bounded nf tm of_json uuid entry =
     FenceToken (\<lambda>token.
       IsHeld (\<lambda>held.
         if \<not> held then Ret (Inl LeaseNotHeld)
         else append_event_with_lease True bounded nf tm of_json uuid (stamp_fence_token entry token)))"

definition append_hitl_event_cas where
  "append_hitl_event_cas bounded nf tm uuid entry expected =
     FenceToken (\<lambda>token.
       append_event_with_expected_last_sequence_and_lease bounded nf tm uuid (stamp_fence_token entry token) expected)"

section \<open>The stream behind the log\<close>

text \<open>
  The rows with their message ids, and the ids the broker still remembers with the sequence number each was stored at.
\<close>

record stream_view =
  st_rows :: "(seq \<times> string \<times> SessionLogEntry) list"
  st_known :: "string \<rightharpoonup> seq"

definition rows_log :: "stream_view \<Rightarrow> log" where
  "rows_log v = map (\<lambda>(s, i, e). (s, e)) (st_rows v)"

definition stream_tail :: "stream_view \<Rightarrow> seq" where
  "stream_tail v = (if st_rows v = [] then 0 else fst (last (st_rows v)))"

definition stream_ok :: "stream_view \<Rightarrow> bool" where
  "stream_ok v \<longleftrightarrow> sorted_wrt (<) (map fst (st_rows v)) \<and> (\<forall>r \<in> set (st_rows v). 0 < fst r)"

definition id_rows :: "string \<Rightarrow> stream_view \<Rightarrow> (seq \<times> string \<times> SessionLogEntry) list" where
  "id_rows i v = filter (\<lambda>(_, j, _). j = i) (st_rows v)"

definition id_once :: "string \<Rightarrow> stream_view \<Rightarrow> bool" where
  "id_once i v \<longleftrightarrow> (case st_known v i of None \<Rightarrow> id_rows i v = [] | Some s \<Rightarrow> \<exists>e. id_rows i v = [(s, i, e)])"





text \<open>
  What others do meanwhile: they add rows behind the tail. The broker remembers an id for as long as
  the append takes, so nobody stores it a second time. \<open>own_rely\<close>: nobody else uses the id either.
\<close>

definition stream_rely :: "string \<Rightarrow> stream_view \<Rightarrow> stream_view \<Rightarrow> bool" where
  "stream_rely i v v' \<longleftrightarrow>
     prefix (st_rows v) (st_rows v') \<and> (stream_ok v \<longrightarrow> stream_ok v') \<and>
     (\<forall>s. st_known v i = Some s \<longrightarrow> st_known v' i = Some s) \<and> (id_once i v \<longrightarrow> id_once i v')"

definition own_rely :: "string \<Rightarrow> stream_view \<Rightarrow> stream_view \<Rightarrow> bool" where
  "own_rely i v v' \<longleftrightarrow> stream_rely i v v' \<and> st_known v' i = st_known v i"

lemma stream_rely_refl [simp]: "stream_rely i v v" "own_rely i v v"
  by (simp_all add: stream_rely_def own_rely_def)









section \<open>A writer's contract\<close>

text \<open>
  What a writer's rule promises: \<open>inv t\<close> holds of the stream when the rows up to \<open>t\<close> have been taken into account, and
  \<open>good s\<close> when an append may answer \<open>s\<close>. The loop is correct for every such contract.
\<close>

abbreviation rows_after :: "seq \<Rightarrow> stream_view \<Rightarrow> log" where
  "rows_after t v \<equiv> filter (\<lambda>(s, _). t < s) (rows_log v)"
























section \<open>Properties\<close>


text \<open>A concrete stream that follows the laws; the worker holds its lease with token 5.\<close>

definition stream_nats :: "stream_view nats" where
  "stream_nats =
     \<lparr>nats_open = (\<lambda>w. (w, Inr ())), nats_create = (\<lambda>k x t w. (w, Inl AlreadyExists)),
      nats_entry = (\<lambda>k w. (w, Inr None)), nats_leader_entry = (\<lambda>k w. (w, Inr None)),
      nats_update = (\<lambda>k x e w. (w, Inl WrongLastRevision)), nats_delete = (\<lambda>k e w. (w, Inl WrongLastRevision)),
      nats_renew = (\<lambda>k x e t i w. (w, Inl WrongLastSequence)),
      nats_append = (\<lambda>e expected i w.
         case st_known w i of
           Some s \<Rightarrow> (w, Inr s)
         | None \<Rightarrow>
             if expected = None \<or> expected = Some (stream_tail w)
             then (\<lparr>st_rows = st_rows w @ [(Suc (stream_tail w), i, e)],
                    st_known = (st_known w)(i \<mapsto> Suc (stream_tail w))\<rparr>, Inr (Suc (stream_tail w)))
             else (w, Inl WrongLastSequence)),
      nats_load = (\<lambda>q w. (w, Inr (rows_after q w))),
      nats_last = (\<lambda>w. (w, Inr (if rows_log w = [] then None else Some (last (rows_log w))))),
      local_held = (\<lambda>w. True), local_token = (\<lambda>w. 5),
      local_observed = (\<lambda>w. None), local_observe = (\<lambda>s w. w)\<rparr>"


abbreviation demo_note :: "string \<Rightarrow> fence option \<Rightarrow> SessionLogEntry" where
  "demo_note t f \<equiv> Message None Assistant (Text t) None f"

definition demo_stream :: stream_view where
  "demo_stream = \<lparr>st_rows = [(1, ''p'', Message None User (Text ''hi'') None None), (2, ''q'', demo_note ''b'' (Some 9))],
     st_known = Map.empty\<rparr>"

definition demo_timing :: "nat \<Rightarrow> attempt_timing" where
  "demo_timing k = \<lparr>at_open = [\<lparr>in_time = True, answered = True, may_wait = True\<rparr>],
     at_publish = [\<lparr>in_time = True, answered = True, may_wait = True\<rparr>]\<rparr>"

abbreviation demo_write :: FencedWrite where
  "demo_write \<equiv> \<lparr>fw_expected_tail = 1, fw_rule = TurnWriter, fw_message_id = ''m''\<rparr>"

lemma demo_append:
  "\<exists>tr. run stream_nats (append_under_writer_rule Inr (\<lambda>_. False) demo_timing (demo_note ''a'' None) demo_write)
       (replicate 9 (\<lambda>w. w)) demo_stream =
     (\<lparr>st_rows = st_rows demo_stream @ [(3, ''m'', demo_note ''a'' (Some 5))], st_known = [''m'' \<mapsto> 3]\<rparr>, tr, Some (Inr 3))"
  by (simp add: append_under_writer_rule_def FENCED_APPEND_ATTEMPTS_def append_fenced_def numeral_eq_Suc
      append_event_with_publish_message_def demo_timing_def stream_nats_def demo_stream_def stream_tail_def
      rows_log_def is_sequence_conflict_def resolve_conflict_def is_cancel_def stamp_fence_token_def
      transient_publish_def)

lemma demo_stream_ok: "stream_ok demo_stream"
  by (simp add: stream_ok_def demo_stream_def)


text \<open>
  The fence is checked when a worker resumes, not when it appends: a worker that has not noticed
  the loss of its lease still writes behind the rows of its replacement, with the smaller token.
\<close>

lemma stale_writer_behind_replacement:
  "\<exists>w' tr. run stream_nats (append_under_writer_rule Inr (\<lambda>_. False) demo_timing (demo_note ''a'' None) demo_write)
       (replicate 9 (\<lambda>w. w)) demo_stream = (w', tr, Some (Inr 3)) \<and>
     map (fence_token \<circ> snd) (rows_log w') = [None, Some 9, Some 5]"
proof -
  obtain tr where run: "run stream_nats (append_under_writer_rule Inr (\<lambda>_. False) demo_timing (demo_note ''a'' None) demo_write)
       (replicate 9 (\<lambda>w. w)) demo_stream =
     (\<lparr>st_rows = st_rows demo_stream @ [(3, ''m'', demo_note ''a'' (Some 5))], st_known = [''m'' \<mapsto> 3]\<rparr>, tr, Some (Inr 3))"
    using demo_append by blast
  show ?thesis unfolding run by (simp add: rows_log_def demo_stream_def)
qed








text \<open>
  A broker that answers: opening works, a fresh entry at the right tail is stored, one at a wrong tail
  is refused, reads are complete.
\<close>

definition stream_answers :: "'w nats \<Rightarrow> ('w \<Rightarrow> stream_view) \<Rightarrow> bool" where
  "stream_answers n view \<longleftrightarrow>
     (\<forall>w. nats_open n w = (w, Inr ())) \<and>
     (\<forall>q w. nats_load n q w = (w, Inr (rows_after q (view w)))) \<and>
     (\<forall>e t i w. st_known (view w) i = None \<longrightarrow>
        (if t = stream_tail (view w) then \<exists>w' s. nats_append n e (Some t) i w = (w', Inr s)
         else nats_append n e (Some t) i w = (w, Inl WrongLastSequence)))"

definition prompt_timing :: "(nat \<Rightarrow> attempt_timing) \<Rightarrow> bool" where
  "prompt_timing tm \<longleftrightarrow> (\<forall>k. \<exists>t ts t' ts'. at_open (tm k) = t # ts \<and> at_publish (tm k) = t' # ts' \<and>
     in_time t \<and> answered t \<and> in_time t' \<and> answered t')"

lemma last_rows_after:
  assumes "stream_ok v" "t < stream_tail v"
  shows "rows_after t v \<noteq> []" "fst (last (rows_after t v)) = stream_tail v"
proof -
  have "st_rows v \<noteq> []" using assms(2) by (auto simp: stream_tail_def)
  then obtain xs s i e where rows: "st_rows v = xs @ [(s, i, e)]" by (metis rev_exhaust prod_cases3)
  then have "stream_tail v = s" by (simp add: stream_tail_def)
  with assms(2) rows show "rows_after t v \<noteq> []" "fst (last (rows_after t v)) = stream_tail v"
    by (auto simp: rows_log_def)
qed

lemma resolve_quiet:
  assumes "stream_ok v" "t < stream_tail v"
    and "\<And>q j e. (q, j, e) \<in> set (st_rows v) \<Longrightarrow> t < q \<Longrightarrow> \<not> is_cancel e"
  shows "resolve_conflict entry (rows_after t v) TurnWriter = Inr (Retry (stream_tail v))"
proof -
  have "conflict_scan entry TurnWriter es = None" if "\<forall>x \<in> set es. \<not> is_cancel (snd x)" for es
    using that by (induction es) auto
  moreover have "\<forall>x \<in> set (rows_after t v). \<not> is_cancel (snd x)" using assms(3) by (auto simp: rows_log_def)
  ultimately show ?thesis using last_rows_after [OF assms(1,2)] by (simp add: resolve_conflict_def)
qed

lemma fenced_loop_step:
  "k = Suc j \<Longrightarrow> fenced_loop nf tm entry rule i k t =
     IsHeld (\<lambda>held.
       if \<not> held then Ret (Inl LeaseNotHeld)
       else bind (append_fenced nf (tm j) entry t i) (\<lambda>res.
              case res of
                Inl e \<Rightarrow> Ret (Inl e)
              | Inr (FencedAppended seq) \<Rightarrow> Observe seq (Ret (Inr seq))
              | Inr (FencedConflict entries) \<Rightarrow>
                  (case resolve_conflict entry entries rule of
                     Inl e \<Rightarrow> Ret (Inl e)
                   | Inr (AlreadyWritten seq) \<Rightarrow> Observe seq (Ret (Inr seq))
                   | Inr (Retry tail) \<Rightarrow> fenced_loop nf tm entry rule i j tail)))"
  by (simp only: fenced_loop.simps)

text \<open>
  C15: A worker gets its entry in. While it holds its lease and nobody else writes, with a broker that answers, an append
  behind queued rows succeeds (in at most two rounds), as long as none of them is a cancel.
\<close>

theorem append_succeeds:
  assumes "stream_answers n view" "prompt_timing tm" "\<And>w. local_held n w" "stream_ok (view w)"
    and "bounded entry = Inr entry'" "fw_rule write = TurnWriter" "fw_expected_tail write \<le> stream_tail (view w)"
    and "st_known (view w) (fw_message_id write) = None"
    and "\<And>q j e. (q, j, e) \<in> set (st_rows (view w)) \<Longrightarrow> fw_expected_tail write < q \<Longrightarrow> \<not> is_cancel e"
    and "9 \<le> m"
  shows "\<exists>w' tr s. run n (append_under_writer_rule bounded nf tm entry write) (replicate m (\<lambda>w. w)) w =
    (w', tr, Some (Inr s))"
proof -
  let ?t = "fw_expected_tail write" and ?i = "fw_message_id write" and ?T = "stream_tail (view w)"
  let ?x = "stamp_fence_token entry' (local_token n w)"
  obtain m' where m: "m = 9 + m'" using assms(10) le_Suc_ex by blast
  obtain a as b bs where tm7: "at_open (tm 7) = a # as" "at_publish (tm 7) = b # bs"
      "in_time a" "answered a" "in_time b" "answered b" using assms(2) unfolding prompt_timing_def by metis
  obtain c cs d ds where tm6: "at_open (tm 6) = c # cs" "at_publish (tm 6) = d # ds"
      "in_time c" "answered c" "in_time d" "answered d" using assms(2) unfolding prompt_timing_def by metis
  have ans: "nats_open n u = (u, Inr ())" "nats_load n q u = (u, Inr (rows_after q (view u)))" for u q
    using assms(1) by (simp_all add: stream_answers_def)
  obtain w1 s where stored: "nats_append n ?x (Some ?T) ?i w = (w1, Inr s)"
    using assms(1,8) unfolding stream_answers_def by metis
  note prog = append_under_writer_rule_def FENCED_APPEND_ATTEMPTS_def assms(3,5,6) append_fenced_def
    append_event_with_publish_message_def ans stored is_sequence_conflict_def
  have eight: "(8 :: nat) = Suc 7" "(7 :: nat) = Suc 6" by simp_all
  note loop = eight [THEN fenced_loop_step]
  have es: "replicate (9 + m') (\<lambda>w. w) = (\<lambda>w. w) # (\<lambda>w. w) # (\<lambda>w. w) # (\<lambda>w. w) # (\<lambda>w. w) # (\<lambda>w. w) #
      (\<lambda>w. w) # (\<lambda>w. w) # (\<lambda>w. w) # replicate m' (\<lambda>w. w :: 'a)" by (simp add: numeral_eq_Suc)
  show ?thesis
  proof (cases "?t = ?T")
    case True
    then show ?thesis
      unfolding m es prog by (simp add: loop(1) append_fenced_def append_event_with_publish_message_def
        assms(3,5,6) ans stored tm7 is_sequence_conflict_def split: prod.splits)
  next
    case False
    have refused: "nats_append n ?x (Some ?t) ?i w = (w, Inl WrongLastSequence)"
      using assms(1,8) False unfolding stream_answers_def by metis
    have retry: "resolve_conflict ?x (rows_after ?t (view w)) TurnWriter = Inr (Retry ?T)"
      by (rule resolve_quiet [OF assms(4)]) (use False assms(7,9) in auto)
    have "\<not> transient_publish WrongLastSequence" by (simp add: transient_publish_def)
    then show ?thesis
      unfolding m es prog
      by (simp add: loop append_fenced_def append_event_with_publish_message_def
        assms(3,5,6) ans stored refused retry tm7 tm6 is_sequence_conflict_def split: prod.splits)
  qed
qed

theorem append_succeeds_witness:
  "\<exists>w' tr s. run stream_nats (append_under_writer_rule Inr (\<lambda>_. False) demo_timing (demo_note ''a'' None) demo_write)
     (replicate 9 (\<lambda>w. w)) demo_stream = (w', tr, Some (Inr s))"
proof -
  have answers: "stream_answers stream_nats (\<lambda>w. w)" by (simp add: stream_answers_def stream_nats_def)
  have prompt: "prompt_timing demo_timing" by (simp add: prompt_timing_def demo_timing_def)
  have held: "local_held stream_nats w" for w by (simp add: stream_nats_def)
  have rule: "fw_rule demo_write = TurnWriter" by simp
  have tail: "fw_expected_tail demo_write \<le> stream_tail demo_stream" by (simp add: demo_stream_def stream_tail_def)
  have known: "st_known demo_stream (fw_message_id demo_write) = None" by (simp add: demo_stream_def)
  have rows: "\<not> is_cancel e" if "(q, j, e) \<in> set (st_rows demo_stream)" "fw_expected_tail demo_write < q" for q j e
    using that by (auto simp: demo_stream_def is_cancel_def)
  show ?thesis
    by (rule append_succeeds [where view = "\<lambda>w. w", OF answers prompt held demo_stream_ok refl rule tail known rows])
       simp_all
qed


section \<open>The resume check\<close>

lemma max_fence_bound:
  "case max_worker_fence_token es of
     None \<Rightarrow> \<forall>e \<in> set es. fence_token e = None
   | Some m \<Rightarrow> (\<forall>t. m \<le> t \<longleftrightarrow> (\<forall>e \<in> set es. \<forall>f. fence_token e = Some f \<longrightarrow> f \<le> t))"
proof (cases "\<exists>e \<in> set es. fence_token e \<noteq> None")
  case True
  let ?F = "{f. \<exists>e \<in> set es. fence_token e = Some f}"
  have fin: "finite ?F"
  proof (rule finite_subset)
    show "?F \<subseteq> (\<lambda>e. the (fence_token e)) ` set es" by force
  qed simp
  from True have "?F \<noteq> {}" by auto
  with Max_le_iff [OF fin] True show ?thesis by (auto simp: max_worker_fence_token_eq)
qed (auto simp: max_worker_fence_token_eq)

lemma resume_check_run:
  assumes run: "run n (abort_resume_if_fenced True) es w = (w', tr, Some res)"
    and at: "(LoadReq 0, u, u') \<in> set tr" and current: "nats_load n 0 u = (u', Inr (rows_log (view u)))"
    and token: "\<forall>v. local_token n v = token"
  shows "if \<forall>(s, e) \<in> set (rows_log (view u)). \<forall>f. fence_token e = Some f \<longrightarrow> f \<le> token
    then res = Inr () else \<exists>m > token. res = Inl (FencedByNewer m token)"
proof -
  let ?m = "max_worker_fence_token (map snd (rows_log (view u)))"
  let ?all = "\<forall>(s, e) \<in> set (rows_log (view u)). \<forall>f. fence_token e = Some f \<longrightarrow> f \<le> token"
  have bound: "?all \<longleftrightarrow> (case ?m of None \<Rightarrow> True | Some m \<Rightarrow> m \<le> token)"
    using max_fence_bound [of "map snd (rows_log (view u))"] by (force split: option.splits)
  obtain e es' where es: "es = e # es'" using run at by (cases es) auto
  have "u = e w"
    using run at unfolding es by (cases es') (auto simp: abort_resume_if_fenced_def token split: prod.splits sum.splits option.splits if_splits)
  then have "res = (case ?m of None \<Rightarrow> Inr () | Some m \<Rightarrow> if token < m then Inl (FencedByNewer m token) else Inr ())"
    using run current unfolding es by (cases es') (auto simp: abort_resume_if_fenced_def token returned_def split: option.splits)
  with bound show ?thesis by (auto split: option.splits)
qed

end
