(* ===== verification/Kv_Cell.thy ===== *)
theory Kv_Cell
  imports Kv_Key
begin

text \<open>
  Conditional updates of one key: a writer reads the current entry from the stream's leader, computes
  a new value and writes it only if the revision it read is still current
  (\<open>harnx-nats-common/src/cas.rs\<close>, \<open>leader_reads.rs\<close>). Whatever others do in between, each
  write then replaces exactly the value it was computed from. What the writers of a key may write in
  place of what is a relation; everything they keep growing, grows for all.
\<close>

section \<open>Reads and writes\<close>

record cas_timing =
  ct_update_answered :: bool
  ct_read :: "try_timing list"
  ct_read_answered :: bool

text \<open>
  \<open>leader_reads::retry_transient\<close> over one read of the leader; which failures are transient is decided from the client's
  error, a parameter. A failed read is \<open>None\<close> at the deadline.
\<close>

definition leader_entry :: "(string \<Rightarrow> bool) \<Rightarrow> try_timing list \<Rightarrow> string \<Rightarrow> (string option + kv_entry option) io" where
  "leader_entry is_transient ts key = retry_until is_transient (LeaderEntry key Ret) ts"

definition confirms_update :: "kv_entry \<Rightarrow> string \<Rightarrow> nat \<Rightarrow> bool" where
  "confirms_update entry x previous_revision \<longleftrightarrow>
     entry_operation entry = OpPut \<and> previous_revision < entry_revision entry \<and> entry_value entry = x"

text \<open>
  \<open>cas::update\<close>: an ambiguous acknowledgement is resolved by reading the entry back. The clock's
  comparisons come as one record per round; the list's end is the deadline.
\<close>

fun cas_update :: "cas_timing list \<Rightarrow> string \<Rightarrow> string \<Rightarrow> nat \<Rightarrow> (UpdateErrorKind + nat) io" where
  "cas_update [] key x revision = Ret (Inl UpdateTimedOut)"
| "cas_update (t # ts) key x revision =
     Update key x revision (\<lambda>res.
       if \<not> ct_update_answered t then Ret (Inl UpdateTimedOut)
       else case res of
              Inr r \<Rightarrow> Ret (Inr r)
            | Inl e \<Rightarrow>
                if e = UpdateTimedOut \<or> e = UpdateOther
                then bind (retry_until (\<lambda>_. True) (LeaderEntry key Ret) (ct_read t)) (\<lambda>read.
                       if \<not> ct_read_answered t then Ret (Inl UpdateTimedOut)
                       else case read of
                              Inl _ \<Rightarrow> Ret (Inl UpdateOther)
                            | Inr None \<Rightarrow> Ret (Inl e)
                            | Inr (Some entry) \<Rightarrow>
                                if confirms_update entry x revision then Ret (Inr (entry_revision entry))
                                else if entry_revision entry \<noteq> revision then Ret (Inl e)
                                else cas_update ts key x revision)
                else Ret (Inl e))"

section \<open>Atomic replacement\<close>

text \<open>
  \<open>replaces S v v'\<close>: one write, of a value that \<open>S\<close> allows in place of the live one (\<open>None\<close> when the key does not
  exist), or none. \<open>cell_later S\<close> is what a group of such writers does, with other keys of the bucket in between.
\<close>

definition replaces :: "(string option \<Rightarrow> string \<Rightarrow> bool) \<Rightarrow> key_view \<Rightarrow> key_view \<Rightarrow> bool" where
  "replaces S v v' \<longleftrightarrow>
     v' = v \<or> (\<exists>y r. S (map_option snd (kv_live v)) y \<and> ((\<exists>e. updated_at e r y v v') \<or> created_at r y v v'))"

definition cell_step :: "(string option \<Rightarrow> string \<Rightarrow> bool) \<Rightarrow> key_view \<Rightarrow> key_view \<Rightarrow> bool" where
  "cell_step S v v' \<longleftrightarrow> replaces S v v' \<or> (\<exists>r \<ge> kv_last v. v' = v\<lparr>kv_last := r\<rparr>)"

abbreviation cell_later :: "(string option \<Rightarrow> string \<Rightarrow> bool) \<Rightarrow> key_view \<Rightarrow> key_view \<Rightarrow> bool" where
  "cell_later S \<equiv> (cell_step S)\<^sup>*\<^sup>*"

interpretation cell_rely: interference "\<lambda>w w'. cell_later S (view w) (view w')" for S view
  by unfold_locales auto

lemma replaces_same [simp]: "replaces S v v"
  by (simp add: replaces_def)

lemma replaces_later: "replaces S v v' \<Longrightarrow> cell_later S v v'"
  by (rule r_into_rtranclp) (simp add: cell_step_def)

lemma replaces_mono: "replaces S v v' \<Longrightarrow> (\<And>x y. S x y \<Longrightarrow> S' x y) \<Longrightarrow> replaces S' v v'"
  unfolding replaces_def by blast

lemma replaces_key_later: "replaces S v v' \<Longrightarrow> key_later v v'"
  unfolding replaces_def using at_later(1,2) by blast

lemma cell_key_later: "cell_later S v v' \<Longrightarrow> key_later v v'"
proof (induction rule: rtranclp_induct)
  case (step y z)
  have "key_later y z"
    using step(2) unfolding cell_step_def
  proof
    show "replaces S y z \<Longrightarrow> key_later y z" by (rule replaces_key_later)
    assume "\<exists>r \<ge> kv_last y. z = y\<lparr>kv_last := r\<rparr>"
    then show "key_later y z" by (blast intro: r_into_rtranclp step_elsewhere)
  qed
  with step(3) show ?case by (rule rtranclp_trans)
qed simp

lemma live_after:
  "updated_at e r y v v' \<Longrightarrow> kv_live v' = Some (r, y)"
  "created_at r y v v' \<Longrightarrow> kv_live v' = Some (r, y)"
  by (auto simp: key_step_defs)

text \<open>What every writer keeps from shrinking never shrinks.\<close>

locale growing_cell =
  fixes S :: "string option \<Rightarrow> string \<Rightarrow> bool" and level :: "string option \<Rightarrow> nat"
  assumes grows: "S x y \<Longrightarrow> level x \<le> level (Some y)"
begin

lemma replaces_grows: "replaces S v v' \<Longrightarrow> level (map_option snd (kv_live v)) \<le> level (map_option snd (kv_live v'))"
  unfolding replaces_def by (auto simp: live_after dest: grows)

lemma later_grows: "cell_later S v v' \<Longrightarrow> level (map_option snd (kv_live v)) \<le> level (map_option snd (kv_live v'))"
proof (induction rule: rtranclp_induct)
  case (step y z)
  have "level (map_option snd (kv_live y)) \<le> level (map_option snd (kv_live z))"
    using step(2) unfolding cell_step_def by (auto dest: replaces_grows)
  with step(3) show ?case by simp
qed simp

end

section \<open>What a write does\<close>

text \<open>
  \<open>seen\<close> is what a writer read: the entry of a revision, or that the key does not exist. The
  entry of a revision never changes, so a write that is accepted at that revision replaces that entry.
\<close>

definition seen :: "nat option \<Rightarrow> string option \<Rightarrow> key_view \<Rightarrow> bool" where
  "seen e x v \<longleftrightarrow> key_ok v \<and> (case e of None \<Rightarrow> x = None | Some r \<Rightarrow> x \<noteq> None \<and> kv_stored v r = x)"

lemma seen_later: "seen e x v \<Longrightarrow> key_later v v' \<Longrightarrow> seen e x v'"
  unfolding seen_def by (auto split: option.splits intro: key_later_ok key_later_stored)

lemma seen_replaces:
  "seen (Some e) (Some x) v \<Longrightarrow> updated_at e r y v v' \<Longrightarrow> S (Some x) y \<Longrightarrow> replaces S v v'"
  "created_at r y v v' \<Longrightarrow> S None y \<Longrightarrow> replaces S v v'"
proof -
  assume a: "seen (Some e) (Some x) v" "updated_at e r y v v'" "S (Some x) y"
  then obtain z where live: "kv_live v = Some (e, z)" by (auto simp: updated_at_def)
  with a(1) key_okD(2) [of v e z] have "z = x" by (auto simp: seen_def)
  with a live show "replaces S v v'" unfolding replaces_def by auto
next
  assume "created_at r y v v'" "S None y"
  then show "replaces S v v'" unfolding replaces_def by (auto simp: created_at_def)
qed

text \<open>The guarantee of a conditional writer: every request replaces by the rule, if it changes the key at all.\<close>

abbreviation cell_guar :: "(string option \<Rightarrow> string \<Rightarrow> bool) \<Rightarrow> ('w \<Rightarrow> key_view) \<Rightarrow> request \<Rightarrow> 'w \<Rightarrow> 'w \<Rightarrow> bool" where
  "cell_guar S view \<equiv> \<lambda>q u v. replaces S (view u) (view v)"

lemma update_replaces:
  assumes "kv_laws n view k" "nats_update n k y e w = (w', res)" "seen (Some e) (Some x) (view w)" "S (Some x) y"
  shows "replaces S (view w) (view w')" "res = Inr r \<Longrightarrow> kv_live (view w') = Some (r, y) \<and> kv_stored (view w') r = Some y"
proof -
  from assms(1) have "update_law n view k" by (simp add: kv_laws_def)
  note law = this [unfolded update_law_def, rule_format, OF assms(2)]
  show "replaces S (view w) (view w')"
  proof (cases "view w' = view w")
    case False
    with law obtain r where "updated_at e r y (view w) (view w')" by (cases res) auto
    from seen_replaces(1) [where S = S, OF assms(3) this assms(4)] show ?thesis .
  qed simp
  show "res = Inr r \<Longrightarrow> kv_live (view w') = Some (r, y) \<and> kv_stored (view w') r = Some y" using law by (simp add: key_step_defs)
qed

lemma create_replaces:
  assumes "kv_laws n view k" "nats_create n k y t w = (w', res)" "S None y"
  shows "replaces S (view w) (view w')" "res = Inr r \<Longrightarrow> kv_live (view w') = Some (r, y) \<and> kv_stored (view w') r = Some y"
proof -
  from assms(1) have "create_law n view k" by (simp add: kv_laws_def)
  note law = this [unfolded create_law_def, rule_format, OF assms(2)]
  show "replaces S (view w) (view w')"
  proof (cases "view w' = view w")
    case False
    with law obtain r where "created_at r y (view w) (view w')" by (cases res) (auto split: CreateErrorKind.splits)
    from seen_replaces(2) [where S = S, OF this assms(3)] show ?thesis .
  qed simp
  show "res = Inr r \<Longrightarrow> kv_live (view w') = Some (r, y) \<and> kv_stored (view w') r = Some y" using law by (simp add: key_step_defs)
qed

definition leader_read ::
    "(string option \<Rightarrow> string \<Rightarrow> bool) \<Rightarrow> ('w \<Rightarrow> key_view) \<Rightarrow> 'w \<Rightarrow> 'e + kv_entry option \<Rightarrow> 'w \<Rightarrow> bool" where
  "leader_read S view w res w' \<longleftrightarrow>
     key_ok (view w') \<and> cell_later S (view w) (view w') \<and>
     (\<forall>en. res = Inr (Some en) \<longrightarrow> entry_operation en = OpPut \<longrightarrow>
        kv_live (view w') = Some (entry_revision en, entry_value en) \<and>
        seen (Some (entry_revision en)) (Some (entry_value en)) (view w')) \<and>
     (\<forall>found. res = Inr found \<longrightarrow> (found = None \<or> entry_operation (the found) \<noteq> OpPut) \<longrightarrow> kv_live (view w') = None)"

lemma sat_leader:
  assumes "kv_laws n view k" "key_ok (view w)"
  shows "sat (\<lambda>w w'. cell_later S (view w) (view w')) n (cell_guar S' view) (leader_read S view w)
    (retry_until tr (LeaderEntry k Ret) ts) w"
proof (rule sat_retry_until [where J = "\<lambda>w1. key_ok (view w1) \<and> cell_later S (view w) (view w1)"])
  fix w0 assume J: "key_ok (view w0) \<and> cell_later S (view w) (view w0)"
  show "sat (\<lambda>w w'. cell_later S (view w) (view w')) n (cell_guar S' view)
      (\<lambda>res w'. leader_read S view w (Inl None) w' \<and>
        (case res of Inr v \<Rightarrow> leader_read S view w (Inr v) w'
         | Inl e \<Rightarrow> leader_read S view w (Inl (Some e)) w' \<and> (tr e \<longrightarrow> key_ok (view w') \<and> cell_later S (view w) (view w'))))
      (LeaderEntry k Ret) w0"
  proof (rule sat_askI(4))
    fix w1 w2 r
    assume step: "cell_later S (view w0) (view w1)" "nats_leader_entry n k w1 = (w2, r)"
    have same: "view w2 = view w1" by (rule read_same(3) [OF assms(1) step(2)])
    have ok: "key_ok (view w1)" by (rule key_later_ok [OF cell_key_later [OF step(1)]]) (use J in simp)
    have later: "cell_later S (view w) (view w1)" using J step(1) by (blast intro: rtranclp_trans)
    have "kv_live (view w1) = Some (entry_revision en, entry_value en) \<and>
        seen (Some (entry_revision en)) (Some (entry_value en)) (view w1)"
      if "r = Inr (Some en)" "entry_operation en = OpPut" for en
      using entry_stored(2) [OF assms(1) step(2) [unfolded that(1)] that(2)] ok key_okD(2) [OF ok] by (auto simp: seen_def)
    moreover have "kv_live (view w1) = None" if "r = Inr found" "found = None \<or> entry_operation (the found) \<noteq> OpPut" for found
      by (rule entry_stored(3) [OF assms(1) step(2) [unfolded that(1)] that(2)])
    ultimately show "cell_guar S' view (EntryReq k) w1 w2 \<and>
      sat (\<lambda>w w'. cell_later S (view w) (view w')) n (cell_guar S' view)
      (\<lambda>res w'. leader_read S view w (Inl None) w' \<and>
        (case res of Inr v \<Rightarrow> leader_read S view w (Inr v) w'
         | Inl e \<Rightarrow> leader_read S view w (Inl (Some e)) w' \<and> (tr e \<longrightarrow> key_ok (view w') \<and> cell_later S (view w) (view w'))))
      (Ret r) w2"
      using ok later same by (auto simp: leader_read_def split: sum.splits)
  qed
qed (use assms in \<open>auto simp: leader_read_def\<close>)

text \<open>
  After \<open>cas::update\<close> answers with a revision, the value is what that revision holds. Each of its requests is an
  atomic replacement of the entry that was read.
\<close>

lemma sat_cas_update:
  assumes laws: "kv_laws n view k" and legal: "S' (Some x) y"
    and close: "\<And>v v'. replaces S' v v' \<Longrightarrow> cell_later S v v'"
  shows "seen (Some e) (Some x) (view w) \<Longrightarrow>
    sat (\<lambda>w w'. cell_later S (view w) (view w')) n (cell_guar S' view)
      (\<lambda>res w'. cell_later S (view w) (view w') \<and> key_ok (view w') \<and> (\<forall>r. res = Inr r \<longrightarrow> kv_stored (view w') r = Some y))
      (cas_update ts k y e) w"
proof (induction ts arbitrary: w)
  case Nil
  then show ?case by (simp add: seen_def)
next
  case (Cons t ts)
  show ?case
    unfolding cas_update.simps
  proof (rule sat_askI(5), intro conjI)
    fix w1 w2 r
    assume step: "cell_later S (view w) (view w1)" "nats_update n k y e w1 = (w2, r)"
    have seen1: "seen (Some e) (Some x) (view w1)" by (rule seen_later [OF Cons.prems cell_key_later [OF step(1)]])
    note wr = update_replaces [where S = S', OF laws step(2) seen1 legal]
    show "cell_guar S' view (UpdateReq k y e) w1 w2" by (rule wr(1))
    have later2: "cell_later S (view w) (view w2)" using step(1) close [OF wr(1)] by (rule rtranclp_trans)
    have seen2: "seen (Some e) (Some x) (view w2)" by (rule seen_later [OF Cons.prems cell_key_later [OF later2]])
    then have ok2: "key_ok (view w2)" by (simp add: seen_def)
    let ?Q = "\<lambda>res w'. cell_later S (view w) (view w') \<and> key_ok (view w') \<and> (\<forall>r. res = Inr r \<longrightarrow> kv_stored (view w') r = Some y)"
    let ?sat = "sat (\<lambda>w w'. cell_later S (view w) (view w')) n (cell_guar S' view) ?Q"
    have read: "?sat (if \<not> ct_read_answered t then Ret (Inl UpdateTimedOut)
        else case read of
               Inl _ \<Rightarrow> Ret (Inl UpdateOther)
             | Inr None \<Rightarrow> Ret (Inl err)
             | Inr (Some entry) \<Rightarrow>
                 if confirms_update entry y e then Ret (Inr (entry_revision entry))
                 else if entry_revision entry \<noteq> e then Ret (Inl err)
                 else cas_update ts k y e) w3"
      if l: "leader_read S view w2 read w3" for read err w3
    proof -
      have ok3: "key_ok (view w3)" and later3: "cell_later S (view w2) (view w3)" using l by (auto simp: leader_read_def)
      have from_w: "cell_later S (view w) (view w3)" using later2 later3 by (rule rtranclp_trans)
      have seen3: "seen (Some e) (Some x) (view w3)" by (rule seen_later [OF seen2 cell_key_later [OF later3]])
      have retry: "?sat (cas_update ts k y e) w3"
        by (rule sat_mono [OF Cons.IH [OF seen3]]) (use from_w in \<open>auto intro: rtranclp_trans\<close>)
      have "kv_stored (view w3) (entry_revision en) = Some y" if "read = Inr (Some en)" "confirms_update en y e" for en
        using l that by (auto simp: leader_read_def confirms_update_def seen_def)
      with ok3 from_w retry show ?thesis by (auto split: sum.splits option.splits)
    qed
    have "?sat (bind (retry_until (\<lambda>_. True) (LeaderEntry k Ret) (ct_read t)) (\<lambda>read.
        if \<not> ct_read_answered t then Ret (Inl UpdateTimedOut)
        else case read of
               Inl _ \<Rightarrow> Ret (Inl UpdateOther)
             | Inr None \<Rightarrow> Ret (Inl err)
             | Inr (Some entry) \<Rightarrow>
                 if confirms_update entry y e then Ret (Inr (entry_revision entry))
                 else if entry_revision entry \<noteq> e then Ret (Inl err)
                 else cas_update ts k y e)) w2" for err
      by (rule sat_bind, rule sat_mono [OF sat_leader [OF laws ok2]]) (rule read, simp_all)
    then show "?sat (if \<not> ct_update_answered t then Ret (Inl UpdateTimedOut)
       else case r of
              Inl err \<Rightarrow>
                if err = UpdateTimedOut \<or> err = UpdateOther
                then bind (retry_until (\<lambda>_. True) (LeaderEntry k Ret) (ct_read t)) (\<lambda>read.
                       if \<not> ct_read_answered t then Ret (Inl UpdateTimedOut)
                       else case read of
                              Inl _ \<Rightarrow> Ret (Inl UpdateOther)
                            | Inr None \<Rightarrow> Ret (Inl err)
                            | Inr (Some entry) \<Rightarrow>
                                if confirms_update entry y e then Ret (Inr (entry_revision entry))
                                else if entry_revision entry \<noteq> e then Ret (Inl err)
                                else cas_update ts k y e)
                else Ret (Inl err)
            | Inr r \<Rightarrow> Ret (Inr r)) w2"
      using later2 ok2 wr(2) by (auto split: sum.splits)
  qed
qed

end
