(* ===== verification/Read_State.thy ===== *)
theory Read_State
  imports Kv_Cell
begin

text \<open>
  Whether a session has something its reader has not seen, and when it was last active
  (\<open>harnx-runtime/src/nats_session_metadata\<close>: \<open>read_state.rs\<close>, \<open>activity.rs\<close>, \<open>store/read_state.rs\<close>,
  \<open>store/activity.rs\<close>, \<open>store/keys.rs\<close>). Every operation is a bounded loop of read, change and
  conditional write. JSON and the clock are parameters; the publish that wakes up readers and the log lines are left out, and
  error contexts are reduced to the failure they wrap.
\<close>

section \<open>Keys and errors\<close>

definition CAS_RETRY_LIMIT :: nat where
  "CAS_RETRY_LIMIT = 8"

definition session_prefix :: "string \<Rightarrow> string" where
  "session_prefix session_id = ''sessions/'' @ session_id"

definition metadata_key :: "string \<Rightarrow> string" where
  "metadata_key session_id = session_prefix session_id @ ''/meta''"

definition activity_key :: "string \<Rightarrow> string" where
  "activity_key session_id = session_prefix session_id @ ''/activity''"

definition read_cursor_key :: "string \<Rightarrow> string \<Rightarrow> string" where
  "read_cursor_key storage_key viewer = session_prefix storage_key @ ''/read/'' @ viewer"

definition DEFAULT_VIEWER :: string where
  "DEFAULT_VIEWER = ''default''"

datatype StoreError =
    UpdateFailed UpdateErrorKind
  | CreateFailed CreateErrorKind
  | LeaderReadFailed "string option"
  | DecodeFailed
  | EncodeFailed
  | Refused string
  | Unreachable

definition is_wrong_last_revision :: "StoreError \<Rightarrow> bool" where
  "is_wrong_last_revision e \<longleftrightarrow> e = UpdateFailed WrongLastRevision"

definition is_cas_conflict :: "StoreError \<Rightarrow> bool" where
  "is_cas_conflict e \<longleftrightarrow> is_wrong_last_revision e \<or> e = CreateFailed AlreadyExists"

section \<open>Read state\<close>

record SessionReadState =
  rs_last_attention_seq :: seq
  rs_last_read_seq :: seq
  rs_manual_unread :: bool

definition SessionReadState_default :: SessionReadState where
  "SessionReadState_default = \<lparr>rs_last_attention_seq = 0, rs_last_read_seq = 0, rs_manual_unread = False\<rparr>"

definition is_unread :: "SessionReadState \<Rightarrow> bool" where
  "is_unread s \<longleftrightarrow> rs_last_read_seq s < rs_last_attention_seq s \<or> rs_manual_unread s"

definition read_at :: "seq \<Rightarrow> SessionReadState" where
  "read_at seq = \<lparr>rs_last_attention_seq = seq, rs_last_read_seq = seq, rs_manual_unread = False\<rparr>"

definition manual_unread_at :: "seq \<Rightarrow> SessionReadState" where
  "manual_unread_at seq = \<lparr>rs_last_attention_seq = seq, rs_last_read_seq = seq, rs_manual_unread = True\<rparr>"

text \<open>The changes; the flag says whether the state was mutated.\<close>

definition bump_patch :: "seq \<Rightarrow> SessionReadState \<Rightarrow> bool \<times> SessionReadState" where
  "bump_patch seq s =
     (if rs_last_attention_seq s < seq then (True, s\<lparr>rs_last_attention_seq := seq\<rparr>) else (False, s))"

definition read_patch :: "SessionReadState \<Rightarrow> bool \<times> SessionReadState" where
  "read_patch s =
     (let advanced = rs_last_read_seq s < rs_last_attention_seq s;
          s1 = (if advanced then s\<lparr>rs_last_read_seq := rs_last_attention_seq s\<rparr> else s)
      in (advanced \<or> rs_manual_unread s1, s1\<lparr>rs_manual_unread := False\<rparr>))"

definition unread_patch :: "SessionReadState \<Rightarrow> bool \<times> SessionReadState" where
  "unread_patch s = (if rs_manual_unread s then (False, s) else (True, s\<lparr>rs_manual_unread := True\<rparr>))"

record 'a kv_codec =
  kc_to_vec :: "'a \<Rightarrow> string option"
  kc_from_slice :: "string \<Rightarrow> 'a option"

definition get_read_state ::
    "SessionReadState kv_codec \<Rightarrow> (string \<Rightarrow> bool) \<Rightarrow> try_timing list \<Rightarrow> string \<Rightarrow> (StoreError + SessionReadState) io" where
  "get_read_state codec tr ts storage_key =
     bind (leader_entry tr ts (read_cursor_key storage_key DEFAULT_VIEWER)) (\<lambda>res.
       case res of
         Inl e \<Rightarrow> Ret (Inl (LeaderReadFailed e))
       | Inr None \<Rightarrow> Ret (Inr SessionReadState_default)
       | Inr (Some entry) \<Rightarrow>
           if entry_operation entry = OpPut
           then (case kc_from_slice codec (entry_value entry) of None \<Rightarrow> Ret (Inl DecodeFailed) | Some s \<Rightarrow> Ret (Inr s))
           else Ret (Inr SessionReadState_default))"

definition read_state_snapshot ::
    "SessionReadState kv_codec \<Rightarrow> (string \<Rightarrow> bool) \<Rightarrow> try_timing list \<Rightarrow> string \<Rightarrow> (StoreError + SessionReadState \<times> nat) io" where
  "read_state_snapshot codec tr ts key =
     bind (leader_entry tr ts key) (\<lambda>res.
       case res of
         Inl e \<Rightarrow> Ret (Inl (LeaderReadFailed e))
       | Inr None \<Rightarrow> Ret (Inr (SessionReadState_default, 0))
       | Inr (Some entry) \<Rightarrow>
           if entry_operation entry \<noteq> OpPut then Ret (Inr (SessionReadState_default, 0))
           else case kc_from_slice codec (entry_value entry) of
                  None \<Rightarrow> Ret (Inl DecodeFailed)
                | Some s \<Rightarrow> Ret (Inr (s, entry_revision entry)))"

definition write_read_state ::
    "SessionReadState kv_codec \<Rightarrow> string \<Rightarrow> SessionReadState \<Rightarrow> nat \<Rightarrow> (StoreError + nat) io" where
  "write_read_state codec key s revision =
     (case kc_to_vec codec s of
        None \<Rightarrow> Ret (Inl EncodeFailed)
      | Some payload \<Rightarrow>
          if revision = 0
          then Create key payload None (\<lambda>res. Ret (case res of Inl e \<Rightarrow> Inl (CreateFailed e) | Inr r \<Rightarrow> Inr r))
          else Update key payload revision (\<lambda>res. Ret (case res of Inl e \<Rightarrow> Inl (UpdateFailed e) | Inr r \<Rightarrow> Inr r)))"

text \<open>The loop; the first argument counts the attempts that are left.\<close>

fun read_state_loop ::
    "nat \<Rightarrow> SessionReadState kv_codec \<Rightarrow> (string \<Rightarrow> bool) \<Rightarrow> (nat \<Rightarrow> try_timing list) \<Rightarrow> string
       \<Rightarrow> (SessionReadState \<Rightarrow> bool \<times> SessionReadState) \<Rightarrow> (StoreError + unit) io" where
  "read_state_loop 0 codec tr tm key patch = Ret (Inl Unreachable)"
| "read_state_loop (Suc left) codec tr tm key patch =
     bind (read_state_snapshot codec tr (tm left) key) (\<lambda>snapshot.
       case snapshot of
         Inl e \<Rightarrow> Ret (Inl e)
       | Inr (s, revision) \<Rightarrow>
           (case patch s of
              (changed, s') \<Rightarrow>
                if \<not> changed then Ret (Inr ())
                else bind (write_read_state codec key s' revision) (\<lambda>res.
                       case res of
                         Inr new_revision \<Rightarrow> Ret (Inr ())
                       | Inl e \<Rightarrow>
                           if is_cas_conflict e \<and> left \<noteq> 0 then read_state_loop left codec tr tm key patch
                           else Ret (Inl e))))"

definition patch_read_state where
  "patch_read_state codec tr tm storage_key patch =
     read_state_loop CAS_RETRY_LIMIT codec tr tm (read_cursor_key storage_key DEFAULT_VIEWER) patch"

definition bump_attention where
  "bump_attention codec tr tm storage_key seq = patch_read_state codec tr tm storage_key (bump_patch seq)"

definition mark_read where
  "mark_read codec tr tm storage_key = patch_read_state codec tr tm storage_key read_patch"

definition mark_unread where
  "mark_unread codec tr tm storage_key = patch_read_state codec tr tm storage_key unread_patch"

section \<open>Activity\<close>

record SessionActivity =
  act_first_activation_at :: "instant option"
  act_last_activity_at :: instant

definition activity_reserved :: "instant \<Rightarrow> SessionActivity" where
  "activity_reserved now = \<lparr>act_first_activation_at = None, act_last_activity_at = now\<rparr>"

definition activity_activated :: "instant \<Rightarrow> SessionActivity option \<Rightarrow> SessionActivity" where
  "activity_activated now previous =
     \<lparr>act_first_activation_at =
        (case Option.bind previous act_first_activation_at of Some t \<Rightarrow> Some t | None \<Rightarrow> Some now),
      act_last_activity_at = now\<rparr>"

definition next_activity :: "instant \<Rightarrow> SessionActivity option \<Rightarrow> bool \<Rightarrow> SessionActivity" where
  "next_activity now previous activation =
     (if activation then activity_activated now previous
      else \<lparr>act_first_activation_at = Option.bind previous act_first_activation_at, act_last_activity_at = now\<rparr>)"

definition get_activity ::
    "SessionActivity kv_codec \<Rightarrow> (string \<Rightarrow> bool) \<Rightarrow> try_timing list \<Rightarrow> string \<Rightarrow> (StoreError + SessionActivity option) io" where
  "get_activity codec tr ts session_id =
     bind (leader_entry tr ts (activity_key session_id)) (\<lambda>res.
       case res of
         Inl e \<Rightarrow> Ret (Inl (LeaderReadFailed e))
       | Inr None \<Rightarrow> Ret (Inr None)
       | Inr (Some entry) \<Rightarrow>
           if entry_operation entry = OpPut
           then (case kc_from_slice codec (entry_value entry) of None \<Rightarrow> Ret (Inl DecodeFailed) | Some a \<Rightarrow> Ret (Inr (Some a)))
           else Ret (Inr None))"

definition get_activity_for_cleanup ::
    "SessionActivity kv_codec \<Rightarrow> (string \<Rightarrow> bool) \<Rightarrow> try_timing list \<Rightarrow> string \<Rightarrow> (StoreError + SessionActivity option) io" where
  "get_activity_for_cleanup codec tr ts session_id =
     bind (leader_entry tr ts (activity_key session_id)) (\<lambda>res.
       case res of
         Inl e \<Rightarrow> Ret (Inl (LeaderReadFailed e))
       | Inr None \<Rightarrow> Ret (Inr None)
       | Inr (Some entry) \<Rightarrow>
           if entry_operation entry = OpPut then Ret (Inr (kc_from_slice codec (entry_value entry))) else Ret (Inr None))"

definition activity_snapshot ::
    "SessionActivity kv_codec \<Rightarrow> (string \<Rightarrow> bool) \<Rightarrow> try_timing list \<Rightarrow> string \<Rightarrow> (StoreError + SessionActivity option \<times> nat) io" where
  "activity_snapshot codec tr ts key =
     bind (leader_entry tr ts key) (\<lambda>res.
       case res of
         Inl e \<Rightarrow> Ret (Inl (LeaderReadFailed e))
       | Inr None \<Rightarrow> Ret (Inr (None, 0))
       | Inr (Some entry) \<Rightarrow>
           if entry_operation entry \<noteq> OpPut then Ret (Inr (None, 0))
           else case kc_from_slice codec (entry_value entry) of
                  None \<Rightarrow> Ret (Inl DecodeFailed)
                | Some a \<Rightarrow> Ret (Inr (Some a, entry_revision entry)))"

definition write_activity ::
    "SessionActivity kv_codec \<Rightarrow> cas_timing list \<Rightarrow> string \<Rightarrow> SessionActivity \<Rightarrow> nat \<Rightarrow> (StoreError + nat) io" where
  "write_activity codec cs key a revision =
     (case kc_to_vec codec a of
        None \<Rightarrow> Ret (Inl EncodeFailed)
      | Some payload \<Rightarrow>
          if revision = 0
          then Create key payload None (\<lambda>res. Ret (case res of Inl e \<Rightarrow> Inl (CreateFailed e) | Inr r \<Rightarrow> Inr r))
          else bind (cas_update cs key payload revision)
                 (\<lambda>res. Ret (case res of Inl e \<Rightarrow> Inl (UpdateFailed e) | Inr r \<Rightarrow> Inr r)))"

fun activity_loop ::
    "nat \<Rightarrow> SessionActivity kv_codec \<Rightarrow> (string \<Rightarrow> bool) \<Rightarrow> (nat \<Rightarrow> try_timing list) \<Rightarrow> (nat \<Rightarrow> cas_timing list) \<Rightarrow> (nat \<Rightarrow> instant)
       \<Rightarrow> string \<Rightarrow> bool \<Rightarrow> (StoreError + nat) io" where
  "activity_loop 0 codec tr tm cm clock key activation = Ret (Inl Unreachable)"
| "activity_loop (Suc left) codec tr tm cm clock key activation =
     bind (activity_snapshot codec tr (tm left) key) (\<lambda>snapshot.
       case snapshot of
         Inl e \<Rightarrow> Ret (Inl e)
       | Inr (previous, revision) \<Rightarrow>
           bind (write_activity codec (cm left) key (next_activity (clock left) previous activation) revision) (\<lambda>res.
             case res of
               Inr r \<Rightarrow> Ret (Inr r)
             | Inl e \<Rightarrow>
                 if is_cas_conflict e \<and> left \<noteq> 0 then activity_loop left codec tr tm cm clock key activation
                 else Ret (Inl e)))"

definition update_activity where
  "update_activity codec tr tm cm clock session_id activation =
     activity_loop CAS_RETRY_LIMIT codec tr tm cm clock (activity_key session_id) activation"

definition mark_activated where
  "mark_activated codec tr tm cm clock session_id = update_activity codec tr tm cm clock session_id True"

definition touch_activity where
  "touch_activity codec tr tm cm clock session_id = update_activity codec tr tm cm clock session_id False"

definition ensure_reserved_activity :: "SessionActivity kv_codec \<Rightarrow> instant \<Rightarrow> string \<Rightarrow> (StoreError + unit) io" where
  "ensure_reserved_activity codec now session_id =
     (case kc_to_vec codec (activity_reserved now) of
        None \<Rightarrow> Ret (Inl EncodeFailed)
      | Some payload \<Rightarrow>
          Create (activity_key session_id) payload None (\<lambda>res.
            Ret (case res of
                   Inr _ \<Rightarrow> Inr ()
                 | Inl AlreadyExists \<Rightarrow> Inr ()
                 | Inl e \<Rightarrow> Inl (CreateFailed e))))"


section \<open>What the loops do\<close>

text \<open>
  The state an entry stands for, and what a change may write: the change of the state that is there. \<open>codec_ok\<close>:
  what was serialised reads back.
\<close>

definition live_state :: "SessionReadState kv_codec \<Rightarrow> string option \<Rightarrow> SessionReadState option" where
  "live_state codec x = (case x of None \<Rightarrow> Some SessionReadState_default | Some y \<Rightarrow> kc_from_slice codec y)"

definition state_at :: "SessionReadState kv_codec \<Rightarrow> key_view \<Rightarrow> SessionReadState option" where
  "state_at codec v = live_state codec (map_option snd (kv_live v))"

definition applies ::
    "SessionReadState kv_codec \<Rightarrow> (SessionReadState \<Rightarrow> bool \<times> SessionReadState) \<Rightarrow> string option \<Rightarrow> string \<Rightarrow> bool" where
  "applies codec p x y \<longleftrightarrow>
     (\<exists>s. live_state codec x = Some s \<and> fst (p s) \<and> kc_from_slice codec y = Some (snd (p s)))"

definition codec_ok :: "'a kv_codec \<Rightarrow> bool" where
  "codec_ok codec \<longleftrightarrow> (\<forall>a y. kc_to_vec codec a = Some y \<longrightarrow> kc_from_slice codec y = Some a)"

definition snapshot_of ::
    "(string option \<Rightarrow> string \<Rightarrow> bool) \<Rightarrow> ('w \<Rightarrow> key_view) \<Rightarrow> SessionReadState kv_codec \<Rightarrow> 'w
       \<Rightarrow> StoreError + SessionReadState \<times> nat \<Rightarrow> 'w \<Rightarrow> bool" where
  "snapshot_of S view codec w res w' \<longleftrightarrow>
     key_ok (view w') \<and> cell_later S (view w) (view w') \<and>
     (\<forall>s r. res = Inr (s, r) \<longrightarrow>
        state_at codec (view w') = Some s \<and>
        (if r = 0 then kv_live (view w') = None
         else \<exists>x. seen (Some r) (Some x) (view w') \<and> live_state codec (Some x) = Some s))"

lemma sat_read_state_snapshot:
  assumes "kv_laws n view k" "key_ok (view w)"
  shows "sat (\<lambda>w w'. cell_later S (view w) (view w')) n (cell_guar S' view) (snapshot_of S view codec w)
    (read_state_snapshot codec tr ts k) w"
  unfolding read_state_snapshot_def leader_entry_def
proof (rule sat_bind, rule sat_mono [OF sat_leader [OF assms]])
  fix res :: "string option + kv_entry option" and w1
  assume l: "leader_read S view w res w1"
  have pos: "\<not> seen (Some 0) (Some x) (view w1)" for x
    by (auto simp: seen_def dest: key_okD(7))
  show "sat (\<lambda>w w'. cell_later S (view w) (view w')) n (cell_guar S' view) (snapshot_of S view codec w)
    (case res of
       Inl e \<Rightarrow> Ret (Inl (LeaderReadFailed e))
     | Inr None \<Rightarrow> Ret (Inr (SessionReadState_default, 0))
     | Inr (Some entry) \<Rightarrow>
         if entry_operation entry \<noteq> OpPut then Ret (Inr (SessionReadState_default, 0))
         else (case kc_from_slice codec (entry_value entry) of
                 None \<Rightarrow> Ret (Inl DecodeFailed)
               | Some s \<Rightarrow> Ret (Inr (s, entry_revision entry)))) w1"
    using l pos by (auto simp: leader_read_def snapshot_of_def state_at_def live_state_def split: sum.splits option.splits)
qed simp

text \<open>
  One write, given the snapshot: it replaces the state that was read, or nothing. An accepted one leaves the
  changed state behind.
\<close>

lemma sat_write_read_state:
  assumes laws: "kv_laws n view k" and codec: "codec_ok codec"
    and snap: "snapshot_of S view codec w0 (Inr (s, r)) w" and changed: "fst (p s)"
    and close: "\<And>v v'. replaces (applies codec p) v v' \<Longrightarrow> cell_later S v v'"
  shows "sat (\<lambda>w w'. cell_later S (view w) (view w')) n (cell_guar (applies codec p) view)
    (\<lambda>res w'. key_ok (view w') \<and> cell_later S (view w) (view w') \<and>
       (\<forall>r'. res = Inr r' \<longrightarrow> state_at codec (view w') = Some (snd (p s))))
    (write_read_state codec k (snd (p s)) r) w"
proof (cases "kc_to_vec codec (snd (p s))")
  case None
  then show ?thesis using snap by (simp add: write_read_state_def snapshot_of_def)
next
  case (Some y)
  then have decoded: "kc_from_slice codec y = Some (snd (p s))" using codec by (simp add: codec_ok_def)
  have post: "key_ok (view w2) \<and> cell_later S (view w) (view w2)"
    if "cell_later S (view w) (view w1)" "replaces (applies codec p) (view w1) (view w2)" for w1 w2
  proof -
    have "cell_later S (view w) (view w2)" using that(1) close [OF that(2)] by (rule rtranclp_trans)
    moreover from this have "key_ok (view w2)"
      by (rule key_later_ok [OF cell_key_later]) (use snap in \<open>simp add: snapshot_of_def\<close>)
    ultimately show ?thesis by simp
  qed
  show ?thesis
  proof (cases "r = 0")
    case True
    have legal: "applies codec p None y"
      using snap changed decoded True by (auto simp: snapshot_of_def applies_def state_at_def)
    show ?thesis
      unfolding write_read_state_def Some option.case if_P [OF True]
    proof (rule sat_askI(2), intro conjI)
      fix w1 w2 res
      assume step: "cell_later S (view w) (view w1)" "nats_create n k y None w1 = (w2, res)"
      note wr = create_replaces [where S = "applies codec p", OF laws step(2) legal]
      from wr(1) show "replaces (applies codec p) (view w1) (view w2)" .
      show "sat (\<lambda>w w'. cell_later S (view w) (view w')) n (cell_guar (applies codec p) view)
          (\<lambda>res w'. key_ok (view w') \<and> cell_later S (view w) (view w') \<and>
             (\<forall>r'. res = Inr r' \<longrightarrow> state_at codec (view w') = Some (snd (p s))))
          (Ret (case res of Inl e \<Rightarrow> Inl (CreateFailed e) | Inr r \<Rightarrow> Inr r)) w2"
        using post [OF step(1) wr(1)] wr(2) decoded by (auto simp: state_at_def live_state_def split: sum.splits)
    qed
  next
    case False
    then obtain x where x: "seen (Some r) (Some x) (view w)" "live_state codec (Some x) = Some s"
      using snap by (auto simp: snapshot_of_def)
    have legal: "applies codec p (Some x) y" using x(2) changed decoded by (simp add: applies_def)
    show ?thesis
      unfolding write_read_state_def Some option.case if_not_P [OF False]
    proof (rule sat_askI(5), intro conjI)
      fix w1 w2 res
      assume step: "cell_later S (view w) (view w1)" "nats_update n k y r w1 = (w2, res)"
      note wr = update_replaces [where S = "applies codec p", OF laws step(2) seen_later [OF x(1) cell_key_later [OF step(1)]] legal]
      from wr(1) show "replaces (applies codec p) (view w1) (view w2)" .
      show "sat (\<lambda>w w'. cell_later S (view w) (view w')) n (cell_guar (applies codec p) view)
          (\<lambda>res w'. key_ok (view w') \<and> cell_later S (view w) (view w') \<and>
             (\<forall>r'. res = Inr r' \<longrightarrow> state_at codec (view w') = Some (snd (p s))))
          (Ret (case res of Inl e \<Rightarrow> Inl (UpdateFailed e) | Inr r \<Rightarrow> Inr r)) w2"
        using post [OF step(1) wr(1)] wr(2) decoded by (auto simp: state_at_def live_state_def split: sum.splits)
    qed
  qed
qed


text \<open>
  The whole loop. When it reports success there was a moment at which the state left nothing for the change to do.
\<close>

definition settled_between ::
    "SessionReadState kv_codec \<Rightarrow> (string option \<Rightarrow> string \<Rightarrow> bool) \<Rightarrow> (SessionReadState \<Rightarrow> bool \<times> SessionReadState)
       \<Rightarrow> key_view \<Rightarrow> key_view \<Rightarrow> bool" where
  "settled_between codec S p v v' \<longleftrightarrow>
     (\<exists>u s. cell_later S v u \<and> cell_later S u v' \<and> state_at codec u = Some s \<and> \<not> fst (p s))"

lemma settled_from: "cell_later S v v1 \<Longrightarrow> settled_between codec S p v1 v' \<Longrightarrow> settled_between codec S p v v'"
  unfolding settled_between_def by (blast intro: rtranclp_trans)

lemma settled_here: "cell_later S v v' \<Longrightarrow> state_at codec v' = Some s \<Longrightarrow> \<not> fst (p s) \<Longrightarrow> settled_between codec S p v v'"
  unfolding settled_between_def by blast

abbreviation loop_post ::
    "SessionReadState kv_codec \<Rightarrow> (string option \<Rightarrow> string \<Rightarrow> bool) \<Rightarrow> (SessionReadState \<Rightarrow> bool \<times> SessionReadState)
       \<Rightarrow> ('w \<Rightarrow> key_view) \<Rightarrow> 'w \<Rightarrow> StoreError + unit \<Rightarrow> 'w \<Rightarrow> bool" where
  "loop_post codec S p view w res w' \<equiv>
     cell_later S (view w) (view w') \<and> (res = Inr () \<longrightarrow> settled_between codec S p (view w) (view w'))"

lemma sat_read_state_loop:
  assumes laws: "kv_laws n view k" and codec: "codec_ok codec" and idem: "\<And>s. \<not> fst (p (snd (p s)))"
    and close: "\<And>v v'. replaces (applies codec p) v v' \<Longrightarrow> cell_later S v v'"
  shows "key_ok (view w) \<Longrightarrow>
    sat (\<lambda>w w'. cell_later S (view w) (view w')) n (cell_guar (applies codec p) view) (loop_post codec S p view w)
      (read_state_loop left codec tr tm k p) w"
proof (induction left arbitrary: w)
  case (Suc left)
  let ?sat = "sat (\<lambda>w w'. cell_later S (view w) (view w')) n (cell_guar (applies codec p) view)"
  have wrote: "?sat (loop_post codec S p view w) (case res of
         Inr new_revision \<Rightarrow> Ret (Inr ())
       | Inl e \<Rightarrow>
           if is_cas_conflict e \<and> left \<noteq> 0 then read_state_loop left codec tr tm k p else Ret (Inl e)) w2"
    if "key_ok (view w2)" "cell_later S (view w) (view w2)" "\<forall>r. res = Inr r \<longrightarrow> state_at codec (view w2) = Some (snd (p s))"
    for res :: "StoreError + nat" and s w2
  proof -
    have "?sat (loop_post codec S p view w) (read_state_loop left codec tr tm k p) w2"
      by (rule sat_mono [OF Suc.IH [OF that(1)]]) (use that(2) in \<open>auto intro: rtranclp_trans settled_from\<close>)
    moreover have "settled_between codec S p (view w) (view w2)" if "res = Inr r" for r
      using that \<open>\<forall>r. res = Inr r \<longrightarrow> _\<close> settled_here [OF \<open>cell_later S (view w) (view w2)\<close>] idem by blast
    ultimately show ?thesis using that(2) by (auto split: sum.splits)
  qed
  have changed: "?sat (loop_post codec S p view w) (bind (write_read_state codec k (snd (p s)) r) (\<lambda>res.
       case res of
         Inr new_revision \<Rightarrow> Ret (Inr ())
       | Inl e \<Rightarrow>
           if is_cas_conflict e \<and> left \<noteq> 0 then read_state_loop left codec tr tm k p else Ret (Inl e))) w1"
    if snap: "snapshot_of S view codec w (Inr (s, r)) w1" and p: "fst (p s)" for s r w1
  proof (rule sat_bind, rule sat_mono [OF sat_write_read_state [where p = p, OF laws codec snap p close]])
    fix res :: "StoreError + nat" and w2
    assume "key_ok (view w2) \<and> cell_later S (view w1) (view w2) \<and>
       (\<forall>r'. res = Inr r' \<longrightarrow> state_at codec (view w2) = Some (snd (p s)))"
    moreover have "cell_later S (view w) (view w1)" using snap by (simp add: snapshot_of_def)
    ultimately show "?sat (loop_post codec S p view w) (case res of
         Inr new_revision \<Rightarrow> Ret (Inr ())
       | Inl e \<Rightarrow>
           if is_cas_conflict e \<and> left \<noteq> 0 then read_state_loop left codec tr tm k p else Ret (Inl e)) w2"
      by (intro wrote [of w2 res s]) (auto intro: rtranclp_trans)
  qed simp_all
  show ?case
    unfolding read_state_loop.simps
  proof (rule sat_bind, rule sat_mono [OF sat_read_state_snapshot [OF laws Suc.prems]])
    fix a :: "StoreError + SessionReadState \<times> nat" and w1
    assume snap: "snapshot_of S view codec w a w1"
    then have later: "cell_later S (view w) (view w1)" by (simp add: snapshot_of_def)
    show "?sat (loop_post codec S p view w) (case a of
         Inl e \<Rightarrow> Ret (Inl e)
       | Inr (s, revision) \<Rightarrow>
           (case p s of
              (changed, s') \<Rightarrow>
                if \<not> changed then Ret (Inr ())
                else bind (write_read_state codec k s' revision) (\<lambda>res.
                       case res of
                         Inr new_revision \<Rightarrow> Ret (Inr ())
                       | Inl e \<Rightarrow>
                           if is_cas_conflict e \<and> left \<noteq> 0 then read_state_loop left codec tr tm k p
                           else Ret (Inl e)))) w1"
    proof (cases a)
      case (Inr sr)
      obtain s r where sr: "sr = (s, r)" by (cases sr)
      show ?thesis
      proof (cases "fst (p s)")
        case True
        then have ps: "p s = (True, snd (p s))" by (cases "p s") simp
        show ?thesis
          unfolding Inr sr sum.case prod.case
          by (subst ps, simp only: prod.case not_True_eq_False if_False, rule changed [OF snap [unfolded Inr sr] True])
      next
        case False
        have "state_at codec (view w1) = Some s" using snap by (simp add: snapshot_of_def Inr sr)
        with False later settled_here [OF later this] show ?thesis by (simp add: Inr sr case_prod_beta)
      qed
    qed (use later in simp)
  qed simp
qed simp


section \<open>Properties\<close>

text \<open>What anybody who tracks attention may write.\<close>

definition tracks :: "SessionReadState kv_codec \<Rightarrow> string option \<Rightarrow> string \<Rightarrow> bool" where
  "tracks codec x y \<longleftrightarrow>
     (\<exists>q. applies codec (bump_patch q) x y) \<or> applies codec read_patch x y \<or> applies codec unread_patch x y"

definition attention_level :: "SessionReadState kv_codec \<Rightarrow> string option \<Rightarrow> seq" where
  "attention_level codec x = (case live_state codec x of None \<Rightarrow> 0 | Some s \<Rightarrow> rs_last_attention_seq s)"

lemma patches_settle:
  "\<not> fst (bump_patch q (snd (bump_patch q s)))" "\<not> fst (read_patch (snd (read_patch s)))"
  "\<not> fst (unread_patch (snd (unread_patch s)))"
  by (simp_all add: bump_patch_def read_patch_def unread_patch_def Let_def)

interpretation attention: growing_cell "tracks codec" "attention_level codec" for codec
proof
  fix x y
  assume "tracks codec x y"
  then obtain s s' where "live_state codec x = Some s" "kc_from_slice codec y = Some s'"
      "rs_last_attention_seq s \<le> rs_last_attention_seq s'"
    unfolding tracks_def applies_def by (auto simp: bump_patch_def read_patch_def unread_patch_def Let_def)
  then show "attention_level codec x \<le> attention_level codec (Some y)" by (simp add: attention_level_def live_state_def)
qed

lemma tracks_close:
  assumes "\<And>x y. applies codec p x y \<Longrightarrow> tracks codec x y" "replaces (applies codec p) v v'"
  shows "cell_later (tracks codec) v v'"
  by (rule replaces_later) (use replaces_mono [OF assms(2)] assms(1) in blast)

text \<open>
  C20: No attention is lost. However many workers and readers bump, mark as read and mark as unread at the same
  time, once raising a session's attention to a sequence number reports success the stored attention is at
  least that from then on, and no other writer's change was undone by it: what the operation did to the key is a sequence of such
  changes, each of the state it replaced.
\<close>

theorem attention_not_lost:
  assumes "kv_laws n view (read_cursor_key storage_key DEFAULT_VIEWER)" "key_ok (view w)" "codec_ok codec"
    and "within (\<lambda>w w'. cell_later (tracks codec) (view w) (view w')) es"
    and "run n (bump_attention codec transient tm storage_key q) es w = (w', tr, Some (Inr ()))"
    and "cell_later (tracks codec) (view w') v"
  shows "cell_later (tracks codec) (view w) (view w') \<and> q \<le> attention_level codec (map_option snd (kv_live v))"
proof -
  have close: "cell_later (tracks codec) v1 v2" if "replaces (applies codec (bump_patch q)) v1 v2" for v1 v2
    by (rule tracks_close [OF _ that]) (auto simp: tracks_def)
  from sat_read_state_loop [where p = "bump_patch q" and S = "tracks codec", OF assms(1,3) patches_settle(1) close assms(2)]
  have "sat (\<lambda>w w'. cell_later (tracks codec) (view w) (view w')) n (cell_guar (applies codec (bump_patch q)) view)
      (loop_post codec (tracks codec) (bump_patch q) view w) (bump_attention codec transient tm storage_key q) w"
    by (simp add: bump_attention_def patch_read_state_def)
  from cell_rely.run_result [OF this assms(4,5)]
  obtain u s where "cell_later (tracks codec) (view w) (view w')" "cell_later (tracks codec) u (view w')"
      "state_at codec u = Some s" "\<not> fst (bump_patch q s)"
    by (auto simp: settled_between_def)
  moreover from this assms(6) have "cell_later (tracks codec) u v" by (blast intro: rtranclp_trans)
  from attention.later_grows [OF this] have "attention_level codec (map_option snd (kv_live u)) \<le> attention_level codec (map_option snd (kv_live v))" .
  ultimately show ?thesis by (auto simp: attention_level_def state_at_def bump_patch_def split: if_splits)
qed


text \<open>A codec that knows two states, and a run with it: attention 5 raised on an empty key.\<close>

definition demo_states :: "(string \<times> SessionReadState) list" where
  "demo_states =
     [(''a'', \<lparr>rs_last_attention_seq = 5, rs_last_read_seq = 0, rs_manual_unread = False\<rparr>), (''b'', read_at 5)]"

definition demo_read_codec :: "SessionReadState kv_codec" where
  "demo_read_codec =
     \<lparr>kc_to_vec = (\<lambda>s. map_option fst (find (\<lambda>e. snd e = s) demo_states)), kc_from_slice = map_of demo_states\<rparr>"

definition prompt_reads :: "nat \<Rightarrow> try_timing list" where
  "prompt_reads = (\<lambda>_. [\<lparr>in_time = True, answered = True, may_wait = True\<rparr>])"

definition attended_key :: key_view where
  "attended_key = \<lparr>kv_live = Some (1, ''a''), kv_last = 1, kv_created = {1}, kv_stored = [1 \<mapsto> ''a''], kv_renewed = {}\<rparr>"

lemma demo_read_codec_ok: "codec_ok demo_read_codec"
  by (auto simp: codec_ok_def demo_read_codec_def demo_states_def read_at_def split: if_splits)

lemmas read_state_loop_first = read_state_loop.simps(2) [of 7, simplified]

lemmas demo_read_simps =
  patch_read_state_def CAS_RETRY_LIMIT_def read_state_loop_first read_state_snapshot_def leader_entry_def write_read_state_def
  prompt_reads_def key_nats_def put_value_def SessionReadState_default_def demo_read_codec_def demo_states_def read_at_def

lemma demo_bump:
  "run key_nats (bump_attention demo_read_codec (\<lambda>_. False) prompt_reads ''s'' 5) (replicate 2 (\<lambda>w. w)) empty_key =
     (attended_key, [(EntryReq (read_cursor_key ''s'' DEFAULT_VIEWER), empty_key, empty_key),
        (CreateReq (read_cursor_key ''s'' DEFAULT_VIEWER) ''a'' None, empty_key, attended_key)], Some (Inr ()))"
  by (simp add: bump_attention_def bump_patch_def demo_read_simps empty_key_def attended_key_def numeral_2_eq_2)

theorem attention_not_lost_witness:
  "kv_live attended_key = Some (1, ''a'') \<and> 5 \<le> attention_level demo_read_codec (Some ''a'')"
proof -
  have env: "within (\<lambda>w w'. cell_later (tracks demo_read_codec) w w') (replicate 2 (\<lambda>w. w))"
    by (simp add: within_def)
  from attention_not_lost [where view = "\<lambda>w. w" and v = attended_key, OF key_nats_laws empty_key_ok demo_read_codec_ok env demo_bump]
  show ?thesis by (simp add: attended_key_def)
qed

lemma applies_state:
  assumes "replaces (applies codec p) v v'"
  shows "v' = v \<or> (\<exists>s. state_at codec v = Some s \<and> fst (p s) \<and> state_at codec v' = Some (snd (p s)))"
  using assms unfolding replaces_def applies_def state_at_def by (auto simp: live_after live_state_def)

lemma read_patch_marks:
  "fst (read_patch s) = is_unread s" "\<not> is_unread (snd (read_patch s))"
  "rs_last_attention_seq (snd (read_patch s)) = rs_last_attention_seq s"
  "rs_last_read_seq (snd (read_patch s)) = max (rs_last_read_seq s) (rs_last_attention_seq s)"
  by (auto simp: read_patch_def is_unread_def Let_def max_def)

text \<open>
  C21: Marking as read is atomic. Each write of it turns an unread state into one that is read exactly up to the
  attention of the state it replaces, so an attention raised by another process before the write is either covered by it or makes
  the write fail and be repeated, and one raised after it shows the session as unread again. When the operation
  reports success the session was, at some moment during it, not unread.
\<close>

theorem mark_read_atomic:
  assumes "kv_laws n view (read_cursor_key storage_key DEFAULT_VIEWER)" "key_ok (view w)" "codec_ok codec"
    and "within (\<lambda>w w'. cell_later (tracks codec) (view w) (view w')) es"
    and "run n (mark_read codec transient tm storage_key) es w = (w', tr, res)"
  shows "(\<forall>(q, u, v) \<in> set tr. view v = view u \<or>
      (\<exists>s s'. state_at codec (view u) = Some s \<and> state_at codec (view v) = Some s' \<and> is_unread s \<and> \<not> is_unread s' \<and>
         rs_last_attention_seq s' = rs_last_attention_seq s \<and>
         rs_last_read_seq s' = max (rs_last_read_seq s) (rs_last_attention_seq s))) \<and>
    (res = Some (Inr ()) \<longrightarrow> (\<exists>u s. cell_later (tracks codec) (view w) u \<and> cell_later (tracks codec) u (view w') \<and>
       state_at codec u = Some s \<and> \<not> is_unread s))"
proof -
  have close: "cell_later (tracks codec) v1 v2" if "replaces (applies codec read_patch) v1 v2" for v1 v2
    by (rule tracks_close [OF _ that]) (auto simp: tracks_def)
  from sat_read_state_loop [where p = read_patch and S = "tracks codec", OF assms(1,3) patches_settle(2) close assms(2)]
  have "sat (\<lambda>w w'. cell_later (tracks codec) (view w) (view w')) n (cell_guar (applies codec read_patch) view)
      (loop_post codec (tracks codec) read_patch view w) (mark_read codec transient tm storage_key) w"
    by (simp add: mark_read_def patch_read_state_def)
  note sat = cell_rely.run_sat(1,2) [OF this assms(4,5)]
  have "view v = view u \<or> (\<exists>s s'. state_at codec (view u) = Some s \<and> state_at codec (view v) = Some s' \<and> is_unread s \<and>
       \<not> is_unread s' \<and> rs_last_attention_seq s' = rs_last_attention_seq s \<and>
       rs_last_read_seq s' = max (rs_last_read_seq s) (rs_last_attention_seq s))"
    if "(q, u, v) \<in> set tr" for q u v
  proof -
    from sat(2) that have "replaces (applies codec read_patch) (view u) (view v)" by blast
    from applies_state [OF this] show ?thesis using read_patch_marks by metis
  qed
  moreover have "res = Some (Inr ()) \<longrightarrow> settled_between codec (tracks codec) read_patch (view w) (view w')"
    using sat(1) by blast
  ultimately show ?thesis by (auto simp: settled_between_def read_patch_marks(1))
qed

theorem mark_read_atomic_witness:
  "\<exists>w' tr. run key_nats (mark_read demo_read_codec (\<lambda>_. False) prompt_reads ''s'') (replicate 2 (\<lambda>w. w)) attended_key =
      (w', tr, Some (Inr ())) \<and> kv_live w' = Some (2, ''b'') \<and>
    (\<exists>u s. state_at demo_read_codec u = Some s \<and> \<not> is_unread s \<and> cell_later (tracks demo_read_codec) attended_key u)"
proof -
  let ?w = "attended_key\<lparr>kv_live := Some (2, ''b''), kv_last := 2, kv_stored := (kv_stored attended_key)(2 \<mapsto> ''b'')\<rparr>"
  obtain tr where run: "run key_nats (mark_read demo_read_codec (\<lambda>_. False) prompt_reads ''s'') (replicate 2 (\<lambda>w. w)) attended_key =
      (?w, tr, Some (Inr ()))"
    by (simp add: mark_read_def read_patch_def demo_read_simps attended_key_def numeral_2_eq_2)
  have env: "within (\<lambda>w w'. cell_later (tracks demo_read_codec) w w') (replicate 2 (\<lambda>w. w))"
    by (simp add: within_def)
  have ok: "key_ok attended_key" by (simp add: key_ok_def attended_key_def)
  from mark_read_atomic [where view = "\<lambda>w. w", OF key_nats_laws ok demo_read_codec_ok env run] run show ?thesis by auto
qed

end
