(* ===== verification/Metadata_Store.thy ===== *)
theory Metadata_Store
  imports Read_State Cid_Url Json_Value
begin

text \<open>
  The canonical record of a session (\<open>harnx-runtime/src/nats_session_metadata\<close>: \<open>model.rs\<close>, \<open>tool_context.rs\<close>, \<open>store.rs\<close>,
  \<open>store/mutation.rs\<close>, \<open>store/extensions.rs\<close>, \<open>store/extension_validation.rs\<close>; the writers of \<open>nats_worker/backend.rs\<close>): what may be stored,
  the patches, and the guarded loop that applies one to the revision it read. A worker's patch carries its lease's fence
  token. Parameters: \<open>serde_json\<close> and SHA-256. The message that tells readers of a change is left out, and error
  texts leave out the values the source interpolates. A floating-point number is its bit pattern: it is only
  stored. The field \<open>worker_projection\<close>, which is read and never used or written, is left out.
\<close>

section \<open>The record\<close>

datatype SessionAgentSource = NamedAgent string | InlineAgent string

definition source_name :: "SessionAgentSource \<Rightarrow> string option" where
  "source_name s = (case s of NamedAgent name \<Rightarrow> Some name | InlineAgent _ \<Rightarrow> None)"

definition source_validate :: "SessionAgentSource \<Rightarrow> string + unit" where
  "source_validate s =
     (case s of
        NamedAgent name \<Rightarrow>
          if str_trim name = [] \<or> name = TEMP_AGENT_NAME
          then Inl ''named session agent must not be empty or the reserved inline-agent name'' else Inr ()
      | InlineAgent _ \<Rightarrow> Inr ())"

record SessionOverrides =
  ov_model :: "string option"
  ov_temperature :: "64 word option"
  ov_top_p :: "64 word option"
  ov_use_tools :: "string list option"
  ov_bash_tools :: "string list option"
  ov_model_fallbacks :: "string list"
  ov_compress_threshold :: "nat option"
  ov_compaction_agent :: "string option"
  ov_max_output_tokens :: "int option"

datatype SessionOverrideUpdate =
    SetModel "string option" | SetTemperature "64 word option" | SetTopP "64 word option"
  | SetUseTools "string list option" | SetModelFallbacks "string list" | SetCompressThreshold "nat option"
  | SetCompactionAgent "string option" | SetMaxOutputTokens "int option" | SetBashTools "string list option"

definition override_apply :: "SessionOverrideUpdate \<Rightarrow> SessionOverrides \<Rightarrow> SessionOverrides" where
  "override_apply u overrides =
     (case u of
        SetModel x \<Rightarrow> overrides\<lparr>ov_model := x\<rparr>
      | SetTemperature x \<Rightarrow> overrides\<lparr>ov_temperature := x\<rparr>
      | SetTopP x \<Rightarrow> overrides\<lparr>ov_top_p := x\<rparr>
      | SetUseTools x \<Rightarrow> overrides\<lparr>ov_use_tools := x\<rparr>
      | SetBashTools x \<Rightarrow> overrides\<lparr>ov_bash_tools := x\<rparr>
      | SetModelFallbacks x \<Rightarrow> overrides\<lparr>ov_model_fallbacks := x\<rparr>
      | SetCompressThreshold x \<Rightarrow> overrides\<lparr>ov_compress_threshold := x\<rparr>
      | SetCompactionAgent x \<Rightarrow> overrides\<lparr>ov_compaction_agent := x\<rparr>
      | SetMaxOutputTokens x \<Rightarrow> overrides\<lparr>ov_max_output_tokens := x\<rparr>)"

record ParentLink =
  pl_session_id :: string
  pl_tool_call_id :: string

record SessionTitle =
  title_value :: "string option"
  title_manual :: bool
  title_last_updated_tokens :: nat

record SessionMetadata =
  md_schema_version :: nat
  md_session_id :: string
  md_created_at :: instant
  md_creation_invocation :: "string option"
  md_parent :: "ParentLink option"
  md_agent :: SessionAgentSource
  md_variables :: "(string \<times> string) list"
  md_overrides :: SessionOverrides
  md_title :: SessionTitle
  md_extensions :: json_map
  md_worker_fence_token :: fence

definition SESSION_METADATA_SCHEMA_VERSION :: nat where
  "SESSION_METADATA_SCHEMA_VERSION = 1"

definition EXTENSION_NAMESPACE_MAX_BYTES :: nat where
  "EXTENSION_NAMESPACE_MAX_BYTES = 64 * 1024"

definition EXTENSIONS_TOTAL_MAX_BYTES :: nat where
  "EXTENSIONS_TOTAL_MAX_BYTES = 256 * 1024"

definition TOOL_CONTEXT_NAMESPACE :: string where
  "TOOL_CONTEXT_NAMESPACE = ''dev.harnx.tool_context''"

record ToolContext =
  tc_version :: nat
  tc_values :: json_map

record meta_lib =
  ml_codec :: "SessionMetadata kv_codec"
  ml_json_len :: "json \<Rightarrow> nat"
  ml_tool_context :: "json \<Rightarrow> ToolContext option"
  ml_tool_json :: "ToolContext \<Rightarrow> json option"
  ml_env :: agent_env

definition name_char :: "char \<Rightarrow> bool" where
  "name_char c \<longleftrightarrow>
     (CHR ''0'' \<le> c \<and> c \<le> CHR ''9'') \<or> (CHR ''a'' \<le> c \<and> c \<le> CHR ''z'') \<or> (CHR ''A'' \<le> c \<and> c \<le> CHR ''Z'') \<or>
     c = CHR ''-'' \<or> c = CHR ''_'' \<or> c = CHR ''.''"

definition validate_namespace :: "string \<Rightarrow> string + unit" where
  "validate_namespace namespace =
     (if namespace = [] then Inl ''extension namespace must not be empty''
      else if length namespace \<le> 128 \<and> list_all name_char namespace then Inr ()
      else Inl (''invalid extension namespace '' @ namespace))"

fun validate_namespaces :: "meta_lib \<Rightarrow> json_map \<Rightarrow> string + unit" where
  "validate_namespaces lib [] = Inr ()"
| "validate_namespaces lib ((namespace, v) # rest) =
     (case validate_namespace namespace of
        Inl e \<Rightarrow> Inl e
      | Inr _ \<Rightarrow>
          if EXTENSION_NAMESPACE_MAX_BYTES < ml_json_len lib v then Inl (''extension namespace too large: '' @ namespace)
          else validate_namespaces lib rest)"

definition validate_extensions :: "meta_lib \<Rightarrow> json_map \<Rightarrow> string + unit" where
  "validate_extensions lib extensions =
     (case validate_namespaces lib extensions of
        Inl e \<Rightarrow> Inl e
      | Inr _ \<Rightarrow>
          if EXTENSIONS_TOTAL_MAX_BYTES < ml_json_len lib (JObject extensions) then Inl ''all session extensions too large''
          else Inr ())"

definition tool_context_valid :: "ToolContext \<Rightarrow> bool" where
  "tool_context_valid c \<longleftrightarrow>
     tc_version c = 1 \<and> list_all (\<lambda>(key, _). key \<noteq> [] \<and> length key \<le> 128 \<and> list_all name_char key) (tc_values c)"

definition tool_context :: "meta_lib \<Rightarrow> SessionMetadata \<Rightarrow> string + ToolContext" where
  "tool_context lib m =
     (case map_of (md_extensions m) TOOL_CONTEXT_NAMESPACE of
        None \<Rightarrow> Inr \<lparr>tc_version = 1, tc_values = []\<rparr>
      | Some v \<Rightarrow>
          (case ml_tool_context lib v of
             None \<Rightarrow> Inl ''decode dev.harnx.tool_context session extension''
           | Some c \<Rightarrow> if tool_context_valid c then Inr c else Inl ''invalid tool context''))"

definition storage_key :: "meta_lib \<Rightarrow> SessionMetadata \<Rightarrow> string" where
  "storage_key lib m = session_key (ml_env lib) (source_name (md_agent m)) (md_session_id m)"

definition meta_validate :: "meta_lib \<Rightarrow> SessionMetadata \<Rightarrow> string \<Rightarrow> string + unit" where
  "meta_validate lib m expected_session_id =
     (if md_schema_version m \<noteq> SESSION_METADATA_SCHEMA_VERSION then Inl ''unsupported session metadata schema version''
      else if md_session_id m \<noteq> expected_session_id then Inl ''session metadata identity mismatch''
      else case source_validate (md_agent m) of
             Inl e \<Rightarrow> Inl e
           | Inr _ \<Rightarrow>
               (case validate_extensions lib (md_extensions m) of
                  Inl e \<Rightarrow> Inl e
                | Inr _ \<Rightarrow> (case tool_context lib m of Inl e \<Rightarrow> Inl e | Inr _ \<Rightarrow> Inr ())))"

definition validate_storage_key :: "meta_lib \<Rightarrow> SessionMetadata \<Rightarrow> string \<Rightarrow> string + unit" where
  "validate_storage_key lib m expected_key =
     (case meta_validate lib m (md_session_id m) of
        Inl e \<Rightarrow> Inl e
      | Inr _ \<Rightarrow> if storage_key lib m = expected_key then Inr () else Inl ''session metadata storage identity mismatch'')"

section \<open>Patches\<close>

text \<open>A \<open>BTreeMap\<close> is its entries in the order of the keys.\<close>

fun btree_insert :: "string \<Rightarrow> json \<Rightarrow> json_map \<Rightarrow> json_map" where
  "btree_insert k v [] = [(k, v)]"
| "btree_insert k v ((k', v') # rest) =
     (if k = k' then (k, v) # rest else if k < k' then (k, v) # (k', v') # rest else (k', v') # btree_insert k v rest)"

definition btree_remove :: "string \<Rightarrow> json_map \<Rightarrow> json_map" where
  "btree_remove k m = filter (\<lambda>e. fst e \<noteq> k) m"

record SessionTitlePatch =
  tp_value :: "string option"
  tp_manual :: bool

record SessionMetadataPatch =
  mp_title :: "SessionTitlePatch option"
  mp_variables :: "(string \<times> string) list option"
  mp_overrides :: "SessionOverrides option"

definition apply_title_patch :: "SessionTitlePatch \<Rightarrow> SessionTitle \<Rightarrow> SessionTitle" where
  "apply_title_patch p t =
     (let v = (case map_option str_trim (tp_value p) of Some (c # cs) \<Rightarrow> Some (c # cs) | _ \<Rightarrow> None)
      in \<lparr>title_value = v, title_manual = (v \<noteq> None \<and> tp_manual p),
          title_last_updated_tokens = (if v = None then 0 else title_last_updated_tokens t)\<rparr>)"

definition apply_typed_patch :: "SessionMetadataPatch \<Rightarrow> SessionMetadata \<Rightarrow> SessionMetadata" where
  "apply_typed_patch p m =
     (let m1 = (case mp_title p of Some t \<Rightarrow> m\<lparr>md_title := apply_title_patch t (md_title m)\<rparr> | None \<Rightarrow> m);
          m2 = (case mp_variables p of Some v \<Rightarrow> m1\<lparr>md_variables := v\<rparr> | None \<Rightarrow> m1)
      in case mp_overrides p of Some v \<Rightarrow> m2\<lparr>md_overrides := v\<rparr> | None \<Rightarrow> m2)"

datatype MetadataReplacement =
    ReplaceOverrides SessionOverrides
  | ReplaceOverride SessionOverrideUpdate
  | ReplaceVariables "(string \<times> string) list"

definition replacement_apply :: "MetadataReplacement \<Rightarrow> SessionMetadata \<Rightarrow> SessionMetadata" where
  "replacement_apply r m =
     (case r of
        ReplaceOverrides overrides \<Rightarrow> m\<lparr>md_overrides := overrides\<rparr>
      | ReplaceOverride u \<Rightarrow> m\<lparr>md_overrides := override_apply u (md_overrides m)\<rparr>
      | ReplaceVariables variables \<Rightarrow> m\<lparr>md_variables := variables\<rparr>)"

record PatchGuard =
  pg_expected_agent :: "string option"
  pg_worker_fence_token :: "fence option"

definition PatchGuard_default :: PatchGuard where
  "PatchGuard_default = \<lparr>pg_expected_agent = None, pg_worker_fence_token = None\<rparr>"

definition guard_for_agent :: "string \<Rightarrow> PatchGuard" where
  "guard_for_agent agent = PatchGuard_default\<lparr>pg_expected_agent := Some agent\<rparr>"

definition guard_for_worker :: "fence \<Rightarrow> PatchGuard" where
  "guard_for_worker token = PatchGuard_default\<lparr>pg_worker_fence_token := Some token\<rparr>"

definition metadata_belongs_to_agent :: "SessionMetadata \<Rightarrow> string \<Rightarrow> bool" where
  "metadata_belongs_to_agent m agent \<longleftrightarrow> md_agent m = NamedAgent agent"

definition guard_validate :: "PatchGuard \<Rightarrow> SessionMetadata \<Rightarrow> StoreError + unit" where
  "guard_validate g m =
     (if (\<exists>agent. pg_expected_agent g = Some agent \<and> \<not> metadata_belongs_to_agent m agent) then Inl (Refused ''Not Found'')
      else case pg_worker_fence_token g of
             Some t \<Rightarrow> if md_worker_fence_token m \<le> t then Inr () else Inl (Refused ''stale session metadata writer fence'')
           | None \<Rightarrow> Inr ())"

definition apply_fence :: "PatchGuard \<Rightarrow> SessionMetadata \<Rightarrow> SessionMetadata" where
  "apply_fence g m = (case pg_worker_fence_token g of Some t \<Rightarrow> m\<lparr>md_worker_fence_token := t\<rparr> | None \<Rightarrow> m)"

definition immutable_identity :: "SessionMetadata \<Rightarrow> nat \<times> string \<times> instant \<times> SessionAgentSource" where
  "immutable_identity m = (md_schema_version m, md_session_id m, md_created_at m, md_agent m)"

section \<open>The store\<close>

record MetadataRecord =
  mr_metadata :: SessionMetadata
  mr_revision :: nat

record patch_timing =
  pt_read :: "try_timing list"
  pt_update :: "cas_timing list"

definition metadata_get ::
    "meta_lib \<Rightarrow> (string \<Rightarrow> bool) \<Rightarrow> try_timing list \<Rightarrow> string \<Rightarrow> (StoreError + MetadataRecord option) io" where
  "metadata_get lib tr ts session_id =
     bind (leader_entry tr ts (metadata_key session_id)) (\<lambda>res.
       case res of
         Inl e \<Rightarrow> Ret (Inl (LeaderReadFailed e))
       | Inr None \<Rightarrow> Ret (Inr None)
       | Inr (Some entry) \<Rightarrow>
           if entry_operation entry = OpPut
           then case kc_from_slice (ml_codec lib) (entry_value entry) of
                  None \<Rightarrow> Ret (Inl DecodeFailed)
                | Some m \<Rightarrow>
                    (case validate_storage_key lib m session_id of
                       Inl e \<Rightarrow> Ret (Inl (Refused e))
                     | Inr _ \<Rightarrow> Ret (Inr (Some \<lparr>mr_metadata = m, mr_revision = entry_revision entry\<rparr>)))
           else Ret (Inr None))"

definition get_for_agent where
  "get_for_agent lib tr ts session_id agent =
     bind (metadata_get lib tr ts (session_key (ml_env lib) (Some agent) session_id)) (\<lambda>res.
       Ret (case res of
              Inl e \<Rightarrow> Inl e
            | Inr None \<Rightarrow> Inr None
            | Inr (Some rec) \<Rightarrow> Inr (if metadata_belongs_to_agent (mr_metadata rec) agent then Some rec else None)))"

definition metadata_create ::
    "meta_lib \<Rightarrow> SessionActivity kv_codec \<Rightarrow> instant \<Rightarrow> SessionMetadata \<Rightarrow> (StoreError + nat option) io" where
  "metadata_create lib activity now m =
     (case meta_validate lib m (md_session_id m) of
        Inl e \<Rightarrow> Ret (Inl (Refused e))
      | Inr _ \<Rightarrow>
          (case kc_to_vec (ml_codec lib) m of
             None \<Rightarrow> Ret (Inl EncodeFailed)
           | Some payload \<Rightarrow>
               Create (metadata_key (storage_key lib m)) payload None (\<lambda>res.
                 case res of
                   Inr revision \<Rightarrow>
                     bind (ensure_reserved_activity activity now (storage_key lib m)) (\<lambda>reserved.
                       case reserved of
                         Inl e \<Rightarrow> DeleteExpect (metadata_key (storage_key lib m)) revision (\<lambda>_. Ret (Inl e))
                       | Inr _ \<Rightarrow> Ret (Inr (Some revision)))
                 | Inl AlreadyExists \<Rightarrow> Ret (Inr None)
                 | Inl (CreateOther e) \<Rightarrow> Ret (Inl (CreateFailed (CreateOther e))))))"

definition record_for_patch ::
    "meta_lib \<Rightarrow> (string \<Rightarrow> bool) \<Rightarrow> try_timing list \<Rightarrow> string \<Rightarrow> PatchGuard \<Rightarrow> (StoreError + MetadataRecord) io" where
  "record_for_patch lib tr ts session_id g =
     bind (metadata_get lib tr ts session_id) (\<lambda>res.
       Ret (case res of
              Inl e \<Rightarrow> Inl e
            | Inr (Some rec) \<Rightarrow> (case guard_validate g (mr_metadata rec) of Inl e \<Rightarrow> Inl e | Inr _ \<Rightarrow> Inr rec)
            | Inr None \<Rightarrow>
                Inl (Refused (if pg_expected_agent g \<noteq> None then ''Not Found'' else ''session metadata not found''))))"

definition update_metadata ::
    "meta_lib \<Rightarrow> cas_timing list \<Rightarrow> SessionMetadata \<Rightarrow> nat \<Rightarrow> (StoreError + nat) io" where
  "update_metadata lib cs m revision =
     (case kc_to_vec (ml_codec lib) m of
        None \<Rightarrow> Ret (Inl EncodeFailed)
      | Some payload \<Rightarrow>
          bind (cas_update cs (metadata_key (storage_key lib m)) payload revision)
            (\<lambda>res. Ret (case res of Inl e \<Rightarrow> Inl (UpdateFailed e) | Inr r \<Rightarrow> Inr r)))"

text \<open>
  What one attempt computes from the record it read: the record as it is, when nothing is to be
  written, or the metadata to write.
\<close>

definition patched ::
    "meta_lib \<Rightarrow> PatchGuard \<Rightarrow> (SessionMetadata \<Rightarrow> StoreError + bool \<times> SessionMetadata) \<Rightarrow> string \<Rightarrow> SessionMetadata
       \<Rightarrow> StoreError + bool \<times> SessionMetadata" where
  "patched lib g patch session_id m =
     (case patch m of
        Inl e \<Rightarrow> Inl e
      | Inr (changed, m') \<Rightarrow>
          if \<not> changed \<and> \<not> (\<exists>t. pg_worker_fence_token g = Some t \<and> md_worker_fence_token m' < t) then Inr (False, m')
          else if immutable_identity m \<noteq> immutable_identity m'
          then Inl (Refused ''session identity, agent source, schema version, and creation time are immutable'')
          else (case validate_storage_key lib (apply_fence g m') session_id of
                  Inl e \<Rightarrow> Inl (Refused e)
                | Inr _ \<Rightarrow> Inr (True, apply_fence g m')))"

fun patch_loop ::
    "nat \<Rightarrow> meta_lib \<Rightarrow> (string \<Rightarrow> bool) \<Rightarrow> (nat \<Rightarrow> patch_timing) \<Rightarrow> string \<Rightarrow> PatchGuard
       \<Rightarrow> (SessionMetadata \<Rightarrow> StoreError + bool \<times> SessionMetadata) \<Rightarrow> (StoreError + MetadataRecord) io" where
  "patch_loop 0 lib tr tm session_id g patch = Ret (Inl Unreachable)"
| "patch_loop (Suc left) lib tr tm session_id g patch =
     bind (record_for_patch lib tr (pt_read (tm left)) session_id g) (\<lambda>res.
       case res of
         Inl e \<Rightarrow> Ret (Inl e)
       | Inr rec \<Rightarrow>
           (case patched lib g patch session_id (mr_metadata rec) of
              Inl e \<Rightarrow> Ret (Inl e)
            | Inr (False, m') \<Rightarrow> Ret (Inr (rec\<lparr>mr_metadata := m'\<rparr>))
            | Inr (True, m') \<Rightarrow>
                bind (update_metadata lib (pt_update (tm left)) m' (mr_revision rec)) (\<lambda>res.
                  case res of
                    Inr revision \<Rightarrow> Ret (Inr \<lparr>mr_metadata = m', mr_revision = revision\<rparr>)
                  | Inl e \<Rightarrow>
                      if is_wrong_last_revision e \<and> left \<noteq> 0 then patch_loop left lib tr tm session_id g patch
                      else Ret (Inl e))))"

definition patch_guarded_if_changed where
  "patch_guarded_if_changed lib tr tm session_id g patch = patch_loop CAS_RETRY_LIMIT lib tr tm session_id g patch"

definition patch_guarded where
  "patch_guarded lib tr tm session_id g patch =
     patch_guarded_if_changed lib tr tm session_id g
       (\<lambda>m. case patch m of Inl e \<Rightarrow> Inl e | Inr m' \<Rightarrow> Inr (True, m'))"

definition patch_metadata where
  "patch_metadata lib tr tm session_id patch = patch_guarded lib tr tm session_id PatchGuard_default patch"

definition patch_with_fence where
  "patch_with_fence lib tr tm session_id token patch =
     patch_guarded lib tr tm session_id (guard_for_worker token) patch"

definition apply_patch where
  "apply_patch lib tr tm session_id p = patch_metadata lib tr tm session_id (\<lambda>m. Inr (apply_typed_patch p m))"

definition apply_patch_for_agent where
  "apply_patch_for_agent lib tr tm session_id agent p =
     patch_guarded lib tr tm (session_key (ml_env lib) (Some agent) session_id) (guard_for_agent agent)
       (\<lambda>m. Inr (apply_typed_patch p m))"

definition apply_override where
  "apply_override lib tr tm session_id u =
     patch_metadata lib tr tm session_id (\<lambda>m. Inr (m\<lparr>md_overrides := override_apply u (md_overrides m)\<rparr>))"


definition EXECUTION_CONTEXT_NAMESPACE :: string where
  "EXECUTION_CONTEXT_NAMESPACE = ''dev.harnx.execution_context''"

definition SESSION_PROPERTIES_NAMESPACE :: string where
  "SESSION_PROPERTIES_NAMESPACE = ''dev.harnx.session_properties''"

definition validate_mutable_namespace :: "string \<Rightarrow> string + unit" where
  "validate_mutable_namespace namespace =
     (case validate_namespace namespace of
        Inl e \<Rightarrow> Inl e
      | Inr _ \<Rightarrow>
          if namespace \<noteq> EXECUTION_CONTEXT_NAMESPACE \<and> namespace \<noteq> TOOL_CONTEXT_NAMESPACE \<and>
             namespace \<noteq> SESSION_PROPERTIES_NAMESPACE
          then Inr () else Inl ''extension namespace is reserved for Harnx-managed session state'')"

definition agent_guard :: "string option \<Rightarrow> PatchGuard" where
  "agent_guard agent = (case agent of None \<Rightarrow> PatchGuard_default | Some a \<Rightarrow> guard_for_agent a)"

definition replace_extension_guarded where
  "replace_extension_guarded lib tr tm session_id agent namespace v =
     (case validate_mutable_namespace namespace of
        Inl e \<Rightarrow> Ret (Inl (Refused e))
      | Inr _ \<Rightarrow>
          if EXTENSION_NAMESPACE_MAX_BYTES < ml_json_len lib v then Ret (Inl (Refused ''extension namespace too large''))
          else patch_guarded lib tr tm session_id (agent_guard agent)
                 (\<lambda>m. Inr (m\<lparr>md_extensions := btree_insert namespace v (md_extensions m)\<rparr>)))"

definition replace_extension where
  "replace_extension lib tr tm session_id namespace v =
     replace_extension_guarded lib tr tm session_id None namespace v"

definition replace_extension_for_agent where
  "replace_extension_for_agent lib tr tm session_id agent namespace v =
     replace_extension_guarded lib tr tm (session_key (ml_env lib) (Some agent) session_id) (Some agent) namespace v"

definition delete_extension_guarded where
  "delete_extension_guarded lib tr tm session_id agent namespace =
     (case validate_mutable_namespace namespace of
        Inl e \<Rightarrow> Ret (Inl (Refused e))
      | Inr _ \<Rightarrow>
          patch_guarded lib tr tm session_id (agent_guard agent)
            (\<lambda>m. Inr (m\<lparr>md_extensions := btree_remove namespace (md_extensions m)\<rparr>)))"

definition delete_extension where
  "delete_extension lib tr tm session_id namespace = delete_extension_guarded lib tr tm session_id None namespace"

definition delete_extension_for_agent where
  "delete_extension_for_agent lib tr tm session_id agent namespace =
     delete_extension_guarded lib tr tm (session_key (ml_env lib) (Some agent) session_id) (Some agent) namespace"

datatype ToolContextChange = ReplaceContext json | RemoveContext

definition tool_context_patch :: "meta_lib \<Rightarrow> string \<Rightarrow> ToolContextChange \<Rightarrow> SessionMetadata \<Rightarrow> StoreError + SessionMetadata" where
  "tool_context_patch lib key change m =
     (case tool_context lib m of
        Inl e \<Rightarrow> Inl (Refused e)
      | Inr c \<Rightarrow>
          (let c' = c\<lparr>tc_values := (case change of
                       ReplaceContext v \<Rightarrow> btree_insert key v (tc_values c)
                     | RemoveContext \<Rightarrow> btree_remove key (tc_values c))\<rparr>
           in if tc_values c' = [] then Inr (m\<lparr>md_extensions := btree_remove TOOL_CONTEXT_NAMESPACE (md_extensions m)\<rparr>)
              else if \<not> tool_context_valid c' then Inl (Refused ''invalid tool context'')
              else case ml_tool_json lib c' of
                     None \<Rightarrow> Inl EncodeFailed
                   | Some v \<Rightarrow> Inr (m\<lparr>md_extensions := btree_insert TOOL_CONTEXT_NAMESPACE v (md_extensions m)\<rparr>)))"

definition change_tool_context where
  "change_tool_context lib tr tm session_id key change =
     (if key \<noteq> [] \<and> length key \<le> 128 \<and> list_all name_char key
      then patch_metadata lib tr tm session_id (tool_context_patch lib key change)
      else Ret (Inl (Refused ''invalid tool context key'')))"

text \<open>
  The writers of the worker's backend (\<open>nats_worker/backend.rs\<close>): with a lease they check that it is held and pass its
  token on, without one they patch unfenced.
\<close>

definition patch_metadata_blocking where
  "patch_metadata_blocking lib tr tm session_id token patch =
     bind (case token of
             Some t \<Rightarrow> patch_with_fence lib tr tm session_id t patch
           | None \<Rightarrow> patch_metadata lib tr tm session_id patch)
       (\<lambda>res. Ret (case res of Inl e \<Rightarrow> Inl e | Inr _ \<Rightarrow> Inr ()))"

definition title_update :: "string \<Rightarrow> bool \<Rightarrow> nat \<Rightarrow> SessionMetadata \<Rightarrow> StoreError + SessionMetadata" where
  "title_update title manual tokens m =
     Inr (m\<lparr>md_title := \<lparr>title_value = Some title, title_manual = manual, title_last_updated_tokens = tokens\<rparr>\<rparr>)"

definition fenced_persist_title where
  "fenced_persist_title lib tr tm session_id title manual tokens =
     IsHeld (\<lambda>held.
       if \<not> held then Ret (Inl (Refused ''session lease lost before title update''))
       else FenceToken (\<lambda>token.
              patch_metadata_blocking lib tr tm session_id (Some token) (title_update title manual tokens)))"

definition fenced_persist_metadata where
  "fenced_persist_metadata lib tr tm session_id replacement =
     IsHeld (\<lambda>held.
       if \<not> held then Ret (Inl (Refused ''session lease lost before metadata update''))
       else FenceToken (\<lambda>token.
              patch_metadata_blocking lib tr tm session_id (Some token) (\<lambda>m. Inr (replacement_apply replacement m))))"

section \<open>What a guarded patch does\<close>

definition decoded_meta :: "meta_lib \<Rightarrow> string option \<Rightarrow> SessionMetadata option" where
  "decoded_meta lib x = Option.bind x (kc_from_slice (ml_codec lib))"

definition meta_at :: "meta_lib \<Rightarrow> key_view \<Rightarrow> SessionMetadata option" where
  "meta_at lib v = decoded_meta lib (map_option snd (kv_live v))"

text \<open>
  \<open>guarded\<close>: what a loop with this guard and patch may write in place of what. \<open>meta_writes\<close>: what any writer of the key
  may: create it, or keep who the session is and not lower the fence.
\<close>

definition guarded ::
    "meta_lib \<Rightarrow> PatchGuard \<Rightarrow> (SessionMetadata \<Rightarrow> StoreError + bool \<times> SessionMetadata) \<Rightarrow> string \<Rightarrow> string option \<Rightarrow> string \<Rightarrow> bool" where
  "guarded lib g patch session_id x y \<longleftrightarrow>
     (\<exists>m m'. decoded_meta lib x = Some m \<and> guard_validate g m = Inr () \<and>
        patched lib g patch session_id m = Inr (True, m') \<and> decoded_meta lib (Some y) = Some m')"

definition meta_writes :: "meta_lib \<Rightarrow> string option \<Rightarrow> string \<Rightarrow> bool" where
  "meta_writes lib x y \<longleftrightarrow>
     x = None \<or> (\<exists>m m'. decoded_meta lib x = Some m \<and> decoded_meta lib (Some y) = Some m' \<and>
       immutable_identity m' = immutable_identity m \<and> md_worker_fence_token m \<le> md_worker_fence_token m')"

definition fence_level :: "meta_lib \<Rightarrow> string option \<Rightarrow> fence" where
  "fence_level lib x = (case decoded_meta lib x of None \<Rightarrow> 0 | Some m \<Rightarrow> md_worker_fence_token m)"

interpretation fence: growing_cell "meta_writes lib" "fence_level lib" for lib
  by unfold_locales (auto simp: meta_writes_def fence_level_def decoded_meta_def)

text \<open>Reading the record: what comes back is the live entry.\<close>

definition record_read ::
    "meta_lib \<Rightarrow> PatchGuard \<Rightarrow> string \<Rightarrow> (string option \<Rightarrow> string \<Rightarrow> bool) \<Rightarrow> ('w \<Rightarrow> key_view) \<Rightarrow> 'w \<Rightarrow> StoreError + MetadataRecord \<Rightarrow> 'w \<Rightarrow> bool" where
  "record_read lib g session_id S view w res w' \<longleftrightarrow>
     key_ok (view w') \<and> cell_later S (view w) (view w') \<and>
     (\<forall>rec. res = Inr rec \<longrightarrow> guard_validate g (mr_metadata rec) = Inr () \<and> meta_at lib (view w') = Some (mr_metadata rec) \<and>
        (\<exists>x. seen (Some (mr_revision rec)) (Some x) (view w') \<and> decoded_meta lib (Some x) = Some (mr_metadata rec)))"

lemma sat_record_for_patch:
  assumes "kv_laws n view (metadata_key session_id)" "key_ok (view w)"
  shows "sat (\<lambda>w w'. cell_later S (view w) (view w')) n (cell_guar S' view) (record_read lib g session_id S view w)
    (record_for_patch lib tr ts session_id g) w"
  unfolding record_for_patch_def metadata_get_def leader_entry_def bind_assoc
  by (rule sat_bind, rule sat_mono [OF sat_leader [OF assms]])
     (auto simp: leader_read_def record_read_def meta_at_def decoded_meta_def split: sum.splits option.splits)


lemma patchedD:
  assumes "patched lib g patch session_id m = Inr (True, m')"
  shows "storage_key lib m' = session_id" "immutable_identity m' = immutable_identity m"
    "pg_worker_fence_token g = Some t \<Longrightarrow> md_worker_fence_token m' = t"
proof -
  obtain c p where p: "patch m = Inr (c, p)" "m' = apply_fence g p" "immutable_identity m = immutable_identity p"
      "validate_storage_key lib (apply_fence g p) session_id = Inr ()"
    using assms by (auto simp: patched_def split: sum.splits prod.splits if_splits)
  from p show "storage_key lib m' = session_id"
    by (auto simp: validate_storage_key_def split: sum.splits if_splits)
  from p show "immutable_identity m' = immutable_identity m"
    by (auto simp: apply_fence_def immutable_identity_def split: option.splits)
  from p show "pg_worker_fence_token g = Some t \<Longrightarrow> md_worker_fence_token m' = t" by (simp add: apply_fence_def)
qed

text \<open>What a successful loop returns: a record that is stored at its revision, or one there was nothing to write for.\<close>

definition returns_record ::
    "meta_lib \<Rightarrow> PatchGuard \<Rightarrow> (SessionMetadata \<Rightarrow> StoreError + bool \<times> SessionMetadata) \<Rightarrow> string \<Rightarrow> key_view \<Rightarrow> MetadataRecord \<Rightarrow> bool" where
  "returns_record lib g patch session_id v rec \<longleftrightarrow>
     (\<exists>m changed. guard_validate g m = Inr () \<and> patched lib g patch session_id m = Inr (changed, mr_metadata rec) \<and>
        (changed \<longrightarrow> decoded_meta lib (kv_stored v (mr_revision rec)) = Some (mr_metadata rec)))"

abbreviation patch_post ::
    "meta_lib \<Rightarrow> PatchGuard \<Rightarrow> (SessionMetadata \<Rightarrow> StoreError + bool \<times> SessionMetadata) \<Rightarrow> string \<Rightarrow> (string option \<Rightarrow> string \<Rightarrow> bool)
       \<Rightarrow> ('w \<Rightarrow> key_view) \<Rightarrow> 'w \<Rightarrow> StoreError + MetadataRecord \<Rightarrow> 'w \<Rightarrow> bool" where
  "patch_post lib g patch session_id S view w res w' \<equiv>
     cell_later S (view w) (view w') \<and> (\<forall>rec. res = Inr rec \<longrightarrow> returns_record lib g patch session_id (view w') rec)"

lemma sat_update_metadata:
  assumes laws: "kv_laws n view (metadata_key session_id)" and codec: "codec_ok (ml_codec lib)"
    and read: "record_read lib g session_id S view w0 (Inr rec) w"
    and new: "patched lib g patch session_id (mr_metadata rec) = Inr (True, m')"
    and close: "\<And>v v'. replaces (guarded lib g patch session_id) v v' \<Longrightarrow> cell_later S v v'"
  shows "sat (\<lambda>w w'. cell_later S (view w) (view w')) n (cell_guar (guarded lib g patch session_id) view)
    (\<lambda>res w'. cell_later S (view w) (view w') \<and> key_ok (view w') \<and>
       (\<forall>r. res = Inr r \<longrightarrow> decoded_meta lib (kv_stored (view w') r) = Some m'))
    (update_metadata lib cs m' (mr_revision rec)) w"
proof (cases "kc_to_vec (ml_codec lib) m'")
  case None
  then show ?thesis using read by (simp add: update_metadata_def record_read_def)
next
  case (Some y)
  then have y: "decoded_meta lib (Some y) = Some m'" using codec by (simp add: codec_ok_def decoded_meta_def)
  obtain x where x: "seen (Some (mr_revision rec)) (Some x) (view w)" "decoded_meta lib (Some x) = Some (mr_metadata rec)"
    and ok: "guard_validate g (mr_metadata rec) = Inr ()"
    using read by (auto simp: record_read_def)
  have legal: "guarded lib g patch session_id (Some x) y" using x(2) ok new y by (auto simp: guarded_def)
  show ?thesis
    unfolding update_metadata_def Some option.case patchedD(1) [OF new]
    by (rule sat_bind, rule sat_mono [OF sat_cas_update [where S' = "guarded lib g patch session_id", OF laws legal close x(1)]])
       (auto simp: y split: sum.splits)
qed

lemma sat_patch_loop:
  assumes laws: "kv_laws n view (metadata_key session_id)" and codec: "codec_ok (ml_codec lib)"
    and close: "\<And>v v'. replaces (guarded lib g patch session_id) v v' \<Longrightarrow> cell_later S v v'"
  shows "key_ok (view w) \<Longrightarrow>
    sat (\<lambda>w w'. cell_later S (view w) (view w')) n (cell_guar (guarded lib g patch session_id) view)
      (patch_post lib g patch session_id S view w) (patch_loop left lib tr tm session_id g patch) w"
proof (induction left arbitrary: w)
  case (Suc left)
  let ?sat = "sat (\<lambda>w w'. cell_later S (view w) (view w')) n (cell_guar (guarded lib g patch session_id) view)"
  let ?Q = "patch_post lib g patch session_id S view w"
  have update: "?sat ?Q (bind (update_metadata lib (pt_update (tm left)) m' (mr_revision rec)) (\<lambda>res.
        case res of
          Inr revision \<Rightarrow> Ret (Inr \<lparr>mr_metadata = m', mr_revision = revision\<rparr>)
        | Inl e \<Rightarrow>
            if is_wrong_last_revision e \<and> left \<noteq> 0 then patch_loop left lib tr tm session_id g patch
            else Ret (Inl e))) w1"
    if read: "record_read lib g session_id S view w (Inr rec) w1"
      and new: "patched lib g patch session_id (mr_metadata rec) = Inr (True, m')" for rec m' w1
  proof (rule sat_bind, rule sat_mono [OF sat_update_metadata [where patch = patch, OF laws codec read new close]])
    fix res :: "StoreError + nat" and w2
    assume u: "cell_later S (view w1) (view w2) \<and> key_ok (view w2) \<and>
       (\<forall>r. res = Inr r \<longrightarrow> decoded_meta lib (kv_stored (view w2) r) = Some m')"
    have later: "cell_later S (view w) (view w2)" using read u by (auto simp: record_read_def intro: rtranclp_trans)
    have retry: "?sat ?Q (patch_loop left lib tr tm session_id g patch) w2"
      by (rule sat_mono [OF Suc.IH]) (use u later in \<open>auto intro: rtranclp_trans\<close>)
    have ok: "guard_validate g (mr_metadata rec) = Inr ()" using read by (simp add: record_read_def)
    have "returns_record lib g patch session_id (view w2) \<lparr>mr_metadata = m', mr_revision = r\<rparr>" if "res = Inr r" for r
      unfolding returns_record_def using that u ok new by auto
    with later retry show "?sat ?Q (case res of
          Inr revision \<Rightarrow> Ret (Inr \<lparr>mr_metadata = m', mr_revision = revision\<rparr>)
        | Inl e \<Rightarrow>
            if is_wrong_last_revision e \<and> left \<noteq> 0 then patch_loop left lib tr tm session_id g patch
            else Ret (Inl e)) w2"
      by (auto split: sum.splits)
  qed simp_all
  show ?case
    unfolding patch_loop.simps
  proof (rule sat_bind, rule sat_mono [OF sat_record_for_patch [OF laws Suc.prems]])
    fix a :: "StoreError + MetadataRecord" and w1
    assume read: "record_read lib g session_id S view w a w1"
    then have later: "cell_later S (view w) (view w1)" by (simp add: record_read_def)
    show "?sat ?Q (case a of
         Inl e \<Rightarrow> Ret (Inl e)
       | Inr rec \<Rightarrow>
           (case patched lib g patch session_id (mr_metadata rec) of
              Inl e \<Rightarrow> Ret (Inl e)
            | Inr (False, m') \<Rightarrow> Ret (Inr (rec\<lparr>mr_metadata := m'\<rparr>))
            | Inr (True, m') \<Rightarrow>
                bind (update_metadata lib (pt_update (tm left)) m' (mr_revision rec)) (\<lambda>res.
                  case res of
                    Inr revision \<Rightarrow> Ret (Inr \<lparr>mr_metadata = m', mr_revision = revision\<rparr>)
                  | Inl e \<Rightarrow>
                      if is_wrong_last_revision e \<and> left \<noteq> 0 then patch_loop left lib tr tm session_id g patch
                      else Ret (Inl e)))) w1"
    proof (cases a)
      case (Inr rec)
      show ?thesis
      proof (cases "patched lib g patch session_id (mr_metadata rec)")
        case new: (Inr cm)
        obtain c m' where cm: "cm = (c, m')" by (cases cm)
        show ?thesis
        proof (cases c)
          case True
          then have c: "c = True" by simp
          show ?thesis
            unfolding Inr sum.case new cm c prod.case bool.case
            by (rule update [OF read [unfolded Inr] new [unfolded cm c]])
        next
          case False
          have "returns_record lib g patch session_id (view w1) (rec\<lparr>mr_metadata := m'\<rparr>)"
            using read new unfolding returns_record_def by (auto simp: record_read_def Inr cm False)
          with later show ?thesis by (simp add: Inr new cm False)
        qed
      qed (use later in \<open>simp add: Inr\<close>)
    qed (use later in simp)
  qed simp
qed simp


section \<open>Properties\<close>

abbreviation always :: "(SessionMetadata \<Rightarrow> StoreError + SessionMetadata) \<Rightarrow> SessionMetadata \<Rightarrow> StoreError + bool \<times> SessionMetadata" where
  "always patch \<equiv> \<lambda>m. case patch m of Inl e \<Rightarrow> Inl e | Inr m' \<Rightarrow> Inr (True, m')"

lemma guard_for_workerD: "guard_validate (guard_for_worker t) m = Inr () \<Longrightarrow> md_worker_fence_token m \<le> t"
  by (simp add: guard_validate_def guard_for_worker_def PatchGuard_default_def split: if_splits)

lemma worker_token: "pg_worker_fence_token (guard_for_worker t) = Some t"
  by (simp add: guard_for_worker_def)

lemma worker_guarded:
  assumes "guarded lib (guard_for_worker t) patch session_id x y"
  obtains m m' where "decoded_meta lib x = Some m" "decoded_meta lib (Some y) = Some m'" "md_worker_fence_token m \<le> t"
    "md_worker_fence_token m' = t" "immutable_identity m' = immutable_identity m" "storage_key lib m' = session_id"
proof -
  obtain m m' where m: "decoded_meta lib x = Some m" "guard_validate (guard_for_worker t) m = Inr ()"
      "patched lib (guard_for_worker t) patch session_id m = Inr (True, m')" "decoded_meta lib (Some y) = Some m'"
    using assms unfolding guarded_def by blast
  with that show thesis using guard_for_workerD [OF m(2)] patchedD(1,2) [OF m(3)] patchedD(3) [OF m(3) worker_token] by blast
qed

lemma worker_writes: "replaces (guarded lib (guard_for_worker t) patch session_id) v v' \<Longrightarrow> cell_later (meta_writes lib) v v'"
  by (rule replaces_later, erule replaces_mono, erule worker_guarded) (auto simp: meta_writes_def)

lemma always_changes: "patched lib g (always patch) session_id m \<noteq> Inr (False, m')"
  by (auto simp: patched_def split: sum.splits)

text \<open>
  C18: A worker's change of the session's record is fenced. Every write it makes replaces a record with no newer fence by one that
  carries the worker's own token and keeps the session's id, agent, creation time and storage
  key; success means that the returned record is what its revision holds. Among writers that never lower the
  fence, the changes of this one are of the same kind, so the stored fence only grows.
\<close>

theorem metadata_fence_enforced:
  assumes "kv_laws n view (metadata_key session_id)" "key_ok (view w)" "codec_ok (ml_codec lib)"
    and "within (\<lambda>w w'. cell_later (meta_writes lib) (view w) (view w')) es"
    and "run n (patch_with_fence lib transient tm session_id token patch) es w = (w', tr, res)"
  shows "(\<forall>(q, u, v) \<in> set tr. view v = view u \<or>
      (\<exists>m m'. meta_at lib (view u) = Some m \<and> meta_at lib (view v) = Some m' \<and> md_worker_fence_token m \<le> token \<and>
         md_worker_fence_token m' = token \<and> immutable_identity m' = immutable_identity m \<and> storage_key lib m' = session_id)) \<and>
    (\<forall>rec. res = Some (Inr rec) \<longrightarrow> md_worker_fence_token (mr_metadata rec) = token \<and>
       decoded_meta lib (kv_stored (view w') (mr_revision rec)) = Some (mr_metadata rec)) \<and>
    fence_level lib (map_option snd (kv_live (view w))) \<le> fence_level lib (map_option snd (kv_live (view w')))"
proof -
  let ?g = "guard_for_worker token" and ?S = "meta_writes lib"
  let ?G = "guarded lib ?g (always patch) session_id"
  have "sat (\<lambda>w w'. cell_later ?S (view w) (view w')) n (cell_guar ?G view)
      (patch_post lib ?g (always patch) session_id ?S view w) (patch_with_fence lib transient tm session_id token patch) w"
    unfolding patch_with_fence_def patch_guarded_def patch_guarded_if_changed_def
    by (rule sat_patch_loop [where S = "meta_writes lib", OF assms(1,3) worker_writes assms(2)])
  note sat = cell_rely.run_sat [OF this assms(4,5)]
  have "view v = view u \<or> (\<exists>m m'. meta_at lib (view u) = Some m \<and> meta_at lib (view v) = Some m' \<and>
       md_worker_fence_token m \<le> token \<and> md_worker_fence_token m' = token \<and>
       immutable_identity m' = immutable_identity m \<and> storage_key lib m' = session_id)" if "(q, u, v) \<in> set tr" for q u v
  proof -
    from sat(2) that have "replaces ?G (view u) (view v)" by blast
    then consider "view v = view u"
      | y where "?G (map_option snd (kv_live (view u))) y" "map_option snd (kv_live (view v)) = Some y"
      unfolding replaces_def by (auto dest: live_after)
    then show ?thesis
    proof cases
      case 2
      from 2(1) show ?thesis by (rule worker_guarded) (use 2(2) in \<open>auto simp: meta_at_def\<close>)
    qed simp
  qed
  moreover have "md_worker_fence_token (mr_metadata rec) = token \<and>
      decoded_meta lib (kv_stored (view w') (mr_revision rec)) = Some (mr_metadata rec)" if "res = Some (Inr rec)" for rec
  proof -
    from sat(1) that have "returns_record lib ?g (always patch) session_id (view w') rec" by blast
    then obtain m changed where p: "patched lib ?g (always patch) session_id m = Inr (changed, mr_metadata rec)"
        "changed \<longrightarrow> decoded_meta lib (kv_stored (view w') (mr_revision rec)) = Some (mr_metadata rec)"
      unfolding returns_record_def by blast
    then have c: "changed = True" using always_changes by (cases changed) auto
    from patchedD(3) [OF p(1) [unfolded c] worker_token] p(2) c show ?thesis by simp
  qed
  moreover have "fence_level lib (map_option snd (kv_live (view w))) \<le> fence_level lib (map_option snd (kv_live (view w')))"
    by (rule fence.later_grows, rule sat(3) [rule_format]) (rule worker_writes)
  ultimately show ?thesis by blast
qed



text \<open>A record with fence \<open>f\<close>, a codec for two of them, and a worker with token 5.\<close>

definition demo_meta :: "fence \<Rightarrow> SessionMetadata" where
  "demo_meta f =
     \<lparr>md_schema_version = 1, md_session_id = ''s1'', md_created_at = 0, md_creation_invocation = None, md_parent = None,
      md_agent = NamedAgent ''coder'', md_variables = [],
      md_overrides = \<lparr>ov_model = None, ov_temperature = None, ov_top_p = None, ov_use_tools = None, ov_bash_tools = None,
        ov_model_fallbacks = [], ov_compress_threshold = None, ov_compaction_agent = None, ov_max_output_tokens = None\<rparr>,
      md_title = \<lparr>title_value = None, title_manual = False, title_last_updated_tokens = 0\<rparr>,
      md_extensions = [], md_worker_fence_token = f\<rparr>"

definition demo_meta_lib :: meta_lib where
  "demo_meta_lib =
     \<lparr>ml_codec = \<lparr>kc_to_vec = (\<lambda>m. if m = demo_meta 3 then Some ''m3'' else if m = demo_meta 5 then Some ''m5'' else None),
        kc_from_slice = map_of [(''m3'', demo_meta 3), (''m5'', demo_meta 5)]\<rparr>,
      ml_json_len = (\<lambda>_. 2), ml_tool_context = (\<lambda>_. None), ml_tool_json = (\<lambda>_. None), ml_env = demo_agents\<rparr>"

definition meta_key_at :: "nat \<Rightarrow> string \<Rightarrow> key_view" where
  "meta_key_at r x = \<lparr>kv_live = Some (r, x), kv_last = r, kv_created = {1}, kv_stored = [1 \<mapsto> ''m3'', r \<mapsto> x], kv_renewed = {}\<rparr>"

definition prompt_patch :: "nat \<Rightarrow> patch_timing" where
  "prompt_patch = (\<lambda>_. \<lparr>pt_read = [\<lparr>in_time = True, answered = True, may_wait = True\<rparr>],
     pt_update = [\<lparr>ct_update_answered = True, ct_read = [], ct_read_answered = True\<rparr>]\<rparr>)"

lemma demo_meta_ok: "codec_ok (ml_codec demo_meta_lib)" "key_ok (meta_key_at 1 ''m3'')"
  by (auto simp: codec_ok_def demo_meta_lib_def key_ok_def meta_key_at_def split: if_splits)

lemma demo_meta_valid: "validate_storage_key demo_meta_lib (demo_meta f) ''coder/s1'' = Inr ()"
proof -
  have "str_trim ''coder'' \<noteq> []" by code_simp
  then show ?thesis
    by (simp add: validate_storage_key_def meta_validate_def source_validate_def validate_extensions_def tool_context_def
        storage_key_def source_name_def session_key_def demo_agents_def demo_meta_lib_def demo_meta_def
        SESSION_METADATA_SCHEMA_VERSION_def EXTENSIONS_TOTAL_MAX_BYTES_def TEMP_AGENT_NAME_def)
qed

lemma demo_patched:
  "patched demo_meta_lib (guard_for_worker 5) (always Inr) ''coder/s1'' (demo_meta 3) = Inr (True, demo_meta 5)"
proof -
  have "apply_fence (guard_for_worker 5) (demo_meta 3) = demo_meta 5"
    by (simp add: apply_fence_def guard_for_worker_def demo_meta_def)
  then show ?thesis by (simp add: patched_def demo_meta_valid)
qed

lemmas patch_loop_first = patch_loop.simps(2) [of 7, simplified]

lemmas demo_patch_simps =
  patch_with_fence_def patch_guarded_def patch_guarded_if_changed_def CAS_RETRY_LIMIT_def patch_loop_first
  record_for_patch_def metadata_get_def leader_entry_def prompt_patch_def

lemma demo_meta_key: "storage_key demo_meta_lib (demo_meta f) = ''coder/s1''"
  by (simp add: storage_key_def source_name_def session_key_def demo_agents_def demo_meta_lib_def demo_meta_def)

lemma demo_meta_codec:
  "kc_from_slice (ml_codec demo_meta_lib) ''m3'' = Some (demo_meta 3)"
  "kc_from_slice (ml_codec demo_meta_lib) ''m5'' = Some (demo_meta 5)"
  "kc_to_vec (ml_codec demo_meta_lib) (demo_meta 5) = Some ''m5''"
  by (simp_all add: demo_meta_lib_def demo_meta_def)

lemma demo_guard:
  "guard_validate (guard_for_worker 5) (demo_meta 3) = Inr ()"
  "guard_validate (guard_for_worker 2) (demo_meta 3) = Inl (Refused ''stale session metadata writer fence'')"
  by (simp_all add: guard_validate_def guard_for_worker_def PatchGuard_default_def demo_meta_def)

lemma demo_meta_broker:
  "nats_leader_entry key_nats k (meta_key_at r x) =
     (meta_key_at r x, Inr (Some \<lparr>entry_operation = OpPut, entry_revision = r, entry_value = x\<rparr>))"
  "nats_update key_nats k ''m5'' 1 (meta_key_at 1 ''m3'') = (meta_key_at 2 ''m5'', Inr 2)"
  by (simp_all add: key_nats_def meta_key_at_def put_value_def numeral_2_eq_2)

lemma demo_fenced_patch:
  "\<exists>tr. run key_nats (patch_with_fence demo_meta_lib (\<lambda>_. False) prompt_patch ''coder/s1'' 5 Inr) [\<lambda>w. w, \<lambda>w. w] (meta_key_at 1 ''m3'') =
     (meta_key_at 2 ''m5'', tr, Some (Inr \<lparr>mr_metadata = demo_meta 5, mr_revision = 2\<rparr>))"
  by (simp add: demo_patch_simps demo_meta_broker [simplified] demo_meta_codec demo_meta_valid demo_guard demo_patched [simplified]
      update_metadata_def demo_meta_key)

theorem metadata_fence_enforced_witness:
  "kv_live (meta_key_at 2 ''m5'') = Some (2, ''m5'') \<and>
   decoded_meta demo_meta_lib (kv_stored (meta_key_at 2 ''m5'') 2) = Some (demo_meta 5)"
proof -
  obtain tr where run: "run key_nats (patch_with_fence demo_meta_lib (\<lambda>_. False) prompt_patch ''coder/s1'' 5 Inr) [\<lambda>w. w, \<lambda>w. w]
      (meta_key_at 1 ''m3'') = (meta_key_at 2 ''m5'', tr, Some (Inr \<lparr>mr_metadata = demo_meta 5, mr_revision = 2\<rparr>))"
    using demo_fenced_patch by blast
  have env: "within (\<lambda>w w'. cell_later (meta_writes demo_meta_lib) w w') [\<lambda>w. w, \<lambda>w. w]" by simp
  from metadata_fence_enforced [where view = "\<lambda>w. w", OF key_nats_laws demo_meta_ok(2,1) env run] show ?thesis
    by (simp add: meta_key_at_def)
qed


end
