(* ===== verification/Spec2Isabelle.thy ===== *)
theory Spec2Isabelle
  imports Reconstruct Loop_Replay Access_Rules Timing_Notice Stream_Guard Approval_Decision Session_Store
    Transcript_View Web_Assets Session_Pagination Cid_Url Session_Lease Fenced_Append
    Metadata_Store
begin

text \<open>
  \<^bold>\<open>Harnx: a verification library of its session core.\<close>

  Harnx runs language-model agents. A session is an append-only log of entries kept in a NATS
  JetStream stream; a worker takes a session over, reconstructs where its turn stood from the
  log alone, lets the model answer, runs the tools it asks for and appends what happened.
  Around this core stand guards (against repeated tool calls and repeated output), limits (a
  wall-clock deadline per run, with notices to the model), access rules, and the servers that
  stream a session's events to clients. The library models that decision logic, most of which is
  written as pure functions over log rows and in-memory state, and the protocols that keep
  workers apart, the session lease, the fenced append and the fenced record, as programs whose requests to the
  broker interleave with everyone else's.

  \<^bold>\<open>Parts and theories\<close> (paths are relative to \<open>src/crates\<close>)

  \<^item> \<open>Harnx_Prelude\<close>: the Rust standard-library operations the code uses, and the generic
    interfaces as locales: \<open>log_replay\<close> (an invariant of a fold over a log), \<open>log_account\<close>
    (a relation between a log's prefix and the fold's state), \<open>log_cut\<close> (what follows the last
    boundary), \<open>simulation\<close> and \<open>timed_invariant\<close> (clocked operation sequences).
  \<^item> \<open>Json_Value\<close>: \<open>serde_json\<close> values and \<open>harnx-core/src/loop_guard/digest.rs\<close>, the
    order-insensitive fingerprint.
  \<^item> \<open>Session_Types\<close>: messages, tool calls and results, token usage and the session log entry
    (\<open>harnx-core/src/message.rs\<close>, \<open>tool.rs\<close>, \<open>api_types.rs\<close>, \<open>session.rs\<close>).
  \<^item> \<open>Timing_Identity\<close>: which user rows are runtime-authored context
    (\<open>timing_identity.rs\<close>, \<open>runtime_note.rs\<close>).
  \<^item> \<open>Log_Mutations\<close>: rewinds and edits of the append-only log and the active context window
    (\<open>session_reconstruct.rs\<close>); \<open>Turn_Status\<close>: the predicates of
    \<open>session_reconstruct/turn_status.rs\<close> on interrupted and pending prompts; \<open>Reconstruct\<close>: the
    replay accumulator and the reconstructed worker state.
  \<^item> \<open>Session_Replay\<close>: the model-facing messages rebuilt from a log
    (\<open>harnx-runtime/src/config/session/replay.rs\<close>); \<open>Compaction_Plan\<close>: what a compaction keeps
    verbatim (\<open>config/compaction.rs\<close>); \<open>Session_Store\<close>: the operations that change a session in
    memory and append the rows it is rebuilt from (\<open>config/session.rs\<close>,
    \<open>session/input_append.rs\<close>, \<open>session_tool_results.rs\<close>, \<open>session_persistence.rs\<close>).
  \<^item> \<open>Approval_State\<close>: how a worker asks for a human's approval of a tool call, accepts a
    decision and resumes the round (\<open>harnx-runtime/src/nats_worker/agent_loop/mod.rs\<close>,
    \<open>agent_loop/hitl_attention.rs\<close>, \<open>nats_worker/control/hitl.rs\<close>);
    \<open>Turn_Outcome\<close>: when a turn has ended and with what, which prompts it takes in while it
    runs, and admission tickets (\<open>harnx-runtime/src/nats_session.rs\<close>,
    \<open>agent_loop/selected_input.rs\<close>, \<open>nats_session/fixed_admission\<close>);
    \<open>Approval_Decision\<close>: the same approvals seen by a client (\<open>nats_session/hitl.rs\<close>,
    \<open>hitl_decision.rs\<close>). Worker and client share no state but the log.
  \<^item> \<open>Tool_Repeat\<close>: the tool-call loop guard (\<open>loop_guard/mod.rs\<close>, \<open>tool_repeat.rs\<close>);
    \<open>Tool_Loop_Guard\<close>: how a turn screens a tool round with it
    (\<open>harnx-runtime/src/tool_loop_guard.rs\<close>); \<open>Output_Repeat\<close>: the repeated-output detector
    (\<open>loop_guard/output_repeat.rs\<close>); \<open>Loop_Replay\<close>: both replayed over a stored session
    (\<open>loop_guard/replay.rs\<close>).
  \<^item> \<open>Access_Rules\<close>: which agents and sessions a caller may use (\<open>access_rules.rs\<close>).
  \<^item> \<open>Run_Limits\<close>: admission records and deadlines
    (\<open>harnx-runtime/src/nats_session_metadata/run_limits.rs\<close>, the policy of \<open>config_data.rs\<close>);
    \<open>Timing_Notice\<close>: the notices a run gets about its time (\<open>harnx-runtime/src/timing_notice.rs\<close>).
  \<^item> \<open>Stream_Guard\<close>: the per-subscriber repair of an event stream
    (\<open>harnx-serve/src/ag_ui_lifecycle.rs\<close>).
  \<^item> \<open>Text_Format\<close>: the text operations of the standard library the next theories share
    (splitting, trimming, number parsing, UTF-8). \<open>Transcript_View\<close>: the pages of a session's
    history that its readers see (\<open>transcript_view.rs\<close>, \<open>compaction_summary.rs\<close>).
  \<^item> \<open>Request_Identity\<close>: who a request comes from (\<open>harnx-serve/src/request_identity.rs\<close>,
    \<open>harnx-runtime/src/identity.rs\<close>, \<open>user_aliases.rs\<close>); \<open>Http_Routes\<close>: dispatch, the guards on agents and sessions, and
    error statuses (\<open>harnx-serve/src/lib.rs\<close>, \<open>agent_access.rs\<close>, \<open>session_access.rs\<close>,
    \<open>agent_resolve.rs\<close>, \<open>session_routes.rs\<close>); \<open>Web_Assets\<close>: static files (\<open>lib.rs\<close>);
    \<open>Session_Pagination\<close>: the session list and its cursors (\<open>session_pagination.rs\<close>);
    \<open>Cid_Url\<close>: content addresses and the blobs served under them (\<open>harnx-core/src/cid_url.rs\<close>,
    \<open>harnx-serve/src/cid.rs\<close>).
  \<^item> \<open>Nats_Io\<close>: asynchronous code as trees of broker requests, their runs under interference, the
    rely-guarantee rules (locale \<open>interference\<close>) and the retries of \<open>harnx-nats-common/src/recovery.rs\<close>;
    \<open>Kv_Key\<close>: the history of one key of a key-value bucket and the laws of the broker's answers.
  \<^item> \<open>Holder_Liveness\<close>: whether the process that holds a lease still runs
    (\<open>harnx-runtime/src/nats_lease/holder_liveness.rs\<close>); \<open>Session_Lease\<close>: the lease that makes one worker the
    writer of a session (\<open>nats_lease.rs\<close>, \<open>nats_lease/scope.rs\<close>). Error texts leave out the values
    the source interpolates.
  \<^item> \<open>Fenced_Append\<close>: conditional appends under a lease (\<open>nats_worker/backend.rs\<close>,
    \<open>nats_session_log.rs\<close>, the resume check of \<open>nats_worker/agent_loop/mod.rs\<close>), with the locale
    \<open>fenced_writer\<close> for what the two conflict rules share.
  \<^item> \<open>Kv_Cell\<close>: conditional updates of one key (\<open>harnx-nats-common/src/cas.rs\<close>) and the locale \<open>growing_cell\<close>
    (what no writer lowers never shrinks); \<open>Read_State\<close>: unread tracking and activity;
    \<open>Metadata_Store\<close>: the record of a session and its guarded patches
    (\<open>harnx-runtime/src/nats_session_metadata\<close>, \<open>nats_worker/backend.rs\<close>).

  \<^bold>\<open>Correspondence.\<close> A struct is a record, an enum a datatype with the source's variants, a
  method a function that takes and returns its record; the definitions stand in the order of the
  source and keep its names, with a prefix where two types share a method name. A
  \<open>Result\<close> is a sum with the error on the left, an \<open>Option\<close> an option, and a panic a separate
  outcome. Strings are UTF-8 byte lists, \<open>u32\<close> and \<open>usize\<close> counters whose wrap-around or
  conversion matters are words or carry the conversion's failure, other counters are naturals.

  \<^bold>\<open>What the lemmas show.\<close> For the log: mutations touch exactly the rows they name and never
  invent a sequence number; a prompt is pending until a terminal row covers it; reconstruction
  resumes a round in flight as it was, owes a wind-up for an interrupted one, hands over every
  queued prompt and none twice. For sessions: memory and log never
  part, over any sequence of answers, tool rounds, compactions and clears; a replay keeps every
  message and round in order; a compaction plan fits its budgets, cuts no round and keeps the
  latest prompt. For approvals: under any interleaving of workers and
  handlers with stale views of the log at most one request is pending, a gated call runs only on
  an approving decision, an accepted decision takes effect, and the client reads the same
  decision from the log. For turns: an outcome once read stays the outcome, and a ticket is
  admitted or closed but never both. For the guards: the pruned state of the tool guard refines the
  full history of executions and refusals, and what its refusals and notes say is what it then
  does; the incremental output detector equals a check of the whole text, over a Z-function
  proved against longest common prefixes, however the stream is chunked; a replay reports
  exactly what the live guards would have done. For limits: no chain of child admissions extends
  a deadline, notices cover each milestone once and are recognised when read back. For access:
  decisions are exactly the ones the rules file grants. For streams: every stream a guard writes
  is accepted by the client's lifecycle verifier, and only orphaned tool events are dropped. For
  transcripts: every archive a marker names opens, the walk back through them ends, and an archive
  never changes. For the server: with access rules no action on an agent or session and no content
  is reached without an identity and a check of that very agent or session, however the path is
  escaped; assets stay inside their directory; following the cursors lists each session
  once. For leases: a running holder is never declared dead or robbed, of two leases the later one
  has the larger tokens, a lease that was lost is found out by the next check, a release settles. For
  appends: an entry is stored at most once however acknowledgements are lost, a turn never
  writes behind a cancel, a wind-up closes its round once, and an append succeeds when the tail
  rests. For stored records: each write replaces exactly the value it was computed from, a worker with an
  older fence cannot change a session's record, and no attention is lost. The last section of this theory puts leases and log together.

  \<^bold>\<open>Bounds.\<close> Every modelled function is total. Loops recurse on the log or
  the text, or by a measure (the Z-function's remaining length). Two client walks take
  fuel, \<open>browse_back\<close> (the length of the log) and \<open>follow_pages\<close> (the number of sessions plus
  one); for both it is proved that this much is enough. The broker loops are bounded as in the
  source, by their attempts and by the clock, whose comparisons are arguments.

  \<^bold>\<open>Parameters.\<close> SHA-256, the text side of \<open>serde_json\<close> and \<open>serde_yaml\<close>, the \<open>globset\<close>
  crate, chrono's arithmetic at the ends of its range and its formatting, floating-point
  rounding, the drain order of a hash set, event serialisation, the \<open>http\<close>, \<open>urlencoding\<close>,
  \<open>base64\<close> and \<open>multer\<close> crates, the kernel and the file system, and the answers of the broker are arguments of the
  definitions that use them. The broker follows its documented laws: revisions grow, a conditional write is
  applied only at the revision it names, a write whose answer was lost was applied by then or
  never is, and message ids are remembered for as long as an append lasts. In the theories of
  approvals, turns and the server the lease and the metadata store are arguments as well. A theorem
  that relies on one states the law it needs as a hypothesis and is applied to a concrete instance.

  \<^bold>\<open>Not modelled.\<close> The worker loops and timers of \<open>harnx-runtime\<close>, stream and bucket creation, the actors of
  \<open>harnx-serve\<close> and what its handlers do behind the guards, the provider wire formats of \<open>harnx-client\<close>, the terminal and
  command-line front ends and the tool servers are asynchronous I/O over third-party crates.
  Left for later work: the repair of orphaned tool rounds, the order of the session picker, and the
  admission of child sessions.
\<close>

section \<open>Leases and the log together\<close>

text \<open>A row carries a lease's stamp when its token is one the lease has had.\<close>

definition stamp_of :: "NatsSessionLease \<Rightarrow> fence \<Rightarrow> bool" where
  "stamp_of l t \<longleftrightarrow> lease_acquisition_revision l \<le> t \<and> t \<le> ls_fence_token (lease_state l)"

text \<open>
  C5: The resume check separates old workers from new ones. When every stamped row of the log carries
  a token of some lease on the session, a worker that checks before it resumes is turned away exactly when
  the log has a row of a lease taken after its own: rows of its own lease and of all earlier
  leases never stop it, and a replacement's first row always does.
\<close>

theorem resume_check_separates_workers:
  assumes "kv_laws n kview key" and "lease_reach n kview codec key u l"
    and "\<forall>v. local_token n v = ls_fence_token (lease_state l)"
    and "run n (abort_resume_if_fenced True) es w = (w', tr, Some res)" and "(LoadReq 0, u, u') \<in> set tr"
    and "nats_load n 0 u = (u', Inr (rows_log (sview u)))"
    and "\<forall>(s, e) \<in> set (rows_log (sview u)). \<forall>t. fence_token e = Some t \<longrightarrow> stamp_of l t \<or>
      (\<exists>l'. lease_reach n kview codec key u l' \<and> lease_acquisition_revision l' \<noteq> lease_acquisition_revision l \<and> stamp_of l' t)"
  shows "(\<exists>m. res = Inl (FencedByNewer m (ls_fence_token (lease_state l)))) \<longleftrightarrow>
    (\<exists>(s, e) \<in> set (rows_log (sview u)). \<exists>t l'. fence_token e = Some t \<and> lease_reach n kview codec key u l' \<and>
       lease_acquisition_revision l < lease_acquisition_revision l' \<and> stamp_of l' t)" (is "?turned \<longleftrightarrow> ?newer")
proof -
  have later: "ls_fence_token (lease_state l) < t"
    if "lease_reach n kview codec key u l'" "lease_acquisition_revision l < lease_acquisition_revision l'" "stamp_of l' t" for l' t
    using lease_tokens_apart [OF assms(1,2) that(1,2)] that(3) by (simp add: stamp_of_def)
  have earlier: "t < ls_fence_token (lease_state l)"
    if "lease_reach n kview codec key u l'" "lease_acquisition_revision l' < lease_acquisition_revision l" "stamp_of l' t" for l' t
    using lease_tokens_apart [OF assms(1) that(1) assms(2) that(2)] that(3) by (simp add: stamp_of_def)
  have "?newer \<longleftrightarrow> \<not> (\<forall>(s, e) \<in> set (rows_log (sview u)). \<forall>t. fence_token e = Some t \<longrightarrow> t \<le> ls_fence_token (lease_state l))"
    (is "_ \<longleftrightarrow> \<not> ?all")
  proof
    assume ?newer
    then obtain s e t where row: "(s, e) \<in> set (rows_log (sview u))" "fence_token e = Some t" "ls_fence_token (lease_state l) < t"
      by (auto dest: later)
    show "\<not> ?all"
    proof
      assume ?all
      with row(1,2) have "t \<le> ls_fence_token (lease_state l)" by blast
      with row(3) show False by simp
    qed
  next
    assume "\<not> ?all"
    then obtain s e t where row: "(s, e) \<in> set (rows_log (sview u))" "fence_token e = Some t" "ls_fence_token (lease_state l) < t"
      by (force simp: not_le)
    then have "\<not> stamp_of l t" by (simp add: stamp_of_def)
    then obtain l' where l': "lease_reach n kview codec key u l'"
        "lease_acquisition_revision l' \<noteq> lease_acquisition_revision l" "stamp_of l' t"
      using assms(7) row by blast
    with earlier [of l' t] row(3) have "lease_acquisition_revision l < lease_acquisition_revision l'" by linarith
    with l' row show ?newer by blast
  qed
  with resume_check_run [where view = sview, OF assms(4,5,6,3)] show ?thesis by (auto split: if_splits)
qed

theorem resume_check_separates_workers_witness:
  "\<exists>w' tr. run (key_log (\<lambda>_ w. (w, Inr [(4, demo_note ''x'' (Some 3))])) (\<lambda>_. 1)) (abort_resume_if_fenced True)
      [\<lambda>w. w, \<lambda>w. w] second_lease = (w', tr, Some (Inl (FencedByNewer 3 1))) \<and>
    (\<exists>l'. lease_reach (key_log (\<lambda>_ w. (w, Inr [(4, demo_note ''x'' (Some 3))])) (\<lambda>_. 1)) (\<lambda>w. w) demo_codec ''k'' second_lease l' \<and>
      1 < lease_acquisition_revision l' \<and> stamp_of l' 3)"
proof -
  let ?n = "key_log (\<lambda>_ w. (w, Inr [(4, demo_note ''x'' (Some 3))])) (\<lambda>_. 1)"
  let ?l = "lease_taken None ''a'' 1 (secs 30) ''k'' 1" and ?l' = "lease_taken None ''b'' 1 (secs 30) ''k'' 3"
  let ?v = "\<lparr>st_rows = [(4, ''m'', demo_note ''x'' (Some 3))], st_known = Map.empty\<rparr>"
  have run: "run ?n (abort_resume_if_fenced True) [\<lambda>w. w, \<lambda>w. w] second_lease =
     (second_lease, [(LoadReq 0, second_lease, second_lease), (LocalReq, second_lease, second_lease)], Some (Inl (FencedByNewer 3 1)))"
    by (simp add: abort_resume_if_fenced_def max_worker_fence_token_def)
  have stamp: "stamp_of ?l' 3" by (simp add: stamp_of_def lease_taken_def)
  have laws: "kv_laws ?n (\<lambda>w. w) ''k''" by (simp add: key_log_laws key_nats_laws)
  have row: "rows_log ?v = [(4, demo_note ''x'' (Some 3))]" by (simp add: rows_log_def)
  have acq: "lease_acquisition_revision ?l = 1" "lease_acquisition_revision ?l' = 3" "ls_fence_token (lease_state ?l) = 1"
    by (simp_all add: lease_taken_def)
  have "(\<exists>m. Inl (FencedByNewer 3 1) = (Inl (FencedByNewer m (ls_fence_token (lease_state ?l))) :: AppendError + unit)) \<longleftrightarrow>
    (\<exists>(s, e) \<in> set (rows_log ?v). \<exists>t l'. fence_token e = Some t \<and> lease_reach ?n (\<lambda>w. w) demo_codec ''k'' second_lease l' \<and>
       lease_acquisition_revision ?l < lease_acquisition_revision l' \<and> stamp_of l' t)"
  proof (rule resume_check_separates_workers [where sview = "\<lambda>_. ?v", OF laws key_log_reach(2) _ run])
    have "\<exists>l'. lease_reach ?n (\<lambda>w. w) demo_codec ''k'' second_lease l' \<and>
        lease_acquisition_revision l' \<noteq> lease_acquisition_revision ?l \<and> stamp_of l' 3"
    proof (intro exI [of _ ?l'] conjI)
      show "lease_reach ?n (\<lambda>w. w) demo_codec ''k'' second_lease ?l'" by (rule key_log_reach(3))
      show "lease_acquisition_revision ?l' \<noteq> lease_acquisition_revision ?l" unfolding acq by simp
    qed (rule stamp)
    then show "\<forall>(s, e) \<in> set (rows_log ?v). \<forall>t. fence_token e = Some t \<longrightarrow> stamp_of ?l t \<or>
        (\<exists>l'. lease_reach ?n (\<lambda>w. w) demo_codec ''k'' second_lease l' \<and>
          lease_acquisition_revision l' \<noteq> lease_acquisition_revision ?l \<and> stamp_of l' t)"
      unfolding row by fastforce
  qed (simp_all only: acq row, simp_all)
  then have "\<exists>l'. lease_reach ?n (\<lambda>w. w) demo_codec ''k'' second_lease l' \<and> 1 < lease_acquisition_revision l' \<and> stamp_of l' 3"
    unfolding acq row by auto
  with run show ?thesis by blast
qed

end
